(* ===== verification/Prelude.thy ===== *)
theory Prelude
  imports Main "HOL-Library.Word"
begin

text \<open>
  The types, generic operations and lemmas every component shares.

  Rust's fixed-width integers are words of that width; \<open>usize\<close> (64 bits on the agent's targets)
  is \<open>nat\<close> with its bound \<open>usize_max\<close> written where the code's result depends on it.
  A byte slice is a \<open>bytes\<close>; a \<open>str\<close> is the string of its UTF-8 bytes.

  The second half states the interface the agent's incremental readers share: a reader is fed a
  stream in reads of any size, and what it has seen must depend on the bytes only, never on where
  the reads were cut.
\<close>

section \<open>Types\<close>

type_synonym u8 = "8 word"
type_synonym u16 = "16 word"
type_synonym u32 = "32 word"
type_synonym u64 = "64 word"
type_synonym bytes = "u8 list"
type_synonym str = string

definition usize_max :: nat where
  "usize_max = 2 ^ 64 - 1"

definition as_bytes :: "str \<Rightarrow> bytes" where
  "as_bytes s = map of_char s"

named_theorems list_cut \<open>cutting a list at an index and joining the parts again\<close>

section \<open>Iterator::position\<close>

primrec position :: "('a \<Rightarrow> bool) \<Rightarrow> 'a list \<Rightarrow> nat option" where
  "position P [] = None"
| "position P (x # xs) = (if P x then Some 0 else map_option Suc (position P xs))"

lemma position_None_iff: "position P xs = None \<longleftrightarrow> (\<forall>x \<in> set xs. \<not> P x)"
  by (induction xs) auto

lemma position_SomeD:
  "position P xs = Some i \<Longrightarrow> i < length xs \<and> P (xs ! i) \<and> (\<forall>j < i. \<not> P (xs ! j))"
proof (induction xs arbitrary: i)
  case Nil
  then show ?case by simp
next
  case (Cons x xs)
  then show ?case
    by (auto split: if_splits simp: nth_Cons split: nat.splits)
qed

lemma position_Some_length: "position P xs = Some i \<Longrightarrow> i < length xs"
  by (simp add: position_SomeD)

lemma position_append:
  "position P (xs @ ys) =
     (case position P xs of
        Some i \<Rightarrow> Some i
      | None \<Rightarrow> map_option (\<lambda>i. length xs + i) (position P ys))"
proof (induction xs)
  case Nil
  then show ?case by (cases "position P ys") auto
next
  case (Cons x xs)
  then show ?case by (cases "position P ys") (auto split: option.splits)
qed

lemma position_append_Some: "position P xs = Some i \<Longrightarrow> position P (xs @ ys) = Some i"
  by (simp add: position_append)

section \<open>Cutting lists\<close>

lemma take_drop_step [list_cut]: "take n xs @ take m (drop n xs) = take (n + m) xs"
  by (simp add: take_add)

lemma drop_append_le [list_cut]: "n \<le> length xs \<Longrightarrow> drop n (xs @ ys) = drop n xs @ ys"
  by simp

lemma take_append_le [list_cut]: "n \<le> length xs \<Longrightarrow> take n (xs @ ys) = take n xs"
  by simp

lemma drop_nth_append: "n \<le> length xs \<Longrightarrow> drop n (xs @ ys) ! i = (drop n xs @ ys) ! i"
  by simp

section \<open>Incremental readers\<close>

text \<open>
  A reader's \<open>feed\<close> takes its state and one read and returns the next state and what it emitted.
  \<open>feeds\<close> is a whole sequence of reads.
\<close>

primrec feeds :: "('s \<Rightarrow> 'b list \<Rightarrow> 's \<times> 'e list) \<Rightarrow> 's \<Rightarrow> 'b list list \<Rightarrow> 's \<times> 'e list" where
  "feeds feed s [] = (s, [])"
| "feeds feed s (x # xs) =
     (let (s1, e1) = feed s x; (s2, e2) = feeds feed s1 xs in (s2, e1 @ e2))"

text \<open>
  The contract: over the states \<open>inv\<close> describes, feeding a concatenation is feeding its parts,
  up to a view of the final state and the observation \<open>obs\<close> of the emitted events.
\<close>

locale incremental =
  fixes feed :: "'s \<Rightarrow> 'b list \<Rightarrow> 's \<times> 'e list"
    and inv :: "'s \<Rightarrow> bool"
    and view :: "'s \<Rightarrow> 'v"
    and obs :: "'e list \<Rightarrow> 'o list"
  assumes inv_feed: "inv s \<Longrightarrow> inv (fst (feed s a))"
    and feed_Nil: "inv s \<Longrightarrow> feed s [] = (s, [])"
    and obs_append: "obs (xs @ ys) = obs xs @ obs ys"
    and feed_append_view:
      "inv s \<Longrightarrow> view (fst (feed s (a @ b))) = view (fst (feed (fst (feed s a)) b))"
    and feed_append_obs:
      "inv s \<Longrightarrow> obs (snd (feed s (a @ b))) =
         obs (snd (feed s a)) @ obs (snd (feed (fst (feed s a)) b))"
begin

lemma obs_Nil: "obs [] = []"
  using obs_append [of "[]" "[]"] by simp

lemma feeds_concat:
  "inv s \<Longrightarrow> view (fst (feeds feed s reads)) = view (fst (feed s (concat reads))) \<and>
     obs (snd (feeds feed s reads)) = obs (snd (feed s (concat reads)))"
proof (induction reads arbitrary: s)
  case Nil
  then show ?case by (simp add: feed_Nil)
next
  case (Cons r rs)
  have "inv (fst (feed s r))" using Cons.prems by (rule inv_feed)
  from Cons.IH [OF this] Cons.prems show ?case
    by (simp add: case_prod_beta Let_def obs_append feed_append_view feed_append_obs)
qed

text \<open>Two ways of cutting the same stream leave the same view and the same observations.\<close>

lemma cuts_agree:
  assumes "inv s" and "concat reads = concat reads'"
  shows "view (fst (feeds feed s reads)) = view (fst (feeds feed s reads'))"
    and "obs (snd (feeds feed s reads)) = obs (snd (feeds feed s reads'))"
  using assms feeds_concat [of s reads] feeds_concat [of s reads'] by simp_all

lemma inv_feeds: "inv s \<Longrightarrow> inv (fst (feeds feed s reads))"
  by (induction reads arbitrary: s) (simp_all add: case_prod_beta Let_def inv_feed)

end

end
