(* ===== verification/Rust_Text.thy ===== *)
theory Rust_Text
  imports Prelude
begin

text \<open>
  What the code uses of Rust's standard text library: UTF-8 validation and lossy decoding
  (\<open>str::from_utf8\<close>, \<open>String::from_utf8_lossy\<close>), trimming, integer parsing and
  substring search. A \<open>str\<close> is the string of its UTF-8 bytes, so its length counts bytes, as
  Rust's does.
\<close>

section \<open>UTF-8\<close>

text \<open>
  What a first byte announces: how many continuation bytes follow, and the range of the first of
  them (the later ones are any \<open>80..BF\<close>). \<open>None\<close>: no sequence starts with this byte.
\<close>

definition utf8_lead :: "u8 \<Rightarrow> (nat \<times> u8 \<times> u8) option" where
  "utf8_lead b =
     (if b < 0x80 then Some (0, 0x80, 0xBF)
      else if 0xC2 \<le> b \<and> b \<le> 0xDF then Some (1, 0x80, 0xBF)
      else if b = 0xE0 then Some (2, 0xA0, 0xBF)
      else if b = 0xED then Some (2, 0x80, 0x9F)
      else if 0xE1 \<le> b \<and> b \<le> 0xEF then Some (2, 0x80, 0xBF)
      else if b = 0xF0 then Some (3, 0x90, 0xBF)
      else if 0xF1 \<le> b \<and> b \<le> 0xF3 then Some (3, 0x80, 0xBF)
      else if b = 0xF4 then Some (3, 0x80, 0x8F)
      else None)"

text \<open>Continuation bytes read from the start of a list: how many of the due ones are there.\<close>

fun utf8_conts :: "nat \<Rightarrow> u8 \<Rightarrow> u8 \<Rightarrow> bytes \<Rightarrow> nat" where
  "utf8_conts (Suc n) lo hi (b # bs) =
     (if lo \<le> b \<and> b \<le> hi then Suc (utf8_conts n 0x80 0xBF bs) else 0)"
| "utf8_conts _ _ _ _ = 0"

text \<open>
  The sequence at the start of a non-empty list: whether it is whole, and the bytes it takes (for a
  broken one, the maximal part that began a sequence, at least one byte).
\<close>

definition utf8_seq :: "u8 \<Rightarrow> bytes \<Rightarrow> bool \<times> nat" where
  "utf8_seq b bs =
     (case utf8_lead b of
        None \<Rightarrow> (False, 1)
      | Some (n, lo, hi) \<Rightarrow> (let k = utf8_conts n lo hi bs in (k = n, Suc k)))"

lemma utf8_seq_pos: "utf8_seq b bs = (ok, n) \<Longrightarrow> 0 < n"
  by (auto simp: utf8_seq_def Let_def split: option.splits)

lemma utf8_seq_pos' [simp]: "0 < snd (utf8_seq b bs)"
  using utf8_seq_pos by (metis prod.collapse)

function utf8_valid :: "bytes \<Rightarrow> bool" where
  "utf8_valid [] = True"
| "utf8_valid (b # bs) =
     (fst (utf8_seq b bs) \<and> utf8_valid (drop (snd (utf8_seq b bs)) (b # bs)))"
  by pat_completeness auto
termination
  by (relation "measure length") (simp_all add: Suc_le_eq)

function utf8_lossy :: "bytes \<Rightarrow> bytes" where
  "utf8_lossy [] = []"
| "utf8_lossy (b # bs) =
     (let (ok, n) = utf8_seq b bs
      in (if ok then take n (b # bs) else [0xEF, 0xBF, 0xBD])
         @ utf8_lossy (drop (snd (utf8_seq b bs)) (b # bs)))"
  by pat_completeness auto
termination
  by (relation "measure length") (simp_all add: Suc_le_eq)

declare utf8_valid.simps(2) [simp del] utf8_lossy.simps(2) [simp del]

definition str_of :: "bytes \<Rightarrow> str" where
  "str_of bs = map (\<lambda>b. char_of (unat b)) bs"

text \<open>\<open>std::str::from_utf8\<close> and \<open>String::from_utf8_lossy\<close>.\<close>

definition from_utf8 :: "bytes \<Rightarrow> str option" where
  "from_utf8 bs = (if utf8_valid bs then Some (str_of bs) else None)"

definition from_utf8_lossy :: "bytes \<Rightarrow> str" where
  "from_utf8_lossy bs = str_of (utf8_lossy bs)"

section \<open>Trimming\<close>

text \<open>The UTF-8 encodings of the characters with the White_Space property.\<close>

definition white_space :: "str list" where
  "white_space =
     map (\<lambda>b. str_of [b]) [0x09, 0x0A, 0x0B, 0x0C, 0x0D, 0x20]
     @ map str_of [[0xC2, 0x85], [0xC2, 0xA0], [0xE1, 0x9A, 0x80]]
     @ map (\<lambda>b. str_of [0xE2, 0x80, b])
         [0x80, 0x81, 0x82, 0x83, 0x84, 0x85, 0x86, 0x87, 0x88, 0x89, 0x8A, 0xA8, 0xA9, 0xAF]
     @ map str_of [[0xE2, 0x81, 0x9F], [0xE3, 0x80, 0x80]]"

definition starts_with :: "'a list \<Rightarrow> 'a list \<Rightarrow> bool" where
  "starts_with s p \<longleftrightarrow> take (length p) s = p"

definition ends_with :: "'a list \<Rightarrow> 'a list \<Rightarrow> bool" where
  "ends_with s p \<longleftrightarrow> length p \<le> length s \<and> drop (length s - length p) s = p"

lemma white_space_nonempty: "w \<in> set white_space \<Longrightarrow> w \<noteq> []"
  by (auto simp: white_space_def str_of_def)

lemma starts_with_length: "starts_with s p \<Longrightarrow> length p \<le> length s"
  by (auto simp: starts_with_def dest: arg_cong [where f = length])

function trim_start :: "str \<Rightarrow> str" where
  "trim_start s =
     (case find (starts_with s) white_space of
        None \<Rightarrow> s
      | Some w \<Rightarrow> trim_start (drop (length w) s))"
  by pat_completeness auto
termination
proof (relation "measure length", simp)
  fix s w
  assume "find (starts_with s) white_space = Some w"
  then have "starts_with s w" and "w \<in> set white_space"
    by (auto simp: find_Some_iff)
  then have "0 < length w" and "length w \<le> length s"
    by (simp_all add: white_space_nonempty starts_with_length)
  then show "(drop (length w) s, s) \<in> measure length"
    by (simp add: diff_less del: length_greater_0_conv)
qed

function trim_end :: "str \<Rightarrow> str" where
  "trim_end s =
     (case find (ends_with s) white_space of
        None \<Rightarrow> s
      | Some w \<Rightarrow> trim_end (take (length s - length w) s))"
  by pat_completeness auto
termination
proof (relation "measure length", simp)
  fix s w
  assume "find (ends_with s) white_space = Some w"
  then have "ends_with s w" and "w \<in> set white_space"
    by (auto simp: find_Some_iff)
  then have "0 < length w" and "length w \<le> length s"
    by (simp_all add: white_space_nonempty ends_with_def)
  then show "(take (length s - length w) s, s) \<in> measure length"
    by (simp add: diff_less del: length_greater_0_conv)
qed

declare trim_start.simps [simp del] trim_end.simps [simp del]

definition trim :: "str \<Rightarrow> str" where
  "trim s = trim_end (trim_start s)"

section \<open>Integers from text\<close>

definition hex_digit :: "char \<Rightarrow> nat option" where
  "hex_digit c =
     (let n = of_char c :: nat in
      if 48 \<le> n \<and> n \<le> 57 then Some (n - 48)
      else if 65 \<le> n \<and> n \<le> 70 then Some (n - 55)
      else if 97 \<le> n \<and> n \<le> 102 then Some (n - 87)
      else None)"

primrec hex_value :: "nat \<Rightarrow> str \<Rightarrow> nat option" where
  "hex_value acc [] = Some acc"
| "hex_value acc (c # cs) =
     (case hex_digit c of None \<Rightarrow> None | Some d \<Rightarrow> hex_value (16 * acc + d) cs)"

text \<open>
  \<open>usize::from_str_radix(s, 16)\<close>: one leading \<open>+\<close> is allowed, an empty digit string and a
  value past 64 bits are errors.
\<close>

definition usize_from_hex :: "str \<Rightarrow> nat option" where
  "usize_from_hex s =
     (let digits = (case s of c # cs \<Rightarrow> if c = CHR ''+'' then cs else s | [] \<Rightarrow> [])
      in if digits = [] then None
         else case hex_value 0 digits of
                None \<Rightarrow> None
              | Some v \<Rightarrow> if v \<le> usize_max then Some v else None)"

section \<open>Substrings\<close>

primrec find_sub :: "'a list \<Rightarrow> 'a list \<Rightarrow> nat option" where
  "find_sub p [] = (if p = [] then Some 0 else None)"
| "find_sub p (x # xs) =
     (if starts_with (x # xs) p then Some 0 else map_option Suc (find_sub p xs))"

definition contains :: "'a list \<Rightarrow> 'a list \<Rightarrow> bool" where
  "contains s p \<longleftrightarrow> find_sub p s \<noteq> None"

definition strip_suffix :: "'a list \<Rightarrow> 'a list \<Rightarrow> 'a list option" where
  "strip_suffix s p = (if ends_with s p then Some (take (length s - length p) s) else None)"

text \<open>\<open>str::split_once\<close> and \<open>str::rsplit_once\<close> at one character.\<close>

primrec split_once :: "'a \<Rightarrow> 'a list \<Rightarrow> ('a list \<times> 'a list) option" where
  "split_once c [] = None"
| "split_once c (x # xs) =
     (if x = c then Some ([], xs)
      else map_option (\<lambda>(a, b). (x # a, b)) (split_once c xs))"

lemma contains_iff: "contains s p \<longleftrightarrow> (\<exists>a b. s = a @ p @ b)"
proof (induction s)
  case Nil
  then show ?case by (auto simp: contains_def)
next
  case (Cons x xs)
  have "contains (x # xs) p \<longleftrightarrow> starts_with (x # xs) p \<or> contains xs p"
    by (auto simp: contains_def)
  also have "\<dots> \<longleftrightarrow> (\<exists>b. x # xs = p @ b) \<or> (\<exists>a b. xs = a @ p @ b)"
    by (metis Cons.IH append_eq_conv_conj append_take_drop_id starts_with_def)
  also have "\<dots> \<longleftrightarrow> (\<exists>a b. x # xs = a @ p @ b)"
    by (metis append_Cons append_Nil append_eq_Cons_conv)
  finally show ?case .
qed

lemma starts_with_iff: "starts_with s p \<longleftrightarrow> (\<exists>t. s = p @ t)"
  by (metis append_eq_conv_conj append_take_drop_id starts_with_def)

lemma ends_with_iff: "ends_with s p \<longleftrightarrow> (\<exists>t. s = t @ p)"
proof
  assume "ends_with s p"
  then show "\<exists>t. s = t @ p"
    unfolding ends_with_def by (metis append_take_drop_id)
qed (auto simp: ends_with_def)

lemma split_once_Some_iff: "split_once c s = Some (a, b) \<longleftrightarrow> s = a @ c # b \<and> c \<notin> set a"
proof (induction s arbitrary: a)
  case Nil
  then show ?case by simp
next
  case (Cons x xs)
  show ?case
  proof (cases "x = c")
    case True
    then show ?thesis by (cases a) auto
  next
    case False
    then show ?thesis by (cases a) (auto simp: Cons.IH)
  qed
qed

lemma split_once_None_iff: "split_once c s = None \<longleftrightarrow> c \<notin> set s"
  by (induction s) auto

end
