(* ===== verification/Chunked.thy ===== *)
theory Chunked
  imports Rust_Text
begin

text \<open>
  HTTP/1.1 chunked transfer coding (honeybeepf-llm-core/src/chunked.rs): the rules of a walk, its
  state, and the walk itself, which a caller resumes with the bytes it has not used.

  The walk's closure argument \<open>data\<close> is the list of slices passed to it, in order.
\<close>

section \<open>Rules and state\<close>

record chunk_rules =
  extensions :: bool
  utf8_line :: bool
  data_crlf :: bool
  max_size :: nat
  bare_lf_breaks :: bool
  max_line :: nat

definition BASIC :: chunk_rules where
  "BASIC = \<lparr>extensions = False, utf8_line = False, data_crlf = False, max_size = usize_max,
            bare_lf_breaks = False, max_line = usize_max\<rparr>"

datatype chunk_state =
    Size
  | Data nat
  | Skip nat
  | DataEnd
  | Trailer
  | Ended
  | Broken

datatype line_end = Cut | Bad | EndsAt nat

section \<open>Lines\<close>

text \<open>The loop of \<open>ChunkWalk::line\<close>, at its variable \<open>from\<close>.\<close>

function line_from :: "chunk_rules \<Rightarrow> bytes \<Rightarrow> nat \<Rightarrow> line_end" where
  "line_from rules rest from =
     (case position (\<lambda>b. b = 10) (drop from rest) of
        None \<Rightarrow> if length rest > max_line rules then Bad else Cut
      | Some i \<Rightarrow>
          if from + i > 0 \<and> rest ! (from + i - 1) = 13 then
            (if from + i > max_line rules then Bad else EndsAt (from + i))
          else if bare_lf_breaks rules then Bad
          else line_from rules rest (from + (i + 1)))"
  by pat_completeness auto
termination
  by (relation "measure (\<lambda>(rules, rest, from). length rest - from)")
     (auto dest: position_Some_length)

declare line_from.simps [simp del]

definition line :: "chunk_rules \<Rightarrow> bytes \<Rightarrow> line_end" where
  "line rules rest = line_from rules rest 0"

text \<open>\<open>ChunkWalk::after_line\<close>: \<open>text\<close> is a whole line without its CRLF.\<close>

definition chunk_size :: "chunk_rules \<Rightarrow> bytes \<Rightarrow> nat option" where
  "chunk_size rules text =
     (let size = (if extensions rules then takeWhile (\<lambda>b. b \<noteq> 0x3B) text else text)
      in Option.bind (from_utf8 size) (\<lambda>s. usize_from_hex (trim s)))"

definition after_line :: "chunk_rules \<Rightarrow> chunk_state \<Rightarrow> bytes \<Rightarrow> chunk_state" where
  "after_line rules st text =
     (case st of
        DataEnd \<Rightarrow> if text = [] then Size else Broken
      | Trailer \<Rightarrow> if text = [] then Ended else Trailer
      | Size \<Rightarrow>
          if utf8_line rules \<and> from_utf8 text = None then Broken
          else (case chunk_size rules text of
                  Some n \<Rightarrow> if n = 0 then Trailer
                            else if n \<le> max_size rules then Data n else Broken
                | None \<Rightarrow> Broken)
      | _ \<Rightarrow> Broken)"

section \<open>The walk\<close>

lemma line_from_EndsAt:
  "line_from rules rest from = EndsAt lf \<Longrightarrow>
     from \<le> lf \<and> lf < length rest \<and> 0 < lf \<and> rest ! lf = 10 \<and> rest ! (lf - 1) = 13 \<and>
     lf \<le> max_line rules"
proof (induction rules rest "from" rule: line_from.induct)
  case (1 rules rest "from")
  show ?case
  proof (cases "position (\<lambda>b. b = 10) (drop from rest)")
    case None
    then show ?thesis using "1.prems" by (simp add: line_from.simps split: if_splits)
  next
    case (Some i)
    then have "from + i < length rest" "rest ! (from + i) = 10"
      using position_SomeD [OF Some] by auto
    then show ?thesis
      using "1.IH" [OF Some] "1.prems" Some
      by (subst (asm) line_from.simps) (auto split: if_splits)
  qed
qed

lemma line_EndsAtD:
  "line rules rest = EndsAt lf \<Longrightarrow>
     lf < length rest \<and> 0 < lf \<and> rest ! lf = 10 \<and> rest ! (lf - 1) = 13 \<and> lf \<le> max_line rules"
  unfolding line_def by (blast dest: line_from_EndsAt)

fun walk_rank :: "chunk_state \<Rightarrow> nat" where
  "walk_rank (Data _) = 3"
| "walk_rank (Skip _) = 2"
| "walk_rank Ended = 0"
| "walk_rank Broken = 0"
| "walk_rank _ = 1"

function walk :: "chunk_rules \<Rightarrow> chunk_state \<Rightarrow> bytes \<Rightarrow> chunk_state \<times> nat \<times> bytes list" where
  "walk rules st rest =
     (case st of
        Ended \<Rightarrow> (st, 0, [])
      | Broken \<Rightarrow> (st, 0, [])
      | Data left \<Rightarrow>
          if rest = [] then (st, 0, [])
          else let n = min left (length rest);
                   st1 = (if n < left then Data (left - n)
                          else if data_crlf rules then DataEnd else Skip 2);
                   (st2, used, ds) = walk rules st1 (drop n rest)
               in (st2, n + used, take n rest # ds)
      | Skip left \<Rightarrow>
          if rest = [] then (st, 0, [])
          else let n = min left (length rest);
                   st1 = (if n < left then Skip (left - n) else Size);
                   (st2, used, ds) = walk rules st1 (drop n rest)
               in (st2, n + used, ds)
      | _ \<Rightarrow>
          (case line rules rest of
             Cut \<Rightarrow> (st, 0, [])
           | Bad \<Rightarrow> walk rules Broken rest
           | EndsAt lf \<Rightarrow>
               let (st2, used, ds) = walk rules (after_line rules st (take (lf - 1) rest))
                                          (drop (lf + 1) rest)
               in (st2, lf + 1 + used, ds)))"
  by pat_completeness auto
termination
  by (relation "measures [\<lambda>(rules, st, rest). length rest, \<lambda>(rules, st, rest). walk_rank st]")
     (auto dest: line_EndsAtD split: if_splits)

declare walk.simps [simp del]


text \<open>The struct and its methods: \<open>ChunkWalk::new\<close> and \<open>ChunkWalk::walk\<close>.\<close>

record chunk_walk =
  rules :: chunk_rules
  state :: chunk_state

definition chunk_walk_new :: "chunk_rules \<Rightarrow> chunk_walk" where
  "chunk_walk_new r = \<lparr>rules = r, state = Size\<rparr>"

definition chunk_walk_walk :: "chunk_walk \<Rightarrow> bytes \<Rightarrow> chunk_walk \<times> nat \<times> bytes list" where
  "chunk_walk_walk w input =
     (let (st, used, ds) = walk (rules w) (state w) input in (w\<lparr>state := st\<rparr>, used, ds))"

section \<open>Unfolding one step\<close>

lemma walk_done [simp]:
  "walk r Ended rest = (Ended, 0, [])" "walk r Broken rest = (Broken, 0, [])"
  by (simp_all add: walk.simps)

lemma walk_payload_Nil [simp]:
  "walk r (Data n) [] = (Data n, 0, [])" "walk r (Skip n) [] = (Skip n, 0, [])"
  by (simp_all add: walk.simps)

definition line_state :: "chunk_state \<Rightarrow> bool" where
  "line_state st \<longleftrightarrow> st = Size \<or> st = DataEnd \<or> st = Trailer"

lemma walk_line:
  "line_state st \<Longrightarrow> walk r st rest =
     (case line r rest of
        Cut \<Rightarrow> (st, 0, [])
      | Bad \<Rightarrow> (Broken, 0, [])
      | EndsAt lf \<Rightarrow>
          let (st2, used, ds) = walk r (after_line r st (take (lf - 1) rest)) (drop (lf + 1) rest)
          in (st2, lf + 1 + used, ds))"
  by (subst walk.simps) (auto simp: line_state_def split: line_end.splits)

definition after_data :: "chunk_rules \<Rightarrow> chunk_state" where
  "after_data r = (if data_crlf r then DataEnd else Skip 2)"

lemma walk_Data_part:
  "rest \<noteq> [] \<Longrightarrow> length rest < left \<Longrightarrow>
     walk r (Data left) rest = (Data (left - length rest), length rest, [rest])"
  by (subst walk.simps) (simp add: Let_def)

lemma walk_Data_whole:
  "rest \<noteq> [] \<Longrightarrow> left \<le> length rest \<Longrightarrow>
     walk r (Data left) rest =
       (let (st, used, ds) = walk r (after_data r) (drop left rest)
        in (st, left + used, take left rest # ds))"
  by (subst walk.simps) (simp add: after_data_def min_absorb1)

lemma walk_Skip_part:
  "length rest < left \<Longrightarrow>
     walk r (Skip left) rest = (Skip (left - length rest), length rest, [])"
  by (cases "rest = []") (simp, subst walk.simps, simp add: Let_def)

lemma walk_Skip_whole:
  "rest \<noteq> [] \<Longrightarrow> left \<le> length rest \<Longrightarrow>
     walk r (Skip left) rest =
       (let (st, used, ds) = walk r Size (drop left rest) in (st, left + used, ds))"
  by (subst walk.simps) (simp add: min_absorb1)

lemma line_Nil [simp]: "line r [] = Cut"
  by (simp add: line_def line_from.simps)

lemma walk_Nil [simp]: "walk r st [] = (st, 0, [])"
  by (cases st) (simp_all add: walk_line line_state_def)

section \<open>More input\<close>

text \<open>A line's end, and a line found bad, do not depend on the bytes after it.\<close>

lemma line_from_past_limit:
  assumes "\<forall>j < length rest. from \<le> j \<and> rest ! j = 10 \<longrightarrow> max_line r < j"
    and "max_line r < length rest"
  shows "line_from r rest from = Bad"
  using assms
proof (induction r rest "from" rule: line_from.induct)
  case (1 r rest "from")
  show ?case
  proof (cases "position (\<lambda>b. b = 10) (drop from rest)")
    case None
    then show ?thesis using "1.prems" by (simp add: line_from.simps)
  next
    case (Some i)
    then have i: "from + i < length rest" "rest ! (from + i) = 10"
      using position_SomeD [OF Some] by auto
    with "1.prems"(1) have "max_line r < from + i" by simp
    then show ?thesis
      using "1.IH" [OF Some] "1.prems" Some by (auto simp: line_from.simps [of r rest "from"])
  qed
qed

lemma position_from_more:
  assumes "from \<le> length a" and "position P (drop from a) = Some i"
  shows "position P (drop from (a @ b)) = Some i" and "from + i < length a"
  using assms position_SomeD [OF assms(2)] by (auto simp: position_append)

lemma line_from_more_EndsAt:
  "from \<le> length a \<Longrightarrow> line_from r a from = EndsAt lf \<Longrightarrow> line_from r (a @ b) from = EndsAt lf"
proof (induction r a "from" rule: line_from.induct)
  case (1 r a "from")
  show ?case
  proof (cases "position (\<lambda>b. b = 10) (drop from a)")
    case None
    with "1.prems" show ?thesis by (simp add: line_from.simps split: if_splits)
  next
    case (Some i)
    note more = position_from_more [OF "1.prems"(1) Some]
    show ?thesis
      using "1.prems" Some more "1.IH" [OF Some]
      by (auto simp: line_from.simps [of r "a @ b" "from"] line_from.simps [of r a "from"]
          nth_append split: if_splits)
  qed
qed

lemma line_from_more_Bad:
  "from \<le> length a \<Longrightarrow> line_from r a from = Bad \<Longrightarrow> line_from r (a @ b) from = Bad"
proof (induction r a "from" rule: line_from.induct)
  case (1 r a "from")
  show ?case
  proof (cases "position (\<lambda>b. b = 10) (drop from a)")
    case None
    with "1.prems" have limit: "max_line r < length a"
      by (simp add: line_from.simps split: if_splits)
    have "length a \<le> j" if "from \<le> j" "(a @ b) ! j = 10" for j
    proof (rule ccontr)
      assume "\<not> length a \<le> j"
      with that "1.prems" have "j - from < length (drop from a)" "drop from a ! (j - from) = 10"
        by (auto simp: nth_append)
      then have "(10 :: u8) \<in> set (drop from a)"
        using nth_mem [of "j - from" "drop from a"] by simp
      then show False using None by (auto simp: position_None_iff)
    qed
    then have "\<forall>j < length (a @ b). from \<le> j \<and> (a @ b) ! j = 10 \<longrightarrow> max_line r < j"
      using limit by (meson less_le_trans)
    then show ?thesis by (rule line_from_past_limit) (use limit in simp)
  next
    case (Some i)
    note more = position_from_more [OF "1.prems"(1) Some]
    show ?thesis
      using "1.prems" Some more "1.IH" [OF Some]
      by (auto simp: line_from.simps [of r "a @ b" "from"] line_from.simps [of r a "from"]
          nth_append split: if_splits)
  qed
qed

lemma line_more:
  "line r a = EndsAt lf \<Longrightarrow> line r (a @ b) = EndsAt lf"
  "line r a = Bad \<Longrightarrow> line r (a @ b) = Bad"
  unfolding line_def by (simp_all add: line_from_more_EndsAt line_from_more_Bad)


section \<open>Induction along a walk\<close>

text \<open>One case per step of the loop, the three line states taken together.\<close>

lemma walk_induct [case_names Ended Broken Empty DataPart DataWhole SkipPart SkipWhole
    LineCut LineBad LineEnd]:
  assumes "\<And>r rest. P r Ended rest"
    and "\<And>r rest. P r Broken rest"
    and "\<And>r st. P r st []"
    and "\<And>r left rest. rest \<noteq> [] \<Longrightarrow> length rest < left \<Longrightarrow> P r (Data left) rest"
    and dw: "\<And>r left rest. rest \<noteq> [] \<Longrightarrow> left \<le> length rest \<Longrightarrow>
          P r (after_data r) (drop left rest) \<Longrightarrow> P r (Data left) rest"
    and "\<And>r left rest. rest \<noteq> [] \<Longrightarrow> length rest < left \<Longrightarrow> P r (Skip left) rest"
    and sw: "\<And>r left rest. rest \<noteq> [] \<Longrightarrow> left \<le> length rest \<Longrightarrow>
          P r Size (drop left rest) \<Longrightarrow> P r (Skip left) rest"
    and cut: "\<And>r st rest. line_state st \<Longrightarrow> line r rest = Cut \<Longrightarrow> P r st rest"
    and bad: "\<And>r st rest. line_state st \<Longrightarrow> line r rest = Bad \<Longrightarrow> P r st rest"
    and lf: "\<And>r st rest lf. line_state st \<Longrightarrow> line r rest = EndsAt lf \<Longrightarrow>
          P r (after_line r st (take (lf - 1) rest)) (drop (lf + 1) rest) \<Longrightarrow> P r st rest"
  shows "P r st rest"
proof (induction r st rest rule: walk.induct)
  case (1 r st rest)
  have line: "P r st rest" if "line_state st"
    "\<And>lf. line r rest = EndsAt lf \<Longrightarrow>
       P r (after_line r st (take (lf - 1) rest)) (drop (lf + 1) rest)"
    using that cut bad lf by (cases "line r rest") blast+
  show ?case
  proof (cases st)
    case Size
    show ?thesis by (rule line) (use "1.IH"(2) Size in \<open>simp_all add: line_state_def\<close>)
  next
    case (Data left)
    then show ?thesis
      using assms(3,4) dw [of rest left r] "1.IH"(3) [OF Data]
      by (cases "rest = []"; cases "length rest < left") (auto simp: after_data_def)
  next
    case (Skip left)
    then show ?thesis
      using assms(3,6) sw [of rest left r] "1.IH"(4) [OF Skip]
      by (cases "rest = []"; cases "length rest < left") auto
  next
    case DataEnd
    show ?thesis by (rule line) (use "1.IH"(6) DataEnd in \<open>simp_all add: line_state_def\<close>)
  next
    case Trailer
    show ?thesis by (rule line) (use "1.IH"(8) Trailer in \<open>simp_all add: line_state_def\<close>)
  qed (use assms(1,2) in simp_all)
qed

section \<open>Resuming a walk\<close>

text \<open>
  Walking two reads one after the other (the second behind the bytes the first left unused) is
  walking them joined: the same state, the same bytes used and the same data.
\<close>

lemma walk_Data_split:
  assumes "length a < left" and "walk r (Data (left - length a)) b = (s, u, d)"
  shows "\<exists>d'. walk r (Data left) (a @ b) = (s, length a + u, d') \<and> concat d' = a @ concat d"
proof (cases "b = []")
  case True
  then show ?thesis using assms walk_Data_part [of a left r] by (cases "a = []") auto
next
  case False
  show ?thesis
  proof (cases "length b < left - length a")
    case True
    with False assms show ?thesis
      by (auto simp: walk_Data_part)
  next
    case no: False
    have "drop left (a @ b) = drop (left - length a) b" "take left (a @ b) = a @ take (left - length a) b"
      using assms(1) by simp_all
    with False no assms show ?thesis
      by (auto simp: walk_Data_whole split: prod.splits)
  qed
qed

lemma walk_Skip_split:
  assumes "length a < left" and "walk r (Skip (left - length a)) b = (s, u, d)"
  shows "walk r (Skip left) (a @ b) = (s, length a + u, d)"
proof (cases "length b < left - length a")
  case True
  with assms show ?thesis by (auto simp: walk_Skip_part)
next
  case no: False
  then have "b \<noteq> []" using assms by auto
  moreover have "drop left (a @ b) = drop (left - length a) b" using assms(1) by simp
  ultimately show ?thesis
    using no assms by (auto simp: walk_Skip_whole split: prod.splits)
qed

lemma walk_more:
  "walk r st a = (st1, u1, d1) \<Longrightarrow>
   walk r st1 (drop u1 a @ b) = (st2, u2, d2) \<Longrightarrow>
   \<exists>d. walk r st (a @ b) = (st2, u1 + u2, d) \<and> concat d = concat d1 @ concat d2"
proof (induction r st a arbitrary: st1 u1 d1 rule: walk_induct)
  case (DataPart r left rest)
  then have "walk r (Data (left - length rest)) b = (st2, u2, d2)" and "u1 = length rest" "d1 = [rest]"
    by (auto simp: walk_Data_part)
  then show ?case using walk_Data_split [OF DataPart.hyps(2)] by auto
next
  case (DataWhole r left rest)
  obtain s u d where rec: "walk r (after_data r) (drop left rest) = (s, u, d)"
    by (metis prod.exhaust)
  with DataWhole.hyps DataWhole.prems(1)
  have eqs: "st1 = s" "u1 = left + u" "d1 = take left rest # d"
    by (auto simp: walk_Data_whole)
  have "walk r s (drop u (drop left rest) @ b) = (st2, u2, d2)"
    using DataWhole.prems(2) eqs by (simp add: add.commute)
  from DataWhole.IH [OF rec this] DataWhole.hyps eqs show ?case
    by (auto simp: walk_Data_whole)
next
  case (SkipPart r left rest)
  then have "walk r (Skip (left - length rest)) b = (st2, u2, d2)" and "u1 = length rest" "d1 = []"
    by (auto simp: walk_Skip_part)
  then show ?case using walk_Skip_split [OF SkipPart.hyps(2)] by auto
next
  case (SkipWhole r left rest)
  obtain s u d where rec: "walk r Size (drop left rest) = (s, u, d)"
    by (metis prod.exhaust)
  with SkipWhole.hyps SkipWhole.prems(1) have eqs: "st1 = s" "u1 = left + u" "d1 = d"
    by (auto simp: walk_Skip_whole)
  have "walk r s (drop u (drop left rest) @ b) = (st2, u2, d2)"
    using SkipWhole.prems(2) eqs by (simp add: add.commute)
  from SkipWhole.IH [OF rec this] SkipWhole.hyps eqs show ?case
    by (auto simp: walk_Skip_whole)
next
  case (LineCut r st rest)
  then show ?case by (auto simp: walk_line)
next
  case (LineBad r st rest)
  then show ?case by (auto simp: walk_line line_more(2))
next
  case (LineEnd r st rest lf)
  have lf: "lf < length rest" using line_EndsAtD [OF LineEnd.hyps(2)] by simp
  obtain s u d where rec:
    "walk r (after_line r st (take (lf - 1) rest)) (drop (lf + 1) rest) = (s, u, d)"
    by (metis prod.exhaust)
  with LineEnd.hyps LineEnd.prems(1) have eqs: "st1 = s" "u1 = lf + 1 + u" "d1 = d"
    by (auto simp: walk_line)
  have "walk r s (drop u (drop (lf + 1) rest) @ b) = (st2, u2, d2)"
    using LineEnd.prems(2) eqs by (simp add: add.commute)
  from LineEnd.IH [OF rec this] LineEnd.hyps eqs lf show ?case
    by (auto simp: walk_line line_more(1))
qed simp_all

text \<open>What a walk leaves unused is a cut line at most: walking it again changes nothing.\<close>

lemma walk_used: "walk r st a = (st1, u1, d1) \<Longrightarrow> u1 \<le> length a"
proof (induction r st a arbitrary: st1 u1 d1 rule: walk_induct)
  case (DataWhole r left rest)
  then show ?case by (fastforce simp: walk_Data_whole split: prod.splits)
next
  case (SkipWhole r left rest)
  then show ?case by (fastforce simp: walk_Skip_whole split: prod.splits)
next
  case (LineEnd r st rest lf)
  then show ?case using line_EndsAtD [OF LineEnd.hyps(2)]
    by (fastforce simp: walk_line split: prod.splits)
qed (auto simp: walk_Data_part walk_Skip_part walk_line)

lemma walk_stuck: "walk r st a = (st1, u1, d1) \<Longrightarrow> walk r st1 (drop u1 a) = (st1, 0, [])"
proof (induction r st a arbitrary: st1 u1 d1 rule: walk_induct)
  case (DataWhole r left rest)
  then show ?case by (auto simp: walk_Data_whole add.commute split: prod.splits)
next
  case (SkipWhole r left rest)
  then show ?case by (auto simp: walk_Skip_whole add.commute split: prod.splits)
next
  case (LineEnd r st rest lf)
  then show ?case by (auto simp: walk_line add.commute split: prod.splits)
qed (auto simp: walk_Data_part walk_Skip_part walk_line)

text \<open>
  What a caller that keeps the unused bytes has after a walk: the state, the data passed on and the
  bytes still held (none once the walk is over). Resumption is an equation between such outcomes.
\<close>

definition walk_over :: "chunk_state \<Rightarrow> bool" where
  "walk_over st \<longleftrightarrow> st = Ended \<or> st = Broken"

definition outcome :: "chunk_rules \<Rightarrow> chunk_state \<Rightarrow> bytes \<Rightarrow> chunk_state \<times> bytes \<times> bytes" where
  "outcome r st x =
     (let (s, u, d) = walk r st x in (s, concat d, if walk_over s then [] else drop u x))"

definition after_out :: "bytes \<Rightarrow> chunk_state \<times> bytes \<times> bytes \<Rightarrow> chunk_state \<times> bytes \<times> bytes" where
  "after_out d = (\<lambda>(s, dd, rem). (s, d @ dd, rem))"

lemma after_out_after_out [simp]: "after_out a (after_out b x) = after_out (a @ b) x"
  by (simp add: after_out_def split: prod.splits)

lemma after_out_Nil [simp]: "after_out [] x = x"
  by (simp add: after_out_def split: prod.splits)

lemma outcome_more:
  assumes "walk r st a = (st1, u1, d1)"
  shows "outcome r st (a @ b) = after_out (concat d1) (outcome r st1 (drop u1 a @ b))"
proof -
  obtain s u d where rest: "walk r st1 (drop u1 a @ b) = (s, u, d)"
    by (metis prod.exhaust)
  from walk_more [OF assms rest] obtain d' where
    "walk r st (a @ b) = (s, u1 + u, d')" "concat d' = concat d1 @ concat d" by blast
  moreover have "drop (u1 + u) (a @ b) = drop u (drop u1 a @ b)"
    using walk_used [OF assms] by (metis add.commute drop_append_le drop_drop)
  ultimately show ?thesis using rest by (simp add: outcome_def after_out_def)
qed

lemma outcome_over: "walk_over st \<Longrightarrow> outcome r st x = (st, [], [])"
  by (auto simp: outcome_def walk_over_def)

section \<open>Chunk encoding\<close>

text \<open>
  A sender's side, as the agreement the walk is checked against: each chunk is its length in hex, a
  CRLF, the data and a CRLF; a zero length and an empty trailer section end the body.
\<close>

definition hex_char :: "nat \<Rightarrow> u8" where
  "hex_char d = (if d < 10 then 48 + of_nat d else 87 + of_nat d)"

fun hex_of :: "nat \<Rightarrow> bytes" where
  "hex_of n = (if n < 16 then [hex_char n] else hex_of (n div 16) @ [hex_char (n mod 16)])"

declare hex_of.simps [simp del]

definition crlf :: bytes where
  "crlf = [13, 10]"

lemma length_crlf [simp]: "length crlf = 2"
  by (simp add: crlf_def)

definition chunk_encode :: "bytes list \<Rightarrow> bytes" where
  "chunk_encode cs =
     concat (map (\<lambda>c. hex_of (length c) @ crlf @ c @ crlf) cs) @ hex_of 0 @ crlf @ crlf"

lemma unat_hex_char: "d < 16 \<Longrightarrow> unat (hex_char d) = (if d < 10 then 48 + d else 87 + d)"
  by (simp add: hex_char_def unat_word_ariths unat_of_nat)

lemma hex_digit_hex_char: "d < 16 \<Longrightarrow> hex_digit (char_of (unat (hex_char d))) = Some d"
  by (auto simp: hex_digit_def unat_hex_char Let_def of_char_of)

lemma hex_value_append:
  "hex_value acc (xs @ ys) =
     (case hex_value acc xs of None \<Rightarrow> None | Some v \<Rightarrow> hex_value v ys)"
  by (induction xs arbitrary: acc) (auto split: option.splits)

lemma hex_value_hex_of: "hex_value 0 (str_of (hex_of n)) = Some n"
proof (induction n rule: hex_of.induct)
  case (1 n)
  show ?case
  proof (cases "n < 16")
    case True
    then show ?thesis by (subst hex_of.simps) (simp add: str_of_def hex_digit_hex_char)
  next
    case False
    with "1.IH" show ?thesis
      by (subst hex_of.simps)
         (simp add: str_of_def hex_value_append hex_digit_hex_char)
  qed
qed

lemma hex_of_bytes: "b \<in> set (hex_of n) \<Longrightarrow> \<exists>d < 16. b = hex_char d"
proof (induction n rule: hex_of.induct)
  case (1 n)
  show ?case
  proof (cases "n < 16 \<or> b = hex_char (n mod 16)")
    case True
    with "1.prems" show ?thesis
      by (auto simp: hex_of.simps [of n] split: if_splits intro: exI [of _ "n mod 16"])
  next
    case False
    with "1.prems" have "b \<in> set (hex_of (n div 16))" by (subst (asm) hex_of.simps) auto
    with "1.IH" False show ?thesis by simp
  qed
qed

lemma hex_of_nonempty: "hex_of n \<noteq> []"
  by (subst hex_of.simps) simp

lemma hex_of_length: "n < 16 ^ k \<Longrightarrow> 0 < k \<Longrightarrow> length (hex_of n) \<le> k"
proof (induction n arbitrary: k rule: hex_of.induct)
  case (1 n)
  show ?case
  proof (cases "n < 16")
    case True
    with "1.prems" show ?thesis by (subst hex_of.simps) simp
  next
    case False
    then obtain j where j: "k = Suc j" "0 < j"
      using "1.prems" by (cases k; cases "k = 1") auto
    with "1.prems" have "n div 16 < 16 ^ j" by (simp add: less_mult_imp_div_less mult.commute)
    with "1.IH" [OF False] j False show ?thesis by (subst hex_of.simps) simp
  qed
qed


lemma utf8_valid_ascii: "\<forall>b \<in> set bs. b < 0x80 \<Longrightarrow> utf8_valid bs"
  by (induction bs) (simp_all add: utf8_valid.simps utf8_seq_def utf8_lead_def)

lemma hex_char_ascii: "d < 16 \<Longrightarrow> hex_char d < 0x80"
  by (simp add: word_less_nat_alt unat_hex_char)

lemma hex_of_valid: "utf8_valid (hex_of n)"
  by (intro utf8_valid_ascii) (auto dest!: hex_of_bytes simp: hex_char_ascii)

text \<open>No white space begins or ends with a hex digit, so trimming leaves a size as it is.\<close>

lemma white_space_no_hex:
  assumes "w \<in> set white_space" and "c \<in> set w"
  shows "hex_digit c = None"
  using assms
  by (auto simp: white_space_def str_of_def hex_digit_def Let_def of_char_of)

lemma hex_of_chars: "c \<in> set (str_of (hex_of n)) \<Longrightarrow> hex_digit c \<noteq> None"
  by (auto simp: str_of_def hex_digit_hex_char dest!: hex_of_bytes)

lemma no_white_space_prefix:
  assumes "\<forall>c \<in> set s. hex_digit c \<noteq> None"
  shows "find (starts_with s) white_space = None" and "find (ends_with s) white_space = None"
proof -
  have "\<not> starts_with s w \<and> \<not> ends_with s w" if w: "w \<in> set white_space" for w
  proof -
    obtain c where "c \<in> set w" using white_space_nonempty [OF w] by (cases w) auto
    with w have "hex_digit c = None" by (intro white_space_no_hex)
    with assms have "c \<notin> set s" by auto
    with \<open>c \<in> set w\<close> show ?thesis by (auto simp: starts_with_iff ends_with_iff)
  qed
  then show "find (starts_with s) white_space = None" "find (ends_with s) white_space = None"
    by (auto simp: find_None_iff)
qed

lemma trim_hex_of: "trim (str_of (hex_of n)) = str_of (hex_of n)"
  using no_white_space_prefix [of "str_of (hex_of n)"] hex_of_chars
  by (simp add: trim_def trim_start.simps [of "str_of (hex_of n)"]
      trim_end.simps [of "str_of (hex_of n)"])

lemma hex_of_no_plus: "hd (str_of (hex_of n)) \<noteq> CHR ''+''"
proof
  assume "hd (str_of (hex_of n)) = CHR ''+''"
  moreover have "hd (str_of (hex_of n)) \<in> set (str_of (hex_of n))"
    using hex_of_nonempty by (intro hd_in_set) (simp add: str_of_def)
  ultimately show False using hex_of_chars by (force simp: hex_digit_def)
qed

lemma usize_from_hex_of: "n \<le> usize_max \<Longrightarrow> usize_from_hex (str_of (hex_of n)) = Some n"
  using hex_of_no_plus [of n] hex_of_nonempty [of n] hex_value_hex_of [of n]
  by (cases "str_of (hex_of n)") (auto simp: usize_from_hex_def str_of_def)

lemma chunk_size_hex_of: "n \<le> usize_max \<Longrightarrow> chunk_size r (hex_of n) = Some n"
proof -
  assume n: "n \<le> usize_max"
  have same: "takeWhile (\<lambda>b. b \<noteq> 0x3B) (hex_of n) = hex_of n"
    by (auto simp: takeWhile_eq_all_conv dest!: hex_of_bytes)
       (simp add: word_unat_eq_iff unat_hex_char split: if_splits)
  show ?thesis
    unfolding chunk_size_def same Let_def if_cancel
    using n by (simp add: from_utf8_def hex_of_valid trim_hex_of usize_from_hex_of)
qed


lemma line_hex:
  assumes "Suc (length h) \<le> max_line r" and "10 \<notin> set h" 
  shows "line r (h @ crlf @ rest) = EndsAt (Suc (length h))"
proof -
  have "position (\<lambda>b. b = 10) (h @ crlf @ rest) = Some (Suc (length h))"
    using assms(2) position_None_iff [of "\<lambda>b. b = 10" h]
    by (auto simp: position_append crlf_def)
  then show ?thesis
    using assms(1) by (simp add: line_def line_from.simps [of r _ 0] crlf_def nth_append)
qed

lemma hex_of_no_lf: "10 \<notin> set (hex_of n)"
  by (auto dest!: hex_of_bytes simp: word_unat_eq_iff unat_hex_char split: if_splits)

lemma hex_of_length_max: "n \<le> usize_max \<Longrightarrow> length (hex_of n) \<le> 16"
  by (rule hex_of_length) (simp_all add: usize_max_def)

lemma walk_chunk_head:
  assumes "0 < n" "n \<le> max_size r" "n \<le> usize_max" "17 \<le> max_line r"
  shows "walk r Size (hex_of n @ crlf @ rest) =
           (let (st, u, d) = walk r (Data n) rest in (st, length (hex_of n) + 2 + u, d))"
proof -
  have "line r (hex_of n @ crlf @ rest) = EndsAt (Suc (length (hex_of n)))"
    using assms(3,4) hex_of_length_max [of n] by (intro line_hex hex_of_no_lf) simp
  moreover have "after_line r Size (hex_of n) = Data n"
    using assms chunk_size_hex_of [of n r] by (simp add: after_line_def from_utf8_def hex_of_valid)
  ultimately show ?thesis
    by (simp add: walk_line line_state_def crlf_def split: prod.splits)
qed

lemma walk_after_data:
  assumes "17 \<le> max_line r"
  shows "walk r (after_data r) (crlf @ rest) =
           (let (st, u, d) = walk r Size rest in (st, 2 + u, d))"
proof (cases "data_crlf r")
  case True
  then show ?thesis
    using line_hex [of "[]" r rest] assms
    by (simp add: after_data_def walk_line line_state_def after_line_def crlf_def split: prod.splits)
next
  case False
  then show ?thesis
    by (simp add: after_data_def walk_Skip_whole crlf_def split: prod.splits)
qed

lemma walk_last_chunk:
  assumes "17 \<le> max_line r"
  shows "walk r Size (hex_of 0 @ crlf @ crlf) = (Ended, length (hex_of 0 @ crlf @ crlf), [])"
proof -
  have h: "hex_of 0 = [48]" by (simp add: hex_of.simps hex_char_def)
  have "line r (hex_of 0 @ crlf @ crlf) = EndsAt 2"
    using line_hex [of "hex_of 0" r crlf] assms hex_of_no_lf [of 0] by (simp add: h)
  moreover have "after_line r Size (hex_of 0) = Trailer"
    using chunk_size_hex_of [of 0 r] by (simp add: after_line_def from_utf8_def hex_of_valid usize_max_def)
  moreover have "line r crlf = EndsAt 1"
    using line_hex [of "[]" r "[]"] assms by (simp add: crlf_def)
  ultimately show ?thesis
    by (simp add: walk_line line_state_def after_line_def h crlf_def)
qed

lemma walk_chunk_encode:
  assumes "17 \<le> max_line r"
    and "\<forall>c \<in> set cs. c \<noteq> [] \<and> length c \<le> max_size r \<and> length c \<le> usize_max"
  shows "walk r Size (chunk_encode cs) = (Ended, length (chunk_encode cs), cs)"
  using assms(2)
proof (induction cs)
  case Nil
  then show ?case using walk_last_chunk [OF assms(1)] by (simp add: chunk_encode_def)
next
  case (Cons c cs)
  have enc: "chunk_encode (c # cs) = hex_of (length c) @ crlf @ c @ crlf @ chunk_encode cs"
    by (simp add: chunk_encode_def)
  have "walk r (Data (length c)) (c @ crlf @ chunk_encode cs) =
      (Ended, length c + 2 + length (chunk_encode cs), c # cs)"
    using Cons.prems Cons.IH walk_after_data [OF assms(1), of "chunk_encode cs"]
    by (simp add: walk_Data_whole)
  then show ?case
    unfolding enc using Cons.prems assms(1) by (simp add: walk_chunk_head)
qed

end
