(* ===== verification/Body_Walk.thy ===== *)
theory Body_Walk
  imports Chunked
begin

text \<open>
  \<open>BodyWalk\<close> (honeybeepf-llm/src/probes/builtin/llm/http/json_ends.rs): the framing of a body
  followed as the bytes stream past, whatever the reads' cuts. The closure \<open>keep\<close> is the list of
  slices passed to it, in order.
\<close>

definition MAX_LINE :: nat where
  "MAX_LINE = 4096"

definition WALK_RULES :: chunk_rules where
  "WALK_RULES = \<lparr>extensions = True, utf8_line = True, data_crlf = True, max_size = usize_max,
                 bare_lf_breaks = True, max_line = MAX_LINE\<rparr>"

record body_walk =
  due :: "nat option"
  chunks :: chunk_walk
  held :: bytes

definition body_walk_new :: "nat option \<Rightarrow> body_walk" where
  "body_walk_new len = \<lparr>due = len, chunks = chunk_walk_new WALK_RULES, held = []\<rparr>"

definition body_walk_ended :: "body_walk \<Rightarrow> bool" where
  "body_walk_ended b \<longleftrightarrow> due b = Some 0 \<or> state (chunks b) = Ended"

definition chunks_done :: "chunk_walk \<Rightarrow> bool" where
  "chunks_done c = walk_over (state c)"

text \<open>The \<open>while\<close> loop of \<open>BodyWalk::feed\<close>: a held line takes bytes up to the next LF.\<close>

definition up_to_lf :: "bytes \<Rightarrow> nat" where
  "up_to_lf data =
     (case position (\<lambda>b. b = 10) data of None \<Rightarrow> length data | Some i \<Rightarrow> i + 1)"

function held_loop ::
  "chunk_walk \<Rightarrow> bytes \<Rightarrow> bytes \<Rightarrow> chunk_walk \<times> bytes \<times> bytes \<times> bytes list" where
  "held_loop c ln data =
     (if ln \<noteq> [] \<and> data \<noteq> [] \<and> \<not> chunks_done c then
        let n = up_to_lf data;
            ln1 = ln @ take n data;
            (c1, used, ds) = chunk_walk_walk c ln1;
            (c2, ln2, data2, ds2) = held_loop c1 (drop used ln1) (drop n data)
        in (c2, ln2, data2, ds @ ds2)
      else (c, ln, data, []))"
  by pat_completeness auto
termination
  by (relation "measure (\<lambda>(c, ln, data). length data)")
     (auto simp: up_to_lf_def split: option.splits)

declare held_loop.simps [simp del]

text \<open>\<open>BodyWalk::feed\<close>: the walk after, the slices kept, and whether the framing still holds.\<close>

definition body_walk_feed :: "body_walk \<Rightarrow> bytes \<Rightarrow> body_walk \<times> bytes list \<times> bool" where
  "body_walk_feed b data =
     (case due b of
        Some left \<Rightarrow>
          let n = min left (length data)
          in (b\<lparr>due := Some (left - n)\<rparr>, if n > 0 then [take n data] else [], True)
      | None \<Rightarrow>
          let (c, ln, data, ds) = held_loop (chunks b) (held b) data;
              (c, ln, ds2) =
                (if ln = [] \<and> \<not> chunks_done c then
                   let (c1, used, ds2) = chunk_walk_walk c data
                   in (c1, if chunks_done c1 then ln else ln @ drop used data, ds2)
                 else (c, ln, []))
          in (b\<lparr>chunks := c, held := ln\<rparr>, ds @ ds2, state c \<noteq> Broken))"

section \<open>The walk a fed body stands for\<close>

text \<open>
  Between feeds the held bytes are ones the walk cannot use yet. Under this invariant a feed is the
  walk of the held bytes and the new ones joined.
\<close>

definition held_stuck :: "chunk_walk \<Rightarrow> bytes \<Rightarrow> bool" where
  "held_stuck c ln \<longleftrightarrow> chunks_done c \<or> walk (rules c) (state c) ln = (state c, 0, [])"

definition body_walk_inv :: "body_walk \<Rightarrow> bool" where
  "body_walk_inv b \<longleftrightarrow> (due b = None \<longrightarrow> held_stuck (chunks b) (held b))"

lemma chunk_walk_walk_simp:
  "chunk_walk_walk c x = (case walk (rules c) (state c) x of (st, u, d) \<Rightarrow> (c\<lparr>state := st\<rparr>, u, d))"
  by (simp add: chunk_walk_walk_def)

lemma held_loop_spec:
  "held_stuck c ln \<Longrightarrow> held_loop c ln data = (c1, ln1, data1, ds1) \<Longrightarrow>
     rules c1 = rules c \<and> held_stuck c1 ln1 \<and> (ln1 = [] \<or> data1 = [] \<or> chunks_done c1) \<and>
     outcome (rules c) (state c) (ln @ data) =
       after_out (concat ds1) (outcome (rules c) (state c1) (ln1 @ data1))"
proof (induction c ln data arbitrary: c1 ln1 data1 ds1 rule: held_loop.induct)
  case (1 c ln data)
  show ?case
  proof (cases "ln \<noteq> [] \<and> data \<noteq> [] \<and> \<not> chunks_done c")
    case False
    with "1.prems" show ?thesis by (auto simp: held_loop.simps [of c ln data] split: if_splits)
  next
    case True
    define n where "n = up_to_lf data"
    define x where "x = ln @ take n data"
    obtain st u ds where w: "walk (rules c) (state c) x = (st, u, ds)" by (metis prod.exhaust)
    define c' where "c' = c\<lparr>state := st\<rparr>"
    obtain c2 ln2 data2 ds2 where rec: "held_loop c' (drop u x) (drop n data) = (c2, ln2, data2, ds2)"
      by (metis prod.exhaust)
    have cw: "chunk_walk_walk c (ln @ take n data) = (c', u, ds)"
      using w by (simp add: chunk_walk_walk_simp c'_def x_def)
    have stuck: "held_stuck c' (drop u x)"
      using walk_stuck [OF w] by (simp add: held_stuck_def c'_def)
    have res: "c1 = c2" "ln1 = ln2" "data1 = data2" "ds1 = ds @ ds2"
      using "1.prems"(2) True cw rec
      by (simp_all add: held_loop.simps [of c ln data] n_def [symmetric] x_def [symmetric] Let_def
          del: drop_append)
    have "outcome (rules c) (state c) (x @ drop n data) =
        after_out (concat ds) (outcome (rules c) st (drop u x @ drop n data))"
      by (rule outcome_more [OF w])
    moreover have "x @ drop n data = ln @ data" by (simp add: x_def)
    moreover have "rules c2 = rules c' \<and> held_stuck c2 ln2 \<and> (ln2 = [] \<or> data2 = [] \<or> chunks_done c2) \<and>
        outcome (rules c') (state c') (drop u x @ drop n data) =
          after_out (concat ds2) (outcome (rules c') (state c2) (ln2 @ data2))"
      using "1.IH" [OF True n_def x_def cw [folded x_def, symmetric] refl refl stuck rec] .
    ultimately show ?thesis using res by (simp add: c'_def)
  qed
qed


lemma feed_chunked_spec:
  assumes "due b = None" and "held_stuck (chunks b) (held b)"
    and "body_walk_feed b data = (b1, ds, ok)"
  shows "due b1 = None \<and> held_stuck (chunks b1) (held b1) \<and> rules (chunks b1) = rules (chunks b) \<and>
     outcome (rules (chunks b)) (state (chunks b)) (held b @ data) =
       (state (chunks b1), concat ds, if chunks_done (chunks b1) then [] else held b1)"
proof -
  obtain c ln data1 ds1 where l: "held_loop (chunks b) (held b) data = (c, ln, data1, ds1)"
    by (metis prod.exhaust)
  note spec = held_loop_spec [OF assms(2) l]
  obtain st u ds2 where w: "walk (rules c) (state c) data1 = (st, u, ds2)" by (metis prod.exhaust)
  consider "chunks_done c" | "\<not> chunks_done c" "ln = []" | "\<not> chunks_done c" "ln \<noteq> []" "data1 = []"
    using spec by blast
  then show ?thesis
  proof cases
    case 1
    then have "outcome (rules (chunks b)) (state c) (ln @ data1) = (state c, [], [])"
      by (intro outcome_over) (simp add: chunks_done_def)
    with 1 spec assms(1,3) l show ?thesis
      by (auto simp: body_walk_feed_def held_stuck_def after_out_def)
  next
    case 2
    with assms(1,3) l w have r: "chunks b1 = c\<lparr>state := st\<rparr>" "due b1 = None" "ds = ds1 @ ds2"
      "held b1 = (if walk_over st then [] else drop u data1)"
      by (auto simp: body_walk_feed_def chunk_walk_walk_simp chunks_done_def)
    have "held_stuck (chunks b1) (held b1)"
      using walk_stuck [OF w] r by (auto simp: held_stuck_def chunks_done_def)
    moreover have "outcome (rules (chunks b)) (state c) (ln @ data1) =
        (st, concat ds2, if walk_over st then [] else drop u data1)"
      using 2 w spec by (simp add: outcome_def)
    ultimately show ?thesis
      using spec r by (simp add: after_out_def chunks_done_def)
  next
    case 3
    then have "walk (rules (chunks b)) (state c) ln = (state c, 0, [])"
      using spec by (auto simp: held_stuck_def)
    with 3 have "outcome (rules (chunks b)) (state c) (ln @ data1) = (state c, [], ln)"
      by (simp add: outcome_def chunks_done_def)
    with 3 spec assms(1,3) l show ?thesis
      by (auto simp: body_walk_feed_def after_out_def)
  qed
qed

lemma feed_length_spec:
  "due b = Some left \<Longrightarrow> body_walk_feed b data =
     (b\<lparr>due := Some (left - length data)\<rparr>, if left = 0 \<or> data = [] then [] else [take left data], True)"
  by (auto simp: body_walk_feed_def Let_def min_def)

section \<open>A body walk is an incremental reader\<close>

text \<open>
  The step without its verdict, which the state decides; and what matters of the state: held bytes
  are looked at no more once the chunks ended or broke.
\<close>

definition body_walk_step :: "body_walk \<Rightarrow> bytes \<Rightarrow> body_walk \<times> bytes list" where
  "body_walk_step b data = (let (b1, ds, _) = body_walk_feed b data in (b1, ds))"

definition body_walk_view :: "body_walk \<Rightarrow> nat option \<times> chunk_state \<times> bytes" where
  "body_walk_view b =
     (due b, state (chunks b),
      if due b = None \<and> \<not> chunks_done (chunks b) then held b else [])"

lemma body_walk_step_inv: "body_walk_inv b \<Longrightarrow> body_walk_inv (fst (body_walk_step b data))"
proof -
  assume inv: "body_walk_inv b"
  obtain b1 ds ok where f: "body_walk_feed b data = (b1, ds, ok)" by (metis prod.exhaust)
  show ?thesis
  proof (cases "due b")
    case None
    with inv have "held_stuck (chunks b) (held b)" by (simp add: body_walk_inv_def)
    from feed_chunked_spec [OF None this f] f show ?thesis
      by (simp add: body_walk_inv_def body_walk_step_def)
  next
    case (Some left)
    with f show ?thesis by (auto simp: feed_length_spec body_walk_inv_def body_walk_step_def)
  qed
qed

lemma body_walk_step_append:
  assumes "body_walk_inv b"
  shows "body_walk_view (fst (body_walk_step b (x @ y))) =
           body_walk_view (fst (body_walk_step (fst (body_walk_step b x)) y))"
    and "concat (snd (body_walk_step b (x @ y))) =
           concat (snd (body_walk_step b x)) @ concat (snd (body_walk_step (fst (body_walk_step b x)) y))"
proof -
  obtain b1 d1 ok1 where f1: "body_walk_feed b x = (b1, d1, ok1)" by (metis prod.exhaust)
  obtain b2 d2 ok2 where f2: "body_walk_feed b1 y = (b2, d2, ok2)" by (metis prod.exhaust)
  obtain b3 d3 ok3 where f3: "body_walk_feed b (x @ y) = (b3, d3, ok3)" by (metis prod.exhaust)
  have "body_walk_view b3 = body_walk_view b2 \<and> concat d3 = concat d1 @ concat d2"
  proof (cases "due b")
    case None
    then have stuck: "held_stuck (chunks b) (held b)" using assms by (simp add: body_walk_inv_def)
    note s1 = feed_chunked_spec [OF None stuck f1] and s3 = feed_chunked_spec [OF None stuck f3]
    have s2: "due b2 = None \<and> outcome (rules (chunks b)) (state (chunks b1)) (held b1 @ y) =
       (state (chunks b2), concat d2, if chunks_done (chunks b2) then [] else held b2)"
      using feed_chunked_spec [OF _ _ f2] s1 by simp
    have "outcome (rules (chunks b)) (state (chunks b)) (held b @ x @ y) =
        after_out (concat d1) (outcome (rules (chunks b)) (state (chunks b1)) (held b1 @ y))"
    proof -
      obtain s u d where w: "walk (rules (chunks b)) (state (chunks b)) (held b @ x) = (s, u, d)"
        by (metis prod.exhaust)
      with s1 have e: "s = state (chunks b1)" "concat d = concat d1"
        "\<not> walk_over s \<longrightarrow> drop u (held b @ x) = held b1"
        by (auto simp: outcome_def chunks_done_def split: if_splits)
      from outcome_more [OF w, of y] e show ?thesis
        by (cases "walk_over s") (simp_all add: outcome_over del: drop_append)
    qed
    with s1 s2 s3 show ?thesis
      by (auto simp: after_out_def body_walk_view_def chunks_done_def)
  next
    case (Some left)
    then show ?thesis
      using f1 f2 f3 by (auto simp: feed_length_spec body_walk_view_def split: if_splits)
  qed
  with f1 f2 f3 show "body_walk_view (fst (body_walk_step b (x @ y))) =
           body_walk_view (fst (body_walk_step (fst (body_walk_step b x)) y))"
    and "concat (snd (body_walk_step b (x @ y))) =
           concat (snd (body_walk_step b x)) @ concat (snd (body_walk_step (fst (body_walk_step b x)) y))"
    by (simp_all add: body_walk_step_def)
qed

lemma body_walk_step_Nil: "body_walk_inv b \<Longrightarrow> body_walk_step b [] = (b, [])"
  by (cases "due b")
     (auto simp: body_walk_step_def body_walk_feed_def held_loop.simps [of _ _ "[]"]
        chunk_walk_walk_simp)

interpretation body: incremental body_walk_step body_walk_inv body_walk_view concat
  by unfold_locales
     (simp_all add: body_walk_step_inv body_walk_step_Nil body_walk_step_append)

lemma body_walk_new_inv: "body_walk_inv (body_walk_new len)"
  by (auto simp: body_walk_inv_def body_walk_new_def held_stuck_def chunk_walk_new_def)

end
