(* ===== verification/Byte_Utils.thy ===== *)
theory Byte_Utils
  imports Chunked
begin

text \<open>
  Byte utilities (honeybeepf-llm-core/src/byte_utils.rs): substring search, trailing white space,
  whole-body chunk decoding, and the JSON objects found in a byte stream. Lookup in parsed JSON is
  with the JSON model.
\<close>

section \<open>Searching\<close>

text \<open>The loop of \<open>find_pattern\<close> at its variable \<open>from\<close>, for a needle \<open>first # rest\<close>.\<close>

function find_pattern_from :: "bytes \<Rightarrow> u8 \<Rightarrow> bytes \<Rightarrow> nat \<Rightarrow> nat option" where
  "find_pattern_from haystack first rest from =
     (case position (\<lambda>b. b = first) (drop from haystack) of
        None \<Rightarrow> None
      | Some i \<Rightarrow>
          (let at = from + i in
           if starts_with (drop (at + 1) haystack) rest then Some at
           else find_pattern_from haystack first rest (at + 1)))"
  by pat_completeness auto
termination
  by (relation "measure (\<lambda>(haystack, first, rest, from). length haystack - from)")
     (auto dest: position_Some_length)

declare find_pattern_from.simps [simp del]

definition find_pattern :: "bytes \<Rightarrow> bytes \<Rightarrow> nat option" where
  "find_pattern haystack needle =
     (case needle of [] \<Rightarrow> Some 0 | first # rest \<Rightarrow> find_pattern_from haystack first rest 0)"

definition contains_pattern :: "bytes \<Rightarrow> bytes \<Rightarrow> bool" where
  "contains_pattern haystack needle = (find_pattern haystack needle \<noteq> None)"

text \<open>Comparing only where the first byte matches finds what comparing at every offset finds.\<close>

lemma find_sub_skip:
  assumes "\<forall>j < k. j < length xs \<longrightarrow> xs ! j \<noteq> c" and "k \<le> length xs"
  shows "find_sub (c # p) xs = map_option (\<lambda>i. k + i) (find_sub (c # p) (drop k xs))"
  using assms
proof (induction k arbitrary: xs)
  case 0
  then show ?case by (simp add: option.map_ident)
next
  case (Suc k)
  then obtain x ys where xs: "xs = x # ys" by (cases xs) auto
  have "x \<noteq> c" using Suc.prems(1) xs by auto
  then have "\<not> starts_with (x # ys) (c # p)" by (simp add: starts_with_def)
  moreover have "find_sub (c # p) ys = map_option (\<lambda>i. k + i) (find_sub (c # p) (drop k ys))"
    using Suc.prems xs by (intro Suc.IH) fastforce+
  ultimately show ?case
    using xs by (cases "find_sub (c # p) (drop k ys)") simp_all
qed

lemma find_sub_none:
  "c \<notin> set xs \<Longrightarrow> find_sub (c # p) xs = None"
  by (induction xs) (auto simp: starts_with_def)

lemma find_pattern_from_eq:
  "from \<le> length h \<Longrightarrow>
     find_pattern_from h c p from = map_option (\<lambda>i. from + i) (find_sub (c # p) (drop from h))"
proof (induction h c p "from" rule: find_pattern_from.induct)
  case (1 h c p "from")
  show ?case
  proof (cases "position (\<lambda>b. b = c) (drop from h)")
    case None
    then have "find_sub (c # p) (drop from h) = None"
      by (intro find_sub_none) (auto simp: position_None_iff)
    with None show ?thesis by (simp add: find_pattern_from.simps)
  next
    case (Some i)
    from position_SomeD [OF Some]
    have i: "i < length h - from" "drop from h ! i = c" "\<forall>j < i. drop from h ! j \<noteq> c"
      by simp_all
    have at: "drop (from + i) h = c # drop (Suc (from + i)) h"
    proof -
      have "from + i < length h" using position_Some_length [OF Some] by simp
      moreover from this have "h ! (from + i) = c" using i by simp
      ultimately show ?thesis using Cons_nth_drop_Suc [of "from + i" h] by simp
    qed
    have skip: "find_sub (c # p) (drop from h) =
        map_option (\<lambda>k. i + k) (find_sub (c # p) (c # drop (Suc (from + i)) h))"
    proof -
      have "find_sub (c # p) (drop from h) =
          map_option (\<lambda>k. i + k) (find_sub (c # p) (drop i (drop from h)))"
        using i by (intro find_sub_skip) auto
      moreover have "drop i (drop from h) = c # drop (Suc (from + i)) h"
        using at by (simp add: add.commute)
      ultimately show ?thesis by (simp only:)
    qed
    show ?thesis
    proof (cases "starts_with (drop (Suc (from + i)) h) p")
      case True
      then have "starts_with (c # drop (Suc (from + i)) h) (c # p)" by (simp add: starts_with_def)
      with True Some skip show ?thesis by (simp add: find_pattern_from.simps Let_def)
    next
      case False
      then have "\<not> starts_with (c # drop (Suc (from + i)) h) (c # p)" by (simp add: starts_with_def)
      moreover have "find_pattern_from h c p (from + i + 1) =
          map_option (\<lambda>k. from + i + 1 + k) (find_sub (c # p) (drop (from + i + 1) h))"
        using "1.IH" [OF Some refl] False i by simp
      ultimately show ?thesis
        using False Some skip
        by (cases "find_sub (c # p) (drop (Suc (from + i)) h)")
           (simp_all add: find_pattern_from.simps [of h c p "from"] Let_def)
    qed
  qed
qed

lemma find_pattern_eq_find_sub: "find_pattern h p = find_sub p h"
proof (cases p)
  case Nil
  then show ?thesis by (cases h) (simp_all add: find_pattern_def starts_with_def)
next
  case (Cons c q)
  then show ?thesis
    using find_pattern_from_eq [of 0 h c q] by (simp add: find_pattern_def option.map_ident)
qed

lemma contains_pattern_iff: "contains_pattern h p \<longleftrightarrow> (\<exists>a b. h = a @ p @ b)"
  using contains_iff [of h p] by (simp add: contains_pattern_def find_pattern_eq_find_sub contains_def)

lemma find_sub_SomeD:
  "find_sub p h = Some i \<Longrightarrow> starts_with (drop i h) p \<and> (\<forall>j < i. \<not> starts_with (drop j h) p)"
proof (induction h arbitrary: i)
  case Nil
  then show ?case by (auto simp: starts_with_def split: if_splits)
next
  case (Cons x xs)
  show ?case
  proof (cases "starts_with (x # xs) p")
    case True
    with Cons.prems show ?thesis by simp
  next
    case False
    with Cons.prems obtain k where "find_sub p xs = Some k" "i = Suc k" by auto
    with Cons.IH False show ?thesis by (auto simp: less_Suc_eq_0_disj)
  qed
qed

section \<open>Trailing white space\<close>

definition is_ascii_whitespace :: "u8 \<Rightarrow> bool" where
  "is_ascii_whitespace b \<longleftrightarrow> b = 0x20 \<or> b = 0x09 \<or> b = 0x0A \<or> b = 0x0C \<or> b = 0x0D"

fun trim_end_at :: "bytes \<Rightarrow> nat \<Rightarrow> nat" where
  "trim_end_at buf end =
     (if end > 0 \<and> is_ascii_whitespace (buf ! (end - 1)) then trim_end_at buf (end - 1) else end)"

declare trim_end_at.simps [simp del]

definition trim_trailing_whitespace :: "bytes \<Rightarrow> bytes" where
  "trim_trailing_whitespace buf = take (trim_end_at buf (length buf)) buf"

lemma trim_end_at_spec:
  "end \<le> length buf \<Longrightarrow>
     trim_end_at buf end \<le> end \<and>
     (\<forall>j. trim_end_at buf end \<le> j \<and> j < end \<longrightarrow> is_ascii_whitespace (buf ! j)) \<and>
     (0 < trim_end_at buf end \<longrightarrow> \<not> is_ascii_whitespace (buf ! (trim_end_at buf end - 1)))"
proof (induction buf "end" rule: trim_end_at.induct)
  case (1 buf "end")
  show ?case
  proof (cases "end > 0 \<and> is_ascii_whitespace (buf ! (end - 1))")
    case True
    from True "1" have IH: "trim_end_at buf (end - 1) \<le> end - 1 \<and>
      (\<forall>j. trim_end_at buf (end - 1) \<le> j \<and> j < end - 1 \<longrightarrow> is_ascii_whitespace (buf ! j)) \<and>
      (0 < trim_end_at buf (end - 1) \<longrightarrow> \<not> is_ascii_whitespace (buf ! (trim_end_at buf (end - 1) - 1)))"
      by simp
    have eq: "trim_end_at buf end = trim_end_at buf (end - 1)"
      using True by (subst trim_end_at.simps) simp
    have "is_ascii_whitespace (buf ! j)" if "trim_end_at buf (end - 1) \<le> j" "j < end" for j
      using IH True that by (cases "j = end - 1") auto
    with IH True eq show ?thesis by auto
  next
    case False
    then show ?thesis by (auto simp: trim_end_at.simps [of buf "end"])
  qed
qed

section \<open>Whole chunked bodies\<close>

definition decode_chunked_body :: "bytes \<Rightarrow> bytes" where
  "decode_chunked_body buffer =
     (if \<not> contains_pattern buffer crlf then buffer
      else let (w, used, ds) = chunk_walk_walk (chunk_walk_new BASIC) buffer;
               result = concat ds
           in if result = [] then buffer else result)"

lemma contains_crlf_chunk_encode: "contains_pattern (chunk_encode cs) crlf"
  unfolding contains_pattern_iff chunk_encode_def
  by (rule exI [of _ "concat (map (\<lambda>c. hex_of (length c) @ crlf @ c @ crlf) cs) @ hex_of 0 @ crlf"])
     simp

lemma decode_chunk_encode:
  assumes "\<forall>c \<in> set cs. c \<noteq> [] \<and> length c \<le> usize_max" and "cs \<noteq> []"
  shows "decode_chunked_body (chunk_encode cs) = concat cs"
proof -
  have ne: "concat cs \<noteq> []" using assms by (cases cs) auto
  have "walk BASIC Size (chunk_encode cs) = (Ended, length (chunk_encode cs), cs)"
    using assms(1) by (intro walk_chunk_encode) (simp_all add: BASIC_def usize_max_def)
  then have "chunk_walk_walk (chunk_walk_new BASIC) (chunk_encode cs) =
      (\<lparr>rules = BASIC, state = Ended\<rparr>, length (chunk_encode cs), cs)"
    by (simp add: chunk_walk_walk_def chunk_walk_new_def)
  then show ?thesis
    using contains_crlf_chunk_encode [of cs] ne
    by (simp only: decode_chunked_body_def Let_def prod.case not_True_eq_False if_False simp_thms)
qed

section \<open>JSON objects in a byte stream\<close>

text \<open>
  The loop of \<open>find_balanced_brace\<close> over the bytes from index \<open>i\<close>. Its depth is an \<open>i32\<close>;
  the buffers it is given are capped far below the 2^31 braces that could overflow it.
\<close>

fun balanced_loop :: "bytes \<Rightarrow> nat \<Rightarrow> int \<Rightarrow> bool \<Rightarrow> bool \<Rightarrow> nat option" where
  "balanced_loop [] i depth in_string escape = None"
| "balanced_loop (b # bs) i depth in_string escape =
     (if escape then balanced_loop bs (Suc i) depth in_string False
      else if b = 0x5C \<and> in_string then balanced_loop bs (Suc i) depth in_string True
      else if b = 0x22 then balanced_loop bs (Suc i) depth (\<not> in_string) escape
      else if in_string then balanced_loop bs (Suc i) depth in_string escape
      else if b = 0x7B then balanced_loop bs (Suc i) (depth + 1) in_string escape
      else if b = 0x7D then
        (if depth - 1 = 0 then Some i else balanced_loop bs (Suc i) (depth - 1) in_string escape)
      else balanced_loop bs (Suc i) depth in_string escape)"

definition find_balanced_brace :: "bytes \<Rightarrow> nat \<Rightarrow> nat option" where
  "find_balanced_brace bs start = balanced_loop (drop start bs) start 0 False False"

lemma balanced_loop_bounds:
  "balanced_loop bs i d q e = Some k \<Longrightarrow> i \<le> k \<and> k < i + length bs \<and> bs ! (k - i) = 0x7D"
proof (induction bs i d q e rule: balanced_loop.induct)
  case (2 b bs i d q e)
  have step: "\<exists>d' q' e'. balanced_loop bs (Suc i) d' q' e' = Some k" if "\<not> (k = i \<and> b = 0x7D)"
    using "2.prems" that by (auto split: if_splits)
  have IH: "Suc i \<le> k \<and> k < Suc i + length bs \<and> bs ! (k - Suc i) = 0x7D" if "\<not> (k = i \<and> b = 0x7D)"
    using 2 that by (auto split: if_splits)
  show ?case
  proof (cases "k = i \<and> b = 0x7D")
    case False
    with IH show ?thesis by (auto simp: nth_Cons split: nat.splits) (metis Suc_diff_Suc Suc_le_lessD nat.inject)
  qed simp
qed simp

lemma find_balanced_bounds:
  "find_balanced_brace bs start = Some k \<Longrightarrow> start \<le> k \<and> k < length bs \<and> bs ! k = 0x7D"
  using balanced_loop_bounds [of "drop start bs" start 0 False False k]
  by (cases "start \<le> length bs") (auto simp: find_balanced_brace_def)

text \<open>The loop of \<open>extract_h2_json_all\<close> at \<open>search_pos\<close>.\<close>

function json_slices :: "bytes \<Rightarrow> nat \<Rightarrow> bytes list" where
  "json_slices utf pos =
     (case position (\<lambda>b. b = 0x7B) (drop pos utf) of
        None \<Rightarrow> []
      | Some offset \<Rightarrow>
          (let start = pos + offset in
           case find_balanced_brace utf start of
             Some stop \<Rightarrow> take (stop + 1 - start) (drop start utf) # json_slices utf (stop + 1)
           | None \<Rightarrow> json_slices utf (start + 1)))"
  by pat_completeness auto
termination
  by (relation "measure (\<lambda>(utf, pos). length utf - pos)")
     (auto dest!: position_Some_length find_balanced_bounds)

declare json_slices.simps [simp del]

definition extract_h2_json_all :: "bytes \<Rightarrow> bytes list" where
  "extract_h2_json_all buffer = json_slices (utf8_lossy buffer) 0"

text \<open>The loop of \<open>extract_h2_json_nth\<close> at \<open>search_pos\<close> and \<open>count\<close>.\<close>

function json_nth_from :: "bytes \<Rightarrow> nat \<Rightarrow> nat \<Rightarrow> nat \<Rightarrow> bytes" where
  "json_nth_from utf n pos count =
     (case position (\<lambda>b. b = 0x7B) (drop pos utf) of
        None \<Rightarrow> []
      | Some offset \<Rightarrow>
          (let start = pos + offset in
           case find_balanced_brace utf start of
             Some stop \<Rightarrow>
               if count = n then take (stop + 1 - start) (drop start utf)
               else json_nth_from utf n (stop + 1) (count + 1)
           | None \<Rightarrow> json_nth_from utf n (start + 1) count))"
  by pat_completeness auto
termination
  by (relation "measure (\<lambda>(utf, n, pos, count). length utf - pos)")
     (auto dest!: position_Some_length find_balanced_bounds)

declare json_nth_from.simps [simp del]

definition extract_h2_json_nth :: "bytes \<Rightarrow> nat \<Rightarrow> bytes" where
  "extract_h2_json_nth buffer n = json_nth_from (utf8_lossy buffer) n 0 0"

definition extract_h2_json_payload :: "bytes \<Rightarrow> bytes" where
  "extract_h2_json_payload buffer = extract_h2_json_nth buffer 0"

lemma json_nth_from_slices:
  "count \<le> n \<Longrightarrow> json_nth_from utf n pos count =
     (let all = json_slices utf pos
      in if n - count < length all then all ! (n - count) else [])"
proof (induction utf n pos count rule: json_nth_from.induct)
  case (1 utf n pos count)
  show ?case
  proof (cases "position (\<lambda>b. b = 0x7B) (drop pos utf)")
    case None
    then show ?thesis by (simp add: json_nth_from.simps json_slices.simps)
  next
    case (Some offset)
    note brace = this
    note unfold = json_nth_from.simps [of utf n pos] json_slices.simps [of utf pos]
    show ?thesis
    proof (cases "find_balanced_brace utf (pos + offset)")
      case None
      with brace "1.IH"(1) [OF brace refl None] "1.prems" show ?thesis by (simp add: unfold)
    next
      case (Some stop)
      show ?thesis
      proof (cases "count = n")
        case True
        with brace Some show ?thesis by (simp add: unfold Let_def)
      next
        case False
        with "1.prems" have at: "n - count = Suc (n - Suc count)" by simp
        have "json_nth_from utf n (stop + 1) (Suc count) =
            (let all = json_slices utf (stop + 1)
             in if n - Suc count < length all then all ! (n - Suc count) else [])"
          using "1.IH"(2) [OF brace refl Some False] False "1.prems" by (simp add: Let_def)
        then show ?thesis using False brace Some by (simp add: unfold Let_def at)
      qed
    qed
  qed
qed

text \<open>
  What the scan finds are disjoint slices of the utf in order: the utf is the slices with gaps
  before, between and after them.
\<close>

inductive sliced :: "bytes \<Rightarrow> bytes list \<Rightarrow> bool" where
  sliced_rest: "sliced gap []"
| sliced_next: "sliced utf rs \<Longrightarrow> sliced (gap @ r @ utf) (r # rs)"

lemma sliced_skip: "sliced utf rs \<Longrightarrow> sliced (gap @ utf) rs"
proof (erule sliced.cases)
  fix utf' rs' gap' r
  assume "utf = gap' @ r @ utf'" "rs = r # rs'" "sliced utf' rs'"
  then show "sliced (gap @ utf) rs" using sliced_next [of utf' rs' "gap @ gap'" r] by simp
qed (simp add: sliced_rest)

text \<open>A slice is an object's extent: it starts at a brace and the scan from there closes at its end.\<close>

definition json_slice :: "bytes \<Rightarrow> bool" where
  "json_slice r \<longleftrightarrow>
     r \<noteq> [] \<and> r ! 0 = 0x7B \<and> find_balanced_brace r 0 = Some (length r - 1)"

lemma balanced_loop_shift:
  "balanced_loop bs (i + k) d q e = map_option (\<lambda>j. j + k) (balanced_loop bs i d q e)"
proof (induction bs i d q e rule: balanced_loop.induct)
  case (2 b bs i d q e)
  then show ?case by simp
qed simp

lemma balanced_loop_take:
  "balanced_loop bs i d q e = Some j \<Longrightarrow> balanced_loop (take (Suc j - i) bs) i d q e = Some j"
proof (induction bs i d q e rule: balanced_loop.induct)
  case (2 b bs i d q e)
  have "i \<le> j" using balanced_loop_bounds [OF "2.prems"] by simp
  then have t: "take (Suc j - i) (b # bs) = b # take (j - i) bs" by (simp add: Suc_diff_le)
  show ?case
    using "2.IH" "2.prems" by (simp only: t balanced_loop.simps) (auto split: if_splits)
qed simp

lemma json_slice_at:
  assumes "position (\<lambda>b. b = 0x7B) (drop pos utf) = Some offset"
    and "find_balanced_brace utf (pos + offset) = Some stop"
  shows "json_slice (take (stop + 1 - (pos + offset)) (drop (pos + offset) utf))"
proof -
  define start where "start = pos + offset"
  let ?r = "take (stop + 1 - start) (drop start utf)"
  have found: "balanced_loop (drop start utf) start 0 False False = Some stop"
    using assms(2) by (simp add: start_def find_balanced_brace_def)
  have bounds: "start \<le> stop" "stop < length utf"
    using find_balanced_bounds [OF assms(2)] by (simp_all add: start_def)
  have "map_option (\<lambda>j. j + start) (balanced_loop ?r 0 0 False False) = Some stop"
    using balanced_loop_take [OF found] balanced_loop_shift [of ?r 0 start 0 False False] by simp
  then have "balanced_loop ?r 0 0 False False = Some (stop - start)" by auto
  moreover have "utf ! start = 0x7B"
  proof -
    have "offset < length utf - pos" "drop pos utf ! offset = 0x7B"
      using position_SomeD [OF assms(1)] by simp_all
    then show ?thesis by (simp add: start_def)
  qed
  ultimately show ?thesis
    using bounds by (simp add: json_slice_def find_balanced_brace_def start_def [symmetric])
qed

lemma json_slices_sound:
  "(\<forall>r \<in> set (json_slices utf pos). json_slice r) \<and> sliced (drop pos utf) (json_slices utf pos)"
proof (induction utf pos rule: json_slices.induct)
  case (1 utf pos)
  show ?case
  proof (cases "position (\<lambda>b. b = 0x7B) (drop pos utf)")
    case None
    then show ?thesis by (simp add: json_slices.simps sliced_rest)
  next
    case (Some offset)
    note brace = this
    have split: "drop pos utf = take k (drop pos utf) @ drop (pos + k) utf" for k
      by (metis add.commute append_take_drop_id drop_drop)
    show ?thesis
    proof (cases "find_balanced_brace utf (pos + offset)")
      case None
      have "sliced (take (Suc offset) (drop pos utf) @ drop (pos + Suc offset) utf)
              (json_slices utf (pos + Suc offset))"
        using "1.IH"(1) [OF brace refl None] by (intro sliced_skip) simp
      then show ?thesis
        using None brace "1.IH"(1) [OF brace refl None] split [of "Suc offset"]
        by (simp add: json_slices.simps [of utf pos])
    next
      case (Some stop)
      let ?s = "pos + offset"
      have "?s \<le> stop" using find_balanced_bounds [OF Some] by simp
      then have "drop ?s utf = take (stop + 1 - ?s) (drop ?s utf) @ drop (stop + 1) utf"
        by (metis Suc_eq_plus1 append_take_drop_id drop_drop le_SucI le_add_diff_inverse2)
      then have parts: "drop pos utf =
          take offset (drop pos utf) @ take (stop + 1 - ?s) (drop ?s utf) @ drop (stop + 1) utf"
        using split [of offset] by simp
      have "json_slices utf pos =
          take (stop + 1 - ?s) (drop ?s utf) # json_slices utf (stop + 1)"
        using brace Some by (simp add: json_slices.simps [of utf pos] Let_def)
      moreover have "sliced (drop pos utf) (take (stop + 1 - ?s) (drop ?s utf) # json_slices utf (stop + 1))"
        using "1.IH"(2) [OF brace refl Some] by (subst parts, intro sliced_next) simp
      ultimately show ?thesis
        using "1.IH"(2) [OF brace refl Some] json_slice_at [OF brace Some] by simp
    qed
  qed
qed

end
