(* ===== verification/Chunk_Props.thy ===== *)
theory Chunk_Props
  imports Body_Walk Byte_Utils
begin

text \<open>
  The properties of the chunked-transfer walk, the body walk and the byte-slice helpers, over the
  lemmas of \<open>Chunked\<close>, \<open>Body_Walk\<close> and \<open>Byte_Utils\<close>.
\<close>

section \<open>The chunk walk\<close>

text \<open>a walk resumes: walking a piece of a chunked body and then, with the bytes the walk did not
  use put first, the next piece, ends in the same state, uses as many bytes and passes on the same
  data as walking both pieces at once. It never claims bytes it was not given.\<close>

lemma walk_resumes:
  "let (w1, u1, d1) = chunk_walk_walk w a;
       (w2, u2, d2) = chunk_walk_walk w1 (drop u1 a @ b);
       (w3, u3, d3) = chunk_walk_walk w (a @ b)
   in w3 = w2 \<and> u3 = u1 + u2 \<and> concat d3 = concat d1 @ concat d2 \<and> u1 \<le> length a"
proof -
  obtain s1 u1 d1 where w1: "walk (rules w) (state w) a = (s1, u1, d1)" by (metis prod.exhaust)
  obtain s2 u2 d2 where w2: "walk (rules w) s1 (drop u1 a @ b) = (s2, u2, d2)" by (metis prod.exhaust)
  from walk_more [OF w1 w2] obtain d where
    "walk (rules w) (state w) (a @ b) = (s2, u1 + u2, d)" "concat d = concat d1 @ concat d2" by blast
  with w1 w2 walk_used [OF w1] show ?thesis by (simp add: chunk_walk_walk_simp Let_def)
qed

text \<open>the walk reads back what a sender encodes: from its start it walks any chunks, each in hex
  length and CRLFs and closed by the empty chunk, to their end, uses every byte and passes on exactly
  the chunks. The rules matter only in the lines and sizes they allow.\<close>

lemma walk_decodes_chunks:
  assumes "17 \<le> max_line r"
    and "\<forall>c \<in> set cs. c \<noteq> [] \<and> length c \<le> max_size r \<and> length c \<le> usize_max"
  shows "chunk_walk_walk (chunk_walk_new r) (chunk_encode cs) =
           (\<lparr>rules = r, state = Ended\<rparr>, length (chunk_encode cs), cs)"
  using walk_chunk_encode [OF assms] by (simp add: chunk_walk_walk_def chunk_walk_new_def)

lemma walk_decodes_chunks_witness:
  "chunk_walk_walk (chunk_walk_new WALK_RULES) (chunk_encode [[1, 2], [3]]) =
     (\<lparr>rules = WALK_RULES, state = Ended\<rparr>, length (chunk_encode [[1, 2], [3]]), [[1, 2], [3]])"
  by (rule walk_decodes_chunks) (simp_all add: WALK_RULES_def MAX_LINE_def usize_max_def)

section \<open>The body walk\<close>

text \<open>a body's framing is followed to the same end however its bytes are cut into reads: the
  framing left, the line in progress and the data kept are those of the whole body in one read, for a
  body of known length and for a chunked one.\<close>

lemma body_walk_cuts_agree:
  "body_walk_view (fst (feeds body_walk_step (body_walk_new len) reads)) =
     body_walk_view (fst (body_walk_step (body_walk_new len) (concat reads))) \<and>
   concat (snd (feeds body_walk_step (body_walk_new len) reads)) =
     concat (snd (body_walk_step (body_walk_new len) (concat reads)))"
  by (rule body.feeds_concat [OF body_walk_new_inv])

section \<open>Byte slices\<close>

text \<open>the byte search that skips ahead by the needle's first byte finds what a search at every
  offset finds: the first occurrence, and \<open>None\<close> exactly when there is none.\<close>

lemma find_pattern_is_search:
  "find_pattern h p = find_sub p h \<and> (contains_pattern h p \<longleftrightarrow> (\<exists>a b. h = a @ p @ b))"
  by (simp add: find_pattern_eq_find_sub contains_pattern_iff)

text \<open>trimming cuts exactly the run of ASCII white space at the end.\<close>

lemma trim_trailing_whitespace_cuts:
  "\<exists>ws. buf = trim_trailing_whitespace buf @ ws \<and> list_all is_ascii_whitespace ws \<and>
     (case rev (trim_trailing_whitespace buf) of
        [] \<Rightarrow> True
      | b # _ \<Rightarrow> \<not> is_ascii_whitespace b)"
proof (intro exI conjI)
  let ?n = "trim_end_at buf (length buf)"
  have n: "?n \<le> length buf" "\<forall>j. ?n \<le> j \<and> j < length buf \<longrightarrow> is_ascii_whitespace (buf ! j)"
    "0 < ?n \<longrightarrow> \<not> is_ascii_whitespace (buf ! (?n - 1))"
    using trim_end_at_spec [of "length buf" buf] by auto
  show "buf = trim_trailing_whitespace buf @ drop ?n buf"
    by (simp add: trim_trailing_whitespace_def)
  show "list_all is_ascii_whitespace (drop ?n buf)"
    using n(2) by (simp add: list_all_length)
  show "case rev (trim_trailing_whitespace buf) of [] \<Rightarrow> True | b # _ \<Rightarrow> \<not> is_ascii_whitespace b"
  proof (cases "?n = 0")
    case False
    then have "rev (take ?n buf) \<noteq> []" using n(1) by auto
    moreover have "last (take ?n buf) = buf ! (?n - 1)"
      using False n(1) by (subst last_conv_nth) auto
    ultimately show ?thesis
      using n(3) False unfolding trim_trailing_whitespace_def
      by (cases "rev (take ?n buf)") (auto simp: last_rev hd_rev [symmetric] split: list.splits)
  qed (simp add: trim_trailing_whitespace_def)
qed

text \<open>a whole chunked body, as a sender encodes it, is decoded to its data; the fallback that
  returns the buffer as it came is taken only for bodies without data.\<close>

lemma decode_chunked_body_roundtrip:
  assumes "\<forall>c \<in> set cs. c \<noteq> [] \<and> length c \<le> usize_max" "cs \<noteq> []"
  shows "decode_chunked_body (chunk_encode cs) = concat cs"
  by (rule decode_chunk_encode [OF assms])

lemma decode_chunked_body_roundtrip_witness:
  "decode_chunked_body (chunk_encode [[0x7B], [0x7D]]) = [0x7B, 0x7D]"
  using decode_chunked_body_roundtrip [of "[[0x7B], [0x7D]]"] by (simp add: usize_max_def)

text \<open>the JSON objects found in a buffer are disjoint slices of its text in order, each starting at
  a brace whose match, strings and escapes read as JSON reads them, is the slice's last byte; and the
  n-th object a separate scan looks for is the n-th of them.\<close>

lemma json_objects_are_slices:
  "sliced (utf8_lossy buffer) (extract_h2_json_all buffer) \<and>
   list_all json_slice (extract_h2_json_all buffer) \<and>
   extract_h2_json_nth buffer n =
     (if n < length (extract_h2_json_all buffer) then extract_h2_json_all buffer ! n else [])"
  using json_slices_sound [of "utf8_lossy buffer" 0] json_nth_from_slices [of 0 n "utf8_lossy buffer" 0]
  by (simp add: extract_h2_json_all_def extract_h2_json_nth_def list_all_iff Let_def)

end
