(* ===== verification/Huffman.thy ===== *)
theory Huffman
  imports Prelude
begin

text \<open>
  The HPACK Huffman code (honeybeepf-llm-core/src/h2/huffman.rs): the canonical tables the build
  computes from the code lengths, and the bit-at-a-time decoder over them. Here the tables are
  shown to be a canonical code: each length's codes follow twice the codes before it, the code is
  complete, and every symbol is at its length's first index plus its rank.
\<close>

datatype hpack_error = Truncated | IntegerOverflow | Huffman | BadIndex | TableSize

unbundle bit_operations_syntax

section \<open>The tables\<close>

definition LENGTHS :: "nat list" where
  "LENGTHS = [
    13, 23, 28, 28, 28, 28, 28, 28, 28, 24, 30, 28, 28, 30, 28, 28, 28, 28, 28, 28, 28, 28, 30, 28, 28, 28, 28, 28, 28, 28, 28, 28,
    6, 10, 10, 12, 13, 6, 8, 11, 10, 10, 8, 11, 8, 6, 6, 6, 5, 5, 5, 6, 6, 6, 6, 6, 6, 6, 7, 8, 15, 6, 12, 10,
    13, 6, 7, 7, 7, 7, 7, 7, 7, 7, 7, 7, 7, 7, 7, 7, 7, 7, 7, 7, 7, 7, 7, 7, 8, 7, 8, 13, 19, 13, 14, 6,
    15, 5, 6, 5, 6, 5, 6, 6, 6, 5, 7, 7, 6, 6, 6, 5, 6, 7, 6, 5, 5, 6, 7, 7, 7, 7, 7, 15, 11, 14, 13, 28,
    20, 22, 20, 20, 22, 22, 22, 23, 22, 23, 23, 23, 23, 23, 24, 23, 24, 24, 22, 23, 24, 23, 23, 23, 23, 21, 22, 23, 22, 23, 23, 24,
    22, 21, 20, 22, 22, 23, 23, 21, 23, 22, 22, 24, 21, 22, 23, 23, 21, 21, 22, 21, 23, 22, 23, 23, 20, 22, 22, 22, 23, 22, 22, 23,
    26, 26, 20, 19, 22, 23, 22, 25, 26, 26, 26, 27, 27, 26, 24, 25, 19, 21, 26, 27, 27, 26, 27, 24, 21, 21, 26, 26, 28, 27, 27, 27,
    20, 24, 20, 21, 22, 21, 21, 23, 22, 22, 25, 25, 24, 24, 26, 23, 26, 27, 26, 26, 27, 27, 27, 27, 27, 28, 27, 27, 27, 27, 27, 26,
    30]"

definition EOS :: nat where "EOS = 256"

definition MAX_LEN :: nat where "MAX_LEN = 30"

record canonical =
  symbols :: "nat list"
  first_code :: "nat list"
  first_index :: "nat list"
  counts :: "nat list"

text \<open>The three loops of \<open>canonical()\<close>.\<close>

definition count_lengths :: "nat list \<Rightarrow> nat list" where
  "count_lengths lengths = fold (\<lambda>l c. c[l := c ! l + 1]) lengths (replicate (MAX_LEN + 1) 0)"

fun layout :: "nat list \<Rightarrow> nat \<Rightarrow> nat \<Rightarrow> nat list \<times> nat list" where
  "layout [] code index = ([], [])"
| "layout (c # cs) code index =
     (let (codes, indexes) = layout cs (2 * (code + c)) (index + c) in (code # codes, index # indexes))"

fun place :: "nat list \<Rightarrow> nat \<Rightarrow> nat list \<Rightarrow> nat list \<Rightarrow> nat list" where
  "place [] s nxt syms = syms"
| "place (l # ls) s nxt syms =
     place ls (s + 1) (nxt[l := nxt ! l + 1]) (syms[nxt ! l := s])"

definition canonical_of :: "nat list \<Rightarrow> canonical" where
  "canonical_of lengths =
     (let c = count_lengths lengths;
          (codes, indexes) = layout (tl c) 0 0;
          first_index = 0 # indexes
      in \<lparr>symbols = place lengths 0 first_index (replicate (length lengths) 0),
          first_code = 0 # codes, first_index = first_index, counts = c\<rparr>)"

definition CODE :: canonical where "CODE = canonical_of LENGTHS"

section \<open>The tables are a canonical code\<close>

text \<open>How many lengths are \<open>l\<close>, and a symbol's rank among the symbols of its length.\<close>

abbreviation occurs :: "nat list \<Rightarrow> nat \<Rightarrow> nat" where
  "occurs ls l \<equiv> length (filter ((=) l) ls)"

definition rank :: "nat list \<Rightarrow> nat \<Rightarrow> nat" where
  "rank ls s = occurs (take s ls) (ls ! s)"

lemma fold_count:
  "length c = 31 \<Longrightarrow> \<forall>l \<in> set ls. l \<le> 30 \<Longrightarrow>
     length (fold (\<lambda>l c. c[l := c ! l + 1]) ls c) = 31 \<and>
     (\<forall>l \<le> 30. fold (\<lambda>l c. c[l := c ! l + 1]) ls c ! l = c ! l + occurs ls l)"
  by (induction ls arbitrary: c) (auto simp: nth_list_update)

lemma count_lengths_nth:
  assumes "\<forall>l \<in> set ls. l \<le> 30"
  shows "length (count_lengths ls) = 31" and "l \<le> 30 \<Longrightarrow> count_lengths ls ! l = occurs ls l"
  using fold_count [of "replicate 31 0" ls] assms
  by (simp_all add: count_lengths_def MAX_LEN_def)

lemma layout_length: "layout cs code index = (a, b) \<Longrightarrow> length a = length cs \<and> length b = length cs"
  by (induction cs code index arbitrary: a b rule: layout.induct) (auto simp: Let_def split: prod.splits)

lemma layout_nth:
  "layout cs code index = (a, b) \<Longrightarrow> cs \<noteq> [] \<Longrightarrow>
     a ! 0 = code \<and> b ! 0 = index \<and>
     (\<forall>i. Suc i < length cs \<longrightarrow> a ! Suc i = 2 * (a ! i + cs ! i) \<and> b ! Suc i = b ! i + cs ! i)"
proof (induction cs code index arbitrary: a b rule: layout.induct)
  case (2 c cs code index)
  obtain a' b' where rest: "layout cs (2 * (code + c)) (index + c) = (a', b')" by fastforce
  then have ab: "a = code # a'" "b = index # b'" using "2.prems" by auto
  show ?case
  proof (cases cs)
    case Nil
    then show ?thesis using ab by simp
  next
    case (Cons d ds)
    with "2.IH" [OF rest] ab show ?thesis by (auto simp: nth_Cons split: nat.splits)
  qed
qed simp

lemma rank_less: "s < length ls \<Longrightarrow> rank ls s < occurs ls (ls ! s)"
proof -
  assume s: "s < length ls"
  define x where "x = ls ! s"
  have "occurs (take s ls @ x # drop (Suc s) ls) x = occurs (take s ls) x + Suc (occurs (drop (Suc s) ls) x)"
    by simp
  moreover have "take s ls @ x # drop (Suc s) ls = ls"
    unfolding x_def using s by (rule id_take_nth_drop [symmetric])
  ultimately show ?thesis by (simp add: rank_def x_def [symmetric])
qed

lemma rank_surj:
  "k < occurs ls l \<Longrightarrow> \<exists>s < length ls. ls ! s = l \<and> rank ls s = k"
proof (induction ls rule: rev_induct)
  case (snoc x xs)
  show ?case
  proof (cases "k < occurs xs l")
    case True
    with snoc.IH obtain s where "s < length xs" "xs ! s = l" "rank xs s = k" by auto
    then show ?thesis by (intro exI [of _ s]) (simp add: rank_def nth_append)
  next
    case False
    with snoc.prems have "x = l" "k = occurs xs l" by (auto split: if_splits)
    then show ?thesis by (intro exI [of _ "length xs"]) (simp add: rank_def)
  qed
qed simp

text \<open>
  Where a symbol goes: its length's first index plus its rank. The regions of the lengths follow
  each other, so no two symbols share a place.
\<close>

lemma regions:
  fixes f g :: "nat \<Rightarrow> nat"
  assumes step: "\<And>l. 1 \<le> l \<Longrightarrow> l < 30 \<Longrightarrow> f (Suc l) = f l + g l"
    and l: "1 \<le> l" "l < k" "k \<le> 30"
  shows "f l + g l \<le> f k"
  using l
proof (induction k)
  case (Suc k)
  show ?case
  proof (cases "l = k")
    case True
    then show ?thesis using step [of k] Suc.prems by simp
  next
    case False
    then show ?thesis using step [of k] Suc by simp
  qed
qed simp

lemma place_nth:
  fixes start :: "nat \<Rightarrow> nat"
  assumes inj: "inj_on (\<lambda>t. start (all ! t) + rank all t) {..<length all}"
    and room: "\<And>t. t < length all \<Longrightarrow> start (all ! t) + rank all t < n"
    and small: "\<forall>l \<in> set all. l \<le> 30"
  shows "all = pre @ ls \<Longrightarrow> length nxt = 31 \<Longrightarrow> length syms = n \<Longrightarrow>
     \<forall>l \<le> 30. nxt ! l = start l + occurs pre l \<Longrightarrow>
     \<forall>t < length pre. syms ! (start (all ! t) + rank all t) = t \<Longrightarrow>
     \<forall>t < length all. place ls (length pre) nxt syms ! (start (all ! t) + rank all t) = t"
proof (induction ls arbitrary: pre nxt syms)
  case Nil
  then show ?case by simp
next
  case (Cons l ls)
  let ?s = "length pre"
  have at: "all ! ?s = l" "rank all ?s = occurs pre l" "?s < length all" "l \<le> 30"
    using Cons.prems(1) small by (simp_all add: rank_def)
  have slot: "nxt ! l = start (all ! ?s) + rank all ?s" using Cons.prems(4) at by simp
  have "\<forall>t < length (pre @ [l]). syms[nxt ! l := ?s] ! (start (all ! t) + rank all t) = t"
  proof (intro allI impI)
    fix t
    assume t: "t < length (pre @ [l])"
    show "syms[nxt ! l := ?s] ! (start (all ! t) + rank all t) = t"
    proof (cases "t = ?s")
      case True
      then show ?thesis using slot room [OF at(3)] Cons.prems(3) by simp
    next
      case False
      then have "start (all ! t) + rank all t \<noteq> nxt ! l"
        using inj_onD [OF inj, of t ?s] slot t at(3) by auto
      then show ?thesis using Cons.prems(5) t False by (simp add: less_Suc_eq)
    qed
  qed
  moreover have "\<forall>k \<le> 30. nxt[l := nxt ! l + 1] ! k = start k + occurs (pre @ [l]) k"
    using Cons.prems(2,4) at(4) by (auto simp: nth_list_update)
  ultimately show ?case
    using Cons.IH [of "pre @ [l]" "nxt[l := nxt ! l + 1]" "syms[nxt ! l := ?s]"] Cons.prems
    by simp
qed

abbreviation "fc l \<equiv> first_code CODE ! l"
abbreviation "fi l \<equiv> first_index CODE ! l"
abbreviation "cnt l \<equiv> counts CODE ! l"

lemma length_LENGTHS: "length LENGTHS = 257"
  by (simp add: LENGTHS_def)

lemma LENGTHS_range: "\<forall>l \<in> set LENGTHS. 5 \<le> l \<and> l \<le> 30"
  by (simp add: LENGTHS_def)

lemma LENGTHS_nth: "s < 257 \<Longrightarrow> 5 \<le> LENGTHS ! s \<and> LENGTHS ! s \<le> 30"
  using LENGTHS_range length_LENGTHS by (metis nth_mem)

lemma cnt_occurs: "l \<le> 30 \<Longrightarrow> cnt l = occurs LENGTHS l"
  using count_lengths_nth(2) [of LENGTHS l] LENGTHS_range
  by (simp add: CODE_def canonical_of_def Let_def case_prod_beta)

lemma CODE_tables:
  "first_code CODE = 0 # fst (layout (tl (counts CODE)) 0 0)"
  "first_index CODE = 0 # snd (layout (tl (counts CODE)) 0 0)"
  "symbols CODE = place LENGTHS 0 (first_index CODE) (replicate 257 0)"
  by (simp_all add: CODE_def canonical_of_def Let_def case_prod_beta length_LENGTHS)

lemma length_counts: "length (counts CODE) = 31"
  using count_lengths_nth(1) [of LENGTHS] LENGTHS_range
  by (simp add: CODE_def canonical_of_def Let_def case_prod_beta)

lemma layout_counts:
  "fst (layout (tl (counts CODE)) 0 0) ! 0 = 0" "snd (layout (tl (counts CODE)) 0 0) ! 0 = 0"
  "Suc i < 30 \<Longrightarrow> fst (layout (tl (counts CODE)) 0 0) ! Suc i =
     2 * (fst (layout (tl (counts CODE)) 0 0) ! i + counts CODE ! Suc i)"
  "Suc i < 30 \<Longrightarrow> snd (layout (tl (counts CODE)) 0 0) ! Suc i =
     snd (layout (tl (counts CODE)) 0 0) ! i + counts CODE ! Suc i"
proof -
  have len: "length (tl (counts CODE)) = 30" using length_counts by simp
  then have "tl (counts CODE) \<noteq> []" by (metis list.size(3) zero_neq_numeral)
  note facts = layout_nth [OF prod.collapse [symmetric] this, of 0 0]
  show "fst (layout (tl (counts CODE)) 0 0) ! 0 = 0" "snd (layout (tl (counts CODE)) 0 0) ! 0 = 0"
    using facts by blast+
  assume i: "Suc i < 30"
  then have "tl (counts CODE) ! i = counts CODE ! Suc i" using len by (intro nth_tl) simp
  with facts i len
  show "fst (layout (tl (counts CODE)) 0 0) ! Suc i =
      2 * (fst (layout (tl (counts CODE)) 0 0) ! i + counts CODE ! Suc i)"
    and "snd (layout (tl (counts CODE)) 0 0) ! Suc i =
      snd (layout (tl (counts CODE)) 0 0) ! i + counts CODE ! Suc i"
    by metis+
qed

lemma tables_start: "fc 0 = 0" "fi 0 = 0" "fc 1 = 0" "fi 1 = 0"
  using layout_counts(1,2) by (simp_all add: CODE_tables)

lemma tables_step:
  assumes "1 \<le> l" "l < 30"
  shows "fc (Suc l) = 2 * (fc l + cnt l)" and "fi (Suc l) = fi l + cnt l"
proof -
  obtain k where "l = Suc k" using assms(1) by (cases l) auto
  then show "fc (Suc l) = 2 * (fc l + cnt l)" "fi (Suc l) = fi l + cnt l"
    using layout_counts(3,4) [of k] assms(2) by (simp_all add: CODE_tables(1,2))
qed

lemma counts_are:
  "cnt 1 = 0" "cnt 2 = 0" "cnt 3 = 0" "cnt 4 = 0" "cnt 5 = 10" "cnt 6 = 26" "cnt 7 = 32" "cnt 8 = 6"
  "cnt 9 = 0" "cnt 10 = 5" "cnt 11 = 3" "cnt 12 = 2" "cnt 13 = 6" "cnt 14 = 2" "cnt 15 = 3"
  "cnt 16 = 0" "cnt 17 = 0" "cnt 18 = 0" "cnt 19 = 3" "cnt 20 = 8" "cnt 21 = 13" "cnt 22 = 26"
  "cnt 23 = 29" "cnt 24 = 12" "cnt 25 = 4" "cnt 26 = 15" "cnt 27 = 19" "cnt 28 = 29" "cnt 29 = 0"
  "cnt 30 = 4"
  by (simp_all add: cnt_occurs LENGTHS_def)

text \<open>The code is complete (its codes of length 30 end at 2^30), and the regions fill the table.\<close>

lemma code_complete: "fc 30 + cnt 30 = 2 ^ 30" "fi 30 + cnt 30 = 257"
proof -
  note step = tables_step
  have "fc 2 = 0 \<and> fi 2 = 0"
    using step [of 1] tables_start counts_are by (simp add: numeral_2_eq_2)
  then have "fc 5 = 0 \<and> fi 5 = 0"
    using step [of 2] step [of 3] step [of 4] counts_are by simp
  then have "fc 10 = 1016 \<and> fi 10 = 74"
    using step [of 5] step [of 6] step [of 7] step [of 8] step [of 9] counts_are by simp
  then have "fc 15 = 32764 \<and> fi 15 = 92"
    using step [of 10] step [of 11] step [of 12] step [of 13] step [of 14] counts_are by simp
  then have "fc 20 = 1048550 \<and> fi 20 = 98"
    using step [of 15] step [of 16] step [of 17] step [of 18] step [of 19] counts_are by simp
  then have "fc 25 = 33554412 \<and> fi 25 = 186"
    using step [of 20] step [of 21] step [of 22] step [of 23] step [of 24] counts_are by simp
  then show "fc 30 + cnt 30 = 2 ^ 30" "fi 30 + cnt 30 = 257"
    using step [of 25] step [of 26] step [of 27] step [of 28] step [of 29] counts_are by simp_all
qed

text \<open>Every symbol is at its place, and every place of a region holds the symbol of that rank.\<close>

lemma region_end: "1 \<le> l \<Longrightarrow> l \<le> 30 \<Longrightarrow> fi l + cnt l \<le> 257"
  using regions [of "\<lambda>l. fi l" "\<lambda>l. cnt l" l 30] tables_step(2) code_complete
  by (cases "l = 30") auto

lemma region_before:
  assumes "1 \<le> l" "l < k" "k \<le> 30"
  shows "fi l + cnt l \<le> fi k"
  using assms by (intro regions [where f = "\<lambda>l. fi l" and g = "\<lambda>l. cnt l"] tables_step(2))

lemma symbols_nth:
  assumes "s < 257"
  shows "symbols CODE ! (fi (LENGTHS ! s) + rank LENGTHS s) = s"
proof -
  let ?slot = "\<lambda>t. fi (LENGTHS ! t) + rank LENGTHS t"
  have rank: "rank LENGTHS t < cnt (LENGTHS ! t)" if "t < 257" for t
    using rank_less [of t LENGTHS] LENGTHS_nth [OF that] that
    by (simp add: cnt_occurs length_LENGTHS)
  have "inj_on ?slot {..<length LENGTHS}"
  proof (rule inj_onI)
    fix t u
    assume tu: "t \<in> {..<length LENGTHS}" "u \<in> {..<length LENGTHS}" and eq: "?slot t = ?slot u"
    then have t: "t < 257" and u: "u < 257" by (simp_all add: length_LENGTHS)
    have same: "LENGTHS ! t = LENGTHS ! u"
      using rank [OF t] rank [OF u] eq LENGTHS_nth [OF t] LENGTHS_nth [OF u]
        region_before [of "LENGTHS ! t" "LENGTHS ! u"] region_before [of "LENGTHS ! u" "LENGTHS ! t"]
      by (cases rule: linorder_cases [of "LENGTHS ! t" "LENGTHS ! u"]) simp_all
    with eq have ranks: "occurs (take t LENGTHS) (LENGTHS ! t) = occurs (take u LENGTHS) (LENGTHS ! t)"
      by (simp add: rank_def)
    have step: "occurs (take v LENGTHS) (LENGTHS ! v) < occurs (take w LENGTHS) (LENGTHS ! v)"
      if "v < w" "w < 257" for v w
      using that rank_less [of v "take w LENGTHS"] by (simp add: rank_def length_LENGTHS min_def)
    show "t = u"
      using step [of t u] step [of u t] ranks same t u by (cases rule: linorder_cases [of t u]) simp_all
  qed
  moreover have "?slot t < 257" if "t < length LENGTHS" for t
  proof -
    have "t < 257" using that by (simp add: length_LENGTHS)
    then show ?thesis using rank [of t] region_end [of "LENGTHS ! t"] LENGTHS_nth [of t] by simp
  qed
  ultimately show ?thesis
    using place_nth [where start = "\<lambda>l. fi l" and all = LENGTHS and n = 257 and pre = "[]"
        and ls = LENGTHS and nxt = "first_index CODE" and syms = "replicate 257 0"]
      LENGTHS_range assms layout_length [OF prod.collapse [symmetric], of "tl (counts CODE)" 0 0]
      length_counts
    by (simp add: CODE_tables(3) length_LENGTHS) (simp add: CODE_tables(2))
qed

lemma region_symbol:
  assumes "1 \<le> l" "l \<le> 30" "k < cnt l"
  shows "\<exists>s < 257. LENGTHS ! s = l \<and> rank LENGTHS s = k \<and> symbols CODE ! (fi l + k) = s"
proof -
  obtain s where "s < 257" "LENGTHS ! s = l" "rank LENGTHS s = k"
    using rank_surj [of k l LENGTHS] assms by (auto simp: cnt_occurs length_LENGTHS)
  then show ?thesis using symbols_nth [of s] by auto
qed

section \<open>Decoding\<close>

definition bits_of_byte :: "u8 \<Rightarrow> bool list" where
  "bits_of_byte b = map (bit b) [7, 6, 5, 4, 3, 2, 1, 0]"

text \<open>The body of the two nested loops, a bit at a time, and the check of the padding after them.\<close>

fun decode_bits :: "u32 \<Rightarrow> nat \<Rightarrow> bytes \<Rightarrow> bool list \<Rightarrow> bytes \<times> hpack_error option" where
  "decode_bits code len out [] =
     (out, if len > 7 \<or> code \<noteq> push_bit len 1 - 1 then Some Huffman else None)"
| "decode_bits code len out (b # bs) =
     (let code = push_bit 1 code OR of_bool b;
          len = len + 1;
          offset = code - of_nat (first_code CODE ! len)
      in if offset < of_nat (counts CODE ! len) then
           let symbol = symbols CODE ! (first_index CODE ! len + unat offset)
           in if symbol = EOS then (out, Some Huffman)
              else decode_bits 0 0 (out @ [of_nat symbol]) bs
         else if len = MAX_LEN then (out, Some Huffman)
         else decode_bits code len out bs)"

definition huffman_decode :: "bytes \<Rightarrow> bytes \<Rightarrow> bytes \<times> hpack_error option" where
  "huffman_decode input out = decode_bits 0 0 out (concat (map bits_of_byte input))"

end
