(* ===== verification/Huffman_Code.thy ===== *)
theory Huffman_Code
  imports Huffman "HOL-Library.Sublist"
begin

text \<open>
  The Huffman code as bit strings, and what the decoder accepts: exactly the codings of byte strings
  followed by at most seven ones. The code is prefix-free and complete, so the decoder's bits since
  the last symbol are never a code's continuation, and its table index never passes \<open>MAX_LEN\<close>.
\<close>

section \<open>The code as bit strings\<close>

text \<open>A bit string read as a number, and a symbol's code (RFC 7541 Appendix B, canonical form).\<close>

definition val :: "bool list \<Rightarrow> nat" where
  "val p = foldl (\<lambda>v b. 2 * v + of_bool b) 0 p"

definition huffman_code :: "nat \<Rightarrow> bool list" where
  "huffman_code s =
     map (\<lambda>k. odd ((fc (LENGTHS ! s) + rank LENGTHS s) div 2 ^ k)) (rev [0..<LENGTHS ! s])"

definition huffman_coding :: "bytes \<Rightarrow> bool list" where
  "huffman_coding t = concat (map (\<lambda>b. huffman_code (unat b)) t)"

lemma val_simps [simp]: "val [] = 0" "val (p @ [b]) = 2 * val p + of_bool b"
  by (simp_all add: val_def)

lemma val_append: "val (p @ q) = val p * 2 ^ length q + val q"
proof (induction q rule: rev_induct)
  case (snoc b q)
  have "val (p @ q @ [b]) = 2 * val (p @ q) + of_bool b"
    using val_simps(2) [of "p @ q" b] by simp
  then show ?case using snoc by (simp add: algebra_simps)
qed simp

lemma val_less: "val p < 2 ^ length p"
  by (induction p rule: rev_induct) auto

lemma val_inject: "length p = length q \<Longrightarrow> val p = val q \<Longrightarrow> p = q"
proof (induction p arbitrary: q rule: rev_induct)
  case (snoc b p)
  then obtain q' c where q: "q = q' @ [c]" "length p = length q'"
    by (cases q rule: rev_cases) auto
  with snoc.prems(2) have "2 * val p + of_bool b = 2 * val q' + of_bool c" by simp
  then have "b = c" "val p = val q'" by (cases b; cases c; simp; presburger)+
  with snoc.IH q show ?case by simp
qed simp

lemma val_bits: "val (map (\<lambda>k. odd (v div 2 ^ k)) (rev [0..<l])) = v mod 2 ^ l"
proof (induction l)
  case (Suc l)
  have "val (map (\<lambda>k. odd (v div 2 ^ k)) (rev [0..<Suc l])) =
      val ([odd (v div 2 ^ l)] @ map (\<lambda>k. odd (v div 2 ^ k)) (rev [0..<l]))"
    by simp
  also have "\<dots> = of_bool (odd (v div 2 ^ l)) * 2 ^ l + v mod 2 ^ l"
    by (simp only: val_append Suc.IH) (simp add: val_def)
  also have "\<dots> = v mod 2 ^ Suc l"
    by (simp only: power_Suc2 mod_mult2_eq mod_2_eq_odd) (simp add: mult.commute)
  finally show ?case .
qed simp

lemma val_ones: "val (replicate n True) = 2 ^ n - 1"
proof (induction n)
  case (Suc n)
  have "replicate (Suc n) True = replicate n True @ [True]" by (simp add: replicate_append_same)
  then have "val (replicate (Suc n) True) = 2 * (2 ^ n - 1) + 1" using Suc by simp
  moreover have "2 * (x - 1) + 1 = 2 * x - (1 :: nat)" if "0 < x" for x using that by arith
  ultimately show ?case by simp
qed simp

definition is_code :: "bool list \<Rightarrow> bool" where
  "is_code p \<longleftrightarrow> 1 \<le> length p \<and> length p \<le> 30 \<and>
     fc (length p) \<le> val p \<and> val p < fc (length p) + cnt (length p)"

text \<open>The bits read since the last symbol: no code yet, and no code's continuation.\<close>

definition pending :: "bool list \<Rightarrow> bool" where
  "pending p \<longleftrightarrow> length p < 30 \<and> (p \<noteq> [] \<longrightarrow> fc (length p) + cnt (length p) \<le> val p)"

lemma codes_grow:
  assumes "1 \<le> l" "k \<le> 30"
  shows "l < k \<Longrightarrow> 2 ^ (k - l) * (fc l + cnt l) \<le> fc k"
  using assms(2)
proof (induction k)
  case (Suc k)
  show ?case
  proof (cases "l = k")
    case True
    then show ?thesis using tables_step(1) [of k] assms(1) Suc.prems by simp
  next
    case False
    then have lk: "l < k" "k < 30" using Suc.prems by simp_all
    then have "2 ^ (Suc k - l) * (fc l + cnt l) = 2 * (2 ^ (k - l) * (fc l + cnt l))"
      by (simp add: Suc_diff_le)
    also have "\<dots> \<le> 2 * (fc k + cnt k)" using Suc.IH lk by simp
    also have "\<dots> = fc (Suc k)" using tables_step(1) [of k] lk assms(1) by simp
    finally show ?thesis .
  qed
qed simp

lemma code_below: "1 \<le> l \<Longrightarrow> l \<le> 30 \<Longrightarrow> fc l + cnt l \<le> 2 ^ l"
  and code_below_strict: "1 \<le> l \<Longrightarrow> l < 30 \<Longrightarrow> fc l + cnt l < 2 ^ l"
proof -
  show strict: "fc l + cnt l < 2 ^ l" if "1 \<le> l" "l < 30" for l
  proof -
    have "(2 :: nat) ^ 30 = 2 ^ (30 - l) * 2 ^ l" using that by (simp add: power_add [symmetric])
    moreover have "2 ^ (30 - l) * (fc l + cnt l) < 2 ^ 30"
      using codes_grow [of l 30] that code_complete(1) counts_are(30) by simp
    ultimately have "(2 :: nat) ^ (30 - l) * (fc l + cnt l) < 2 ^ (30 - l) * 2 ^ l" by simp
    then show ?thesis by (simp only: mult_less_cancel1)
  qed
  show "1 \<le> l \<Longrightarrow> l \<le> 30 \<Longrightarrow> fc l + cnt l \<le> 2 ^ l"
    using strict [of l] code_complete(1) by (cases "l = 30") auto
qed

lemma length_huffman_code: "s < 257 \<Longrightarrow> length (huffman_code s) = LENGTHS ! s"
  by (simp add: huffman_code_def)

lemma val_huffman_code: "s < 257 \<Longrightarrow> val (huffman_code s) = fc (LENGTHS ! s) + rank LENGTHS s"
  and rank_cnt: "s < 257 \<Longrightarrow> rank LENGTHS s < cnt (LENGTHS ! s)"
proof -
  assume s: "s < 257"
  show rank: "rank LENGTHS s < cnt (LENGTHS ! s)"
    using rank_less [of s LENGTHS] LENGTHS_nth [OF s] s by (simp add: cnt_occurs length_LENGTHS)
  have "fc (LENGTHS ! s) + rank LENGTHS s < 2 ^ (LENGTHS ! s)"
    using rank code_below [of "LENGTHS ! s"] LENGTHS_nth [OF s] by simp
  then show "val (huffman_code s) = fc (LENGTHS ! s) + rank LENGTHS s"
    by (simp add: huffman_code_def val_bits)
qed

lemma is_code_huffman_code: "s < 257 \<Longrightarrow> is_code (huffman_code s)"
  using LENGTHS_nth [of s] rank_cnt [of s]
  by (simp add: is_code_def length_huffman_code val_huffman_code)

lemma is_code_symbol:
  assumes "is_code p"
  shows "\<exists>s < 257. p = huffman_code s \<and> symbols CODE ! (fi (length p) + (val p - fc (length p))) = s"
proof -
  have "val p - fc (length p) < cnt (length p)" using assms by (auto simp: is_code_def)
  moreover have "1 \<le> length p" "length p \<le> 30" using assms by (simp_all add: is_code_def)
  ultimately obtain s where s: "s < 257" "LENGTHS ! s = length p"
    "rank LENGTHS s = val p - fc (length p)"
    "symbols CODE ! (fi (length p) + (val p - fc (length p))) = s"
    using region_symbol by blast
  moreover have "p = huffman_code s"
    using s assms
    by (intro val_inject) (simp_all add: length_huffman_code val_huffman_code is_code_def)
  ultimately show ?thesis by auto
qed

lemma huffman_code_inject:
  assumes "s < 257" "t < 257" "huffman_code s = huffman_code t"
  shows "s = t"
proof -
  have len: "LENGTHS ! s = LENGTHS ! t"
    using arg_cong [OF assms(3), of length]
    by (simp only: length_huffman_code [OF assms(1)] length_huffman_code [OF assms(2)])
  have ranks: "rank LENGTHS s = rank LENGTHS t"
    using arg_cong [OF assms(3), of val] len
    by (simp only: val_huffman_code [OF assms(1)] val_huffman_code [OF assms(2)] add_left_cancel)
  have "s = symbols CODE ! (fi (LENGTHS ! s) + rank LENGTHS s)"
    by (rule symbols_nth [OF assms(1), symmetric])
  also have "\<dots> = symbols CODE ! (fi (LENGTHS ! t) + rank LENGTHS t)" by (simp only: len ranks)
  also have "\<dots> = t" by (rule symbols_nth [OF assms(2)])
  finally show ?thesis .
qed

lemma code_extended_less:
  assumes "is_code p"
  shows "val (p @ q) < 2 ^ length q * (fc (length p) + cnt (length p))"
proof -
  have "val (p @ q) < 2 ^ length q * (val p + 1)"
    using val_less [of q] by (simp add: val_append algebra_simps)
  also have "\<dots> \<le> 2 ^ length q * (fc (length p) + cnt (length p))"
    using assms by (intro mult_le_mono2) (simp add: is_code_def)
  finally show ?thesis .
qed

lemma pending_no_code:
  assumes "pending (p @ q)" shows "\<not> is_code p"
proof
  assume code: "is_code p"
  show False
  proof (cases "q = []")
    case True
    then show ?thesis using assms code by (auto simp: pending_def is_code_def)
  next
    case False
    have "val (p @ q) < 2 ^ length q * (fc (length p) + cnt (length p))"
      by (rule code_extended_less [OF code])
    also have "\<dots> \<le> fc (length (p @ q))"
      using codes_grow [of "length p" "length (p @ q)"] code assms False
      by (simp add: is_code_def pending_def)
    also have "\<dots> \<le> val (p @ q)" using assms False by (simp add: pending_def)
    finally show False by simp
  qed
qed

lemma is_code_prefix:
  assumes "is_code p" "is_code (p @ q)" shows "q = []"
proof (rule ccontr)
  assume "q \<noteq> []"
  have "val (p @ q) < 2 ^ length q * (fc (length p) + cnt (length p))"
      by (rule code_extended_less [OF assms(1)])
  also have "\<dots> \<le> fc (length (p @ q))"
    using codes_grow [of "length p" "length (p @ q)"] assms \<open>q \<noteq> []\<close> by (simp add: is_code_def)
  also have "\<dots> \<le> val (p @ q)" using assms(2) by (simp add: is_code_def)
  finally show False by simp
qed

lemma ones_no_code: "n < 30 \<Longrightarrow> \<not> is_code (replicate n True)"
  using code_below_strict [of n] by (auto simp: is_code_def val_ones)

lemma pending_step:
  assumes "pending p" "\<not> is_code (p @ [b])"
  shows "pending (p @ [b])"
proof -
  have grow: "fc (Suc (length p)) \<le> val (p @ [b])"
  proof (cases "p = []")
    case True
    then show ?thesis using tables_start by simp
  next
    case False
    then have "fc (Suc (length p)) = 2 * (fc (length p) + cnt (length p))"
      using assms(1) by (intro tables_step(1)) (auto simp: pending_def Suc_le_eq)
    then show ?thesis using assms(1) False by (simp add: pending_def)
  qed
  then have past: "fc (Suc (length p)) + cnt (Suc (length p)) \<le> val (p @ [b])"
    using assms by (auto simp: is_code_def pending_def)
  moreover have "Suc (length p) \<noteq> 30"
    using past code_complete(1) val_less [of "p @ [b]"] by auto
  ultimately show ?thesis using assms(1) by (simp add: pending_def)
qed

section \<open>What the decoder accepts\<close>

text \<open>One step over a pending bit string: the word arithmetic finds exactly the codes.\<close>

lemma unat_val: "length p \<le> 31 \<Longrightarrow> unat (of_nat (val p) :: u32) = val p"
proof -
  assume "length p \<le> 31"
  then have "(2 :: nat) ^ length p \<le> 2 ^ 31" by (rule power_increasing) simp
  then have "val p < 2 ^ 32" using val_less [of p] by simp
  then show ?thesis by (simp add: unat_of_nat take_bit_nat_eq_self)
qed

lemma push_val: "push_bit 1 (of_nat (val p) :: u32) OR of_bool b = of_nat (val (p @ [b]))"
proof -
  have "push_bit 1 (of_nat (val p) :: u32) = 2 * of_nat (val p)" by (simp add: push_bit_eq_mult)
  moreover have "(2 * of_nat (val p) :: u32) OR of_bool b = 2 * of_nat (val p) + of_bool b"
    by (intro disjunctive_add [symmetric]) (auto simp: bit_double_iff bit_1_iff)
  ultimately show ?thesis
    by (simp only: val_simps of_nat_add of_nat_mult of_nat_of_bool of_nat_numeral)
qed

lemma offset_is_code:
  assumes "1 \<le> length p" "length p \<le> 30"
  shows "(of_nat (val p) - of_nat (fc (length p)) :: u32) < of_nat (cnt (length p)) \<longleftrightarrow>
           fc (length p) \<le> val p \<and> val p < fc (length p) + cnt (length p)"
    and "fc (length p) \<le> val p \<Longrightarrow>
           unat (of_nat (val p) - of_nat (fc (length p)) :: u32) = val p - fc (length p)"
proof -
  have "(2 :: nat) ^ length p \<le> 2 ^ 30" using assms(2) by (rule power_increasing) simp
  then have small: "val p < 2 ^ 30" "fc (length p) + cnt (length p) \<le> 2 ^ 30"
    using val_less [of p] code_below [OF assms] by simp_all
  then have words: "unat (of_nat (val p) :: u32) = val p"
    "unat (of_nat (fc (length p)) :: u32) = fc (length p)"
    "unat (of_nat (cnt (length p)) :: u32) = cnt (length p)"
    by (simp_all add: unat_of_nat take_bit_nat_eq_self)
  show diff: "unat (of_nat (val p) - of_nat (fc (length p)) :: u32) = val p - fc (length p)"
    if "fc (length p) \<le> val p"
    using that words by (simp add: unat_sub word_le_nat_alt)
  show "(of_nat (val p) - of_nat (fc (length p)) :: u32) < of_nat (cnt (length p)) \<longleftrightarrow>
           fc (length p) \<le> val p \<and> val p < fc (length p) + cnt (length p)"
  proof (cases "fc (length p) \<le> val p")
    case True
    then show ?thesis using diff words by (auto simp: word_less_nat_alt)
  next
    case False
    then have "unat (of_nat (val p) - of_nat (fc (length p)) :: u32) =
        2 ^ 32 + val p - fc (length p)"
      using words by (simp add: unat_sub_if' word_le_nat_alt)
    then have "cnt (length p) \<le> unat (of_nat (val p) - of_nat (fc (length p)) :: u32)"
      using small by simp
    then show ?thesis using False words by (simp add: word_less_nat_alt)
  qed
qed

lemma decode_bits_step:
  assumes "pending p"
  shows "decode_bits (of_nat (val p)) (length p) out (b # bs) =
    (if is_code (p @ [b]) then
       (let s = symbols CODE ! (fi (length (p @ [b])) + (val (p @ [b]) - fc (length (p @ [b]))))
        in if s = EOS then (out, Some Huffman) else decode_bits 0 0 (out @ [of_nat s]) bs)
     else decode_bits (of_nat (val (p @ [b]))) (length (p @ [b])) out bs)"
proof -
  let ?p = "p @ [b]"
  have len: "1 \<le> length ?p" "length ?p \<le> 30" "length p + 1 = length ?p"
    using assms by (simp_all add: pending_def)
  have code: "(of_nat (val ?p) - of_nat (fc (length ?p)) :: u32) < of_nat (cnt (length ?p)) \<longleftrightarrow> is_code ?p"
    using offset_is_code(1) [OF len(1,2)] len unfolding is_code_def by blast
  show ?thesis
  proof (cases "is_code ?p")
    case True
    then have off: "unat (of_nat (val ?p) - of_nat (fc (length ?p)) :: u32) = val ?p - fc (length ?p)"
      by (intro offset_is_code(2) [OF len(1,2)]) (simp only: is_code_def)
    show ?thesis using True
      by (simp only: decode_bits.simps Let_def push_val len(3) code if_True off)
  next
    case False
    have "length ?p \<noteq> MAX_LEN"
      using pending_step [OF assms False] by (simp add: pending_def MAX_LEN_def)
    then show ?thesis using False
      by (simp only: decode_bits.simps Let_def push_val len(3) code if_False)
  qed
qed

lemma padding_check:
  assumes "pending p"
  shows "(length p > 7 \<or> (of_nat (val p) :: u32) \<noteq> push_bit (length p) 1 - 1) \<longleftrightarrow>
    \<not> (length p \<le> 7 \<and> p = replicate (length p) True)"
proof -
  have "(of_nat (val p) :: u32) = push_bit (length p) 1 - 1 \<longleftrightarrow> p = replicate (length p) True"
    if len: "length p \<le> 7"
  proof -
    have "(push_bit (length p) 1 - 1 :: u32) = of_nat (val (replicate (length p) True))"
      by (simp add: val_ones push_bit_eq_mult of_nat_diff)
    moreover have "val p = val (replicate (length p) True)"
      if "(of_nat (val p) :: u32) = of_nat (val (replicate (length p) True))"
      using arg_cong [OF that, of unat] len by (simp add: unat_val)
    ultimately show ?thesis using val_inject [of p "replicate (length p) True"] by auto
  qed
  then show ?thesis by (metis linorder_not_less)
qed

text \<open>What remains of a coding after some of its bits: \<open>n\<close> ones of padding at the end.\<close>

definition codes :: "bytes \<Rightarrow> nat \<Rightarrow> bool list" where
  "codes t n = huffman_coding t @ replicate n True"

lemma byte_below: "unat (b :: u8) < 257"
  using unsigned_less [of b, where 'a = nat] by simp

lemma codes_Cons: "codes (b # t) n = huffman_code (unat b) @ codes t n"
  by (simp add: codes_def huffman_coding_def)

lemma pending_codes:
  assumes "pending p" "p = codes t n"
  shows "t = [] \<and> p = replicate n True"
proof (cases t)
  case Nil
  with assms(2) show ?thesis by (simp add: codes_def huffman_coding_def)
next
  case (Cons b t')
  then show ?thesis
    using pending_no_code [of "huffman_code (unat b)" "codes t' n"] assms
      is_code_huffman_code [OF byte_below, of b]
    by (simp add: codes_Cons)
qed

lemma code_starts_codes:
  assumes "is_code p" "p @ bs = codes t n" "n \<le> 7"
  shows "\<exists>b t'. t = b # t' \<and> p = huffman_code (unat b) \<and> bs = codes t' n"
proof (cases t)
  case Nil
  then have "p @ bs = replicate n True" using assms(2) by (simp add: codes_def huffman_coding_def)
  then have "set (p @ bs) \<subseteq> {True}" "length (p @ bs) = n"
    by (simp_all only: length_replicate) (simp add: set_replicate_conv_if)
  then have "\<forall>x \<in> set p. x = True" "length p < 30" using assms(3) by auto
  then show ?thesis
    using ones_no_code [of "length p"] assms(1) replicate_length_same [of p True] by simp
next
  case (Cons b t')
  let ?c = "huffman_code (unat b)"
  have c: "is_code ?c" by (rule is_code_huffman_code [OF byte_below])
  have "p @ bs = ?c @ codes t' n" using assms(2) Cons by (simp add: codes_Cons)
  then obtain q where "p = ?c @ q \<and> q @ bs = codes t' n \<or> p @ q = ?c \<and> bs = q @ codes t' n"
    unfolding append_eq_append_conv2 by blast
  then have "p = ?c" "bs = codes t' n"
    using is_code_prefix [of ?c q] is_code_prefix [of p q] c assms(1) by auto
  with Cons show ?thesis by blast
qed

lemma decode_bits_iff:
  "pending p \<Longrightarrow>
     decode_bits (of_nat (val p)) (length p) out bs = (out', None) \<longleftrightarrow>
     (\<exists>t n. n \<le> 7 \<and> out' = out @ t \<and> p @ bs = codes t n)"
proof (induction bs arbitrary: p out)
  case Nil
  have "decode_bits (of_nat (val p)) (length p) out [] = (out', None) \<longleftrightarrow>
      out' = out \<and> length p \<le> 7 \<and> p = replicate (length p) True"
    using padding_check [OF Nil.prems] by (simp only: decode_bits.simps) auto
  also have "\<dots> \<longleftrightarrow> (\<exists>t n. n \<le> 7 \<and> out' = out @ t \<and> p @ [] = codes t n)"
  proof
    assume "out' = out \<and> length p \<le> 7 \<and> p = replicate (length p) True"
    then show "\<exists>t n. n \<le> 7 \<and> out' = out @ t \<and> p @ [] = codes t n"
      by (intro exI [of _ "[]"] exI [of _ "length p"]) (simp add: codes_def huffman_coding_def)
  next
    assume "\<exists>t n. n \<le> 7 \<and> out' = out @ t \<and> p @ [] = codes t n"
    then obtain t n where tn: "n \<le> 7" "out' = out @ t" "p = codes t n" by auto
    with pending_codes [OF Nil.prems tn(3)]
    show "out' = out \<and> length p \<le> 7 \<and> p = replicate (length p) True" by auto
  qed
  finally show ?case .
next
  case (Cons b bs)
  show ?case
  proof (cases "is_code (p @ [b])")
    case False
    then show ?thesis
      using Cons.IH [OF pending_step [OF Cons.prems False], of out] decode_bits_step [OF Cons.prems, of out b bs]
      by simp
  next
    case True
    obtain s where s: "s < 257" "p @ [b] = huffman_code s"
      "symbols CODE ! (fi (length (p @ [b])) + (val (p @ [b]) - fc (length (p @ [b])))) = s"
      using is_code_symbol [OF True] by blast
    have next_bits: "(\<exists>t n. n \<le> 7 \<and> out' = out @ t \<and> p @ b # bs = codes t n) \<longleftrightarrow>
        (\<exists>c t n. n \<le> 7 \<and> out' = out @ c # t \<and> unat c = s \<and> bs = codes t n)" (is "?L \<longleftrightarrow> ?R")
    proof
      assume ?L
      then obtain t n where tn: "n \<le> 7" "out' = out @ t" "(p @ [b]) @ bs = codes t n" by auto
      from code_starts_codes [OF True tn(3,1)] obtain c t' where
        "t = c # t'" "p @ [b] = huffman_code (unat c)" "bs = codes t' n" by auto
      moreover from this have "unat c = s"
        using huffman_code_inject [OF byte_below [of c] s(1)] s(2) by (simp only:)
      ultimately show ?R using tn by blast
    next
      assume ?R
      then obtain c t n where r: "n \<le> 7" "out' = out @ c # t" "unat c = s" "bs = codes t n" by blast
      then have "p @ b # bs = codes (c # t) n" using s(2) by (simp add: codes_Cons)
      with r show ?L by blast
    qed
    show ?thesis
    proof (cases "s = EOS")
      case True
      have "unat (c :: u8) \<noteq> s" for c
        using True unsigned_less [of c, where 'a = nat] by (simp add: EOS_def)
      with True \<open>is_code (p @ [b])\<close> s next_bits show ?thesis
        by (simp only: decode_bits_step [OF Cons.prems] Let_def) simp
    next
      case False
      have word: "unat (of_nat s :: u8) = s"
        using s(1) False by (simp add: unat_of_nat take_bit_nat_eq_self EOS_def)
      have "decode_bits (of_nat (val p)) (length p) out (b # bs) = (out', None) \<longleftrightarrow>
          decode_bits 0 0 (out @ [of_nat s]) bs = (out', None)"
        using True False s(3) by (simp only: decode_bits_step [OF Cons.prems] Let_def) simp
      also have "\<dots> \<longleftrightarrow> (\<exists>t n. n \<le> 7 \<and> out' = (out @ [of_nat s]) @ t \<and> bs = codes t n)"
        using Cons.IH [of "[]" "out @ [of_nat s]"] by (simp add: pending_def)
      also have "\<dots> \<longleftrightarrow> (\<exists>c t n. n \<le> 7 \<and> out' = out @ c # t \<and> unat c = s \<and> bs = codes t n)"
        using word by (metis append.assoc append_Cons append_Nil word_unat_eq_iff)
      finally show ?thesis using next_bits by simp
    qed
  qed
qed

text \<open>C36: the Huffman decoder succeeds exactly on the bits of a canonical coding of some bytes
  followed by at most seven ones, and those bytes are what it appends: every valid coding is read
  back, and nothing else (EOS, wrong or long padding, a cut code) is accepted.\<close>

theorem huffman_decode_iff:
  "huffman_decode input out = (out', None) \<longleftrightarrow>
     (\<exists>t n. n \<le> 7 \<and> out' = out @ t \<and>
        concat (map bits_of_byte input) = huffman_coding t @ replicate n True)"
  using decode_bits_iff [of "[]" out "concat (map bits_of_byte input)" out']
  by (simp add: huffman_decode_def pending_def codes_def)

text \<open>A failed decode only ever appended.\<close>

lemma decode_bits_extends: "prefix out (fst (decode_bits code len out bs))"
proof (induction code len out bs rule: decode_bits.induct)
  case (2 code len out b bs)
  show ?case
    using append_prefixD [OF "2.IH"(1) [OF refl refl refl _ refl]] "2.IH"(2) [OF refl refl refl]
    by (simp only: decode_bits.simps Let_def fst_conv prefix_order.order_refl simp_thms split: if_split) blast
qed simp

lemma huffman_decode_extends: "prefix out (fst (huffman_decode input out))"
  by (simp add: huffman_decode_def decode_bits_extends)

end
