(* ===== verification/Hpack.thy ===== *)
theory Hpack
  imports Huffman_Code
begin

text \<open>
  HPACK header block decoding (honeybeepf-llm-core/src/h2/hpack.rs): integers, string literals, the
  static and dynamic tables, and the decoder of one direction of a connection, which can forget its
  table after lost bytes and then decodes what it never saw as \<open>Unknown\<close>.

  A result is a sum (\<open>Inl\<close> the error) or, where Rust returns \<open>Result<(), HpackError>\<close>, an
  option that is the error. The closure \<open>on\<close> is the list of fields passed to it.
\<close>

section \<open>Constants and types\<close>

definition MAX_TABLE_SIZE :: nat where "MAX_TABLE_SIZE = 64 * 1024"
definition DEFAULT_TABLE_SIZE :: nat where "DEFAULT_TABLE_SIZE = 4096"
definition ENTRY_OVERHEAD :: nat where "ENTRY_OVERHEAD = 32"

definition STATIC_TABLE :: "(str \<times> str) list" where
  "STATIC_TABLE = [
     ('':authority'', ''''), ('':method'', ''GET''), ('':method'', ''POST''), ('':path'', ''/''),
     ('':path'', ''/index.html''), ('':scheme'', ''http''), ('':scheme'', ''https''), ('':status'',
     ''200''), ('':status'', ''204''), ('':status'', ''206''), ('':status'', ''304''), ('':status'',
     ''400''), ('':status'', ''404''), ('':status'', ''500''), (''accept-charset'', ''''),
     (''accept-encoding'', ''gzip, deflate''), (''accept-language'', ''''), (''accept-ranges'',
     ''''), (''accept'', ''''), (''access-control-allow-origin'', ''''), (''age'', ''''),
     (''allow'', ''''), (''authorization'', ''''), (''cache-control'', ''''),
     (''content-disposition'', ''''), (''content-encoding'', ''''), (''content-language'', ''''),
     (''content-length'', ''''), (''content-location'', ''''), (''content-range'', ''''),
     (''content-type'', ''''), (''cookie'', ''''), (''date'', ''''), (''etag'', ''''), (''expect'',
     ''''), (''expires'', ''''), (''from'', ''''), (''host'', ''''), (''if-match'', ''''),
     (''if-modified-since'', ''''), (''if-none-match'', ''''), (''if-range'', ''''),
     (''if-unmodified-since'', ''''), (''last-modified'', ''''), (''link'', ''''), (''location'',
     ''''), (''max-forwards'', ''''), (''proxy-authenticate'', ''''), (''proxy-authorization'',
     ''''), (''range'', ''''), (''referer'', ''''), (''refresh'', ''''), (''retry-after'', ''''),
     (''server'', ''''), (''set-cookie'', ''''), (''strict-transport-security'', ''''),
     (''transfer-encoding'', ''''), (''user-agent'', ''''), (''vary'', ''''), (''via'', ''''),
     (''www-authenticate'', '''')]"

datatype htext = Known bytes | Unknown

record header_field =
  field_name :: htext
  field_value :: htext

record entry =
  entry_name :: "bytes option"
  entry_value :: bytes

definition entry_size :: "entry \<Rightarrow> nat" where
  "entry_size e =
     (case entry_name e of None \<Rightarrow> 0 | Some n \<Rightarrow> length n) + length (entry_value e) + ENTRY_OVERHEAD"

record decoder =
  d_entries :: "entry list"
  d_size :: nat
  d_max_size :: nat
  d_limit :: nat
  d_forgotten :: bool
  d_name :: bytes
  d_value :: bytes

section \<open>Integers and strings\<close>

text \<open>The loop of \<open>decode_int\<close> over at most five continuation bytes, the first at index 1.\<close>

fun int_loop :: "u64 \<Rightarrow> nat \<Rightarrow> bytes \<Rightarrow> (hpack_error + u32 \<times> nat) option" where
  "int_loop value i [] = None"
| "int_loop value i (byte # rest) =
     (let value = value + push_bit (7 * (i - 1)) (ucast (byte AND 0x7F))
      in if byte AND 0x80 = 0 then
           Some (if value < 2 ^ 32 then Inr (ucast value, i + 1) else Inl IntegerOverflow)
         else int_loop value (i + 1) rest)"

definition decode_int :: "bytes \<Rightarrow> nat \<Rightarrow> hpack_error + u32 \<times> nat" where
  "decode_int input prefix_bits =
     (case input of
        [] \<Rightarrow> Inl Truncated
      | first # rest \<Rightarrow>
          (let max = push_bit prefix_bits 1 - 1 :: u64;
               value = ucast first AND max
           in if value < max then Inr (ucast value, 1)
              else (case int_loop value 1 (take 5 rest) of
                      Some r \<Rightarrow> r
                    | None \<Rightarrow> Inl (if length input > 5 then IntegerOverflow else Truncated))))"

definition decode_string :: "bytes \<Rightarrow> bytes \<Rightarrow> bytes \<times> (hpack_error + nat)" where
  "decode_string input out =
     (let huffman = (case input of [] \<Rightarrow> False | b # _ \<Rightarrow> b AND 0x80 \<noteq> 0)
      in case decode_int input 7 of
           Inl e \<Rightarrow> (out, Inl e)
         | Inr (len, used) \<Rightarrow>
             (let stop = used + unat len
              in if \<not> (stop \<le> usize_max \<and> stop \<le> length input) then (out, Inl Truncated)
                 else let bytes = take (stop - used) (drop used input)
                      in if huffman then
                           (case huffman_decode bytes out of
                              (out', Some e) \<Rightarrow> (take (length out) out', Inl e)
                            | (out', None) \<Rightarrow> (out', Inr stop))
                         else (out @ bytes, Inr stop)))"

section \<open>The table\<close>

definition lookup :: "entry list \<Rightarrow> bool \<Rightarrow> u32 \<Rightarrow> hpack_error + htext \<times> htext" where
  "lookup entries forgotten index =
     (if unat index = 0 then Inl BadIndex
      else let index = unat index - 1
           in if index < length STATIC_TABLE then
                let (n, v) = STATIC_TABLE ! index in Inr (Known (as_bytes n), Known (as_bytes v))
              else let k = index - length STATIC_TABLE
                   in if k < length entries then
                        Inr (case entry_name (entries ! k) of None \<Rightarrow> Unknown | Some n \<Rightarrow> Known n,
                             Known (entry_value (entries ! k)))
                      else if forgotten then Inr (Unknown, Unknown)
                      else Inl BadIndex)"

definition decoder_new :: decoder where
  "decoder_new = \<lparr>d_entries = [], d_size = 0, d_max_size = DEFAULT_TABLE_SIZE,
     d_limit = DEFAULT_TABLE_SIZE, d_forgotten = False, d_name = [], d_value = []\<rparr>"

definition drop_oldest :: "decoder \<Rightarrow> decoder" where
  "drop_oldest d =
     (if d_entries d = [] then d
      else d\<lparr>d_entries := butlast (d_entries d),
             d_size := d_size d - entry_size (last (d_entries d))\<rparr>)"

text \<open>
  The two loops of \<open>evict\<close>. Rust's would spin on an empty table that still claims a size; the
  functions below stop there, and \<open>evict_loop\<close>, the first loop as written, is shown to return
  on every decoder whose size is its entries' (the invariant below).
\<close>

partial_function (option) evict_loop :: "decoder \<Rightarrow> decoder option" where
  "evict_loop d = (if d_size d > d_max_size d then evict_loop (drop_oldest d) else Some d)"

function evict_over :: "nat \<Rightarrow> bool \<Rightarrow> decoder \<Rightarrow> decoder" where
  "evict_over cap forgets d =
     (if d_size d > cap \<and> d_entries d \<noteq> [] then
        (let d' = drop_oldest d
         in evict_over cap forgets (if forgets then d'\<lparr>d_forgotten := True\<rparr> else d'))
      else d)"
  by pat_completeness auto
termination
  by (relation "measure (\<lambda>(cap, forgets, d). length (d_entries d))") (auto simp: drop_oldest_def)

declare evict_over.simps [simp del]

definition evict :: "decoder \<Rightarrow> decoder" where
  "evict d = evict_over MAX_TABLE_SIZE True (evict_over (d_max_size d) False d)"

definition set_limit :: "decoder \<Rightarrow> u32 \<Rightarrow> decoder" where
  "set_limit d n = evict (d\<lparr>d_limit := unat n, d_max_size := min (d_max_size d) (unat n)\<rparr>)"

definition forget :: "decoder \<Rightarrow> decoder" where
  "forget d = d\<lparr>d_entries := [], d_size := 0, d_forgotten := True, d_max_size := d_limit d\<rparr>"

definition empty :: "decoder \<Rightarrow> decoder" where
  "empty d = d\<lparr>d_entries := [], d_size := 0, d_forgotten := False\<rparr>"

definition insert_entry :: "decoder \<Rightarrow> entry \<Rightarrow> decoder" where
  "insert_entry d e =
     (if entry_size e > d_max_size d then empty d
      else evict (d\<lparr>d_entries := e # d_entries d, d_size := d_size d + entry_size e\<rparr>))"

section \<open>Header blocks\<close>

text \<open>
  \<open>Decoder::literal\<close>: the literal field at the start of \<open>input\<close> (not empty). First the name,
  from the input or the table: whether it is known, and the position after it.
\<close>

definition literal_name :: "decoder \<Rightarrow> bytes \<Rightarrow> u32 \<Rightarrow> nat \<Rightarrow> decoder \<times> (hpack_error + bool \<times> nat)" where
  "literal_name d input index pos =
     (if index = 0 then
        (case decode_string (drop pos input) (d_name d) of
           (n, Inl e) \<Rightarrow> (d\<lparr>d_name := n\<rparr>, Inl e)
         | (n, Inr u) \<Rightarrow> (d\<lparr>d_name := n\<rparr>, Inr (True, pos + u)))
      else
        (case lookup (d_entries d) (d_forgotten d) index of
           Inl e \<Rightarrow> (d, Inl e)
         | Inr (Known n, _) \<Rightarrow> (d\<lparr>d_name := d_name d @ n\<rparr>, Inr (True, pos))
         | Inr (Unknown, _) \<Rightarrow> (d, Inr (False, pos))))"

text \<open>Then the value, the field passed on, and the entry inserted when the literal is indexed.\<close>

definition literal_value ::
  "decoder \<Rightarrow> bytes \<Rightarrow> bool \<Rightarrow> bool \<Rightarrow> nat \<Rightarrow> decoder \<times> header_field list \<times> (hpack_error + nat)" where
  "literal_value d input indexing name_known pos =
     (case decode_string (drop pos input) (d_value d) of
        (v, Inl e) \<Rightarrow> (d\<lparr>d_value := v\<rparr>, [], Inl e)
      | (v, Inr u) \<Rightarrow>
          (let d = d\<lparr>d_value := v\<rparr>;
               field = \<lparr>field_name = (if name_known then Known (d_name d) else Unknown),
                        field_value = Known (d_value d)\<rparr>;
               new = \<lparr>entry_name = (if name_known then Some (d_name d) else None),
                      entry_value = d_value d\<rparr>
           in (if indexing then insert_entry d new else d, [field], Inr (pos + u))))"

definition literal :: "decoder \<Rightarrow> bytes \<Rightarrow> decoder \<times> header_field list \<times> (hpack_error + nat)" where
  "literal d input =
     (let indexing = (hd input AND 0x40 \<noteq> 0)
      in case decode_int input (if indexing then 6 else 4) of
           Inl e \<Rightarrow> (d, [], Inl e)
         | Inr (index, pos) \<Rightarrow>
             (case literal_name (d\<lparr>d_name := [], d_value := []\<rparr>) input index pos of
                (d', Inl e) \<Rightarrow> (d', [], Inl e)
              | (d', Inr (name_known, pos)) \<Rightarrow> literal_value d' input indexing name_known pos))"


lemma int_loop_used:
  "int_loop v i bs = Some (Inr (n, used)) \<Longrightarrow> i < used \<and> used \<le> i + length bs"
  by (induction v i bs rule: int_loop.induct) (fastforce simp: Let_def split: if_splits)+

lemma decode_int_used:
  assumes "decode_int input p = Inr (n, used)"
  shows "0 < used \<and> used \<le> length input \<and> used \<le> 6"
proof (cases input)
  case Nil
  with assms show ?thesis by (simp add: decode_int_def)
next
  case (Cons first rest)
  define five where "five = take 5 rest"
  have "0 < used \<and> used \<le> length input \<and> used \<le> 6"
    if "int_loop v (Suc 0) five = Some (Inr (n, used))" for v
    using int_loop_used [OF that] Cons by (auto simp: five_def)
  then show ?thesis
    using assms Cons five_def [symmetric]
    by (auto simp: decode_int_def Let_def split: if_splits option.splits)
qed

lemma decode_string_used:
  "decode_string input out = (out', Inr used) \<Longrightarrow> 0 < used \<and> used \<le> length input"
  by (auto simp: decode_string_def Let_def dest: decode_int_used
           split: sum.splits if_splits prod.splits option.splits)

lemma decode_string_after:
  "decode_string (drop pos input) out = (out', Inr u) \<Longrightarrow> 0 < u \<and> pos + u \<le> length input"
  using decode_string_used [of "drop pos input"] by fastforce

lemma literal_name_used:
  "literal_name d input index pos = (d', Inr (k, pos')) \<Longrightarrow> pos \<le> pos' \<and> (pos \<le> length input \<longrightarrow> pos' \<le> length input)"
  by (auto simp: literal_name_def dest: decode_string_after
           split: if_splits sum.splits prod.splits htext.splits)

lemma literal_value_used:
  "literal_value d input ix k pos = (d', fs, Inr u) \<Longrightarrow> pos < u \<and> u \<le> length input"
  by (auto simp: literal_value_def Let_def dest: decode_string_after split: sum.splits prod.splits)

lemma literal_used:
  assumes "literal d input = (d', fs, Inr used)" shows "0 < used \<and> used \<le> length input"
  using assms
  by (auto simp: literal_def Let_def dest!: decode_int_used literal_name_used literal_value_used
           split: sum.splits prod.splits)

text \<open>The loop of \<open>decode_fields\<close>: \<open>rest\<close> is the block from \<open>pos\<close>, \<open>seen\<close>
  its count of fields.\<close>

function decode_rest ::
  "decoder \<Rightarrow> bytes \<Rightarrow> nat \<Rightarrow> decoder \<times> header_field list \<times> hpack_error option" where
  "decode_rest d [] seen = (d, [], None)"
| "decode_rest d (first # bs) seen =
     (if first AND 0x80 \<noteq> 0 then
        (case decode_int (first # bs) 7 of
           Inl e \<Rightarrow> (d, [], Some e)
         | Inr (index, used) \<Rightarrow>
             (case lookup (d_entries d) (d_forgotten d) index of
                Inl e \<Rightarrow> (d, [], Some e)
              | Inr (n, v) \<Rightarrow>
                  (let (d', fs, r) = decode_rest d (drop used (first # bs)) (seen + 1)
                   in (d', \<lparr>field_name = n, field_value = v\<rparr> # fs, r))))
      else if first AND 0xE0 = 0x20 then
        (case decode_int (first # bs) 5 of
           Inl e \<Rightarrow> (d, [], Some e)
         | Inr (n, used) \<Rightarrow>
             (if seen > 0 \<or> unat n > d_limit d then (d, [], Some TableSize)
              else let d = d\<lparr>d_max_size := unat n\<rparr>;
                       d = (if unat n = 0 then empty d else d)
                   in decode_rest (evict d) (drop used (first # bs)) seen))
      else
        (case literal d (first # bs) of
           (d', fs, Inl e) \<Rightarrow> (d', fs, Some e)
         | (d', fs, Inr used) \<Rightarrow>
             (let (d'', fs', r) = decode_rest d' (drop used (first # bs)) (seen + 1)
              in (d'', fs @ fs', r))))"
  by pat_completeness auto
termination
  by (relation "measure (\<lambda>(d, rest, seen). length rest)")
     (auto dest!: decode_int_used literal_used [OF sym])

declare decode_rest.simps [simp del]

definition decode_fields :: "decoder \<Rightarrow> bytes \<Rightarrow> decoder \<times> header_field list \<times> hpack_error option" where
  "decode_fields d block = decode_rest d block 0"

definition decode_block :: "decoder \<Rightarrow> bytes \<Rightarrow> decoder \<times> header_field list \<times> hpack_error option" where
  "decode_block d block =
     (let (d', fs, r) = decode_fields d block
      in (if r \<noteq> None then forget d' else d', fs, r))"

end
