(* ===== verification/Hpack_Int.thy ===== *)
theory Hpack_Int
  imports Hpack
begin

text \<open>
  HPACK integers and string literals against RFC 7541: the encodings of sections 5.1 and 5.2, and
  that the decoder reads every one of them back whatever follows it.
\<close>

section \<open>Integers\<close>

text \<open>RFC 7541 section 5.1: the first byte's flags above the prefix, then continuation bytes.\<close>

fun int_cont :: "nat \<Rightarrow> bytes" where
  "int_cont n = (if n < 128 then [of_nat n] else of_nat (n mod 128 + 128) # int_cont (n div 128))"

declare int_cont.simps [simp del]

definition encode_int :: "nat \<Rightarrow> u8 \<Rightarrow> nat \<Rightarrow> bytes" where
  "encode_int p flags n =
     (if n < 2 ^ p - 1 then [flags + of_nat n]
      else (flags + of_nat (2 ^ p - 1)) # int_cont (n - (2 ^ p - 1)))"

lemma int_cont_length: "n < 128 ^ Suc k \<Longrightarrow> length (int_cont n) \<le> Suc k"
proof (induction k arbitrary: n)
  case 0
  then show ?case by (simp add: int_cont.simps [of n])
next
  case (Suc k)
  show ?case
  proof (cases "n < 128")
    case False
    have "n div 128 < 128 ^ Suc k" using Suc.prems by (simp add: less_mult_imp_div_less mult.commute)
    then show ?thesis using Suc.IH [of "n div 128"] False by (subst int_cont.simps) simp
  qed (simp add: int_cont.simps [of n])
qed

lemma unat_small_byte: "n < 256 \<Longrightarrow> unat (of_nat n :: u8) = n"
  by (simp add: unat_of_nat take_bit_nat_eq_self)

lemma low_bits:
  "n < 128 \<Longrightarrow> (of_nat n :: u8) AND 0x80 = 0"
  "n < 128 \<Longrightarrow> (of_nat n :: u8) AND 0x7F = of_nat n"
  "n < 128 \<Longrightarrow> (of_nat (n + 128) :: u8) AND 0x80 \<noteq> 0"
  "n < 128 \<Longrightarrow> (of_nat (n + 128) :: u8) AND 0x7F = of_nat n"
proof -
  assume n: "n < 128"
  have mask: "w AND 0x7F = take_bit 7 w" for w :: u8
    by (simp add: take_bit_eq_mask mask_eq_exp_minus_1)
  have top: "(of_nat m :: u8) AND 0x80 = 0 \<longleftrightarrow> even (m div 128)" if "m < 256" for m
  proof -
    have "bit (of_nat m :: u8) 7 \<longleftrightarrow> bit (unat (of_nat m :: u8)) 7"
      by (simp add: bit_unsigned_iff)
    then show ?thesis
      using and_exp_eq_0_iff_not_bit [of "of_nat m :: u8" 7] unat_small_byte [OF that]
      by (simp add: bit_iff_odd)
  qed
  show "(of_nat n :: u8) AND 0x80 = 0" "(of_nat (n + 128) :: u8) AND 0x80 \<noteq> 0"
    using n div_add_self2 [of 128 n] by (simp_all add: top del: of_nat_add)
  show "(of_nat n :: u8) AND 0x7F = of_nat n" "(of_nat (n + 128) :: u8) AND 0x7F = of_nat n"
    using n by (simp_all add: mask word_unat_eq_iff unsigned_take_bit_eq unat_small_byte
      take_bit_nat_def del: of_nat_add)
qed

lemma int_loop_cont:
  "1 \<le> i \<Longrightarrow> i + length (int_cont n) \<le> 6 \<Longrightarrow> a + n * 2 ^ (7 * (i - 1)) < 2 ^ 32 \<Longrightarrow>
     int_loop (of_nat a) i (int_cont n @ rest) =
       Some (Inr (of_nat (a + n * 2 ^ (7 * (i - 1))), i + length (int_cont n)))"
proof (induction n arbitrary: a i rule: int_cont.induct)
  case (1 n)
  let ?k = "7 * (i - 1)"
  have add: "(of_nat a :: u64) + push_bit ?k (ucast (of_nat m :: u8)) = of_nat (a + m * 2 ^ ?k)"
    if "m < 128" for m
  proof -
    have "(ucast (of_nat m :: u8) :: u64) = of_nat m"
      using that by (simp add: word_unat_eq_iff unsigned_ucast_eq unat_of_nat take_bit_nat_eq_self)
    then show ?thesis by (simp add: push_bit_of_nat push_bit_eq_mult)
  qed
  show ?case
  proof (cases "n < 128")
    case True
    then have c: "int_cont n = [of_nat n]" by (simp add: int_cont.simps)
    have "unat (of_nat (a + n * 2 ^ ?k) :: u64) = a + n * 2 ^ ?k"
      using "1.prems"(3) by (simp add: unat_of_nat take_bit_nat_eq_self del: of_nat_add)
    then have "(of_nat (a + n * 2 ^ ?k) :: u64) < 2 ^ 32"
      "ucast (of_nat (a + n * 2 ^ ?k) :: u64) = (of_nat (a + n * 2 ^ ?k) :: u32)"
      using "1.prems"(3)
      by (simp_all add: word_less_nat_alt word_unat_eq_iff unsigned_ucast_eq unat_of_nat take_bit_nat_eq_self
          del: of_nat_add)
    then show ?thesis
      using add [OF True] low_bits(1,2) [OF True] by (simp only: c) (simp add: Let_def del: of_nat_add)
  next
    case False
    let ?m = "n mod 128" and ?q = "n div 128"
    have m: "?m < 128" by simp
    have c: "int_cont n = of_nat (?m + 128) # int_cont ?q" using False by (subst int_cont.simps) simp
    have pow: "(2 :: nat) ^ (7 * i) = 128 * 2 ^ ?k"
    proof -
      have "7 * i = 7 + ?k" using "1.prems"(1) by simp
      then show ?thesis by (simp only: power_add) simp
    qed
    have sum: "a + ?m * 2 ^ ?k + ?q * 2 ^ (7 * (Suc i - 1)) = a + n * 2 ^ ?k"
    proof -
      have "n * 2 ^ ?k = (?q * 128 + ?m) * 2 ^ ?k" by simp
      then show ?thesis by (simp only: diff_Suc_1 pow) (simp only: algebra_simps)
    qed
    have "int_loop (of_nat (a + ?m * 2 ^ ?k)) (Suc i) (int_cont ?q @ rest) =
        Some (Inr (of_nat (a + n * 2 ^ ?k), Suc i + length (int_cont ?q)))"
    proof -
      have "1 \<le> Suc i" "Suc i + length (int_cont ?q) \<le> 6" using "1.prems"(2) c by simp_all
      moreover have "a + ?m * 2 ^ ?k + ?q * 2 ^ (7 * (Suc i - 1)) < 2 ^ 32"
        using "1.prems"(3) by (simp only: sum)
      ultimately show ?thesis using "1.IH" [OF False, of "Suc i" "a + ?m * 2 ^ ?k"] by (simp only: sum)
    qed
    then show ?thesis
      using add [OF m] low_bits(3,4) [OF m]
      by (simp only: c) (simp add: Let_def del: of_nat_add)
  qed
qed

lemma first_byte_low_bits:
  assumes "p \<le> 8" "take_bit p flags = 0" "m < 2 ^ p"
  shows "take_bit p (flags + of_nat m :: u8) = of_nat m"
proof -
  have le: "(2 :: nat) ^ p \<le> 256" using power_increasing [of p 8 "2 :: nat"] assms(1) by simp
  have flags: "unat flags mod 2 ^ p = 0"
    using unsigned_take_bit_eq [of p flags, where 'a = nat] assms(2)
    by (simp add: take_bit_eq_mod [where 'a = nat])
  have dvd: "(2 :: nat) ^ p dvd 256" using assms(1) le_imp_power_dvd [of p 8 "2 :: nat"] by simp
  have "unat (flags + of_nat m) mod 2 ^ p = (unat flags + m) mod 2 ^ p"
    using assms(3) le by (simp add: unat_word_ariths unat_small_byte mod_mod_cancel [OF dvd])
  also have "\<dots> = (unat flags mod 2 ^ p + m) mod 2 ^ p" by (rule mod_add_left_eq [symmetric])
  also have "\<dots> = m" using assms(3) by (simp add: flags)
  finally have "unat (flags + of_nat m) mod 2 ^ p = m" .
  then show ?thesis
    using assms(3) le
    by (simp add: word_unat_eq_iff unsigned_take_bit_eq unat_small_byte take_bit_eq_mod [where 'a = nat])
qed

lemma first_byte_masked:
  assumes "p \<le> 8" "take_bit p flags = 0" "m < 2 ^ p"
  shows "ucast (flags + of_nat m :: u8) AND (push_bit p 1 - 1 :: u64) = of_nat m"
proof -
  have le: "(2 :: nat) ^ p \<le> 256" using power_increasing [of p 8 "2 :: nat"] assms(1) by simp
  have "(push_bit p 1 - 1 :: u64) = mask p" by (simp add: push_bit_eq_mult mask_eq_exp_minus_1)
  then have "ucast (flags + of_nat m :: u8) AND (push_bit p 1 - 1 :: u64) =
      ucast (take_bit p (flags + of_nat m :: u8))"
    by (simp add: take_bit_eq_mask [symmetric] unsigned_take_bit_eq)
  also have "(ucast (take_bit p (flags + of_nat m :: u8)) :: u64) = ucast (of_nat m :: u8)"
    by (simp only: first_byte_low_bits [OF assms])
  also have "(ucast (of_nat m :: u8) :: u64) = of_nat m"
    using assms(3) le by (simp add: word_unat_eq_iff unsigned_ucast_eq unat_of_nat take_bit_nat_eq_self)
  finally show ?thesis .
qed

text \<open>an HPACK integer below 2^32 is read back from its RFC 7541 encoding, at every prefix
  length, whatever the flag bits above the prefix and whatever bytes follow, and exactly its bytes
  are used.\<close>

lemma decode_encode_int:
  assumes "1 \<le> p" "p \<le> 8" "n < 2 ^ 32" "take_bit p flags = 0"
  shows "decode_int (encode_int p flags n @ rest) p = Inr (of_nat n, length (encode_int p flags n))"
proof -
  define m1 :: nat where "m1 = 2 ^ p - 1"
  have p8: "m1 < 256" "m1 < 2 ^ p"
    using power_increasing [of p 8 "2 :: nat"] assms(2) by (simp_all add: m1_def)
  have max: "(push_bit p 1 - 1 :: u64) = of_nat m1"
    by (simp add: push_bit_eq_mult of_nat_diff m1_def)
  then have max': "(2 ^ p - 1 :: u64) = of_nat m1" by (simp add: push_bit_eq_mult)
  have first: "ucast (flags + of_nat m) AND (of_nat m1 :: u64) = of_nat m" if "m \<le> m1" for m
    using first_byte_masked [OF assms(2,4), of m] that p8(2) by (simp only: max)
  have enc: "encode_int p flags n =
      (if n < m1 then [flags + of_nat n] else (flags + of_nat m1) # int_cont (n - m1))"
    by (simp add: encode_int_def m1_def)
  show ?thesis
  proof (cases "n < m1")
    case True
    then have "(of_nat n :: u64) < of_nat m1" "ucast (of_nat n :: u64) = (of_nat n :: u32)"
      using p8 by (simp_all add: word_less_nat_alt word_unat_eq_iff unsigned_ucast_eq unat_of_nat take_bit_nat_eq_self)
    with True first [of n] show ?thesis
      by (simp add: decode_int_def enc Let_def max')
  next
    case False
    let ?r = "n - m1"
    have len: "length (int_cont ?r) \<le> 5" using int_cont_length [of ?r 4] assms(3) by simp
    then have "int_loop (of_nat m1) 1 (take 5 (int_cont ?r @ rest)) =
        Some (Inr (of_nat n, 1 + length (int_cont ?r)))"
      using int_loop_cont [of 1 ?r m1] assms(3) False by simp
    with False first [of m1] show ?thesis
      by (simp add: decode_int_def enc Let_def max')
  qed
qed

lemma decode_encode_int_witness:
  "decode_int [0x1F, 0x9A, 0x0A, 0xFF] 5 = Inr (1337, 3)"
proof -
  have "encode_int 5 0 1337 = [0x1F, 0x9A, 0x0A]"
    by (simp add: encode_int_def int_cont.simps)
  then show ?thesis using decode_encode_int [of 5 1337 0 "[0xFF]"] by simp
qed

section \<open>String literals\<close>

text \<open>RFC 7541 section 5.2: the bytes as they are, or their Huffman coding padded to whole bytes.\<close>

inductive string_coding :: "bytes \<Rightarrow> bytes \<Rightarrow> bool" where
  coding_raw: "length s < 2 ^ 32 \<Longrightarrow> string_coding s (encode_int 7 0 (length s) @ s)"
| coding_huffman:
    "length h < 2 ^ 32 \<Longrightarrow> n \<le> 7 \<Longrightarrow>
     concat (map bits_of_byte h) = huffman_coding s @ replicate n True \<Longrightarrow>
     string_coding s (encode_int 7 0x80 (length h) @ h)"

lemma encode_int_first:
  obtains b bs where "encode_int 7 0 n = b # bs" "b AND 0x80 = 0"
proof (cases "n < 127")
  case True
  then show ?thesis using that [of "of_nat n" "[]"] low_bits(1) [of n] by (simp add: encode_int_def)
next
  case False
  then show ?thesis using that [of 127] by (simp add: encode_int_def)
qed

lemma encode_int_first_flag:
  obtains b bs where "encode_int 7 0x80 n = b # bs" "b AND 0x80 \<noteq> 0"
proof (cases "n < 127")
  case True
  then show ?thesis
    using that [of "of_nat (n + 128)" "[]"] low_bits(3) [of n] by (simp add: encode_int_def add.commute)
next
  case False
  then show ?thesis using that [of 255] by (simp add: encode_int_def)
qed

lemma decode_string_coding:
  assumes "string_coding s bs"
  shows "decode_string (bs @ rest) out = (out @ s, Inr (length bs))"
  using assms
proof cases
  case coding_raw
  obtain b bs' where first: "encode_int 7 0 (length s) = b # bs'" "b AND 0x80 = 0"
    by (rule encode_int_first)
  have int: "decode_int (encode_int 7 0 (length s) @ s @ rest) 7 =
      Inr (of_nat (length s), length (encode_int 7 0 (length s)))"
    using coding_raw by (intro decode_encode_int) simp_all
  have used: "length (encode_int 7 0 (length s)) \<le> 6" using decode_int_used [OF int] by simp
  have len: "unat (of_nat (length s) :: u32) = length s"
    using coding_raw by (simp add: unat_of_nat take_bit_nat_eq_self)
  show ?thesis
    using int first len used coding_raw by (simp add: decode_string_def usize_max_def)
next
  case (coding_huffman h n)
  obtain b bs' where first: "encode_int 7 0x80 (length h) = b # bs'" "b AND 0x80 \<noteq> 0"
    by (rule encode_int_first_flag)
  have int: "decode_int (encode_int 7 0x80 (length h) @ h @ rest) 7 =
      Inr (of_nat (length h), length (encode_int 7 0x80 (length h)))"
    using coding_huffman by (intro decode_encode_int) (simp_all add: take_bit_eq_mask mask_eq_exp_minus_1)
  have used: "length (encode_int 7 0x80 (length h)) \<le> 6" using decode_int_used [OF int] by simp
  have len: "unat (of_nat (length h) :: u32) = length h"
    using coding_huffman by (simp add: unat_of_nat take_bit_nat_eq_self)
  have "huffman_decode h out = (out @ s, None)"
    using coding_huffman decode_bits_iff [of "[]" out "concat (map bits_of_byte h)" "out @ s"]
    by (auto simp: huffman_decode_def pending_def codes_def)
  then show ?thesis
    using int first len used coding_huffman by (simp add: decode_string_def usize_max_def)
qed

text \<open>a string literal that cannot be read leaves the output as it was; one that can only
  appends to it, and uses at least one byte and no more than there are.\<close>

lemma decode_string_error_keeps:
  "case decode_string input out of
     (out', Inl e) \<Rightarrow> out' = out
   | (out', Inr used) \<Rightarrow> prefix out out' \<and> 0 < used \<and> used \<le> length input"
proof -
  have "take (length out) (fst (huffman_decode b out)) = out" for b
    using huffman_decode_extends [of out b] by (auto simp: prefix_def)
  then have "take (length out) out' = out" if "huffman_decode b out = (out', r)" for b out' r
    using that by (metis fst_conv)
  moreover have "prefix out out'" if "huffman_decode b out = (out', r)" for b out' r
    using huffman_decode_extends [of out b] that by simp
  ultimately show ?thesis
    by (auto simp: decode_string_def Let_def dest: decode_int_used
             split: sum.splits prod.splits option.splits if_splits)
qed

end
