(* ===== verification/Hpack_Table.thy ===== *)
theory Hpack_Table
  imports Hpack_Int
begin

text \<open>
  The decoder's dynamic table: what eviction keeps, the invariant every operation preserves (the
  size is the entries', at most the size the encoder set, the receiver's limit and the memory cap,
  and a table that was seen whole has every name), and the interface the connection uses it by.
\<close>

section \<open>Eviction\<close>

text \<open>The longest prefix whose sizes add up to at most \<open>n\<close>.\<close>

primrec fit :: "('a \<Rightarrow> nat) \<Rightarrow> nat \<Rightarrow> 'a list \<Rightarrow> 'a list" where
  "fit f n [] = []"
| "fit f n (x # xs) = (if f x \<le> n then x # fit f (n - f x) xs else [])"

abbreviation total :: "('a \<Rightarrow> nat) \<Rightarrow> 'a list \<Rightarrow> nat" where
  "total f xs \<equiv> sum_list (map f xs)"

lemma fit_all: "total f xs \<le> n \<Longrightarrow> fit f n xs = xs"
  by (induction xs arbitrary: n) auto

lemma fit_take: "fit f n xs = take (length (fit f n xs)) xs"
  by (induction xs arbitrary: n) auto

lemma fit_length: "length (fit f n xs) \<le> length xs"
  by (induction xs arbitrary: n) auto

lemma fit_total: "total f (fit f n xs) \<le> n"
proof (induction xs arbitrary: n)
  case (Cons x xs)
  show ?case using Cons.IH [of "n - f x"] by auto
qed simp

lemma fit_longest: "k \<le> length xs \<Longrightarrow> total f (take k xs) \<le> n \<Longrightarrow> k \<le> length (fit f n xs)"
proof (induction xs arbitrary: n k)
  case (Cons x xs)
  show ?case
  proof (cases k)
    case (Suc j)
    with Cons.prems Cons.IH [of j "n - f x"] show ?thesis by auto
  qed simp
qed simp

lemma fit_snoc: "total f (xs @ [x]) > n \<Longrightarrow> fit f n (xs @ [x]) = fit f n xs"
  by (induction xs arbitrary: n) auto

lemma fit_set: "set (fit f n xs) \<subseteq> set xs"
  by (subst fit_take) (rule set_take_subset)

lemma evict_over_fit:
  assumes "d_size d = total entry_size (d_entries d)"
  shows "evict_over cap fg d =
    d\<lparr>d_entries := fit entry_size cap (d_entries d),
      d_size := total entry_size (fit entry_size cap (d_entries d)),
      d_forgotten := d_forgotten d \<or> (fg \<and> cap < d_size d)\<rparr>"
  using assms
proof (induction "d_entries d" arbitrary: d rule: rev_induct)
  case Nil
  then show ?case by (simp add: evict_over.simps)
next
  case (snoc e es)
  show ?case
  proof (cases "d_size d > cap")
    case False
    then show ?thesis
      using snoc.prems fit_all [of entry_size "d_entries d" cap] by (simp add: evict_over.simps)
  next
    case True
    let ?d = "(drop_oldest d)\<lparr>d_forgotten := fg \<or> d_forgotten d\<rparr>"
    have d: "d_entries d = es @ [e]" using snoc.hyps(2) by simp
    have "evict_over cap fg d = evict_over cap fg ?d"
      using True d by (subst evict_over.simps) (cases fg; simp add: drop_oldest_def Let_def)
    moreover have "d_entries ?d = es" "d_size ?d = total entry_size es"
      using d snoc.prems by (simp_all add: drop_oldest_def)
    ultimately show ?thesis
      using snoc.hyps(1) [of ?d] True d snoc.prems fit_snoc [of cap entry_size es e]
      by (cases fg) (simp_all add: drop_oldest_def)
  qed
qed

text \<open>C40: the first eviction loop as it is written returns, with the longest prefix of the entries
  that fits the maximum, on every decoder whose size is its entries' (on any other it would not:
  popping an empty table changes nothing). Every operation keeps that equality.\<close>

theorem evict_loop_returns:
  "d_size d = total entry_size (d_entries d) \<Longrightarrow>
     evict_loop d = Some (evict_over (d_max_size d) False d) \<and>
     d_entries (evict_over (d_max_size d) False d) = fit entry_size (d_max_size d) (d_entries d)"
proof (induction "d_entries d" arbitrary: d rule: rev_induct)
  case Nil
  then show ?case by (simp add: evict_loop.simps [of d] evict_over.simps [of _ _ d])
next
  case (snoc e es)
  have d: "d_entries d = es @ [e]" using snoc.hyps(2) by simp
  have size: "d_size (drop_oldest d) = total entry_size (d_entries (drop_oldest d))"
    "d_entries (drop_oldest d) = es" "d_max_size (drop_oldest d) = d_max_size d"
    using d snoc.prems by (simp_all add: drop_oldest_def)
  have "evict_loop d = Some (evict_over (d_max_size d) False d)"
    using snoc.hyps(1) [of "drop_oldest d"] size d
    by (simp add: evict_loop.simps [of d] evict_over.simps [of _ _ d] Let_def)
  then show ?case using snoc.prems by (simp add: evict_over_fit)
qed

lemma evict_loop_returns_witness:
  "evict_loop (decoder_new\<lparr>d_entries := [\<lparr>entry_name = None, entry_value = [1]\<rparr>], d_size := 33,
      d_max_size := 32\<rparr>) \<noteq> None"
  using evict_loop_returns [of "decoder_new\<lparr>d_entries := [\<lparr>entry_name = None, entry_value = [1]\<rparr>],
      d_size := 33, d_max_size := 32\<rparr>"]
  by (simp add: entry_size_def ENTRY_OVERHEAD_def)

section \<open>The invariant\<close>

definition hpack_inv :: "decoder \<Rightarrow> bool" where
  "hpack_inv d \<longleftrightarrow>
     d_size d = total entry_size (d_entries d) \<and> d_size d \<le> d_max_size d \<and>
     d_size d \<le> MAX_TABLE_SIZE \<and> d_max_size d \<le> d_limit d \<and>
     (\<not> d_forgotten d \<longrightarrow> (\<forall>e \<in> set (d_entries d). entry_name e \<noteq> None))"

text \<open>What eviction gives from any decoder whose size is its entries'.\<close>

lemma evict_spec:
  assumes "d_size d = total entry_size (d_entries d)"
  defines "kept \<equiv> fit entry_size MAX_TABLE_SIZE (fit entry_size (d_max_size d) (d_entries d))"
  shows "evict d = d\<lparr>d_entries := kept, d_size := total entry_size kept,
    d_forgotten := d_forgotten d \<or> MAX_TABLE_SIZE < total entry_size (fit entry_size (d_max_size d) (d_entries d))\<rparr>"
proof -
  let ?d = "evict_over (d_max_size d) False d"
  have "d_size ?d = total entry_size (d_entries ?d)"
    using assms(1) by (simp add: evict_over_fit)
  then show ?thesis
    unfolding evict_def by (subst evict_over_fit) (simp_all add: evict_over_fit assms)
qed

lemma evict_inv:
  assumes "d_size d = total entry_size (d_entries d)" "d_max_size d \<le> d_limit d"
    and "\<not> d_forgotten d \<longrightarrow> (\<forall>e \<in> set (d_entries d). entry_name e \<noteq> None)"
  shows "hpack_inv (evict d)"
proof -
  let ?once = "fit entry_size (d_max_size d) (d_entries d)"
  let ?kept = "fit entry_size MAX_TABLE_SIZE ?once"
  have "total entry_size ?kept \<le> total entry_size ?once"
    using fit_take [of entry_size MAX_TABLE_SIZE ?once]
    by (metis append_take_drop_id le_add1 map_append sum_list_append)
  then have "total entry_size ?kept \<le> d_max_size d"
    using fit_total [of entry_size "d_max_size d" "d_entries d"] by simp
  moreover have "set ?kept \<subseteq> set (d_entries d)"
    using fit_set by (metis order_trans)
  ultimately show ?thesis
    using assms fit_total [of entry_size MAX_TABLE_SIZE ?once]
    by (auto simp: hpack_inv_def evict_spec [OF assms(1)])
qed

lemma decoder_new_inv: "hpack_inv decoder_new"
  by (simp add: hpack_inv_def decoder_new_def DEFAULT_TABLE_SIZE_def)

lemma forget_inv: "hpack_inv d \<Longrightarrow> hpack_inv (forget d)"
  by (simp add: hpack_inv_def forget_def)

lemma empty_inv: "hpack_inv d \<Longrightarrow> hpack_inv (empty d)"
  by (simp add: hpack_inv_def empty_def)

lemma set_limit_inv: "hpack_inv d \<Longrightarrow> hpack_inv (set_limit d n)"
  unfolding set_limit_def by (rule evict_inv) (auto simp: hpack_inv_def)

lemma insert_entry_inv:
  assumes "hpack_inv d" "\<not> d_forgotten d \<longrightarrow> entry_name e \<noteq> None"
  shows "hpack_inv (insert_entry d e)"
proof (cases "entry_size e > d_max_size d")
  case True
  then show ?thesis using assms(1) by (simp add: insert_entry_def empty_inv)
next
  case False
  have "hpack_inv (evict (d\<lparr>d_entries := e # d_entries d, d_size := d_size d + entry_size e\<rparr>))"
    by (rule evict_inv) (use assms in \<open>auto simp: hpack_inv_def\<close>)
  with False show ?thesis by (simp add: insert_entry_def)
qed

lemma resize_inv:
  assumes "hpack_inv d" "n \<le> d_limit d"
  shows "hpack_inv (evict (let d = d\<lparr>d_max_size := n\<rparr> in if n = 0 then empty d else d))"
  using assms by (intro evict_inv) (cases "n = 0"; auto simp: hpack_inv_def empty_def Let_def)+

text \<open>Only a forgotten table has names that are not known.\<close>

lemma lookup_name:
  "hpack_inv d \<Longrightarrow> lookup (d_entries d) (d_forgotten d) i = Inr (Unknown, v) \<Longrightarrow> d_forgotten d"
  by (auto simp: lookup_def hpack_inv_def Let_def dest!: bspec [OF _ nth_mem]
           split: if_splits option.splits prod.splits)

lemma hpack_inv_scratch [simp]:
  "hpack_inv (d\<lparr>d_name := n\<rparr>) = hpack_inv d" "hpack_inv (d\<lparr>d_value := v\<rparr>) = hpack_inv d"
  by (simp_all add: hpack_inv_def)

lemma literal_name_inv:
  assumes "hpack_inv d" "literal_name d input index pos = (d', r)"
  shows "hpack_inv d' \<and> d_forgotten d' = d_forgotten d \<and> (\<forall>p. r = Inr (False, p) \<longrightarrow> d_forgotten d)"
  using assms lookup_name [OF assms(1), of index]
  by (auto simp: literal_name_def split: if_splits sum.splits prod.splits htext.splits)

lemma literal_value_inv:
  assumes "hpack_inv d" "k \<or> d_forgotten d"
  shows "hpack_inv (fst (literal_value d input ix k pos))"
  using assms by (auto simp: literal_value_def Let_def intro!: insert_entry_inv split: sum.splits prod.splits)

lemma literal_inv:
  assumes "hpack_inv d" shows "hpack_inv (fst (literal d input))"
proof (cases "decode_int input (if hd input AND 0x40 \<noteq> 0 then 6 else 4)")
  case (Inl e)
  then show ?thesis using assms by (simp add: literal_def)
next
  case (Inr r)
  obtain index pos where r: "r = (index, pos)" by fastforce
  obtain d' s where n: "literal_name (d\<lparr>d_name := [], d_value := []\<rparr>) input index pos = (d', s)" by fastforce
  have inv: "hpack_inv d'" "\<forall>p. s = Inr (False, p) \<longrightarrow> d_forgotten d'"
    using literal_name_inv [OF _ n] assms by auto
  show ?thesis
  proof (cases s)
    case (Inl e)
    then show ?thesis using Inr r n inv by (simp add: literal_def)
  next
    case (Inr t)
    then show ?thesis
      using \<open>decode_int _ _ = _\<close> r n inv
      by (cases t) (auto simp: literal_def intro!: literal_value_inv)
  qed
qed

lemma decode_rest_inv: "hpack_inv d \<Longrightarrow> hpack_inv (fst (decode_rest d bs seen))"
proof (induction d bs seen rule: decode_rest.induct)
  case (2 d first bs seen)
  show ?case
    using 2 literal_inv [of d "first # bs"] resize_inv [OF "2.prems"]
    by (subst decode_rest.simps)
       (auto simp: Let_def split: sum.splits prod.splits)
qed (simp add: decode_rest.simps)

text \<open>Everything a connection does to its decoder, in any order.\<close>

datatype decoder_op = SetLimit u32 | Forget | DecodeBlock bytes

fun decoder_step :: "decoder \<Rightarrow> decoder_op \<Rightarrow> decoder" where
  "decoder_step d (SetLimit n) = set_limit d n"
| "decoder_step d Forget = forget d"
| "decoder_step d (DecodeBlock block) = fst (decode_block d block)"

lemma decoder_step_inv: "hpack_inv d \<Longrightarrow> hpack_inv (decoder_step d op)"
  by (cases op)
     (simp_all add: forget_inv set_limit_inv decode_rest_inv decode_block_def decode_fields_def
        case_prod_beta Let_def)

text \<open>C38: every operation of the decoder keeps its table's invariant: after any limits from SETTINGS,
  losses and header blocks whatsoever, malformed ones included, the recorded size is exactly the sum
  of the entries' RFC 7541 sizes and within the maximum in force and the memory cap.\<close>

theorem decoder_invariant:
  "hpack_inv (foldl decoder_step decoder_new ops)"
proof -
  have "hpack_inv d \<Longrightarrow> hpack_inv (foldl decoder_step d ops)" for d
    by (induction ops arbitrary: d) (simp_all add: decoder_step_inv)
  then show ?thesis using decoder_new_inv .
qed

end
