(* ===== verification/Hpack_Refine.thy ===== *)
theory Hpack_Refine
  imports Hpack_Table
begin

text \<open>
  The decoder against RFC 7541. The specification keeps the encoder's whole dynamic table and is run
  on header field representations; \<open>block_coding\<close> relates representations to every header block an
  encoder may send for them. The decoder simulates it: what it says is known is what the encoder
  sent, also after a \<open>forget\<close> at any point, and everything is known while nothing was forgotten.
\<close>

section \<open>The specification\<close>

record rfc_table =
  t_entries :: "(bytes \<times> bytes) list"
  t_max :: nat
  t_limit :: nat

fun rfc_size :: "bytes \<times> bytes \<Rightarrow> nat" where
  "rfc_size (n, v) = length n + length v + 32"

datatype name_ref = At nat | New bytes

datatype rep =
    Indexed nat
  | Literal bool name_ref bytes
  | Resize nat

definition static_field :: "nat \<Rightarrow> bytes \<times> bytes" where
  "static_field i = (as_bytes (fst (STATIC_TABLE ! i)), as_bytes (snd (STATIC_TABLE ! i)))"

definition rfc_lookup :: "rfc_table \<Rightarrow> nat \<Rightarrow> (bytes \<times> bytes) option" where
  "rfc_lookup D i =
     (if i = 0 then None
      else if i \<le> 61 then Some (static_field (i - 1))
      else if i - 62 < length (t_entries D) then Some (t_entries D ! (i - 62))
      else None)"

definition rfc_insert :: "rfc_table \<Rightarrow> bytes \<times> bytes \<Rightarrow> rfc_table" where
  "rfc_insert D h = D\<lparr>t_entries := fit rfc_size (t_max D) (h # t_entries D)\<rparr>"

fun rfc_name :: "rfc_table \<Rightarrow> name_ref \<Rightarrow> bytes option" where
  "rfc_name D (At i) = map_option fst (rfc_lookup D i)"
| "rfc_name D (New n) = Some n"

text \<open>One representation; a size update may only come before the block's first field.\<close>

fun rfc_step :: "rfc_table \<Rightarrow> bool \<Rightarrow> rep \<Rightarrow> (rfc_table \<times> (bytes \<times> bytes) list) option" where
  "rfc_step D started (Indexed i) = map_option (\<lambda>h. (D, [h])) (rfc_lookup D i)"
| "rfc_step D started (Literal indexing r v) =
     map_option (\<lambda>n. (if indexing then rfc_insert D (n, v) else D, [(n, v)])) (rfc_name D r)"
| "rfc_step D started (Resize n) =
     (if started \<or> n > t_limit D then None
      else Some (D\<lparr>t_max := n, t_entries := fit rfc_size n (t_entries D)\<rparr>, []))"

fun rfc_run :: "rfc_table \<Rightarrow> bool \<Rightarrow> rep list \<Rightarrow> (rfc_table \<times> (bytes \<times> bytes) list) option" where
  "rfc_run D started [] = Some (D, [])"
| "rfc_run D started (r # rs) =
     (case rfc_step D started r of
        None \<Rightarrow> None
      | Some (D', hs) \<Rightarrow> map_option (\<lambda>(D'', hs'). (D'', hs @ hs')) (rfc_run D' (started \<or> hs \<noteq> []) rs))"

section \<open>Every encoding of a representation\<close>

inductive name_coding :: "nat \<Rightarrow> u8 \<Rightarrow> name_ref \<Rightarrow> bytes \<Rightarrow> bool" where
  coding_at: "0 < i \<Longrightarrow> i < 2 ^ 32 \<Longrightarrow> name_coding p fl (At i) (encode_int p fl i)"
| coding_new: "string_coding n ns \<Longrightarrow> name_coding p fl (New n) (encode_int p fl 0 @ ns)"

inductive rep_coding :: "rep \<Rightarrow> bytes \<Rightarrow> bool" where
  coding_indexed: "i < 2 ^ 32 \<Longrightarrow> rep_coding (Indexed i) (encode_int 7 0x80 i)"
| coding_resize: "n < 2 ^ 32 \<Longrightarrow> rep_coding (Resize n) (encode_int 5 0x20 n)"
| coding_indexing:
    "name_coding 6 0x40 r ns \<Longrightarrow> string_coding v vs \<Longrightarrow> rep_coding (Literal True r v) (ns @ vs)"
| coding_plain:
    "name_coding 4 fl r ns \<Longrightarrow> fl \<in> {0x00, 0x10} \<Longrightarrow> string_coding v vs \<Longrightarrow>
     rep_coding (Literal False r v) (ns @ vs)"

inductive block_coding :: "rep list \<Rightarrow> bytes \<Rightarrow> bool" where
  coding_nil: "block_coding [] []"
| coding_cons: "rep_coding r bs \<Longrightarrow> block_coding rs rest \<Longrightarrow> block_coding (r # rs) (bs @ rest)"

text \<open>The first byte says which representation it is.\<close>

lemma first_bytes:
  "\<forall>m \<in> {..31}. (0x20 + of_nat m :: u8) AND 0x80 = 0 \<and> (0x20 + of_nat m :: u8) AND 0xE0 = 0x20"
  "\<forall>m \<in> {..63}. (0x40 + of_nat m :: u8) AND 0x80 = 0 \<and> (0x40 + of_nat m :: u8) AND 0xE0 \<noteq> 0x20 \<and>
     (0x40 + of_nat m :: u8) AND 0x40 \<noteq> 0"
  "\<forall>m \<in> {..15}. \<forall>fl \<in> {0x00, 0x10}. (fl + of_nat m :: u8) AND 0x80 = 0 \<and>
     (fl + of_nat m :: u8) AND 0xE0 \<noteq> 0x20 \<and> (fl + of_nat m :: u8) AND 0x40 = 0"
  by code_simp+

lemma encode_int_head:
  "\<exists>m bs. m \<le> 2 ^ p - 1 \<and> encode_int p fl n = (fl + of_nat m) # bs"
proof (cases "n < 2 ^ p - 1")
  case True
  then show ?thesis by (intro exI [of _ n] exI [of _ "[]"]) (simp add: encode_int_def)
next
  case False
  then show ?thesis
    by (intro exI [of _ "2 ^ p - 1"] exI [of _ "int_cont (n - (2 ^ p - 1))"])
       (simp add: encode_int_def del: of_nat_diff)
qed

section \<open>The simulation\<close>

definition text_match :: "htext \<Rightarrow> bytes \<Rightarrow> bool" where
  "text_match t b \<longleftrightarrow> t = Unknown \<or> t = Known b"

definition field_match :: "header_field \<Rightarrow> bytes \<times> bytes \<Rightarrow> bool" where
  "field_match f h \<longleftrightarrow> text_match (field_name f) (fst h) \<and> text_match (field_value f) (snd h)"

definition exact :: "bytes \<times> bytes \<Rightarrow> header_field" where
  "exact h = \<lparr>field_name = Known (fst h), field_value = Known (snd h)\<rparr>"

definition entry_match :: "entry \<Rightarrow> bytes \<times> bytes \<Rightarrow> bool" where
  "entry_match e h \<longleftrightarrow>
     (entry_name e = None \<or> entry_name e = Some (fst h)) \<and> entry_value e = snd h"

definition agree :: "entry list \<Rightarrow> (bytes \<times> bytes) list \<Rightarrow> bool" where
  "agree es ts \<longleftrightarrow> (\<forall>i. i < length es \<and> i < length ts \<longrightarrow> entry_match (es ! i) (ts ! i))"

text \<open>
  The newest entries agree as far as both tables go. The decoder's may be longer (an unknown name
  counts as empty, and after a \<open>forget\<close> its maximum is the largest allowed) or, once something was
  forgotten, shorter.
\<close>

definition sim :: "decoder \<Rightarrow> rfc_table \<Rightarrow> bool" where
  "sim d D \<longleftrightarrow>
     hpack_inv d \<and> d_limit d = t_limit D \<and> t_max D \<le> d_max_size d \<and>
     agree (d_entries d) (t_entries D) \<and>
     (\<not> d_forgotten d \<longrightarrow> length (t_entries D) \<le> length (d_entries d))"

lemma agree_take: "agree es ts \<Longrightarrow> agree (take a es) (take b ts)"
  by (simp add: agree_def)

lemma entry_match_size: "entry_match e h \<Longrightarrow> entry_size e \<le> rfc_size h"
  by (cases h) (auto simp: entry_match_def entry_size_def ENTRY_OVERHEAD_def)

lemma agree_Cons: "agree (e # es) (h # ts) \<longleftrightarrow> entry_match e h \<and> agree es ts"
  by (auto simp: agree_def nth_Cons split: nat.splits)

lemma agree_total:
  "agree es ts \<Longrightarrow> k \<le> length es \<Longrightarrow> k \<le> length ts \<Longrightarrow>
     total entry_size (take k es) \<le> total rfc_size (take k ts)"
proof (induction k arbitrary: es ts)
  case (Suc k)
  then obtain e es' h ts' where "es = e # es'" "ts = h # ts'"
    by (metis Suc_le_length_iff)
  with Suc show ?case by (simp add: agree_Cons add_mono entry_match_size)
qed simp

lemma agree_fit_length:
  assumes "agree es ts" "length ts \<le> length es" "m \<le> n"
  shows "length (fit rfc_size m ts) \<le> length (fit entry_size n es)"
proof (rule fit_longest)
  let ?k = "length (fit rfc_size m ts)"
  have k: "?k \<le> length ts" by (rule fit_length)
  then show "?k \<le> length es" using assms(2) by simp
  have "total entry_size (take ?k es) \<le> total rfc_size (take ?k ts)"
    using agree_total [OF assms(1)] k assms(2) by simp
  also have "\<dots> \<le> m" using fit_total [of rfc_size m ts] by (simp add: fit_take [symmetric])
  finally show "total entry_size (take ?k es) \<le> n" using assms(3) by simp
qed

lemma agree_fit: "agree es ts \<Longrightarrow> agree (fit f m es) (fit g n ts)"
  by (subst fit_take, subst (2) fit_take) (rule agree_take)

lemma evict_sim:
  assumes size: "d_size d = total entry_size (d_entries d)"
    and inv: "hpack_inv (evict d)"
    and limit: "d_limit d = t_limit D" and max: "m \<le> d_max_size d"
    and agree: "agree (d_entries d) ts"
    and seen: "\<not> d_forgotten d \<longrightarrow> length ts \<le> length (d_entries d)"
  shows "sim (evict d) (D\<lparr>t_max := m, t_entries := fit rfc_size m ts\<rparr>)"
proof -
  let ?once = "fit entry_size (d_max_size d) (d_entries d)"
  note ev = evict_spec [OF size]
  have "length (fit rfc_size m ts) \<le> length (d_entries (evict d))" if "\<not> d_forgotten (evict d)"
  proof -
    have "\<not> d_forgotten d" "total entry_size ?once \<le> MAX_TABLE_SIZE"
      using that by (simp_all add: ev)
    then show ?thesis
      using agree_fit_length [OF agree _ max] seen by (simp add: ev fit_all)
  qed
  moreover have "agree (d_entries (evict d)) (fit rfc_size m ts)"
    using agree_fit [OF agree, of entry_size "d_max_size d" rfc_size m]
      agree_take [of ?once "fit rfc_size m ts" "length (fit entry_size MAX_TABLE_SIZE ?once)" "length ts"]
      fit_length [of rfc_size m ts]
    by (simp add: ev fit_take [symmetric])
  ultimately show ?thesis using inv limit max by (simp add: sim_def ev)
qed

lemma evict_not_forgotten:
  assumes "d_size d = total entry_size (d_entries d)" "d_max_size d \<le> MAX_TABLE_SIZE"
  shows "d_forgotten (evict d) = d_forgotten d"
  using fit_total [of entry_size "d_max_size d" "d_entries d"] assms by (simp add: evict_spec)

lemma insert_sim:
  assumes "sim d D" "entry_match e h" "\<not> d_forgotten d \<longrightarrow> entry_name e \<noteq> None"
  shows "sim (insert_entry d e) (rfc_insert D h)"
proof (cases "entry_size e > d_max_size d")
  case True
  then have "rfc_size h > t_max D"
    using assms(1) entry_match_size [OF assms(2)] by (simp add: sim_def)
  then show ?thesis
    using True assms(1) empty_inv [of d]
    by (simp add: sim_def insert_entry_def rfc_insert_def empty_def agree_def)
next
  case False
  let ?d = "d\<lparr>d_entries := e # d_entries d, d_size := d_size d + entry_size e\<rparr>"
  have "hpack_inv (evict ?d)"
    using insert_entry_inv [of d e] assms False by (simp add: sim_def insert_entry_def)
  moreover have "D\<lparr>t_max := t_max D, t_entries := x\<rparr> = D\<lparr>t_entries := x\<rparr>" for x by simp
  ultimately show ?thesis
    using evict_sim [of ?d D "t_max D" "h # t_entries D"] assms False
    by (simp add: sim_def insert_entry_def rfc_insert_def hpack_inv_def agree_Cons)
qed

lemma insert_not_forgotten:
  assumes "hpack_inv d" "d_limit d \<le> MAX_TABLE_SIZE" "\<not> d_forgotten d"
  shows "\<not> d_forgotten (insert_entry d e)"
proof (cases "entry_size e > d_max_size d")
  case False
  let ?d = "d\<lparr>d_entries := e # d_entries d, d_size := d_size d + entry_size e\<rparr>"
  have "d_forgotten (evict ?d) = d_forgotten ?d"
    using assms by (intro evict_not_forgotten) (simp_all add: hpack_inv_def)
  then show ?thesis using False assms(3) by (simp add: insert_entry_def)
qed (simp add: insert_entry_def empty_def)

lemma resize_sim:
  assumes "sim d D" "n \<le> t_limit D"
  shows "sim (evict (let d = d\<lparr>d_max_size := n\<rparr> in if n = 0 then empty d else d))
    (D\<lparr>t_max := n, t_entries := fit rfc_size n (t_entries D)\<rparr>)"
proof -
  let ?d = "let d = d\<lparr>d_max_size := n\<rparr> in if n = 0 then empty d else d"
  have none: "fit rfc_size 0 ts = []" for ts by (cases ts) auto
  have inv: "hpack_inv (evict ?d)" using assms by (intro resize_inv) (simp_all add: sim_def)
  show ?thesis
  proof (cases "n = 0")
    case True
    then show ?thesis
      using evict_sim [of ?d D 0 "[]"] inv assms by (simp add: sim_def empty_def agree_def none)
  next
    case False
    then show ?thesis
      using evict_sim [of ?d D n "t_entries D"] inv assms by (simp add: sim_def hpack_inv_def)
  qed
qed

lemma sim_scratch [simp]:
  "sim (d\<lparr>d_name := n\<rparr>) D = sim d D" "sim (d\<lparr>d_value := v\<rparr>) D = sim d D"
  by (simp_all add: sim_def)

lemma lookup_sim:
  assumes "sim d D" "rfc_lookup D i = Some h" "i < 2 ^ 32"
  shows "\<exists>n v. lookup (d_entries d) (d_forgotten d) (of_nat i) = Inr (n, v) \<and>
    text_match n (fst h) \<and> text_match v (snd h) \<and>
    (\<not> d_forgotten d \<longrightarrow> n = Known (fst h) \<and> v = Known (snd h))"
proof -
  have i: "unat (of_nat i :: u32) = i" using assms(3) by (simp add: unat_of_nat take_bit_nat_eq_self)
  have static: "length STATIC_TABLE = 61" by (simp add: STATIC_TABLE_def)
  consider "0 < i" "i \<le> 61" "h = static_field (i - 1)"
    | "i > 61" "i - 62 < length (t_entries D)" "h = t_entries D ! (i - 62)"
    using assms(2) by (auto simp: rfc_lookup_def split: if_splits)
  then show ?thesis
  proof cases
    case 1
    then have "i - Suc 0 < 61" by simp
    with 1 show ?thesis
      by (simp add: lookup_def i static static_field_def text_match_def Let_def case_prod_beta)
  next
    case 2
    then have big: "\<not> i - Suc 0 < 61" by simp
    show ?thesis
    proof (cases "i - 62 < length (d_entries d)")
      case True
      then have "entry_match (d_entries d ! (i - 62)) h"
        "\<not> d_forgotten d \<Longrightarrow> entry_name (d_entries d ! (i - 62)) \<noteq> None"
        using assms(1) 2 by (auto simp: sim_def agree_def hpack_inv_def)
      then show ?thesis
        using True 2(1)
        by (cases "d_forgotten d")
           (auto simp: lookup_def i static text_match_def entry_match_def Let_def split: option.splits)
    next
      case False
      then have "d_forgotten d" using assms(1) 2(2) by (auto simp: sim_def)
      then show ?thesis
        using False 2(1) big by (simp add: lookup_def i static text_match_def Let_def)
    qed
  qed
qed

lemma literal_name_coding:
  assumes "name_coding p fl r ns" "1 \<le> p" "p \<le> 8" "take_bit p fl = 0"
    and "sim d D" "rfc_name D r = Some n" "d_name d = []"
  shows "\<exists>index pos k d'. decode_int (ns @ rest) p = Inr (index, pos) \<and>
    literal_name d (ns @ rest) index pos = (d', Inr (k, length ns)) \<and>
    (k \<and> d' = d\<lparr>d_name := n\<rparr> \<or> \<not> k \<and> d' = d \<and> d_forgotten d)"
  using assms(1)
proof cases
  case (coding_at i)
  have int: "decode_int (encode_int p fl i @ rest) p = Inr (of_nat i, length (encode_int p fl i))"
    using coding_at assms by (intro decode_encode_int) simp_all
  have "(of_nat i :: u32) \<noteq> 0"
    using coding_at by (simp add: word_unat_eq_iff unat_of_nat take_bit_nat_eq_self)
  moreover obtain h where h: "rfc_lookup D i = Some h" "n = fst h" using assms(6) coding_at by auto
  moreover obtain t v where "lookup (d_entries d) (d_forgotten d) (of_nat i) = Inr (t, v)"
    "text_match t (fst h)" "\<not> d_forgotten d \<longrightarrow> t = Known (fst h)"
    using lookup_sim [OF assms(5) h(1)] coding_at by blast
  ultimately show ?thesis
    using int coding_at assms(7) by (cases t) (auto simp: literal_name_def text_match_def)
next
  case (coding_new m ns')
  have int: "decode_int (encode_int p fl 0 @ ns' @ rest) p = Inr (of_nat 0, length (encode_int p fl 0))"
    using assms by (intro decode_encode_int) simp_all
  have "decode_string (ns' @ rest) [] = (m, Inr (length ns'))"
    using decode_string_coding [OF coding_new(3), of rest "[]"] by simp
  then show ?thesis
    using int coding_new assms(6,7)
    by (intro exI [of _ 0] exI [of _ "length (encode_int p fl 0)"] exI [of _ True] exI [of _ "d\<lparr>d_name := n\<rparr>"])
       (simp add: literal_name_def)
qed

text \<open>A literal: the field passed on matches, and the table follows the encoder's.\<close>

lemma literal_sim:
  assumes p: "p = (if indexing then 6 else 4)"
    and name: "name_coding p fl r ns" "take_bit p fl = 0"
    and flag: "(hd (ns @ vs @ rest) AND 0x40 \<noteq> 0) = indexing"
    and val: "string_coding v vs"
    and sim: "sim d D" and step: "rfc_name D r = Some n"
  shows "\<exists>d' f. literal d (ns @ vs @ rest) = (d', [f], Inr (length (ns @ vs))) \<and>
    sim d' (if indexing then rfc_insert D (n, v) else D) \<and> field_match f (n, v) \<and>
    (\<not> d_forgotten d \<and> d_limit d \<le> MAX_TABLE_SIZE \<longrightarrow> \<not> d_forgotten d' \<and> f = exact (n, v)) \<and>
    d_limit d' = d_limit d"
proof -
  let ?d = "d\<lparr>d_name := [], d_value := []\<rparr>"
  obtain index pos k d1 where
    int: "decode_int (ns @ vs @ rest) p = Inr (index, pos)" and
    ln: "literal_name ?d (ns @ vs @ rest) index pos = (d1, Inr (k, length ns))" and
    k: "k \<and> d1 = ?d\<lparr>d_name := n\<rparr> \<or> \<not> k \<and> d1 = ?d \<and> d_forgotten ?d"
  proof -
    have "1 \<le> p" "p \<le> 8" "sim ?d D" "d_name ?d = []" using p sim by simp_all
    from literal_name_coding [OF name(1) this(1,2) name(2) this(3) step this(4)] that
    show ?thesis by blast
  qed
  have d1: "sim d1 D" "d_value d1 = []" "d_limit d1 = d_limit d" "d_forgotten d1 = d_forgotten d"
    "k \<Longrightarrow> d_name d1 = n"
    using k sim by auto
  let ?new = "\<lparr>entry_name = (if k then Some (d_name d1) else None), entry_value = v\<rparr>"
  let ?f = "\<lparr>field_name = (if k then Known (d_name d1) else Unknown), field_value = Known v\<rparr>"
  let ?d2 = "d1\<lparr>d_value := v\<rparr>"
  have lit: "literal d (ns @ vs @ rest) =
      (if indexing then insert_entry ?d2 ?new else ?d2, [?f], Inr (length (ns @ vs)))"
    using int ln flag p decode_string_coding [OF val, of rest "[]"] d1(2)
    by (simp add: literal_def literal_value_def Let_def)
  have "entry_match ?new (n, v)" "\<not> d_forgotten ?d2 \<longrightarrow> entry_name ?new \<noteq> None"
    using d1 k by (auto simp: entry_match_def)
  then have "sim (insert_entry ?d2 ?new) (rfc_insert D (n, v))"
    using d1(1) by (intro insert_sim) simp_all
  moreover have "field_match ?f (n, v)" using d1(5) by (simp add: field_match_def text_match_def)
  moreover have "\<not> d_forgotten (insert_entry ?d2 ?new)"
    if "\<not> d_forgotten d" "d_limit d \<le> MAX_TABLE_SIZE"
    using insert_not_forgotten [of ?d2 ?new] that d1 by (simp add: sim_def)
  moreover have "?f = exact (n, v)" if "\<not> d_forgotten d"
    using that k d1(5) by (auto simp: exact_def)
  moreover have "d_limit (insert_entry ?d2 ?new) = d_limit d"
    using d1 \<open>sim (insert_entry ?d2 ?new) (rfc_insert D (n, v))\<close>
    by (simp add: sim_def rfc_insert_def)
  ultimately show ?thesis using lit d1 by (cases indexing) auto
qed

lemma name_coding_head:
  "name_coding p fl r ns \<Longrightarrow> \<exists>m bs. m \<le> 2 ^ p - 1 \<and> ns = (fl + of_nat m) # bs"
  using encode_int_head by (elim name_coding.cases) (metis append_Cons)+

text \<open>One representation of a block.\<close>

definition follows ::
  "decoder \<Rightarrow> rfc_table \<Rightarrow> decoder \<Rightarrow> header_field list \<Rightarrow> (bytes \<times> bytes) list \<Rightarrow> bool" where
  "follows d D' d' fs hs \<longleftrightarrow>
     sim d' D' \<and> list_all2 field_match fs hs \<and> d_limit d' = d_limit d \<and>
     (\<not> d_forgotten d \<and> d_limit d \<le> MAX_TABLE_SIZE \<longrightarrow> \<not> d_forgotten d' \<and> fs = map exact hs)"

lemma follows_trans:
  "follows d D1 d1 fs hs \<Longrightarrow> follows d1 D2 d2 fs' hs' \<Longrightarrow> follows d D2 d2 (fs @ fs') (hs @ hs')"
  by (auto simp: follows_def list_all2_appendI)

lemma literal_step:
  assumes "p = (if indexing then 6 else 4)" "name_coding p fl r ns" "take_bit p fl = 0"
    and "b AND 0x80 = 0" "b AND 0xE0 \<noteq> 0x20" "(b AND 0x40 \<noteq> 0) = indexing" "ns = b # bs"
    and "string_coding v vs" "sim d D" "rfc_step D started (Literal indexing r v) = Some (D', hs)"
  shows "\<exists>d' fs. decode_rest d ((ns @ vs) @ rest) seen =
      (let (d'', fs', e) = decode_rest d' rest (seen + 1) in (d'', fs @ fs', e)) \<and>
    follows d D' d' fs hs \<and> hs \<noteq> []"
proof -
  obtain n where n: "rfc_name D r = Some n" "hs = [(n, v)]"
    "D' = (if indexing then rfc_insert D (n, v) else D)"
    using assms(10) by auto
  have "(hd (ns @ vs @ rest) AND 0x40 \<noteq> 0) = indexing" using assms(6,7) by simp
  from literal_sim [OF assms(1-3) this assms(8,9) n(1)] obtain d' f where
    lit: "literal d (ns @ vs @ rest) = (d', [f], Inr (length (ns @ vs)))" and
    f: "follows d D' d' [f] hs"
    by (auto simp: follows_def n)
  have "decode_rest d (ns @ vs @ rest) seen =
      (let (d'', fs', e) = decode_rest d' rest (seen + 1) in (d'', [f] @ fs', e))"
    using lit assms(4,5,7) by (simp add: decode_rest.simps Let_def)
  then show ?thesis using f n(2) by (intro exI [of _ d'] exI [of _ "[f]"]) simp
qed

lemma rep_step:
  assumes "rep_coding r bs" "sim d D" "rfc_step D (seen > 0) r = Some (D', hs)"
  shows "\<exists>d' fs seen'. decode_rest d (bs @ rest) seen =
      (let (d'', fs', e) = decode_rest d' rest seen' in (d'', fs @ fs', e)) \<and>
    follows d D' d' fs hs \<and> ((seen' > 0) = (seen > 0 \<or> hs \<noteq> []))"
  using assms(1)
proof cases
  case (coding_indexed i)
  obtain b bs' where b: "encode_int 7 0x80 i = b # bs'" "b AND 0x80 \<noteq> 0"
    by (rule encode_int_first_flag)
  have int: "decode_int (encode_int 7 0x80 i @ rest) 7 = Inr (of_nat i, length (encode_int 7 0x80 i))"
    using coding_indexed by (intro decode_encode_int) (simp_all add: take_bit_eq_mask mask_eq_exp_minus_1)
  obtain h where h: "rfc_lookup D i = Some h" "hs = [h]" "D' = D"
    using assms(3) coding_indexed by auto
  obtain n v where nv: "lookup (d_entries d) (d_forgotten d) (of_nat i) = Inr (n, v)"
    "text_match n (fst h)" "text_match v (snd h)"
    "\<not> d_forgotten d \<longrightarrow> n = Known (fst h) \<and> v = Known (snd h)"
    using lookup_sim [OF assms(2) h(1)] coding_indexed by blast
  have "decode_rest d (bs @ rest) seen =
      (let (d'', fs', e) = decode_rest d rest (seen + 1)
       in (d'', [\<lparr>field_name = n, field_value = v\<rparr>] @ fs', e))"
    using int b nv(1) coding_indexed by (simp add: decode_rest.simps Let_def)
  moreover have "follows d D' d [\<lparr>field_name = n, field_value = v\<rparr>] hs"
    using nv assms(2) by (simp add: follows_def h field_match_def exact_def)
  ultimately show ?thesis using h by (intro exI [of _ d] exI [of _ "[_]"] exI [of _ "seen + 1"]) simp
next
  case (coding_resize n)
  obtain m bs' where m: "m \<le> 31" "encode_int 5 0x20 n = (0x20 + of_nat m) # bs'"
    using encode_int_head [of 5 "0x20" n] by auto
  have int: "decode_int (encode_int 5 0x20 n @ rest) 5 = Inr (of_nat n, length (encode_int 5 0x20 n))"
    using coding_resize by (intro decode_encode_int) (simp_all add: take_bit_eq_mask mask_eq_exp_minus_1)
  have n: "unat (of_nat n :: u32) = n"
    using coding_resize by (simp add: unat_of_nat take_bit_nat_eq_self)
  have ok: "seen = 0" "n \<le> t_limit D" "hs = []"
    "D' = D\<lparr>t_max := n, t_entries := fit rfc_size n (t_entries D)\<rparr>"
    using assms(3) coding_resize by (auto split: if_splits)
  let ?d = "let d = d\<lparr>d_max_size := n\<rparr> in if n = 0 then empty d else d"
  have limit: "n \<le> d_limit d" using ok(2) assms(2) by (simp add: sim_def)
  have "decode_rest d (bs @ rest) seen = decode_rest (evict ?d) rest seen"
    using int m first_bytes(1) coding_resize ok(1) limit n
    by (simp add: decode_rest.simps Let_def)
  moreover have "follows d D' (evict ?d) [] hs"
  proof -
    have "sim (evict ?d) D'" using resize_sim [OF assms(2) ok(2)] ok(4) by simp
    moreover have "\<not> d_forgotten (evict ?d)" if "\<not> d_forgotten d" "d_limit d \<le> MAX_TABLE_SIZE"
      using that evict_not_forgotten [of ?d] assms(2) limit
      by (cases "n = 0") (simp_all add: sim_def hpack_inv_def empty_def)
    ultimately show ?thesis using assms(2) ok by (simp add: follows_def sim_def)
  qed
  ultimately show ?thesis
    using ok by (intro exI [of _ "evict ?d"] exI [of _ "[]"] exI [of _ seen]) simp
next
  case (coding_indexing r' ns v vs)
  obtain m bs' where m: "m \<le> 63" "ns = (0x40 + of_nat m) # bs'"
    using name_coding_head [OF coding_indexing(3)] by auto
  have tb: "take_bit 6 (0x40 :: u8) = 0" by (simp add: take_bit_eq_mask mask_eq_exp_minus_1)
  from literal_step [of 6 True "0x40" r' ns "0x40 + of_nat m" bs' v vs d D "seen > 0" D' hs rest seen]
  show ?thesis
    using coding_indexing m first_bytes(2) tb assms(2,3) by (fastforce intro: exI [of _ "seen + 1"])
next
  case (coding_plain fl r' ns v vs)
  obtain m bs' where m: "m \<le> 15" "ns = (fl + of_nat m) # bs'"
    using name_coding_head [OF coding_plain(3)] by auto
  have tb: "take_bit 4 fl = 0" using coding_plain(4) by (auto simp: take_bit_eq_mask mask_eq_exp_minus_1)
  from literal_step [of 4 False fl r' ns "fl + of_nat m" bs' v vs d D "seen > 0" D' hs rest seen]
  show ?thesis
    using coding_plain m first_bytes(3) tb assms(2,3) by (fastforce intro: exI [of _ "seen + 1"])
qed

lemma block_sim:
  "block_coding rs block \<Longrightarrow> sim d D \<Longrightarrow> rfc_run D (seen > 0) rs = Some (D', hs) \<Longrightarrow>
     \<exists>d' fs. decode_rest d block seen = (d', fs, None) \<and> follows d D' d' fs hs"
proof (induction rs block arbitrary: d D seen hs rule: block_coding.induct)
  case coding_nil
  then show ?case by (simp add: decode_rest.simps follows_def)
next
  case (coding_cons r bs rs rest)
  obtain D1 hs1 hs2 where
    step: "rfc_step D (seen > 0) r = Some (D1, hs1)" and
    run: "rfc_run D1 (seen > 0 \<or> hs1 \<noteq> []) rs = Some (D', hs2)" and hs: "hs = hs1 @ hs2"
    using coding_cons.prems(2) by (auto split: option.splits)
  from rep_step [OF coding_cons.hyps(1) coding_cons.prems(1) step, of rest]
  obtain d1 fs1 seen1 where
    d1: "decode_rest d (bs @ rest) seen =
      (let (d'', fs', e) = decode_rest d1 rest seen1 in (d'', fs1 @ fs', e))"
    "follows d D1 d1 fs1 hs1" "(seen1 > 0) = (seen > 0 \<or> hs1 \<noteq> [])" by blast
  have "sim d1 D1" using d1(2) by (simp add: follows_def)
  then obtain d' fs2 where "decode_rest d1 rest seen1 = (d', fs2, None)" "follows d1 D' d' fs2 hs2"
    using coding_cons.IH [of d1 D1 seen1 hs2] run d1(3) by auto
  then show ?case
    using d1 follows_trans hs by (intro exI [of _ d'] exI [of _ "fs1 @ fs2"]) auto
qed

section \<open>Properties\<close>

lemma decode_block_sim:
  assumes "block_coding rs block" "sim d D" "rfc_run D False rs = Some (D', hs)"
  shows "\<exists>d' fs. decode_block d block = (d', fs, None) \<and> sim d' D' \<and> list_all2 field_match fs hs \<and>
    (\<not> d_forgotten d \<and> d_limit d \<le> MAX_TABLE_SIZE \<longrightarrow> fs = map exact hs \<and> \<not> d_forgotten d')"
  using block_sim [of rs block d D 0 D' hs] assms
  by (auto simp: decode_block_def decode_fields_def follows_def)

text \<open>C34: header block decoding refines RFC 7541. Whatever encoding the peer chose for a block that
  is valid in its table, the decoder reads the block without an error, passes on one field per header
  in order, every name and value it calls known is the one sent, and its table keeps following the
  encoder's. While nothing was forgotten (and the limit is within the memory cap) nothing is unknown.\<close>

theorem decode_block_refines:
  assumes "block_coding rs block" "sim d D" "rfc_run D False rs = Some (D', hs)"
  shows "\<exists>d' fs. decode_block d block = (d', fs, None) \<and> sim d' D' \<and> list_all2 field_match fs hs \<and>
    (\<not> d_forgotten d \<and> d_limit d \<le> MAX_TABLE_SIZE \<longrightarrow> fs = map exact hs \<and> \<not> d_forgotten d')"
  using decode_block_sim [OF assms] .

definition rfc_new :: rfc_table where
  "rfc_new = \<lparr>t_entries = [], t_max = 4096, t_limit = 4096\<rparr>"

lemma sim_new: "sim decoder_new rfc_new"
  using decoder_new_inv
  by (simp add: sim_def decoder_new_def rfc_new_def agree_def DEFAULT_TABLE_SIZE_def)

lemma decode_block_refines_witness:
  "\<exists>d' fs. decode_block decoder_new [0x82, 0x84] = (d', fs, None) \<and>
     fs = [exact (as_bytes '':method'', as_bytes ''GET''), exact (as_bytes '':path'', as_bytes ''/'')]"
proof -
  have "rep_coding (Indexed 2) [0x82]" "rep_coding (Indexed 4) [0x84]"
    using coding_indexed [of 2] coding_indexed [of 4] by (simp_all add: encode_int_def)
  then have "block_coding [Indexed 2, Indexed 4] ([0x82] @ [0x84] @ [])"
    by (intro coding_cons coding_nil)
  then have coding: "block_coding [Indexed 2, Indexed 4] [0x82, 0x84]" by simp
  have run: "rfc_run rfc_new False [Indexed 2, Indexed 4] =
      Some (rfc_new, [(as_bytes '':method'', as_bytes ''GET''), (as_bytes '':path'', as_bytes ''/'')])"
    by (simp add: rfc_lookup_def static_field_def STATIC_TABLE_def)
  have "\<not> d_forgotten decoder_new \<and> d_limit decoder_new \<le> MAX_TABLE_SIZE"
    by (simp add: decoder_new_def DEFAULT_TABLE_SIZE_def MAX_TABLE_SIZE_def)
  with decode_block_refines [OF coding sim_new run] show ?thesis by auto
qed

text \<open>C37: \<open>forget\<close> resynchronises: whatever table the encoder has after the lost bytes (within the
  limit both agreed), the next valid block is read without an error, in full and in order, every
  known text right, and from there on the decoder follows the encoder's table again; only entries
  from before the loss are unknown.\<close>

theorem forget_resynchronises:
  assumes "hpack_inv d" "t_limit D = d_limit d" "t_max D \<le> t_limit D"
    and "block_coding rs block" "rfc_run D False rs = Some (D', hs)"
  shows "\<exists>d' fs. decode_block (forget d) block = (d', fs, None) \<and> sim d' D' \<and> list_all2 field_match fs hs"
proof -
  have "sim (forget d) D" using assms(1-3) forget_inv by (auto simp: sim_def forget_def agree_def)
  from decode_block_sim [OF assms(4) this assms(5)] show ?thesis by blast
qed

lemma forget_resynchronises_witness:
  "\<exists>d' fs. decode_block (forget decoder_new) [0x82] = (d', fs, None) \<and> length fs = 1"
proof -
  have "rep_coding (Indexed 2) [0x82]" using coding_indexed [of 2] by (simp add: encode_int_def)
  then have "block_coding [Indexed 2] ([0x82] @ [])" by (intro coding_cons coding_nil)
  then have coding: "block_coding [Indexed 2] [0x82]" by simp
  have run: "rfc_run rfc_new False [Indexed 2] =
      Some (rfc_new, [(as_bytes '':method'', as_bytes ''GET'')])"
    by (simp add: rfc_lookup_def static_field_def STATIC_TABLE_def)
  have "t_limit rfc_new = d_limit decoder_new" "t_max rfc_new \<le> t_limit rfc_new"
    by (simp_all add: rfc_new_def decoder_new_def DEFAULT_TABLE_SIZE_def)
  from forget_resynchronises [OF decoder_new_inv this coding run] show ?thesis
    by (auto dest: list_all2_lengthD)
qed

section \<open>The decoder as the connection uses it\<close>

text \<open>
  The connection feeds its decoders header blocks and tells them of lost bytes (\<open>None\<close>), in any
  order. What it relies on is that memory stays bounded.
\<close>

locale header_decoder =
  fixes decode :: "'d \<Rightarrow> bytes \<Rightarrow> 'd \<times> 'f list \<times> 'e option"
    and lose :: "'d \<Rightarrow> 'd"
    and inv :: "'d \<Rightarrow> bool"
    and held :: "'d \<Rightarrow> nat"
    and cap :: nat
  assumes inv_decode: "inv d \<Longrightarrow> inv (fst (decode d block))"
    and inv_lose: "inv d \<Longrightarrow> inv (lose d)"
    and inv_held: "inv d \<Longrightarrow> held d \<le> cap"
begin

primrec run :: "'d \<Rightarrow> bytes option list \<Rightarrow> 'd" where
  "run d [] = d"
| "run d (op # ops) = run (case op of None \<Rightarrow> lose d | Some block \<Rightarrow> fst (decode d block)) ops"

lemma inv_run: "inv d \<Longrightarrow> inv (run d ops)"
  by (induction ops arbitrary: d) (auto simp: inv_decode inv_lose split: option.splits)

lemma run_bounded: "inv d \<Longrightarrow> held (run d ops) \<le> cap"
  by (rule inv_held [OF inv_run])

end

lemma inv_entries: "hpack_inv d \<Longrightarrow> 32 * length (d_entries d) \<le> d_size d"
proof -
  have "32 * length es \<le> total entry_size es" for es
    by (induction es) (simp_all add: entry_size_def ENTRY_OVERHEAD_def)
  then show "hpack_inv d \<Longrightarrow> 32 * length (d_entries d) \<le> d_size d" by (simp add: hpack_inv_def)
qed

interpretation hpack: header_decoder decode_block forget hpack_inv d_size MAX_TABLE_SIZE
proof
  show "d_size d \<le> MAX_TABLE_SIZE" if "hpack_inv d" for d using that by (simp add: hpack_inv_def)
qed (auto simp: decode_block_def decode_fields_def Let_def case_prod_beta decode_rest_inv forget_inv)

definition decoder_after :: "bytes option list \<Rightarrow> decoder" where
  "decoder_after ops = hpack.run decoder_new ops"

text \<open>a decoder holds at most 64 KiB of table, in at most 2048 entries, after any header blocks
  (malformed ones included) and losses.\<close>

lemma decoder_bounded:
  "d_size (decoder_after ops) \<le> MAX_TABLE_SIZE \<and> length (d_entries (decoder_after ops)) \<le> 2048"
  using hpack.run_bounded [OF decoder_new_inv, of ops]
    inv_entries [OF hpack.inv_run [OF decoder_new_inv, of ops]]
  by (simp add: decoder_after_def MAX_TABLE_SIZE_def)

end
