(* ===== verification/Frame.thy ===== *)
theory Frame
  imports Prelude
begin

text \<open>
  HTTP/2 frames of one direction (honeybeepf-llm-core/src/h2/frame.rs): the reader's state machine
  over bytes cut at any point, and the re-anchoring scan it uses after lost bytes. The closure
  \<open>on\<close> is the list of frames emitted, in order.
\<close>

unbundle bit_operations_syntax

section \<open>Constants and types\<close>

definition PREFACE :: bytes where
  "PREFACE = as_bytes ''PRI * HTTP/2.0'' @ [13, 10, 13, 10] @ as_bytes ''SM'' @ [13, 10, 13, 10]"

definition DEFAULT_MAX_FRAME_SIZE :: nat where "DEFAULT_MAX_FRAME_SIZE = 16384"
definition MAX_HEADER_BLOCK :: nat where "MAX_HEADER_BLOCK = 64 * 1024"

abbreviation (input) DATA :: u8 where "DATA \<equiv> 0"
abbreviation (input) HEADERS :: u8 where "HEADERS \<equiv> 1"
abbreviation (input) PRIORITY :: u8 where "PRIORITY \<equiv> 2"
abbreviation (input) RST_STREAM :: u8 where "RST_STREAM \<equiv> 3"
abbreviation (input) SETTINGS :: u8 where "SETTINGS \<equiv> 4"
abbreviation (input) PUSH_PROMISE :: u8 where "PUSH_PROMISE \<equiv> 5"
abbreviation (input) PING :: u8 where "PING \<equiv> 6"
abbreviation (input) GOAWAY :: u8 where "GOAWAY \<equiv> 7"
abbreviation (input) WINDOW_UPDATE :: u8 where "WINDOW_UPDATE \<equiv> 8"
abbreviation (input) CONTINUATION :: u8 where "CONTINUATION \<equiv> 9"

abbreviation (input) END_STREAM :: u8 where "END_STREAM \<equiv> 0x1"
abbreviation (input) END_HEADERS :: u8 where "END_HEADERS \<equiv> 0x4"
abbreviation (input) PADDED :: u8 where "PADDED \<equiv> 0x8"
abbreviation (input) FLAG_PRIORITY :: u8 where "FLAG_PRIORITY \<equiv> 0x20"

definition has :: "u8 \<Rightarrow> u8 \<Rightarrow> bool" where
  "has flags flag \<longleftrightarrow> flags AND flag \<noteq> 0"

datatype frame =
    Headers u32 bytes
  | HeadersTooLarge u32
  | Data u32 bytes
  | StreamEnd u32
  | Reset u32
  | Goaway u32

datatype broken = Preface | TooLarge | NoStream | BadPadding | Continuation | PushPromise

datatype read_state = PrefaceAt nat | Head | Payload | Scan | Broken broken

datatype candidate = Anchored | Rejected | NeedMore

datatype head_scan = HeadOk nat | HeadBad | HeadShort

record block =
  b_stream :: u32
  b_end_stream :: bool
  b_too_large :: bool

record frame_reader =
  r_state :: read_state
  r_max_frame_size :: nat
  r_head :: bytes
  r_head_len :: nat
  r_kind :: u8
  r_flags :: u8
  r_stream :: u32
  r_left :: nat
  r_front :: nat
  r_pad_due :: bool
  r_pad :: nat
  r_block :: "block option"
  r_buf :: bytes
  r_ctrl :: bytes
  r_ctrl_len :: nat
  r_scan :: bytes
  r_scan_from :: nat

definition server :: frame_reader where
  "server = \<lparr>r_state = Head, r_max_frame_size = DEFAULT_MAX_FRAME_SIZE, r_head = replicate 9 0,
     r_head_len = 0, r_kind = 0, r_flags = 0, r_stream = 0, r_left = 0, r_front = 0,
     r_pad_due = False, r_pad = 0, r_block = None, r_buf = [], r_ctrl = replicate 4 0,
     r_ctrl_len = 0, r_scan = [], r_scan_from = 0\<rparr>"

definition client :: frame_reader where
  "client = server\<lparr>r_state := PrefaceAt 0\<rparr>"

definition set_max_frame_size :: "frame_reader \<Rightarrow> u32 \<Rightarrow> frame_reader" where
  "set_max_frame_size r n =
     r\<lparr>r_max_frame_size := max DEFAULT_MAX_FRAME_SIZE (min (unat n) (2 ^ 24 - 1))\<rparr>"

definition reader_broken :: "frame_reader \<Rightarrow> broken option" where
  "reader_broken r = (case r_state r of Broken why \<Rightarrow> Some why | _ \<Rightarrow> None)"

definition resync :: "frame_reader \<Rightarrow> frame_reader" where
  "resync r = r\<lparr>r_block := None, r_buf := [], r_scan := [], r_scan_from := 0, r_state := Scan\<rparr>"

definition skip_gap :: "frame_reader \<Rightarrow> nat \<Rightarrow> frame_reader \<times> bool" where
  "skip_gap r n =
     (if r_state r = Payload \<and> r_kind r = DATA \<and> r_front r = 0 \<and> n \<le> r_left r - r_pad r
      then (r\<lparr>r_left := r_left r - n\<rparr>, True) else (r, False))"

section \<open>Frame heads\<close>

text \<open>\<open>u32::from_be_bytes\<close>, and the length and stream id fields of a head.\<close>

definition from_be_bytes :: "u8 \<Rightarrow> u8 \<Rightarrow> u8 \<Rightarrow> u8 \<Rightarrow> u32" where
  "from_be_bytes a b c d =
     push_bit 24 (ucast a) OR push_bit 16 (ucast b) OR push_bit 8 (ucast c) OR ucast d"

definition head_length :: "bytes \<Rightarrow> nat" where
  "head_length h = push_bit 16 (unat (h ! 0)) OR push_bit 8 (unat (h ! 1)) OR unat (h ! 2)"

definition head_stream :: "bytes \<Rightarrow> u32" where
  "head_stream h = from_be_bytes (h ! 5) (h ! 6) (h ! 7) (h ! 8) AND 0x7FFFFFFF"

definition check_head :: "frame_reader \<Rightarrow> nat \<Rightarrow> u8 \<Rightarrow> u32 \<Rightarrow> nat \<Rightarrow> broken option" where
  "check_head r len kind stream front =
     (let in_block = (case r_block r of None \<Rightarrow> False
                      | Some b \<Rightarrow> kind = CONTINUATION \<and> stream = b_stream b)
      in if len > r_max_frame_size r then Some TooLarge
         else if (r_block r \<noteq> None) \<noteq> in_block \<or> (kind = CONTINUATION \<and> \<not> in_block) then Some Continuation
         else if (kind = DATA \<or> kind = HEADERS \<or> kind = CONTINUATION) \<and> stream = 0 then Some NoStream
         else if kind = PUSH_PROMISE then Some PushPromise
         else if front > len then Some BadPadding
         else None)"

definition finish_frame :: "frame_reader \<Rightarrow> frame_reader \<times> frame list" where
  "finish_frame r =
     (let r = r\<lparr>r_state := Head\<rparr>;
          e1 = (if r_kind r = DATA \<and> has (r_flags r) END_STREAM then [StreamEnd (r_stream r)] else []);
          e2 = (if r_kind r = RST_STREAM \<and> r_stream r \<noteq> 0 then [Reset (r_stream r)] else []);
          e3 = (if r_kind r = GOAWAY \<and> r_ctrl_len r = 4 then
                  [Goaway (from_be_bytes (r_ctrl r ! 0) (r_ctrl r ! 1) (r_ctrl r ! 2) (r_ctrl r ! 3)
                           AND 0x7FFFFFFF)] else []);
          es = e1 @ e2 @ e3
      in if \<not> (r_kind r = HEADERS \<or> r_kind r = CONTINUATION) \<or> \<not> has (r_flags r) END_HEADERS
         then (r, es)
         else (case r_block r of
                 None \<Rightarrow> (r, es)
               | Some b \<Rightarrow>
                   (r\<lparr>r_block := None\<rparr>,
                    es @ [if b_too_large b then HeadersTooLarge (b_stream b)
                          else Headers (b_stream b) (r_buf r)]
                       @ (if b_end_stream b then [StreamEnd (b_stream b)] else []))))"

definition start_frame :: "frame_reader \<Rightarrow> frame_reader \<times> frame list" where
  "start_frame r =
     (let h = r_head r; len = head_length h; kind = h ! 3; flags = h ! 4; stream = head_stream h;
          padded = ((kind = DATA \<or> kind = HEADERS) \<and> has flags PADDED);
          priority = (kind = HEADERS \<and> has flags FLAG_PRIORITY);
          front = of_bool padded + (if priority then 5 else 0)
      in case check_head r len kind stream front of
           Some why \<Rightarrow> (r\<lparr>r_state := Broken why\<rparr>, [])
         | None \<Rightarrow>
             (let r = r\<lparr>r_kind := kind, r_flags := flags, r_stream := stream, r_left := len,
                        r_front := front, r_pad_due := padded, r_pad := 0\<rparr>;
                  r = (if kind = HEADERS then
                         r\<lparr>r_buf := [], r_block := Some \<lparr>b_stream = stream,
                           b_end_stream = has flags END_STREAM, b_too_large = False\<rparr>\<rparr>
                       else r);
                  r = (if kind = GOAWAY then r\<lparr>r_ctrl := replicate 4 0, r_ctrl_len := 0\<rparr> else r);
                  r = r\<lparr>r_state := Payload\<rparr>
              in if len = 0 then finish_frame r else (r, [])))"

section \<open>Payload bytes\<close>

text \<open>\<open>copy_from_slice\<close> into a slice of \<open>xs\<close> that starts at \<open>i\<close>.\<close>

definition copy_at :: "nat \<Rightarrow> 'a list \<Rightarrow> 'a list \<Rightarrow> 'a list" where
  "copy_at i xs src = take i xs @ src @ drop (i + length src) xs"

text \<open>The loop over the pad length byte and the priority fields: the bytes it used, and whether it broke.\<close>

definition front_step :: "frame_reader \<Rightarrow> u8 \<Rightarrow> frame_reader" where
  "front_step r b =
     (let r = (if r_pad_due r then r\<lparr>r_pad := unat b, r_pad_due := False\<rparr> else r)
      in r\<lparr>r_front := r_front r - 1, r_left := r_left r - 1\<rparr>)"

fun front_loop :: "frame_reader \<Rightarrow> bytes \<Rightarrow> frame_reader \<times> nat \<times> bool" where
  "front_loop r [] = (r, 0, False)"
| "front_loop r (b # bs) =
     (if r_front r > 0 then
        (let r = front_step r b
         in if r_front r = 0 \<and> r_pad r > r_left r then (r\<lparr>r_state := Broken BadPadding\<rparr>, 1, True)
            else (let (r', used, broke) = front_loop r bs in (r', used + 1, broke)))
      else (r, 0, False))"

text \<open>What the content bytes of a payload do.\<close>

definition content_bytes :: "frame_reader \<Rightarrow> bytes \<Rightarrow> frame_reader \<times> frame list" where
  "content_bytes r bs =
     (let n = length bs
      in if r_kind r = DATA \<and> n > 0 then (r, [Data (r_stream r) bs])
         else if (r_kind r = HEADERS \<or> r_kind r = CONTINUATION) \<and>
                 (case r_block r of Some b \<Rightarrow> \<not> b_too_large b | None \<Rightarrow> False) then
           (let b = the (r_block r); large = (length (r_buf r) + n > MAX_HEADER_BLOCK)
            in (r\<lparr>r_block := Some (b\<lparr>b_too_large := large\<rparr>),
                  r_buf := (if large then r_buf r else r_buf r @ bs)\<rparr>, []))
         else if r_kind r = GOAWAY \<and> n > 0 \<and> r_ctrl_len r < 4 then
           (let t = min n (4 - r_ctrl_len r)
            in (r\<lparr>r_ctrl := copy_at (r_ctrl_len r) (r_ctrl r) (take t bs),
                  r_ctrl_len := r_ctrl_len r + t\<rparr>, []))
         else (r, []))"

text \<open>The payload after its front fields: content, then the padding at its end.\<close>

definition content_due :: "frame_reader \<Rightarrow> nat" where
  "content_due r = (if r_front r > 0 then 0 else r_left r - r_pad r)"

definition payload_part :: "frame_reader \<Rightarrow> bytes \<Rightarrow> nat \<Rightarrow> bool \<Rightarrow> frame_reader \<times> nat \<times> frame list" where
  "payload_part r input n whole =
     (let (r, es) = content_bytes r (take n input);
          r = r\<lparr>r_left := r_left r - n\<rparr>
      in if whole then
           (let pad = min (r_left r) (length input - n)
            in (r\<lparr>r_left := r_left r - pad\<rparr>, n + pad, es))
         else (r, n, es))"

definition payload_body :: "frame_reader \<Rightarrow> bytes \<Rightarrow> frame_reader \<times> nat \<times> frame list" where
  "payload_body r input =
     (let content = content_due r; n = min content (length input)
      in payload_part r input n (n = content))"

definition payload :: "frame_reader \<Rightarrow> bytes \<Rightarrow> frame_reader \<times> nat \<times> frame list" where
  "payload r input =
     (let (r, used, broke) = front_loop r input
      in if broke then (r, used, [])
         else (let (r, more_used, es) = payload_body r (drop used input) in (r, used + more_used, es)))"

section \<open>Re-anchoring after a gap\<close>

definition plausible_head :: "u8 \<Rightarrow> u8 \<Rightarrow> u32 \<Rightarrow> bool" where
  "plausible_head kind flags stream =
     (let odd_stream = (stream AND 1 = 1);
          with = (\<lambda>mask on_connection.
            flags AND NOT mask = 0 \<and>
            (if on_connection then stream = 0 else stream \<noteq> 0 \<and> odd_stream))
      in if kind = DATA then with (END_STREAM OR PADDED) False
         else if kind = HEADERS then with (END_STREAM OR END_HEADERS OR PADDED OR FLAG_PRIORITY) False
         else if kind = PRIORITY then with 0 False
         else if kind = RST_STREAM then with 0 False
         else if kind = SETTINGS then with 0x1 True
         else if kind = PING then with 0x1 True
         else if kind = GOAWAY then with 0 True
         else if kind = WINDOW_UPDATE then flags = 0 \<and> (stream = 0 \<or> odd_stream)
         else if kind = CONTINUATION then with END_HEADERS False
         else False)"

definition scan_push :: "frame_reader \<Rightarrow> bytes \<Rightarrow> frame_reader" where
  "scan_push r input =
     (let cap = min (2 * r_max_frame_size r + 27) (256 * 1024);
          scan = r_scan r @ input
      in if length scan > cap then
           (let n = length scan - cap
            in r\<lparr>r_scan := drop n scan, r_scan_from := r_scan_from r - n\<rparr>)
         else r\<lparr>r_scan := scan\<rparr>)"

definition scan_head :: "nat \<Rightarrow> bytes \<Rightarrow> nat \<Rightarrow> head_scan" where
  "scan_head max_size scan off =
     (if off + 9 > length scan then HeadShort
      else let h = take 9 (drop off scan); len = head_length h
           in if len \<le> max_size \<and> plausible_head (h ! 3) (h ! 4) (head_stream h)
              then HeadOk len else HeadBad)"

fun chain :: "nat \<Rightarrow> bytes \<Rightarrow> nat \<Rightarrow> nat \<Rightarrow> candidate" where
  "chain max_size scan 0 at = Anchored"
| "chain max_size scan (Suc n) at =
     (case scan_head max_size scan at of
        HeadBad \<Rightarrow> Rejected
      | HeadShort \<Rightarrow> NeedMore
      | HeadOk len \<Rightarrow> chain max_size scan n (at + 9 + len))"

definition chain_at :: "frame_reader \<Rightarrow> nat \<Rightarrow> candidate" where
  "chain_at r off = chain (r_max_frame_size r) (r_scan r) 3 off"

text \<open>The loop of \<open>anchor\<close> at its variable \<open>at\<close>.\<close>

function anchor_from :: "frame_reader \<Rightarrow> nat \<Rightarrow> frame_reader \<times> nat option" where
  "anchor_from r at =
     (if at + 9 \<le> length (r_scan r) then
        (case chain_at r at of
           Anchored \<Rightarrow> (r, Some at)
         | NeedMore \<Rightarrow> anchor_from r (at + 1)
         | Rejected \<Rightarrow>
             anchor_from (if at = r_scan_from r then r\<lparr>r_scan_from := r_scan_from r + 1\<rparr> else r) (at + 1))
      else (r, None))"
  by pat_completeness auto
termination
  by (relation "measure (\<lambda>(r, at). length (r_scan r) - at)") auto

declare anchor_from.simps [simp del]

definition anchor :: "frame_reader \<Rightarrow> frame_reader \<times> nat option" where
  "anchor r = anchor_from r (r_scan_from r)"

definition looks_like_http2 :: "bytes \<Rightarrow> bool" where
  "looks_like_http2 bs = (snd (anchor (scan_push (resync server) bs)) \<noteq> None)"

section \<open>Reading\<close>

text \<open>
  The loop of \<open>read\<close>. A round in \<open>PrefaceAt\<close> or \<open>Head\<close> that takes no byte would mean that the
  preface or the head was already whole, where Rust's subtractions end the program or the loop
  does not; the reader's invariant excludes it, and the function stops there.
\<close>

fun state_rank :: "read_state \<Rightarrow> nat" where
  "state_rank Payload = 1"
| "state_rank _ = 0"

lemma finish_frame_state [simp]: "r_state (fst (finish_frame r)) = Head"
  by (simp add: finish_frame_def Let_def split: option.splits)

lemma start_frame_state: "r_state (fst (start_frame r)) \<noteq> Scan"
  by (auto simp: start_frame_def Let_def split: option.splits)

lemma front_step_simps [simp]:
  "r_state (front_step r b) = r_state r" "r_front (front_step r b) = r_front r - 1"
  "r_left (front_step r b) = r_left r - 1"
  by (simp_all add: front_step_def Let_def)

lemma front_loop_none: "r_front r = 0 \<Longrightarrow> front_loop r bs = (r, 0, False)"
  by (cases bs) simp_all

lemma front_loop_used:
  "front_loop r bs = (r', used, broke) \<Longrightarrow>
     used \<le> length bs \<and> (broke \<longrightarrow> 0 < used) \<and>
     r_state r' = (if broke then Broken BadPadding else r_state r) \<and>
     (r_front r > 0 \<and> bs \<noteq> [] \<longrightarrow> 0 < used) \<and>
     (\<not> broke \<longrightarrow> used = length bs \<or> r_front r' = 0)"
proof (induction r bs arbitrary: r' used broke rule: front_loop.induct)
  case (2 r b bs)
  show ?case
  proof (cases "r_front r > 0")
    case True
    note front = this
    let ?r = "front_step r b"
    show ?thesis
    proof (cases "r_front ?r = 0 \<and> r_pad ?r > r_left ?r")
      case True
      then show ?thesis using front "2.prems" by (auto simp: Let_def)
    next
      case False
      obtain r1 u1 b1 where rest: "front_loop ?r bs = (r1, u1, b1)" by (rule prod_cases3)
      then have "r' = r1" "used = Suc u1" "broke = b1"
        using front False "2.prems" by (auto simp: Let_def)
      then show ?thesis using "2.IH" [OF front refl False rest] by simp
    qed
  next
    case False
    then show ?thesis using "2.prems" by simp
  qed
qed simp

lemma content_bytes_simps [simp]:
  "r_state (fst (content_bytes r bs)) = r_state r" "r_left (fst (content_bytes r bs)) = r_left r"
  "r_front (fst (content_bytes r bs)) = r_front r" "r_pad (fst (content_bytes r bs)) = r_pad r"
  by (simp_all add: content_bytes_def Let_def)

lemma payload_part_eq:
  fixes r input n
  defines "r1 \<equiv> (fst (content_bytes r (take n input)))\<lparr>r_left := r_left r - n\<rparr>"
  shows "payload_part r input n whole =
    (if whole then
       (r1\<lparr>r_left := r_left r - n - min (r_left r - n) (length input - n)\<rparr>,
        n + min (r_left r - n) (length input - n), snd (content_bytes r (take n input)))
     else (r1, n, snd (content_bytes r (take n input))))"
  unfolding payload_part_def Let_def r1_def by (simp add: case_prod_beta)

lemma payload_body_part:
  obtains n where "payload_body r input = payload_part r input n (n = content_due r)"
    "n \<le> content_due r" "n \<le> length input" "n = length input \<or> n = content_due r"
  by (auto simp: payload_body_def Let_def min_def)

lemma payload_body_used:
  assumes "payload_body r input = (r', used, es)"
  shows "used \<le> length input \<and> r_state r' = r_state r \<and> (used = 0 \<and> input \<noteq> [] \<longrightarrow> r_left r' = 0)"
proof -
  obtain n where n: "payload_body r input = payload_part r input n (n = content_due r)"
    "n \<le> length input" "n = length input \<or> n = content_due r"
    by (rule payload_body_part)
  then show ?thesis
    using assms unfolding payload_part_eq
    by (auto simp: min_def split: if_splits)
qed

lemma payload_used:
  assumes "payload r input = (r', used, es)"
  shows "used \<le> length input \<and> (r_state r' = r_state r \<or> r_state r' = Broken BadPadding) \<and>
    (used = 0 \<and> input \<noteq> [] \<longrightarrow> r_left r' = 0)"
proof -
  obtain r1 u1 b1 where front: "front_loop r input = (r1, u1, b1)" by (rule prod_cases3)
  note f = front_loop_used [OF front]
  show ?thesis
  proof (cases b1)
    case True
    then show ?thesis using assms front f by (simp add: payload_def)
  next
    case False
    obtain r2 u2 es2 where body: "payload_body r1 (drop u1 input) = (r2, u2, es2)" by (rule prod_cases3)
    have eqs: "r' = r2" "used = u1 + u2"
      using assms False front body by (simp_all add: payload_def)
    have "u2 \<le> length input - u1" "r_state r2 = r_state r1"
      "u2 = 0 \<and> drop u1 input \<noteq> [] \<longrightarrow> r_left r2 = 0"
      using payload_body_used [OF body] by simp_all
    moreover have "r_state r1 = r_state r" "u1 \<le> length input" using f False by simp_all
    ultimately show ?thesis by (cases "u1 = 0") (simp_all add: eqs)
  qed
qed

text \<open>One round of the loop: the next reader, the frames emitted and the input left to read, none when
  \<open>read\<close> returns.\<close>

definition read_round :: "frame_reader \<Rightarrow> bytes \<Rightarrow> frame_reader \<times> frame list \<times> bytes" where
  "read_round r input =
     (case r_state r of
        Broken why \<Rightarrow> (r, [], [])
      | Scan \<Rightarrow>
          (case anchor (scan_push r input) of
             (r, None) \<Rightarrow> (r, [], [])
           | (r, Some at) \<Rightarrow> (r\<lparr>r_scan := [], r_state := Head\<rparr>, [], drop at (r_scan r)))
      | PrefaceAt seen \<Rightarrow>
          (let n = min (length PREFACE - seen) (length input)
           in if take n input \<noteq> take n (drop seen PREFACE) then (r\<lparr>r_state := Broken Preface\<rparr>, [], [])
              else (r\<lparr>r_state := (if seen + n = length PREFACE then Head else PrefaceAt (seen + n))\<rparr>, [],
                    if n = 0 then [] else drop n input))
      | Head \<Rightarrow>
          (let n = min (9 - r_head_len r) (length input);
               r = r\<lparr>r_head := copy_at (r_head_len r) (r_head r) (take n input), r_head_len := r_head_len r + n\<rparr>;
               (r, es) = (if r_head_len r = 9 then start_frame (r\<lparr>r_head_len := 0\<rparr>) else (r, []))
           in (r, es, if n = 0 then [] else drop n input))
      | Payload \<Rightarrow>
          (let (r, used, es) = payload r input;
               (r, es') = (if r_left r = 0 \<and> r_state r = Payload then finish_frame r else (r, []))
           in (r, es @ es', drop used input)))"

lemma anchor_from_state [simp]: "r_state (fst (anchor_from r at)) = r_state r"
  by (induction r at rule: anchor_from.induct)
     (subst anchor_from.simps, auto split: candidate.splits simp del: anchor_from.simps)

lemma read_round_progress:
  assumes "read_round r input = (r1, es, rest)" "input \<noteq> []" "rest \<noteq> []"
  shows "r_state r1 \<noteq> Scan \<and>
    (r_state r = Scan \<or> length rest < length input \<or>
     length rest = length input \<and> state_rank (r_state r1) < state_rank (r_state r))"
proof (cases "r_state r")
  case (PrefaceAt seen)
  then show ?thesis using assms by (auto simp: read_round_def Let_def split: if_splits)
next
  case Head
  then show ?thesis using assms start_frame_state
    by (auto simp: read_round_def Let_def case_prod_beta split: if_splits)
next
  case Payload
  obtain r2 used es2 where p: "payload r input = (r2, used, es2)" by (rule prod_cases3)
  have u: "used \<le> length input" "r_state r2 = r_state r \<or> r_state r2 = Broken BadPadding"
    "used > 0 \<or> r_left r2 = 0"
    using payload_used [OF p] assms(2) by auto
  show ?thesis
  proof (cases "r_left r2 = 0 \<and> r_state r2 = Payload")
    case True
    then show ?thesis using assms Payload p u
      by (auto simp: read_round_def case_prod_beta)
  next
    case False
    then show ?thesis using assms Payload p u
      by (auto simp: read_round_def case_prod_beta Let_def)
  qed
next
  case Scan
  then show ?thesis using assms
    by (auto simp: read_round_def split: option.splits prod.splits)
next
  case (Broken why)
  then show ?thesis using assms by (simp add: read_round_def)
qed

function read :: "frame_reader \<Rightarrow> bytes \<Rightarrow> frame_reader \<times> frame list" where
  "read r input =
     (if input = [] then (r, [])
      else let (r1, es, rest) = read_round r input; (r2, es') = read r1 rest in (r2, es @ es'))"
  by pat_completeness auto
termination
proof (relation "measures [\<lambda>(r, input). if r_state r = Scan \<and> input \<noteq> [] then 1 else 0,
    \<lambda>(r, input). length input, \<lambda>(r, input). state_rank (r_state r)]", goal_cases)
  case 1
  show ?case by simp
next
  case (2 r input x r1 y es rest)
  then show ?case
    using read_round_progress [of r input r1 es rest] by (cases "rest = []") auto
qed

declare read.simps [simp del]

end
