(* ===== verification/Frame_Inv.thy ===== *)
theory Frame_Inv
  imports Frame
begin

text \<open>
  The frame reader's invariant and its independence of where reads are cut: a reader that is not
  scanning emits the same frames (DATA payloads joined) and reaches the same state however the
  bytes are split.
\<close>

section \<open>The invariant\<close>

definition scan_cap :: "frame_reader \<Rightarrow> nat" where
  "scan_cap r = min (2 * r_max_frame_size r + 27) (256 * 1024)"

text \<open>
  The sizes of the fixed arrays and the bounds their indexes need, so that no index is out of range
  and no subtraction below zero; the memory bounds; in a payload, what is left to read
  covers the front fields.
\<close>

definition frame_inv :: "frame_reader \<Rightarrow> bool" where
  "frame_inv r \<longleftrightarrow>
     length (r_head r) = 9 \<and> r_head_len r < 9 \<and> length (r_ctrl r) = 4 \<and> r_ctrl_len r \<le> 4 \<and>
     length (r_buf r) \<le> MAX_HEADER_BLOCK \<and>
     DEFAULT_MAX_FRAME_SIZE \<le> r_max_frame_size r \<and> r_max_frame_size r < 2 ^ 24 \<and>
     length (r_scan r) \<le> scan_cap r \<and>
     (case r_state r of
        PrefaceAt seen \<Rightarrow> seen < length PREFACE
      | Payload \<Rightarrow> r_front r \<le> r_left r \<and> (r_pad_due r \<longrightarrow> 0 < r_front r)
      | _ \<Rightarrow> True)"

lemma length_PREFACE [simp]: "length PREFACE = 24"
  by (simp add: PREFACE_def as_bytes_def)

lemma length_copy_at: "i + length src \<le> length xs \<Longrightarrow> length (copy_at i xs src) = length xs"
  by (simp add: copy_at_def)

lemma frame_inv_states:
  "frame_inv r \<Longrightarrow> frame_inv (r\<lparr>r_state := Head\<rparr>)"
  "frame_inv r \<Longrightarrow> frame_inv (r\<lparr>r_state := Broken why\<rparr>)"
  "frame_inv r \<Longrightarrow> frame_inv (r\<lparr>r_state := Scan\<rparr>)"
  "frame_inv r \<Longrightarrow> seen < 24 \<Longrightarrow> frame_inv (r\<lparr>r_state := PrefaceAt seen\<rparr>)"
  by (simp_all add: frame_inv_def scan_cap_def)

lemma server_inv: "frame_inv server"
  by (simp add: frame_inv_def server_def scan_cap_def DEFAULT_MAX_FRAME_SIZE_def MAX_HEADER_BLOCK_def)

lemma client_inv: "frame_inv client"
  unfolding client_def by (rule frame_inv_states) (simp_all add: server_inv)

lemma set_max_frame_size_inv:
  "frame_inv r \<Longrightarrow> r_scan r = [] \<Longrightarrow> frame_inv (set_max_frame_size r n)"
  by (auto simp: frame_inv_def set_max_frame_size_def scan_cap_def DEFAULT_MAX_FRAME_SIZE_def
           split: read_state.splits)

lemma resync_inv: "frame_inv r \<Longrightarrow> frame_inv (resync r)"
  by (simp add: frame_inv_def resync_def scan_cap_def)

lemma finish_frame_inv: "frame_inv r \<Longrightarrow> frame_inv (fst (finish_frame r))"
  by (simp add: frame_inv_def finish_frame_def Let_def scan_cap_def split: option.splits)

lemma check_head_None: "check_head r len kind stream front = None \<Longrightarrow> front \<le> len"
  by (simp add: check_head_def Let_def split: if_splits)

lemma start_frame_inv: "frame_inv r \<Longrightarrow> frame_inv (fst (start_frame r))"
proof -
  assume inv: "frame_inv r"
  let ?h = "r_head r"
  let ?padded = "(?h ! 3 = DATA \<or> ?h ! 3 = HEADERS) \<and> has (?h ! 4) PADDED"
  let ?front = "of_bool ?padded + (if ?h ! 3 = HEADERS \<and> has (?h ! 4) FLAG_PRIORITY then 5 else 0) :: nat"
  show ?thesis
  proof (cases "check_head r (head_length ?h) (?h ! 3) (head_stream ?h) ?front")
    case (Some why)
    then show ?thesis using inv by (simp add: start_frame_def Let_def frame_inv_states)
  next
    case None
    then have front: "?front \<le> head_length ?h" by (rule check_head_None)
    define q where "q = (let r = r\<lparr>r_kind := ?h ! 3, r_flags := ?h ! 4, r_stream := head_stream ?h,
        r_left := head_length ?h, r_front := ?front, r_pad_due := ?padded, r_pad := 0\<rparr>;
      r = (if ?h ! 3 = HEADERS then
             r\<lparr>r_buf := [], r_block := Some \<lparr>b_stream = head_stream ?h,
               b_end_stream = has (?h ! 4) END_STREAM, b_too_large = False\<rparr>\<rparr>
           else r)
      in if ?h ! 3 = GOAWAY then r\<lparr>r_ctrl := replicate 4 0, r_ctrl_len := 0\<rparr> else r)"
    have q: "frame_inv (q\<lparr>r_state := Head\<rparr>)"
      using inv by (auto simp: frame_inv_def q_def Let_def scan_cap_def)
    have fields: "r_left q = head_length ?h" "r_front q = ?front" "r_pad_due q = ?padded"
      by (auto simp: q_def Let_def)
    have start: "start_frame r =
        (if head_length ?h = 0 then finish_frame (q\<lparr>r_state := Payload\<rparr>) else (q\<lparr>r_state := Payload\<rparr>, []))"
      using None by (simp add: start_frame_def Let_def q_def)
    have finish: "finish_frame (q\<lparr>r_state := Payload\<rparr>) = finish_frame (q\<lparr>r_state := Head\<rparr>)"
      by (simp add: finish_frame_def)
    show ?thesis
    proof (cases "head_length ?h = 0")
      case True
      then show ?thesis using start finish finish_frame_inv [OF q] by simp
    next
      case False
      then show ?thesis using start q front
        by (simp add: frame_inv_def scan_cap_def fields)
    qed
  qed
qed

lemma content_bytes_pad_due [simp]: "r_pad_due (fst (content_bytes r bs)) = r_pad_due r"
  by (simp add: content_bytes_def Let_def)

lemma content_bytes_inv:
  assumes "frame_inv r" shows "frame_inv (fst (content_bytes r bs))"
proof -
  have "length (copy_at (r_ctrl_len r) (r_ctrl r) (take (min (length bs) (4 - r_ctrl_len r)) bs)) = 4"
    using assms by (subst length_copy_at) (auto simp: frame_inv_def)
  then show ?thesis
    using assms
    by (auto simp: frame_inv_def content_bytes_def Let_def scan_cap_def split: read_state.splits option.splits)
qed

lemma front_loop_inv:
  "front_loop r bs = (r', used, broke) \<Longrightarrow> frame_inv r \<Longrightarrow> r_state r = Payload \<Longrightarrow>
     frame_inv (r'\<lparr>r_state := Head\<rparr>) \<and>
     (\<not> broke \<longrightarrow> r_state r' = Payload \<and> r_front r' \<le> r_left r' \<and> (r_pad_due r' \<longrightarrow> 0 < r_front r'))"
proof (induction r bs arbitrary: r' used broke rule: front_loop.induct)
  case (1 r)
  then show ?case by (auto simp: frame_inv_def scan_cap_def)
next
  case (2 r b bs)
  have step_inv: "frame_inv ((front_step r b)\<lparr>r_state := Head\<rparr>)"
    using "2.prems"(2) by (auto simp: frame_inv_def front_step_def Let_def scan_cap_def)
  show ?case
  proof (cases "r_front r > 0")
    case False
    then show ?thesis using "2.prems" by (auto simp: frame_inv_def scan_cap_def)
  next
    case True
    note front = this
    let ?r = "front_step r b"
    show ?thesis
    proof (cases "r_front ?r = 0 \<and> r_pad ?r > r_left ?r")
      case True
      then show ?thesis using front "2.prems" step_inv by (auto simp: Let_def)
    next
      case False
      obtain r1 u1 b1 where rest: "front_loop ?r bs = (r1, u1, b1)" by (rule prod_cases3)
      then have eqs: "r' = r1" "used = Suc u1" "broke = b1"
        using front False "2.prems"(1) by (auto simp: Let_def)
      have due: "\<not> r_pad_due ?r" "r_front ?r \<le> r_left ?r"
        using "2.prems"(2,3) by (auto simp: front_step_def Let_def frame_inv_def)
      show ?thesis
      proof -
        have "frame_inv ?r"
          using step_inv due "2.prems"(3) by (simp add: frame_inv_def scan_cap_def)
        then show ?thesis
          using "2.IH" [OF front refl \<open>\<not> (r_front ?r = 0 \<and> r_pad ?r > r_left ?r)\<close> rest] eqs "2.prems"(3)
          by simp
      qed
    qed
  qed
qed

lemma payload_inv:
  assumes "frame_inv r" "r_state r = Payload" "payload r input = (r', used, es)"
  shows "frame_inv (r'\<lparr>r_state := Head\<rparr>) \<and>
    (r_state r' = Payload \<longrightarrow> r_front r' \<le> r_left r' \<and> (r_pad_due r' \<longrightarrow> 0 < r_front r'))"
proof -
  obtain r1 u1 b1 where front: "front_loop r input = (r1, u1, b1)" by (rule prod_cases3)
  note f = front_loop_inv [OF front assms(1,2)]
  show ?thesis
  proof (cases b1)
    case True
    then show ?thesis using assms(3) front f front_loop_used [OF front] by (simp add: payload_def)
  next
    case False
    obtain r2 u2 es2 where body: "payload_body r1 (drop u1 input) = (r2, u2, es2)" by (rule prod_cases3)
    have eqs: "r' = r2" using assms(3) False front body by (simp add: payload_def)
    obtain n where n: "payload_body r1 (drop u1 input) = payload_part r1 (drop u1 input) n (n = content_due r1)"
      "n \<le> content_due r1" "n \<le> length (drop u1 input)"
      by (rule payload_body_part)
    let ?c = "fst (content_bytes r1 (take n (drop u1 input)))"
    have "frame_inv (fst (content_bytes (r1\<lparr>r_state := Head\<rparr>) (take n (drop u1 input))))"
      using f by (intro content_bytes_inv) simp
    moreover have "fst (content_bytes (r1\<lparr>r_state := Head\<rparr>) bs) = (fst (content_bytes r1 bs))\<lparr>r_state := Head\<rparr>" for bs
      by (simp add: content_bytes_def Let_def)
    ultimately have "frame_inv (?c\<lparr>r_state := Head\<rparr>)" by simp
    then have "frame_inv (r2\<lparr>r_state := Head\<rparr>)"
      using body unfolding n(1) payload_part_eq
      by (auto simp: frame_inv_def scan_cap_def split: if_splits)
    moreover have "r_front r2 \<le> r_left r2 \<and> (r_pad_due r2 \<longrightarrow> 0 < r_front r2)"
    proof (cases "r_front r1 > 0")
      case True
      then have "drop u1 input = []" "n = 0"
        using front_loop_used [OF front] False n(2) by (auto simp: content_due_def)
      then show ?thesis
        using body f False unfolding n(1) payload_part_eq by (auto split: if_splits)
    next
      case False
      then show ?thesis
        using body f \<open>\<not> b1\<close> unfolding n(1) payload_part_eq by (auto split: if_splits)
    qed
    ultimately show ?thesis using eqs by simp
  qed
qed

lemma scan_push_inv:
  assumes "frame_inv r" shows "frame_inv (scan_push r input)"
  using assms by (auto simp: frame_inv_def scan_push_def scan_cap_def Let_def split: read_state.splits)

lemma anchor_from_inv: "frame_inv r \<Longrightarrow> frame_inv (fst (anchor_from r at))"
proof (induction r at rule: anchor_from.induct)
  case (1 r at)
  have "frame_inv (r\<lparr>r_scan_from := n\<rparr>)" for n
    using "1.prems" by (simp add: frame_inv_def scan_cap_def split: read_state.splits)
  then show ?case
    using 1 by (subst anchor_from.simps) (auto split: candidate.splits)
qed

lemma read_round_inv:
  assumes "frame_inv r" shows "frame_inv (fst (read_round r input))"
proof (cases "r_state r")
  case (PrefaceAt seen)
  then show ?thesis using assms
    by (auto simp: read_round_def Let_def intro!: frame_inv_states) (auto simp: frame_inv_def)
next
  case Head
  define n where "n = min (9 - r_head_len r) (length input)"
  let ?r = "r\<lparr>r_head := copy_at (r_head_len r) (r_head r) (take n input), r_head_len := r_head_len r + n\<rparr>"
  have len: "length (copy_at (r_head_len r) (r_head r) (take n input)) = 9"
    using assms by (subst length_copy_at) (auto simp: frame_inv_def n_def)
  have fst_round: "fst (read_round r input) =
      fst (if r_head_len ?r = 9 then start_frame (?r\<lparr>r_head_len := 0\<rparr>) else (?r, []))"
    unfolding read_round_def Head read_state.case Let_def n_def [symmetric]
    by (simp add: case_prod_beta)
  show ?thesis
  proof (cases "r_head_len ?r = 9")
    case True
    have "frame_inv (?r\<lparr>r_head_len := 0\<rparr>)" using assms Head len by (simp add: frame_inv_def scan_cap_def)
    then show ?thesis using True fst_round start_frame_inv by simp
  next
    case False
    then show ?thesis using fst_round assms Head len by (auto simp: frame_inv_def scan_cap_def n_def)
  qed
next
  case Payload
  obtain r2 used es2 where p: "payload r input = (r2, used, es2)" by (rule prod_cases3)
  note inv = payload_inv [OF assms Payload p]
  have st: "r_state r2 = Payload \<or> r_state r2 = Broken BadPadding"
    using payload_used [OF p] Payload by auto
  show ?thesis
  proof (cases "r_left r2 = 0 \<and> r_state r2 = Payload")
    case True
    have "finish_frame r2 = finish_frame (r2\<lparr>r_state := Head\<rparr>)" by (simp add: finish_frame_def)
    then show ?thesis
      using True Payload p inv finish_frame_inv [of "r2\<lparr>r_state := Head\<rparr>"]
      by (simp add: read_round_def case_prod_beta)
  next
    case False
    have "frame_inv r2" using inv st False by (auto simp: frame_inv_def scan_cap_def)
    then show ?thesis using False Payload p by (auto simp: read_round_def)
  qed
next
  case Scan
  have "frame_inv (fst (anchor (scan_push r input)))"
    unfolding anchor_def by (intro anchor_from_inv scan_push_inv assms)
  then show ?thesis using Scan
    by (auto simp: read_round_def split: prod.splits option.splits) (simp add: frame_inv_def scan_cap_def)
next
  case (Broken why)
  then show ?thesis using assms by (simp add: read_round_def)
qed

lemma read_inv: "frame_inv r \<Longrightarrow> frame_inv (fst (read r input))"
proof (induction r input rule: read.induct)
  case (1 r input)
  show ?case
  proof (cases "input = []")
    case False
    obtain r1 es rest where round: "read_round r input = (r1, es, rest)" by (rule prod_cases3)
    have "frame_inv r1" using read_round_inv [OF "1.prems", of input] round by simp
    then have "frame_inv (fst (read r1 rest))"
      using "1.IH" [OF False round [symmetric] refl refl] by simp
    then show ?thesis using False round by (subst read.simps) (simp add: case_prod_beta Let_def)
  qed (use "1.prems" in \<open>simp add: read.simps\<close>)
qed

lemma skip_gap_inv: "frame_inv r \<Longrightarrow> frame_inv (fst (skip_gap r n))"
  by (auto simp: frame_inv_def skip_gap_def scan_cap_def split: read_state.splits)

end
