(* ===== verification/Frame_Cuts.thy ===== *)
theory Frame_Cuts
  imports Frame_Inv
begin

text \<open>
  Where the reads are cut does not change what a frame reader sees: outside a re-anchoring scan,
  feeding two parts is feeding their concatenation, with DATA events joined per byte.
\<close>

section \<open>What of the header buffer matters\<close>

text \<open>
  The bytes in \<open>buf\<close> matter only inside a block that is not too large; a block that became too
  large keeps what it had, which depends on the cuts and is never read.
\<close>

definition buf_unused :: "frame_reader \<Rightarrow> bool" where
  "buf_unused r = (case r_block r of None \<Rightarrow> True | Some b \<Rightarrow> b_too_large b)"

definition same_reader :: "frame_reader \<Rightarrow> frame_reader \<Rightarrow> bool" where
  "same_reader r r' \<longleftrightarrow> r' = r \<or> buf_unused r \<and> (\<exists>B. r' = r\<lparr>r_buf := B\<rparr>)"

definition norm_reader :: "frame_reader \<Rightarrow> frame_reader" where
  "norm_reader r = (if buf_unused r then r\<lparr>r_buf := []\<rparr> else r)"

definition frame_obs :: "frame list \<Rightarrow> frame list" where
  "frame_obs fs =
     concat (map (\<lambda>f. case f of Data s bs \<Rightarrow> map (\<lambda>b. Data s [b]) bs | _ \<Rightarrow> [f]) fs)"

lemma frame_obs_simps [simp]:
  "frame_obs [] = []" "frame_obs (xs @ ys) = frame_obs xs @ frame_obs ys"
  "frame_obs [Data s bs] = map (\<lambda>b. Data s [b]) bs"
  by (simp_all add: frame_obs_def)

lemma same_reader_refl [simp]: "same_reader r r"
  by (simp add: same_reader_def)

lemma same_reader_buf: "buf_unused r \<Longrightarrow> same_reader r (r\<lparr>r_buf := B\<rparr>)"
  by (auto simp: same_reader_def)

lemma same_reader_trans: "same_reader a b \<Longrightarrow> same_reader b c \<Longrightarrow> same_reader a c"
  by (auto simp: same_reader_def buf_unused_def)

lemma same_reader_sym: "same_reader a b \<Longrightarrow> same_reader b a"
proof (cases "b = a")
  case False
  assume "same_reader a b"
  then obtain B where "buf_unused a" "b = a\<lparr>r_buf := B\<rparr>" using False by (auto simp: same_reader_def)
  moreover from this have "a = b\<lparr>r_buf := r_buf a\<rparr>" "buf_unused b" by (simp_all add: buf_unused_def)
  ultimately show ?thesis unfolding same_reader_def by blast
qed simp

lemma same_reader_norm: "same_reader a b \<Longrightarrow> norm_reader a = norm_reader b"
  by (auto simp: same_reader_def norm_reader_def buf_unused_def)

lemma finish_frame_buf:
  "buf_unused r \<Longrightarrow>
     finish_frame (r\<lparr>r_buf := B\<rparr>) = ((fst (finish_frame r))\<lparr>r_buf := B\<rparr>, snd (finish_frame r)) \<and>
     buf_unused (fst (finish_frame r))"
  by (auto simp: finish_frame_def Let_def buf_unused_def split: option.splits)

lemma front_loop_buf:
  "front_loop (r\<lparr>r_buf := B\<rparr>) bs =
     (let (r', used, broke) = front_loop r bs in (r'\<lparr>r_buf := B\<rparr>, used, broke)) \<and>
   r_block (fst (front_loop r bs)) = r_block r"
proof (induction r bs rule: front_loop.induct)
  case (2 r b bs)
  have step: "front_step (r\<lparr>r_buf := B\<rparr>) b = (front_step r b)\<lparr>r_buf := B\<rparr>"
    "r_block (front_step r b) = r_block r" "r_pad ((front_step r b)\<lparr>r_buf := B\<rparr>) = r_pad (front_step r b)"
    by (simp_all add: front_step_def Let_def)
  show ?case
  proof (cases "r_front r > 0 \<and> \<not> (r_front (front_step r b) = 0 \<and> r_pad (front_step r b) > r_left (front_step r b))")
    case True
    then show ?thesis
      using "2.IH" [OF _ refl] step by (auto simp: Let_def case_prod_beta)
  next
    case False
    then show ?thesis using step by (auto simp: Let_def)
  qed
qed simp

lemma content_bytes_unused:
  assumes "buf_unused r"
  shows "content_bytes r bs =
    (if r_kind r = DATA \<and> length bs > 0 then (r, [Data (r_stream r) bs])
     else if r_kind r = GOAWAY \<and> length bs > 0 \<and> r_ctrl_len r < 4 then
       (let t = min (length bs) (4 - r_ctrl_len r)
        in (r\<lparr>r_ctrl := copy_at (r_ctrl_len r) (r_ctrl r) (take t bs), r_ctrl_len := r_ctrl_len r + t\<rparr>, []))
     else (r, []))"
proof -
  have "\<not> (case r_block r of Some b \<Rightarrow> \<not> b_too_large b | None \<Rightarrow> False)"
    using assms by (simp add: buf_unused_def split: option.splits)
  then show ?thesis unfolding content_bytes_def Let_def by (simp only: simp_thms if_False)
qed

lemma content_bytes_buf:
  assumes "buf_unused r"
  shows "content_bytes (r\<lparr>r_buf := B\<rparr>) bs =
      ((fst (content_bytes r bs))\<lparr>r_buf := B\<rparr>, snd (content_bytes r bs))"
    and "r_block (fst (content_bytes r bs)) = r_block r"
proof -
  have B: "buf_unused (r\<lparr>r_buf := B\<rparr>)" using assms by (simp add: buf_unused_def)
  show "content_bytes (r\<lparr>r_buf := B\<rparr>) bs =
      ((fst (content_bytes r bs))\<lparr>r_buf := B\<rparr>, snd (content_bytes r bs))"
  proof (cases "r_kind r = GOAWAY \<and> length bs > 0 \<and> r_ctrl_len r < 4")
    case True
    then show ?thesis
      unfolding content_bytes_unused [OF B] content_bytes_unused [OF assms] Let_def by simp
  next
    case False
    then have "\<not> (r_kind (r\<lparr>r_buf := B\<rparr>) = GOAWAY \<and> length bs > 0 \<and> r_ctrl_len (r\<lparr>r_buf := B\<rparr>) < 4)"
      by simp
    with False show ?thesis
      unfolding content_bytes_unused [OF B] content_bytes_unused [OF assms]
      by (simp only: if_False) simp
  qed
  show "r_block (fst (content_bytes r bs)) = r_block r"
    unfolding content_bytes_unused [OF assms] by (simp add: Let_def)
qed

lemma payload_body_buf:
  assumes "buf_unused r"
  shows "payload_body (r\<lparr>r_buf := B\<rparr>) bs =
     (let (r', used, es) = payload_body r bs in (r'\<lparr>r_buf := B\<rparr>, used, es))"
    and "r_block (fst (payload_body r bs)) = r_block r"
proof -
  have part: "payload_part (r\<lparr>r_buf := B\<rparr>) bs n whole =
      (let (r', used, es) = payload_part r bs n whole in (r'\<lparr>r_buf := B\<rparr>, used, es))"
    "r_block (fst (payload_part r bs n whole)) = r_block r" for n whole
    unfolding payload_part_eq using content_bytes_buf [OF assms] by simp_all
  have due: "content_due (r\<lparr>r_buf := B\<rparr>) = content_due r" by (simp add: content_due_def)
  show "payload_body (r\<lparr>r_buf := B\<rparr>) bs =
     (let (r', used, es) = payload_body r bs in (r'\<lparr>r_buf := B\<rparr>, used, es))"
    unfolding payload_body_def Let_def due by (simp add: part Let_def)
  show "r_block (fst (payload_body r bs)) = r_block r"
    unfolding payload_body_def Let_def by (rule part)
qed

lemma payload_buf:
  assumes "buf_unused r"
  shows "payload (r\<lparr>r_buf := B\<rparr>) bs =
     (let (r', used, es) = payload r bs in (r'\<lparr>r_buf := B\<rparr>, used, es)) \<and>
   r_block (fst (payload r bs)) = r_block r"
proof -
  obtain r1 u1 b1 where front: "front_loop r bs = (r1, u1, b1)" by (rule prod_cases3)
  have block: "r_block r1 = r_block r" and front_B: "front_loop (r\<lparr>r_buf := B\<rparr>) bs = (r1\<lparr>r_buf := B\<rparr>, u1, b1)"
    using front_loop_buf [of B r bs] front by simp_all
  then have "buf_unused r1" using assms by (simp add: buf_unused_def)
  from payload_body_buf [OF this, where bs = "drop u1 bs"]
  show ?thesis
    using front front_B block by (simp add: payload_def case_prod_beta Let_def)
qed

lemma check_head_buf [simp]:
  "check_head (r\<lparr>r_buf := B\<rparr>) len kind stream front = check_head r len kind stream front"
  by (simp add: check_head_def Let_def)

lemma start_frame_buf:
  assumes "buf_unused r"
  shows "same_reader (fst (start_frame r)) (fst (start_frame (r\<lparr>r_buf := B\<rparr>))) \<and>
    snd (start_frame (r\<lparr>r_buf := B\<rparr>)) = snd (start_frame r)"
proof -
  let ?h = "r_head r"
  let ?padded = "(?h ! 3 = DATA \<or> ?h ! 3 = HEADERS) \<and> has (?h ! 4) PADDED"
  let ?front = "of_bool ?padded + (if ?h ! 3 = HEADERS \<and> has (?h ! 4) FLAG_PRIORITY then 5 else 0) :: nat"
  show ?thesis
  proof (cases "check_head r (head_length ?h) (?h ! 3) (head_stream ?h) ?front")
    case (Some why)
    have swap: "r\<lparr>r_buf := B, r_state := Broken why\<rparr> = r\<lparr>r_state := Broken why, r_buf := B\<rparr>" by simp
    show ?thesis
      using Some same_reader_buf [of "r\<lparr>r_state := Broken why\<rparr>" B] assms
      by (simp add: start_frame_def Let_def swap) (simp add: buf_unused_def)
  next
    case None
    define go where "go r0 = (let r = r0\<lparr>r_kind := ?h ! 3, r_flags := ?h ! 4, r_stream := head_stream ?h,
        r_left := head_length ?h, r_front := ?front, r_pad_due := ?padded, r_pad := 0\<rparr>;
      r = (if ?h ! 3 = HEADERS then
             r\<lparr>r_buf := [], r_block := Some \<lparr>b_stream = head_stream ?h,
               b_end_stream = has (?h ! 4) END_STREAM, b_too_large = False\<rparr>\<rparr>
           else r);
      r = (if ?h ! 3 = GOAWAY then r\<lparr>r_ctrl := replicate 4 0, r_ctrl_len := 0\<rparr> else r)
      in r\<lparr>r_state := Payload\<rparr>)" for r0 :: frame_reader
    have start: "start_frame r0 = (if head_length ?h = 0 then finish_frame (go r0) else (go r0, []))"
      if "r0 = r \<or> r0 = r\<lparr>r_buf := B\<rparr>" for r0
      using that None by (auto simp: start_frame_def Let_def go_def)
    show ?thesis
    proof (cases "?h ! 3 = HEADERS")
      case True
      then have "go (r\<lparr>r_buf := B\<rparr>) = go r" by (simp add: go_def Let_def)
      then show ?thesis by (simp add: start)
    next
      case False
      then have "go (r\<lparr>r_buf := B\<rparr>) = (go r)\<lparr>r_buf := B\<rparr>" "buf_unused (go r)"
        using assms by (simp_all add: go_def Let_def buf_unused_def)
      then show ?thesis
        using finish_frame_buf [of "go r" B] by (simp add: start same_reader_buf)
    qed
  qed
qed

lemma anchor_from_buf:
  "anchor_from (r\<lparr>r_buf := B\<rparr>) at = (let (r', x) = anchor_from r at in (r'\<lparr>r_buf := B\<rparr>, x)) \<and>
   r_block (fst (anchor_from r at)) = r_block r"
proof (induction r at rule: anchor_from.induct)
  case (1 r at)
  have chain: "chain_at (r\<lparr>r_buf := B\<rparr>) at = chain_at r at" by (simp add: chain_at_def)
  have swap: "r\<lparr>r_buf := B, r_scan_from := x\<rparr> = r\<lparr>r_scan_from := x, r_buf := B\<rparr>" for x by simp
  note unfold = anchor_from.simps [of r at] anchor_from.simps [of "r\<lparr>r_buf := B\<rparr>" at]
  show ?case
  proof (cases "at + 9 \<le> length (r_scan r)")
    case False
    then show ?thesis by (simp add: unfold)
  next
    case True
    show ?thesis
    proof (cases "chain_at r at")
      case Anchored
      then show ?thesis using True chain by (simp add: unfold)
    next
      case Rejected
      then show ?thesis
        using True chain "1.IH"(1) [OF True Rejected] unfolding unfold swap
        by (cases "at = r_scan_from r") (simp_all add: swap)
    next
      case NeedMore
      then show ?thesis using True chain "1.IH"(2) [OF True NeedMore] by (simp add: unfold)
    qed
  qed
qed

text \<open>A round, and a whole read, from readers that differ only in unused buffer bytes.\<close>

lemma same_reader_unused: "same_reader r r' \<Longrightarrow> r' = r \<or> (buf_unused r \<and> (\<exists>B. r' = r\<lparr>r_buf := B\<rparr>))"
  by (simp add: same_reader_def)

lemma read_round_buf:
  assumes "buf_unused r"
  shows "same_reader (fst (read_round r input)) (fst (read_round (r\<lparr>r_buf := B\<rparr>) input)) \<and>
    snd (read_round (r\<lparr>r_buf := B\<rparr>) input) = snd (read_round r input)"
proof (cases "r_state r")
  case (PrefaceAt seen)
  have swap: "r\<lparr>r_buf := B, r_state := st\<rparr> = r\<lparr>r_state := st, r_buf := B\<rparr>" for st by simp
  have "same_reader (r\<lparr>r_state := st\<rparr>) (r\<lparr>r_state := st, r_buf := B\<rparr>)" for st
    using assms by (intro same_reader_buf) (simp add: buf_unused_def)
  then show ?thesis using PrefaceAt by (simp add: read_round_def Let_def swap)
next
  case Head
  define n where "n = min (9 - r_head_len r) (length input)"
  define q where "q = r\<lparr>r_head := copy_at (r_head_len r) (r_head r) (take n input), r_head_len := r_head_len r + n\<rparr>"
  have q: "buf_unused q" "buf_unused (q\<lparr>r_head_len := 0\<rparr>)" using assms by (simp_all add: q_def buf_unused_def)
  have round: "read_round r input = (let (r, es) = (if r_head_len q = 9 then start_frame (q\<lparr>r_head_len := 0\<rparr>) else (q, []))
       in (r, es, if n = 0 then [] else drop n input))"
    unfolding read_round_def Head read_state.case Let_def n_def q_def by (rule refl)
  have swap: "r\<lparr>r_buf := B, r_head := h, r_head_len := l\<rparr> = r\<lparr>r_head := h, r_head_len := l, r_buf := B\<rparr>" for h l by simp
  have swap2: "q\<lparr>r_buf := B, r_head_len := 0\<rparr> = q\<lparr>r_head_len := 0, r_buf := B\<rparr>" by simp
  have fields: "r_state (r\<lparr>r_buf := B\<rparr>) = r_state r" "r_head_len (r\<lparr>r_buf := B\<rparr>) = r_head_len r"
    "r_head (r\<lparr>r_buf := B\<rparr>) = r_head r" "r_head_len (q\<lparr>r_buf := B\<rparr>) = r_head_len q"
    by simp_all
  have round_B: "read_round (r\<lparr>r_buf := B\<rparr>) input =
      (let (r, es) = (if r_head_len q = 9 then start_frame (q\<lparr>r_head_len := 0, r_buf := B\<rparr>) else (q\<lparr>r_buf := B\<rparr>, []))
       in (r, es, if n = 0 then [] else drop n input))"
    unfolding read_round_def fields Head read_state.case Let_def n_def [symmetric] swap q_def [symmetric]
    by (simp only: fields swap2)
  show ?thesis
    using start_frame_buf [OF q(2), of B] same_reader_buf [OF q(1), of B]
    by (simp add: round round_B case_prod_beta Let_def)
next
  case Payload
  obtain r2 used es where p: "payload r input = (r2, used, es)" by (rule prod_cases3)
  have pB: "payload (r\<lparr>r_buf := B\<rparr>) input = (r2\<lparr>r_buf := B\<rparr>, used, es)" and block: "r_block r2 = r_block r"
    using payload_buf [OF assms, of B input] p by simp_all
  then have u: "buf_unused r2" using assms by (simp add: buf_unused_def)
  show ?thesis
    using Payload p pB finish_frame_buf [OF u, of B] same_reader_buf
    by (cases "r_left r2 = 0 \<and> r_state r2 = Payload") (auto simp: read_round_def Let_def case_prod_beta u)
next
  case Scan
  let ?p = "scan_push r input"
  have push: "scan_push (r\<lparr>r_buf := B\<rparr>) input = ?p\<lparr>r_buf := B\<rparr>" "r_block ?p = r_block r"
    by (simp_all add: scan_push_def Let_def)
  obtain q x where a: "anchor_from ?p (r_scan_from ?p) = (q, x)" by fastforce
  have aB: "anchor (?p\<lparr>r_buf := B\<rparr>) = (q\<lparr>r_buf := B\<rparr>, x)" and block: "r_block q = r_block r"
    using anchor_from_buf [of B ?p "r_scan_from ?p"] a push by (simp_all add: anchor_def)
  have u: "buf_unused q" "buf_unused (q\<lparr>r_scan := [], r_state := Head\<rparr>)"
    using block assms by (simp_all add: buf_unused_def)
  have swap: "q\<lparr>r_buf := B, r_scan := [], r_state := Head\<rparr> = q\<lparr>r_scan := [], r_state := Head, r_buf := B\<rparr>"
    by simp
  show ?thesis
    using Scan a aB same_reader_buf [OF u(1), of B] same_reader_buf [OF u(2), of B]
    by (cases x) (simp_all add: read_round_def anchor_def push swap)
next
  case (Broken why)
  then show ?thesis using assms by (simp add: read_round_def same_reader_buf)
qed

lemma read_same:
  "same_reader r r' \<Longrightarrow> same_reader (fst (read r input)) (fst (read r' input)) \<and>
     snd (read r' input) = snd (read r input)"
proof (induction r input arbitrary: r' rule: read.induct)
  case (1 r input)
  show ?case
  proof (cases "input = [] \<or> r' = r")
    case True
    then show ?thesis using "1.prems" by (auto simp: read.simps)
  next
    case False
    then obtain B where B: "buf_unused r" "r' = r\<lparr>r_buf := B\<rparr>"
      using "1.prems" by (auto simp: same_reader_def)
    obtain r1 es rest where round: "read_round r input = (r1, es, rest)" by (rule prod_cases3)
    obtain r1' where round': "read_round r' input = (r1', es, rest)" and same: "same_reader r1 r1'"
      using read_round_buf [OF B(1), of input B] round B(2) by (cases "read_round r' input") auto
    show ?thesis
      using "1.IH" [OF _ round [symmetric] refl refl same] False
      by (simp add: read.simps [of r input] read.simps [of r' input] round round' case_prod_beta Let_def)
  qed
qed

end
