(* ===== verification/Frame_Bytes.thy ===== *)
theory Frame_Bytes
  imports Frame_Cuts
begin

text \<open>
  Reading a byte at a time: a round over a list is a round over its first byte followed by a round
  over the rest, up to unused buffer bytes and joined DATA. From it the reader is an instance of the
  incremental readers of the prelude.
\<close>

lemma content_bytes_Nil:
  assumes "frame_inv r" shows "content_bytes r [] = (r, [])"
proof (cases "r_block r")
  case None
  then show ?thesis by (simp add: content_bytes_def Let_def)
next
  case (Some b)
  then show ?thesis using assms by (simp add: content_bytes_def Let_def frame_inv_def)
qed

lemma content_bytes_Cons:
  fixes r x
  assumes "frame_inv r"
  defines "q \<equiv> fst (content_bytes r [x])"
  shows "same_reader (fst (content_bytes r (x # ys))) (fst (content_bytes q ys)) \<and>
    frame_obs (snd (content_bytes r (x # ys))) =
      frame_obs (snd (content_bytes r [x]) @ snd (content_bytes q ys))"
proof (cases "buf_unused r \<or> r_kind r \<noteq> HEADERS \<and> r_kind r \<noteq> CONTINUATION")
  case True
  then have other: "\<not> ((r_kind r = HEADERS \<or> r_kind r = CONTINUATION) \<and>
      (case r_block r of Some b \<Rightarrow> \<not> b_too_large b | None \<Rightarrow> False))"
    by (auto simp: buf_unused_def split: option.splits)
  show ?thesis
  proof (cases "r_kind r = GOAWAY \<and> r_ctrl_len r < 4")
    case False
    have plain: "content_bytes r bs = (if r_kind r = DATA \<and> bs \<noteq> [] then (r, [Data (r_stream r) bs]) else (r, []))"
      for bs
    proof -
      have "\<not> (r_kind r = GOAWAY \<and> length bs > 0 \<and> r_ctrl_len r < 4)" using False by blast
      then show ?thesis unfolding content_bytes_def Let_def by (simp only: other if_False length_greater_0_conv)
    qed
    have "q = r" by (simp add: q_def plain)
    then show ?thesis by (simp add: plain)
  next
    case True
    define l where "l = r_ctrl_len r"
    have l: "l < 4" "length (r_ctrl r) = 4" using True assms(1) by (simp_all add: l_def frame_inv_def)
    have kind: "r_kind r = GOAWAY" using True by simp
    have cb: "content_bytes p bs =
        (if bs \<noteq> [] \<and> r_ctrl_len p < 4 then
           (let t = min (length bs) (4 - r_ctrl_len p)
            in (p\<lparr>r_ctrl := copy_at (r_ctrl_len p) (r_ctrl p) (take t bs), r_ctrl_len := r_ctrl_len p + t\<rparr>, []))
         else (p, []))" if "r_kind p = GOAWAY" for p bs
    proof -
      have "r_kind p \<noteq> DATA" "r_kind p \<noteq> HEADERS" "r_kind p \<noteq> CONTINUATION" using that by simp_all
      then show ?thesis unfolding content_bytes_def Let_def
        by (simp only: that simp_thms if_False length_greater_0_conv)
    qed
    have q: "q = r\<lparr>r_ctrl := copy_at l (r_ctrl r) [x], r_ctrl_len := l + 1\<rparr>"
      using l(1) by (simp add: q_def cb [OF kind] Let_def l_def [symmetric])
    then have kind_q: "r_kind q = GOAWAY" "r_ctrl_len q = Suc l" "r_ctrl q = copy_at l (r_ctrl r) [x]"
      using kind by simp_all
    have copy: "copy_at (Suc l) (copy_at l (r_ctrl r) [x]) zs = copy_at l (r_ctrl r) (x # zs)" for zs
      using l by (simp add: copy_at_def add.commute)
    have first: "snd (content_bytes r [x]) = []" using l(1) by (simp add: cb [OF kind] Let_def l_def [symmetric])
    have m: "min (Suc (length ys)) (4 - l) = Suc (min (length ys) (3 - l))" using l by auto
    have whole: "content_bytes r (x # ys) =
        (r\<lparr>r_ctrl := copy_at l (r_ctrl r) (x # take (min (length ys) (3 - l)) ys),
           r_ctrl_len := Suc l + min (length ys) (3 - l)\<rparr>, [])"
      using l(1) by (simp add: cb [OF kind] Let_def l_def [symmetric] m)
    show ?thesis
    proof (cases "ys = [] \<or> l = 3")
      case True
      then have "content_bytes q ys = (q, [])" by (auto simp: cb [OF kind_q(1)] kind_q)
      moreover have "min (length ys) (3 - l) = 0" using True by auto
      ultimately show ?thesis unfolding whole first by (simp add: q)
    next
      case False
      have "Suc l < 4" "4 - Suc l = 3 - l" using False l by simp_all
      then have "content_bytes q ys =
          (q\<lparr>r_ctrl := copy_at (Suc l) (r_ctrl q) (take (min (length ys) (3 - l)) ys),
             r_ctrl_len := Suc l + min (length ys) (3 - l)\<rparr>, [])"
        using False by (simp add: cb [OF kind_q(1)] kind_q(2) Let_def del: kind_q(3))
      then show ?thesis unfolding whole first by (simp add: q copy)
    qed
  qed
next
  case False
  then obtain b where b: "r_block r = Some b" "\<not> b_too_large b" "r_kind r = HEADERS \<or> r_kind r = CONTINUATION"
    by (auto simp: buf_unused_def split: option.splits)
  have cb: "content_bytes p bs =
      (let large = (length (r_buf p) + length bs > MAX_HEADER_BLOCK)
       in (p\<lparr>r_block := Some (c\<lparr>b_too_large := large\<rparr>),
             r_buf := (if large then r_buf p else r_buf p @ bs)\<rparr>, []))"
    if "r_kind p = r_kind r" "r_block p = Some c" "\<not> b_too_large c" for p bs c
  proof -
    have "r_kind p \<noteq> DATA" "r_kind p = HEADERS \<or> r_kind p = CONTINUATION" using that b(3) by auto
    then show ?thesis unfolding content_bytes_def Let_def
      by (simp only: that simp_thms if_True if_False option.case option.sel)
  qed
  note whole = cb [OF refl b(1,2)]
  show ?thesis
  proof (cases "length (r_buf r) + 1 > MAX_HEADER_BLOCK")
    case True
    define p where "p = r\<lparr>r_block := Some (b\<lparr>b_too_large := True\<rparr>)\<rparr>"
    have "content_bytes p ys = (p, [])"
      using content_bytes_unused [of p ys] b(3) by (auto simp: p_def buf_unused_def)
    moreover have "q = p" using True by (simp add: q_def p_def whole Let_def)
    ultimately show ?thesis using True by (simp add: whole Let_def p_def)
  next
    case False
    have q: "q = r\<lparr>r_block := Some (b\<lparr>b_too_large := False\<rparr>), r_buf := r_buf r @ [x]\<rparr>"
      using False by (simp add: q_def whole Let_def)
    have qs: "r_kind q = r_kind r" "r_block q = Some (b\<lparr>b_too_large := False\<rparr>)"
      "\<not> b_too_large (b\<lparr>b_too_large := False\<rparr>)" by (simp_all add: q)
    note then_q = cb [OF qs]
    show ?thesis
    proof (cases "length (r_buf r) + Suc (length ys) > MAX_HEADER_BLOCK")
      case True
      let ?w = "r\<lparr>r_block := Some (b\<lparr>b_too_large := True\<rparr>)\<rparr>"
      have "fst (content_bytes r (x # ys)) = ?w" using True by (simp add: whole Let_def)
      moreover have "fst (content_bytes q ys) = ?w\<lparr>r_buf := r_buf r @ [x]\<rparr>"
        using True by (simp add: then_q Let_def) (simp add: q)
      ultimately show ?thesis
        using True same_reader_buf [of ?w "r_buf r @ [x]"] by (simp add: whole then_q Let_def buf_unused_def)
    next
      case False
      then show ?thesis by (simp add: whole then_q Let_def) (simp add: q)
    qed
  qed
qed

lemma payload_body_Nil: "frame_inv r \<Longrightarrow> payload_body r [] = (r, 0, [])"
  by (simp add: payload_body_def payload_part_def Let_def content_bytes_Nil)

section \<open>One payload byte\<close>

text \<open>
  \<open>joins\<close>: a whole call and a call continued after its first byte end alike.
\<close>

definition joins ::
  "frame_reader \<times> nat \<times> frame list \<Rightarrow> frame list \<Rightarrow> frame_reader \<times> nat \<times> frame list \<Rightarrow> bool" where
  "joins w e p \<longleftrightarrow>
     same_reader (fst w) (fst p) \<and> fst (snd w) = Suc (fst (snd p)) \<and>
     frame_obs (snd (snd w)) = frame_obs (e @ snd (snd p))"

lemma content_bytes_left:
  "content_bytes (p\<lparr>r_left := k\<rparr>) bs =
     ((fst (content_bytes p bs))\<lparr>r_left := k\<rparr>, snd (content_bytes p bs))"
proof -
  have swap: "p\<lparr>r_left := k, r_block := X, r_buf := Y\<rparr> = p\<lparr>r_block := X, r_buf := Y, r_left := k\<rparr>"
    "p\<lparr>r_left := k, r_ctrl := Z, r_ctrl_len := l\<rparr> = p\<lparr>r_ctrl := Z, r_ctrl_len := l, r_left := k\<rparr>"
    for X Y Z l by simp_all
  have fields: "r_kind (p\<lparr>r_left := k\<rparr>) = r_kind p" "r_stream (p\<lparr>r_left := k\<rparr>) = r_stream p"
    "r_block (p\<lparr>r_left := k\<rparr>) = r_block p" "r_buf (p\<lparr>r_left := k\<rparr>) = r_buf p"
    "r_ctrl (p\<lparr>r_left := k\<rparr>) = r_ctrl p" "r_ctrl_len (p\<lparr>r_left := k\<rparr>) = r_ctrl_len p"
    by simp_all
  let ?A = "r_kind p = DATA \<and> length bs > 0"
  let ?B = "(r_kind p = HEADERS \<or> r_kind p = CONTINUATION) \<and>
    (case r_block p of Some b \<Rightarrow> \<not> b_too_large b | None \<Rightarrow> False)"
  let ?C = "r_kind p = GOAWAY \<and> length bs > 0 \<and> r_ctrl_len p < 4"
  consider "?A = True" | "?A = False" "?B = True" | "?A = False" "?B = False" "?C = True"
    | "?A = False" "?B = False" "?C = False" by blast
  then show ?thesis
    unfolding content_bytes_def Let_def fields swap
    by cases (simp_all only: if_True if_False fst_conv snd_conv)
qed

lemma payload_body_one:
  fixes r x xs
  assumes inv: "frame_inv r" and front: "r_front r = 0" and left: "0 < r_left r"
  defines "q \<equiv> fst (payload_body r [x])" and "e \<equiv> snd (snd (payload_body r [x]))"
  shows "fst (snd (payload_body r [x])) = 1" "r_front q = 0" "r_left q = r_left r - 1"
    and "r_state q = r_state r"
    and "joins (payload_body r (x # xs)) e (payload_body q xs)"
proof -
  let ?c = "r_left r - r_pad r"
  have due: "content_due r = ?c" using front by (simp add: content_due_def)
  note Nil = content_bytes_Nil [OF inv]
  have "fst (snd (payload_body r [x])) = 1 \<and> r_front q = 0 \<and> r_left q = r_left r - 1 \<and>
    r_state q = r_state r \<and> joins (payload_body r (x # xs)) e (payload_body q xs)"
  proof (cases "?c = 0")
    case True
    have body: "payload_body r bs = (r\<lparr>r_left := r_left r - min (r_left r) (length bs)\<rparr>, min (r_left r) (length bs), [])" for bs
      unfolding payload_body_def due payload_part_eq Let_def by (simp add: True Nil)
    have q: "q = r\<lparr>r_left := r_left r - 1\<rparr>" "e = []" using left by (simp_all add: q_def e_def body)
    have inv_q: "content_bytes q [] = (q, [])" unfolding q(1) content_bytes_left Nil by simp
    have "content_due q = 0" using True front by (simp add: content_due_def q)
    then have body_q: "payload_body q bs =
        (q\<lparr>r_left := r_left q - min (r_left q) (length bs)\<rparr>, min (r_left q) (length bs), [])" for bs
      unfolding payload_body_def payload_part_eq Let_def by (simp add: inv_q)
    have "min (r_left r) (Suc (length xs)) = Suc (min (r_left r - 1) (length xs))" using left by auto
    then show ?thesis using left front unfolding joins_def body body_q by (simp add: q)
  next
    case False
    define cx where "cx = content_bytes r [x]"
    have part: "payload_body r [x] = ((fst cx)\<lparr>r_left := r_left r - 1\<rparr>, 1, snd cx)"
      unfolding payload_body_def due payload_part_eq Let_def using False left
      by (auto simp: cx_def min_def)
    have q: "q = (fst cx)\<lparr>r_left := r_left r - 1\<rparr>" "e = snd cx" by (simp_all add: q_def e_def part)
    have q_fields: "r_front q = 0" "r_left q = r_left r - 1" "r_pad q = r_pad r" "r_state q = r_state r"
      using front by (simp_all add: q cx_def)
    have due_q: "content_due q = ?c - 1" using front q_fields by (simp add: content_due_def)
    define n where "n = min (?c - 1) (length xs)"
    have n: "min ?c (length (x # xs)) = Suc n" "(Suc n = ?c) = (n = ?c - 1)" using False by (auto simp: n_def)
    have cq: "content_bytes q bs = ((fst (content_bytes (fst cx) bs))\<lparr>r_left := r_left r - 1\<rparr>,
        snd (content_bytes (fst cx) bs))" for bs
      by (simp only: q(1) content_bytes_left)
    have left_q: "r_left (fst (content_bytes q bs)) = r_left r - 1" for bs by (simp add: q_fields)
    have whole: "payload_body r (x # xs) = payload_part r (x # xs) (Suc n) (n = ?c - 1)"
      unfolding payload_body_def due Let_def n by (rule refl)
    have rest: "payload_body q xs = payload_part q xs n (n = ?c - 1)"
      unfolding payload_body_def due_q Let_def n_def by (rule refl)
    have same: "same_reader (fst (content_bytes r (x # take n xs))) (fst (content_bytes (fst cx) (take n xs)))"
      "frame_obs (snd (content_bytes r (x # take n xs))) = frame_obs (snd cx @ snd (content_bytes (fst cx) (take n xs)))"
      using content_bytes_Cons [OF inv, of x "take n xs"] by (simp_all add: cx_def)
    have up: "same_reader (a\<lparr>r_left := k\<rparr>) (b\<lparr>r_left := k\<rparr>)" if ab: "same_reader a b" for a b k
    proof (cases "b = a")
      case False
      then obtain B where "buf_unused a" "b = a\<lparr>r_buf := B\<rparr>" using ab False by (auto simp: same_reader_def)
      then have "b\<lparr>r_left := k\<rparr> = a\<lparr>r_left := k, r_buf := B\<rparr>" by simp
      then show ?thesis
        using same_reader_buf [of "a\<lparr>r_left := k\<rparr>" B] \<open>buf_unused a\<close> by (simp add: buf_unused_def)
    qed simp
    have "joins (payload_body r (x # xs)) e (payload_body q xs)"
      unfolding whole rest payload_part_eq joins_def using same
      by (auto simp: cq q_fields q(2) intro!: up)
    then show ?thesis using part q_fields by simp
  qed
  then show "fst (snd (payload_body r [x])) = 1" "r_front q = 0" "r_left q = r_left r - 1"
    "r_state q = r_state r" "joins (payload_body r (x # xs)) e (payload_body q xs)" by auto
qed

lemma payload_one:
  fixes r x xs
  assumes inv: "frame_inv r" and st: "r_state r = Payload" and left: "0 < r_left r"
  defines "q \<equiv> fst (payload r [x])" and "e \<equiv> snd (snd (payload r [x]))"
  shows "fst (snd (payload r [x])) = 1"
    and "r_state q \<noteq> Payload \<or> r_left q = 0 \<Longrightarrow> payload r (x # xs) = (q, 1, e)"
    and "r_state q = Payload \<Longrightarrow> 0 < r_left q \<Longrightarrow> joins (payload r (x # xs)) e (payload q xs)"
proof -
  have main: "fst (snd (payload r [x])) = 1 \<and>
    (r_state q \<noteq> Payload \<or> r_left q = 0 \<longrightarrow> payload r (x # xs) = (q, 1, e)) \<and>
    (r_state q = Payload \<and> 0 < r_left q \<longrightarrow> joins (payload r (x # xs)) e (payload q xs))"
  proof (cases "r_front r = 0")
    case True
    have body: "payload r bs = payload_body r bs" for bs
      by (simp add: payload_def front_loop_none [OF True])
    have one: "fst (snd (payload_body r [x])) = 1" by (rule payload_body_one(1) [OF inv True left])
    have q: "r_front q = 0" "r_left q = r_left r - 1" "r_state q = Payload"
      using payload_body_one(2-4) [OF inv True left, of x] st by (simp_all add: q_def body)
    have "payload q bs = payload_body q bs" for bs
      by (simp add: payload_def front_loop_none [OF q(1)])
    then have j: "joins (payload r (x # xs)) e (payload q xs)"
      using payload_body_one(5) [OF inv True left, of x xs] by (simp add: q_def e_def body)
    moreover have "payload r (x # xs) = (q, 1, e)" if "r_left q = 0"
    proof -
      have "r_left r = 1" using that q(2) left by simp
      then have "payload_body r (x # xs) = payload_body r [x]"
        unfolding payload_body_def Let_def payload_part_eq content_due_def using True
        by (cases "r_pad r = 0") (auto simp: min_def)
      then show ?thesis using one by (simp add: q_def e_def body prod_eq_iff)
    qed
    ultimately show ?thesis using one q by (simp add: body)
  next
    case False
    let ?s = "front_step r x"
    show ?thesis
    proof (cases "r_front ?s = 0 \<and> r_pad ?s > r_left ?s")
      case True
      then have "payload r (x # bs) = (?s\<lparr>r_state := Broken BadPadding\<rparr>, 1, [])" for bs
        using False by (simp add: payload_def)
      then show ?thesis by (simp add: q_def e_def)
    next
      case not_broken: False
      have inv_s: "frame_inv ?s"
        using inv st by (auto simp: frame_inv_def front_step_def Let_def scan_cap_def)
      have front: "front_loop r (x # bs) = (let (p, u, b) = front_loop ?s bs in (p, u + 1, b))" for bs
      proof -
        have "r_front r > 0" using False by simp
        then show ?thesis by (simp only: front_loop.simps if_True Let_def not_broken if_False)
      qed
      have one: "payload r [x] = (?s, 1, [])"
        by (simp add: payload_def front payload_body_Nil [OF inv_s] del: front_loop.simps(2))
      then have q: "q = ?s" "e = []" by (simp_all add: q_def e_def)
      have rest: "payload r (x # xs) = (let (p, u, es) = payload ?s xs in (p, Suc u, es))"
        by (simp add: payload_def front Let_def case_prod_beta del: front_loop.simps(2))
      have "payload ?s xs = (?s, 0, [])" if "r_left ?s = 0"
      proof -
        have front: "r_front ?s = 0" using inv_s st that by (simp add: frame_inv_def)
        then show ?thesis
          using that by (simp add: payload_def front_loop_none payload_body_def payload_part_def
            content_due_def Let_def content_bytes_Nil [OF inv_s])
      qed
      then show ?thesis
        using one rest st unfolding q by (auto simp: joins_def case_prod_beta Let_def)
    qed
  qed
  then show "fst (snd (payload r [x])) = 1"
    "r_state q \<noteq> Payload \<or> r_left q = 0 \<Longrightarrow> payload r (x # xs) = (q, 1, e)"
    "r_state q = Payload \<Longrightarrow> 0 < r_left q \<Longrightarrow> joins (payload r (x # xs)) e (payload q xs)"
    by blast+
qed

section \<open>One byte of a read\<close>

definition reads_on ::
  "frame_reader \<times> frame list \<Rightarrow> bytes \<Rightarrow> frame_reader \<times> frame list" where
  "reads_on p xs = (let (r, e) = read (fst p) xs in (r, snd p @ e))"

definition same_read ::
  "frame_reader \<times> frame list \<Rightarrow> frame_reader \<times> frame list \<Rightarrow> bool" where
  "same_read w p \<longleftrightarrow> same_reader (fst w) (fst p) \<and> frame_obs (snd w) = frame_obs (snd p)"

lemma read_Nil [simp]: "read r [] = (r, [])"
  by (simp add: read.simps)

lemma reads_on_Nil [simp]: "reads_on p [] = p"
  by (simp add: reads_on_def)

lemma read_by_round:
  "xs \<noteq> [] \<Longrightarrow> read_round r xs = (q, e, rest) \<Longrightarrow> read r xs = reads_on (q, e) rest"
  by (subst read.simps) (simp add: reads_on_def)

lemma reads_on_append: "reads_on (q, e1 @ e2) xs = (fst (reads_on (q, e2) xs), e1 @ snd (reads_on (q, e2) xs))"
  by (simp add: reads_on_def case_prod_beta Let_def)

lemma reads_on_same:
  assumes "same_reader a a'" "frame_obs ea = frame_obs ea'"
  shows "same_read (reads_on (a, ea) xs) (reads_on (a', ea') xs)"
  using read_same [OF assms(1), of xs] assms(2)
  by (simp add: same_read_def reads_on_def case_prod_beta Let_def)

lemma same_read_refl [simp]: "same_read p p"
  by (simp add: same_read_def)

lemma read_Broken [simp]: "r_state r = Broken why \<Longrightarrow> read r xs = (r, [])"
  by (cases "xs = []") (simp_all add: read.simps read_round_def)

lemma read_one_Preface:
  assumes "r_state r = PrefaceAt seen" "frame_inv r"
  shows "read r (x # xs) = reads_on (read r [x]) xs"
proof -
  have seen: "seen < 24" using assms by (simp add: frame_inv_def)
  define d where "d = drop seen PREFACE"
  obtain p ps where d: "d = p # ps" using seen by (cases d) (auto simp: d_def)
  have ps: "ps = drop (Suc seen) PREFACE" "length ps = 23 - seen"
    using d seen by (auto simp: d_def drop_Suc tl_drop [symmetric] dest: arg_cong [where f = length])
  define k where "k = 23 - seen"
  have rr: "read_round r (x # ys) =
      (if x = p \<and> take (min k (length ys)) ys = take (min k (length ys)) ps then
         (r\<lparr>r_state := (if min k (length ys) = k then Head else PrefaceAt (Suc seen + min k (length ys)))\<rparr>, [],
          drop (min k (length ys)) ys)
       else (r\<lparr>r_state := Broken Preface\<rparr>, [], []))" for ys
  proof -
    have "min (24 - seen) (length (x # ys)) = Suc (min k (length ys))" using seen by (auto simp: k_def)
    moreover have "(seen + Suc (min k (length ys)) = 24) = (min k (length ys) = k)" using seen by (auto simp: k_def)
    ultimately show ?thesis
      using assms(1) d by (simp add: read_round_def Let_def d_def [symmetric])
  qed
  show ?thesis
  proof (cases "x = p")
    case False
    then have "read_round r (x # ys) = (r\<lparr>r_state := Broken Preface\<rparr>, [], [])" for ys
      by (simp add: rr)
    then have "read r (x # ys) = (r\<lparr>r_state := Broken Preface\<rparr>, [])" for ys
      by (simp add: read_by_round)
    then show ?thesis by (simp add: reads_on_def)
  next
    case True
    define q where "q = r\<lparr>r_state := (if k = 0 then Head else PrefaceAt (Suc seen))\<rparr>"
    have "read r [x] = reads_on (q, []) []" 
      using rr [of "[]"] True by (intro read_by_round) (simp_all add: q_def)
    then have one: "read r [x] = (q, [])" by simp
    show ?thesis
    proof (cases "k = 0 \<or> xs = []")
      case True
      show ?thesis
      proof (cases "xs = []")
        case False
        then have "read_round r (x # xs) = (q, [], xs)"
          using True \<open>x = p\<close> rr [of xs] by (simp add: q_def)
        then have "read r (x # xs) = reads_on (q, []) xs" by (intro read_by_round) simp_all
        then show ?thesis by (simp add: one)
      qed simp
    next
      case False
      define n where "n = min k (length xs)"
      have n: "min (24 - Suc seen) (length xs) = n" "n \<noteq> 0" "(Suc seen + n = 24) = (n = k)"
        using seen False by (auto simp: k_def n_def)
      have qs: "r_state q = PrefaceAt (Suc seen)" "q\<lparr>r_state := st\<rparr> = r\<lparr>r_state := st\<rparr>" for st
        using False by (simp_all add: q_def)
      have "read_round q xs = (if take n xs = take n ps
          then (r\<lparr>r_state := (if n = k then Head else PrefaceAt (Suc seen + n))\<rparr>, [], drop n xs)
          else (r\<lparr>r_state := Broken Preface\<rparr>, [], []))"
        using n(2) by (cases "take n xs = take n ps") (simp_all only: read_round_def qs read_state.case Let_def length_PREFACE n(1,3) ps(1) [symmetric]
          if_False if_True simp_thms)
      also have "\<dots> = read_round r (x # xs)"
        using True unfolding rr n_def [symmetric] by (simp only: simp_thms)
      finally have "read_round q xs = read_round r (x # xs)" .
      then show ?thesis
        using one False by (simp add: reads_on_def read.simps [of r "x # xs"] read.simps [of q xs])
    qed
  qed
qed

lemma read_one_Head:
  assumes "r_state r = Head" "frame_inv r"
  shows "read r (x # xs) = reads_on (read r [x]) xs"
proof -
  define l where "l = r_head_len r"
  have l: "l < 9" "length (r_head r) = 9" using assms by (simp_all add: frame_inv_def l_def)
  define k where "k = 8 - l"
  define put where "put ys = r\<lparr>r_head := copy_at l (r_head r) ys, r_head_len := l + length ys\<rparr>" for ys
  define go where "go p = (if r_head_len p = 9 then start_frame (p\<lparr>r_head_len := 0\<rparr>) else (p, []))" for p
  have rr: "read_round r (x # ys) =
      (let (p, es) = go (put (x # take (min k (length ys)) ys)) in (p, es, drop (min k (length ys)) ys))" for ys
  proof -
    have "min (9 - l) (length (x # ys)) = Suc (min k (length ys))" using l by (auto simp: k_def)
    then show ?thesis
      using assms(1) by (simp add: read_round_def Let_def put_def go_def l_def [symmetric])
  qed
  show ?thesis
  proof (cases "k = 0 \<or> xs = []")
    case True
    then show ?thesis by (auto simp: read_by_round [OF list.distinct(2)] rr case_prod_beta Let_def)
  next
    case False
    define q where "q = put [x]"
    have q: "r_state q = Head" "r_head_len q = Suc l" "r_head q = copy_at l (r_head r) [x]"
      using assms(1) by (simp_all add: q_def put_def)
    have "go q = (q, [])" using False q(2) l by (simp add: go_def k_def)
    then have "read r [x] = reads_on (q, []) []" by (intro read_by_round) (simp_all add: rr q_def)
    then have one: "read r [x] = (q, [])" by simp
    define n where "n = min k (length xs)"
    have n: "min (9 - Suc l) (length xs) = n" "n \<noteq> 0" "length (take n xs) = n"
      using False l by (simp_all add: k_def n_def)
    have "copy_at (Suc l) (copy_at l (r_head r) [x]) zs = copy_at l (r_head r) (x # zs)" for zs
      using l by (simp add: copy_at_def add.commute)
    then have put: "q\<lparr>r_head := copy_at (Suc l) (r_head q) zs, r_head_len := Suc l + length zs\<rparr> = put (x # zs)" for zs
      by (simp add: q(3)) (simp add: q_def put_def)
    have "read_round q xs = (let (p, es) = go (put (x # take n xs)) in (p, es, drop n xs))"
      using put [of "take n xs"] n(2) unfolding n(3)
      by (simp only: read_round_def q(1,2) read_state.case Let_def n(1) go_def if_False)
    then have "read_round q xs = read_round r (x # xs)" by (simp only: rr n_def)
    then show ?thesis
      using one False by (simp add: reads_on_def read.simps [of r "x # xs"] read.simps [of q xs])
  qed
qed

lemma read_one_Payload:
  assumes "r_state r = Payload" "frame_inv r" "0 < r_left r"
  shows "same_read (read r (x # xs)) (reads_on (read r [x]) xs)"
proof -
  define fin where "fin p = (if r_left p = 0 \<and> r_state p = Payload then finish_frame p else (p, []))" for p
  have rr: "read_round r' bs = (let (p, u, es) = payload r' bs; (p, es') = fin p in (p, es @ es', drop u bs))"
    if "r_state r' = Payload" for r' bs
    using that by (simp add: read_round_def fin_def Let_def)
  define q where "q = fst (payload r [x])"
  define e where "e = snd (snd (payload r [x]))"
  have used: "fst (snd (payload r [x])) = 1" by (rule payload_one(1) [OF assms(2,1,3)])
  have "read r [x] = reads_on (fst (fin q), e @ snd (fin q)) []"
    by (rule read_by_round) (simp_all add: rr [OF assms(1)] Let_def case_prod_beta used q_def e_def)
  then have one: "read r [x] = (fst (fin q), e @ snd (fin q))" by simp
  show ?thesis
  proof (cases "r_state q \<noteq> Payload \<or> r_left q = 0")
    case True
    then have "payload r (x # xs) = (q, 1, e)"
      using payload_one(2) [OF assms(2,1,3), of x xs, folded q_def e_def] by blast
    then have "read r (x # xs) = reads_on (fst (fin q), e @ snd (fin q)) xs"
      by (intro read_by_round) (simp_all add: rr [OF assms(1)] Let_def case_prod_beta)
    then show ?thesis by (simp add: one)
  next
    case False
    then have fin: "fin q = (q, [])" by (simp add: fin_def)
    have j: "joins (payload r (x # xs)) e (payload q xs)"
      using payload_one(3) [OF assms(2,1,3), of x xs, folded q_def e_def] False by blast
    obtain a u ea where w: "payload r (x # xs) = (a, Suc u, ea)"
      using j by (cases "payload r (x # xs)") (auto simp: joins_def)
    obtain a' ea' where p: "payload q xs = (a', u, ea')" "same_reader a a'"
      "frame_obs ea = frame_obs (e @ ea')"
      using j w by (cases "payload q xs") (auto simp: joins_def)
    have fins: "same_reader (fst (fin a)) (fst (fin a')) \<and> snd (fin a') = snd (fin a)"
    proof (cases "a' = a")
      case False
      then obtain B where B: "buf_unused a" "a' = a\<lparr>r_buf := B\<rparr>" using p(2) by (auto simp: same_reader_def)
      have f: "finish_frame a' = ((fst (finish_frame a))\<lparr>r_buf := B\<rparr>, snd (finish_frame a))"
        "same_reader (fst (finish_frame a)) ((fst (finish_frame a))\<lparr>r_buf := B\<rparr>)"
        using finish_frame_buf [OF B(1), of B] same_reader_buf by (simp_all add: B(2))
      have fields: "r_left a' = r_left a" "r_state a' = r_state a" by (simp_all add: B(2))
      consider "fin a = finish_frame a" "fin a' = finish_frame a'" | "fin a = (a, [])" "fin a' = (a', [])"
        unfolding fin_def fields by (cases "r_left a = 0 \<and> r_state a = Payload") simp_all
      then show ?thesis by cases (simp_all only: f p(2) fst_conv snd_conv simp_thms)
    qed simp
    note fins = fins [THEN conjunct1] fins [THEN conjunct2]
    have whole: "read r (x # xs) = reads_on (fst (fin a), ea @ snd (fin a)) (drop u xs)"
      by (rule read_by_round) (simp_all add: rr [OF assms(1)] Let_def case_prod_beta w)
    have "reads_on (read r [x]) xs = reads_on (fst (fin a'), e @ ea' @ snd (fin a')) (drop u xs)"
    proof (cases "xs = []")
      case True
      have "payload q [] = (q, 0, [])"
      proof -
        have "frame_inv q" using payload_inv [OF assms(2,1), of "[x]" q 1 e] False used
          by (auto simp: q_def e_def prod_eq_iff frame_inv_def scan_cap_def)
        then show ?thesis by (simp add: payload_def payload_body_Nil)
      qed
      then show ?thesis using True p fin one by simp
    next
      case ne: False
      have "read q xs = reads_on (fst (fin a'), ea' @ snd (fin a')) (drop u xs)"
        using False ne by (intro read_by_round) (simp_all add: rr Let_def case_prod_beta p(1))
      then show ?thesis by (simp add: one fin reads_on_def case_prod_beta Let_def)
    qed
    then show ?thesis
      using reads_on_same [OF fins(1), of "ea @ snd (fin a)" "e @ ea' @ snd (fin a')" "drop u xs"] p(3) fins(2)
      by (simp add: whole)
  qed
qed

text \<open>Any state but a scan: a payload that a skipped gap left with nothing due ends first.\<close>

lemma read_one:
  assumes inv: "frame_inv r" and no_scan: "r_state r \<noteq> Scan"
  shows "same_read (read r (x # xs)) (reads_on (read r [x]) xs)"
proof (cases "r_state r")
  case (PrefaceAt seen)
  from read_one_Preface [OF this inv, of x xs] show ?thesis by (simp only: same_read_refl)
next
  case Head
  from read_one_Head [OF this inv, of x xs] show ?thesis by (simp only: same_read_refl)
next
  case Payload
  show ?thesis
  proof (cases "r_left r = 0")
    case False
    then show ?thesis by (intro read_one_Payload [OF Payload inv]) simp
  next
    case True
    then have "r_front r = 0" using inv Payload by (simp add: frame_inv_def)
    then have "payload r bs = (r, 0, [])" for bs
      using True by (simp add: payload_def front_loop_none payload_body_def payload_part_def
        content_due_def Let_def content_bytes_Nil [OF inv])
    then have rr: "read_round r bs = (fst (finish_frame r), snd (finish_frame r), bs)" for bs
      using True Payload by (simp add: read_round_def case_prod_beta Let_def)
    let ?q = "fst (finish_frame r)" and ?e = "snd (finish_frame r)"
    have whole: "read r bs = reads_on (?q, ?e) bs" if "bs \<noteq> []" for bs
      using that by (intro read_by_round) (simp_all add: rr)
    have head: "read ?q (x # xs) = reads_on (read ?q [x]) xs"
      by (rule read_one_Head [OF finish_frame_state finish_frame_inv [OF inv]])
    have "read r (x # xs) = reads_on (?q, ?e) (x # xs)" "read r [x] = reads_on (?q, ?e) [x]"
      by (simp_all only: whole list.distinct not_False_eq_True)
    then have "read r (x # xs) = reads_on (read r [x]) xs"
      by (simp only: reads_on_def head case_prod_beta Let_def fst_conv snd_conv append_assoc)
    then show ?thesis by (simp only: same_read_refl)
  qed
next
  case Scan
  then show ?thesis using no_scan by simp
next
  case (Broken why)
  then show ?thesis by (simp add: reads_on_def)
qed

lemma read_no_scan: "r_state r \<noteq> Scan \<Longrightarrow> r_state (fst (read r xs)) \<noteq> Scan"
proof (induction r xs rule: read.induct)
  case (1 r xs)
  show ?case
  proof (cases "xs = []")
    case False
    obtain q e rest where round: "read_round r xs = (q, e, rest)" by (rule prod_cases3)
    have "r_state q \<noteq> Scan"
    proof (cases "r_state r")
      case (PrefaceAt seen)
      then show ?thesis using round by (auto simp: read_round_def Let_def split: if_splits)
    next
      case Head
      then show ?thesis using round start_frame_state
        by (auto simp: read_round_def Let_def case_prod_beta split: if_splits)
    next
      case Payload
      obtain p u es where pay: "payload r xs = (p, u, es)" by (rule prod_cases3)
      have "r_state p = Payload \<or> r_state p = Broken BadPadding" using payload_used [OF pay] Payload by simp
      then show ?thesis using round Payload pay
        by (cases "r_left p = 0 \<and> r_state p = Payload") (auto simp: read_round_def case_prod_beta)
    next
      case Scan
      then show ?thesis using "1.prems" by simp
    next
      case (Broken why)
      then show ?thesis using round by (simp add: read_round_def)
    qed
    then show ?thesis
      using "1.IH" [OF False round [symmetric] refl refl] False round
      by (simp add: read.simps [of r xs] case_prod_beta Let_def)
  qed (use "1.prems" in simp)
qed

lemma read_append:
  assumes "frame_inv r" "r_state r \<noteq> Scan"
  shows "same_read (read r (xs @ ys)) (reads_on (read r xs) ys)"
  using assms
proof (induction xs arbitrary: r)
  case Nil
  then show ?case by (simp add: reads_on_def)
next
  case (Cons x xs)
  define q where "q = fst (read r [x])"
  define e where "e = snd (read r [x])"
  have q: "frame_inv q" "r_state q \<noteq> Scan"
    using read_inv [OF Cons.prems(1)] read_no_scan [OF Cons.prems(2)] by (simp_all add: q_def)
  have IH: "same_read (read q (xs @ ys)) (reads_on (read q xs) ys)" by (rule Cons.IH [OF q])
  have a: "same_read (read r (x # xs @ ys)) (reads_on (q, e) (xs @ ys))"
    using read_one [OF Cons.prems, of x "xs @ ys"] by (simp add: q_def e_def)
  have b: "same_read (read r (x # xs)) (reads_on (q, e) xs)"
    using read_one [OF Cons.prems, of x xs] by (simp add: q_def e_def)
  obtain w where w: "w = read r (x # xs)" by simp
  have "same_read (reads_on (read r (x # xs)) ys) (reads_on (reads_on (q, e) xs) ys)"
    using reads_on_same [of "fst w" "fst (reads_on (q, e) xs)" "snd w" "snd (reads_on (q, e) xs)" ys] b w
    by (simp add: same_read_def)
  moreover have "same_read (reads_on (q, e) (xs @ ys)) (reads_on (reads_on (q, e) xs) ys)"
    using IH by (simp add: reads_on_def same_read_def case_prod_beta Let_def)
  ultimately show ?case
    using a by (auto simp: same_read_def dest: same_reader_sym intro: same_reader_trans)
qed

end
