(* ===== verification/Frame_Props.thy ===== *)
theory Frame_Props
  imports Frame_Bytes
begin

text \<open>
  The frame reader's properties: independence of the cuts, memory bounds under any sequence of
  operations, what a re-anchoring scan finds, skipped gaps, and the stale head a resync keeps.
\<close>

section \<open>Cuts\<close>

interpretation frames: incremental read "\<lambda>r. frame_inv r \<and> r_state r \<noteq> Scan" norm_reader frame_obs
proof
  fix r :: frame_reader and a b :: bytes
  assume r: "frame_inv r \<and> r_state r \<noteq> Scan"
  show "frame_inv (fst (read r a)) \<and> r_state (fst (read r a)) \<noteq> Scan"
    using r read_inv read_no_scan by blast
  have "same_read (read r (a @ b)) (reads_on (read r a) b)" using r read_append by blast
  then show "norm_reader (fst (read r (a @ b))) = norm_reader (fst (read (fst (read r a)) b))"
    "frame_obs (snd (read r (a @ b))) =
       frame_obs (snd (read r a)) @ frame_obs (snd (read (fst (read r a)) b))"
    by (auto simp: same_read_def reads_on_def case_prod_beta Let_def dest: same_reader_norm)
qed simp_all

text \<open>C35: however a direction's bytes are cut into reads, its frame reader emits the same frames
  (DATA payloads joined) and ends in the same state, up to header bytes it no longer uses: both the
  client's reader, which starts at the preface, and the server's.\<close>

theorem frames_cuts_agree:
  "norm_reader (fst (feeds read client reads)) = norm_reader (fst (read client (concat reads))) \<and>
   frame_obs (snd (feeds read client reads)) = frame_obs (snd (read client (concat reads))) \<and>
   norm_reader (fst (feeds read server reads)) = norm_reader (fst (read server (concat reads))) \<and>
   frame_obs (snd (feeds read server reads)) = frame_obs (snd (read server (concat reads)))"
proof -
  have "r_state client \<noteq> Scan" "r_state server \<noteq> Scan" by (simp_all add: client_def server_def)
  then show ?thesis
    using frames.feeds_concat [of client reads] frames.feeds_concat [of server reads] client_inv server_inv
    by simp
qed

section \<open>Bounds\<close>

datatype reader_op = ReadOp bytes | ResyncOp | SkipOp nat

fun reader_step :: "frame_reader \<Rightarrow> reader_op \<Rightarrow> frame_reader" where
  "reader_step r (ReadOp bs) = fst (read r bs)"
| "reader_step r ResyncOp = resync r"
| "reader_step r (SkipOp n) = fst (skip_gap r n)"

lemma reader_steps_inv: "frame_inv r \<Longrightarrow> frame_inv (foldl reader_step r ops)"
proof (induction ops arbitrary: r)
  case (Cons op ops)
  then show ?case by (cases op) (simp_all add: read_inv resync_inv skip_gap_inv)
qed simp

text \<open>after any reads, losses and resyncs a reader keeps its invariant: the indexes into its
  fixed arrays are in range, the fields it subtracts from are large enough, and its buffers are at
  most 64 KiB of header block and three frames of scan.\<close>

lemma reader_bounded:
  "let r = foldl reader_step (if is_client then client else server) ops
   in frame_inv r \<and> length (r_buf r) \<le> MAX_HEADER_BLOCK \<and> length (r_scan r) \<le> 256 * 1024 \<and>
      r_head_len r < 9 \<and> r_ctrl_len r \<le> 4"
  using reader_steps_inv [OF client_inv, of ops] reader_steps_inv [OF server_inv, of ops]
  by (auto simp: Let_def frame_inv_def scan_cap_def)

section \<open>Skipped gaps\<close>

lemma skip_gap_read:
  assumes inv: "frame_inv r" and ok: "snd (skip_gap r (length bs))" and xs: "xs \<noteq> []"
  shows "same_reader (fst (read r (bs @ xs))) (fst (read (fst (skip_gap r (length bs))) xs)) \<and>
    frame_obs (snd (read r (bs @ xs))) =
      map (\<lambda>b. Data (r_stream r) [b]) bs @ frame_obs (snd (read (fst (skip_gap r (length bs))) xs))"
proof -
  define k where "k = length bs"
  have r: "r_state r = Payload" "r_kind r = DATA" "r_front r = 0" "k \<le> r_left r - r_pad r"
    using ok by (auto simp: skip_gap_def k_def split: if_splits)
  define q where "q = r\<lparr>r_left := r_left r - k\<rparr>"
  have skip: "fst (skip_gap r (length bs)) = q" using r by (simp add: skip_gap_def q_def k_def)
  show ?thesis
  proof (cases "bs = []")
    case True
    then have "q = r" by (simp add: q_def k_def)
    then show ?thesis using True skip by simp
  next
    case False
    have cb: "content_bytes r bs = (r, [Data (r_stream r) bs])"
      using False r(2) by (simp add: content_bytes_def)
    have due: "content_due r = r_left r - r_pad r" "min (content_due r) k = k"
      using r by (simp_all add: content_due_def)
    have pay: "payload r bs = (q, k, [Data (r_stream r) bs])"
      unfolding payload_def front_loop_none [OF r(3)]
      using due by (simp add: payload_body_def payload_part_def Let_def cb k_def [symmetric] q_def)
    define fin where "fin p = (if r_left p = 0 \<and> r_state p = Payload then finish_frame p else (p, []))" for p
    have q: "frame_inv q" "r_state q = Payload" using inv r by (simp_all add: q_def frame_inv_def scan_cap_def)
    have first: "read r bs = (fst (fin q), Data (r_stream r) bs # snd (fin q))"
    proof -
      have "read r bs = reads_on (fst (fin q), [Data (r_stream r) bs] @ snd (fin q)) (drop k bs)"
        using False r(1) pay by (intro read_by_round) (simp_all add: read_round_def fin_def case_prod_beta Let_def)
      then show ?thesis by (simp add: k_def)
    qed
    have then_xs: "read q xs = reads_on (fin q) xs"
    proof (cases "r_left q = 0")
      case True
      have "payload q xs = (q, 0, [])"
        using True r(3) q
        by (simp add: payload_def front_loop_none payload_body_def payload_part_def content_due_def
            Let_def content_bytes_Nil q_def)
      then have "read q xs = reads_on (fst (fin q), snd (fin q)) xs"
        using True q(2) xs by (intro read_by_round) (simp_all add: read_round_def fin_def case_prod_beta Let_def)
      then show ?thesis by simp
    next
      case False
      then show ?thesis by (simp add: fin_def reads_on_def case_prod_beta Let_def)
    qed
    have whole: "same_read (read r (bs @ xs)) (reads_on (read r bs) xs)"
      using inv r(1) by (intro read_append) simp_all
    show ?thesis
      using whole unfolding skip first then_xs
      by (simp add: same_read_def reads_on_def case_prod_beta Let_def frame_obs_def)
  qed
qed

text \<open>a skipped gap is a hole in one DATA payload and nothing else: when \<open>skip_gap\<close> accepts
  a gap, the reader goes on exactly as if some bytes of that length had been read, except that it
  emits no DATA for them.\<close>

lemma skip_gap_is_a_hole:
  assumes "frame_inv r" "snd (skip_gap r (length bs))" "xs \<noteq> []"
  shows "norm_reader (fst (read r (bs @ xs))) = norm_reader (fst (read (fst (skip_gap r (length bs))) xs)) \<and>
    frame_obs (snd (read r (bs @ xs))) =
      map (\<lambda>b. Data (r_stream r) [b]) bs @ frame_obs (snd (read (fst (skip_gap r (length bs))) xs))"
  using skip_gap_read [OF assms] same_reader_norm by blast

definition in_data :: frame_reader where
  "in_data = server\<lparr>r_state := Payload, r_stream := 1, r_left := 8\<rparr>"

lemma skip_gap_is_a_hole_witness:
  "frame_obs (snd (read in_data ([1, 2, 3] @ [4]))) =
     map (\<lambda>b. Data 1 [b]) [1, 2, 3] @ frame_obs (snd (read (fst (skip_gap in_data 3)) [4]))"
proof -
  have "frame_inv in_data" using server_inv by (simp add: in_data_def frame_inv_def scan_cap_def server_def)
  moreover have "snd (skip_gap in_data (length [1, 2, 3 :: u8]))"
    by (simp add: in_data_def skip_gap_def server_def)
  ultimately have "frame_obs (snd (read in_data ([1, 2, 3] @ [4]))) =
      map (\<lambda>b. Data (r_stream in_data) [b]) [1, 2, 3] @
      frame_obs (snd (read (fst (skip_gap in_data (length [1, 2, 3 :: u8]))) [4]))"
    by (rule skip_gap_is_a_hole [THEN conjunct2]) simp
  moreover have "r_stream in_data = 1" "length [1, 2, 3 :: u8] = 3" by (simp_all add: in_data_def)
  ultimately show ?thesis by (simp only:)
qed

section \<open>Re-anchoring\<close>

lemma chain_Anchored: "chain m scan (Suc n) at = Anchored \<Longrightarrow> at + 9 \<le> length scan"
  by (auto simp: scan_head_def split: if_splits)

text \<open>The scan's answer, and what its bookmark \<open>scan_from\<close> has ruled out.\<close>

definition ruled_out :: "frame_reader \<Rightarrow> bool" where
  "ruled_out r \<longleftrightarrow> (\<forall>off < r_scan_from r. chain_at r off = Rejected)"

lemma anchor_from_spec:
  "ruled_out r \<Longrightarrow> r_scan_from r \<le> at \<Longrightarrow> \<forall>off < at. chain_at r off \<noteq> Anchored \<Longrightarrow>
     ruled_out (fst (anchor_from r at)) \<and>
     (case snd (anchor_from r at) of
        Some k \<Rightarrow> chain_at r k = Anchored \<and> (\<forall>off < k. chain_at r off \<noteq> Anchored)
      | None \<Rightarrow> \<forall>off. chain_at r off \<noteq> Anchored)"
proof (induction r at rule: anchor_from.induct)
  case (1 r at)
  have set: "chain_at (r\<lparr>r_scan_from := k\<rparr>) off = chain_at r off" for k off by (simp add: chain_at_def)
  show ?case
  proof (cases "at + 9 \<le> length (r_scan r)")
    case False
    have "chain_at r off \<noteq> Anchored" for off
      using "1.prems"(3) False chain_Anchored [of "r_max_frame_size r" "r_scan r" 2 off]
      by (cases "off < at") (auto simp: chain_at_def numeral_3_eq_3 numeral_2_eq_2)
    then show ?thesis using False "1.prems" by (simp add: anchor_from.simps)
  next
    case True
    show ?thesis
    proof (cases "chain_at r at")
      case Anchored
      then show ?thesis using True "1.prems" by (simp add: anchor_from.simps [of r at])
    next
      case NeedMore
      then have "\<forall>off < at + 1. chain_at r off \<noteq> Anchored" using "1.prems"(3) by (auto simp: less_Suc_eq)
      then show ?thesis
        using "1.IH"(2) [OF True NeedMore] "1.prems"(1,2) True NeedMore by (simp add: anchor_from.simps [of r at])
    next
      case Rejected
      let ?r = "if at = r_scan_from r then r\<lparr>r_scan_from := r_scan_from r + 1\<rparr> else r"
      have "\<forall>off < at + 1. chain_at ?r off \<noteq> Anchored" "chain_at ?r = chain_at r"
        using "1.prems"(3) Rejected by (auto simp: less_Suc_eq set)
      moreover have "ruled_out ?r" "r_scan_from ?r \<le> at + 1"
        using "1.prems"(1,2) Rejected by (auto simp: ruled_out_def set less_Suc_eq)
      ultimately have "ruled_out (fst (anchor_from ?r (at + 1))) \<and>
          (case snd (anchor_from ?r (at + 1)) of
             Some k \<Rightarrow> chain_at r k = Anchored \<and> (\<forall>off < k. chain_at r off \<noteq> Anchored)
           | None \<Rightarrow> \<forall>off. chain_at r off \<noteq> Anchored)"
        using "1.IH"(1) [OF True Rejected] by (simp only:)
      moreover have "anchor_from r at = anchor_from ?r (at + 1)"
        using True Rejected by (simp add: anchor_from.simps [of r at])
      ultimately show ?thesis by (simp only:)
    qed
  qed
qed

lemma scan_head_more:
  "scan_head m scan off \<noteq> HeadShort \<Longrightarrow> scan_head m (scan @ xs) off = scan_head m scan off"
  by (auto simp: scan_head_def Let_def split: if_splits)

lemma chain_more: "chain m scan n at = Rejected \<Longrightarrow> chain m (scan @ xs) n at = Rejected"
proof (induction n arbitrary: at)
  case (Suc n)
  have "scan_head m scan at \<noteq> HeadShort" using Suc.prems by auto
  then have "scan_head m (scan @ xs) at = scan_head m scan at" by (rule scan_head_more)
  then show ?case using Suc by (auto split: head_scan.splits)
qed simp

lemma chain_drop: "chain m (drop k scan) n at = chain m scan n (k + at)"
proof (induction n arbitrary: at)
  case (Suc n)
  have "scan_head m (drop k scan) at = scan_head m scan (k + at)"
    by (auto simp: scan_head_def add.commute)
  then show ?case using Suc by (simp add: add.assoc split: head_scan.splits)
qed simp

lemma ruled_out_push: "ruled_out r \<Longrightarrow> ruled_out (scan_push r xs)"
  using chain_more by (fastforce simp: ruled_out_def scan_push_def Let_def chain_at_def chain_drop)

text \<open>a scan that resumes at its bookmark loses nothing: after a resync and any reads that found
  no anchor, the offset the next read finds is the first one in the whole buffer where three
  plausible heads chain, and \<open>None\<close> means that no offset does.\<close>

lemma anchor_is_first:
  "let r = scan_push (foldl (\<lambda>r x. fst (anchor (scan_push r x))) (resync r0) reads) input
   in case snd (anchor r) of
        Some k \<Rightarrow> chain_at r k = Anchored \<and> (\<forall>off < k. chain_at r off \<noteq> Anchored)
      | None \<Rightarrow> \<forall>off. chain_at r off \<noteq> Anchored"
proof -
  have spec: "ruled_out (fst (anchor r)) \<and>
     (case snd (anchor r) of
        Some k \<Rightarrow> chain_at r k = Anchored \<and> (\<forall>off < k. chain_at r off \<noteq> Anchored)
      | None \<Rightarrow> \<forall>off. chain_at r off \<noteq> Anchored)" if "ruled_out r" for r
  proof -
    have "\<forall>off < r_scan_from r. chain_at r off \<noteq> Anchored" using that by (auto simp: ruled_out_def)
    then show ?thesis unfolding anchor_def using that by (intro anchor_from_spec) auto
  qed
  have "ruled_out (foldl (\<lambda>r x. fst (anchor (scan_push r x))) r reads)" if "ruled_out r" for r
    using that
  proof (induction reads arbitrary: r)
    case (Cons x xs)
    have "ruled_out (fst (anchor (scan_push r x)))" using spec ruled_out_push Cons.prems by blast
    then show ?case using Cons.IH by simp
  qed simp
  moreover have "ruled_out (resync r0)" by (simp add: ruled_out_def resync_def)
  ultimately show ?thesis unfolding Let_def using spec ruled_out_push by blast
qed

lemma anchor_is_first_witness: "snd (anchor (scan_push (resync server) [0, 0, 4])) = None"
proof -
  let ?r = "scan_push (resync server) [0, 0, 4]"
  have scan: "r_scan ?r = [0, 0, 4]"
    by (simp add: scan_push_def resync_def server_def Let_def DEFAULT_MAX_FRAME_SIZE_def)
  have "chain_at ?r k \<noteq> Anchored" for k
    by (simp add: chain_at_def scan numeral_3_eq_3 scan_head_def)
  then show ?thesis
    using anchor_is_first [where input = "[0, 0, 4]" and reads = "[]" and ?r0.0 = server] by (simp add: Let_def split: option.splits)
qed

lemma head_length_ge: "65536 * unat (h ! 0) \<le> head_length h"
proof -
  have le: "a \<le> (a OR b :: nat)" for a b
    using or_greater_eq [of "int b" "int a"] by (simp add: of_nat_or_eq [symmetric])
  have "push_bit 16 (unat (h ! 0)) \<le> head_length h"
    unfolding head_length_def by (meson le order_trans)
  then show ?thesis by (simp add: push_bit_eq_mult mult.commute)
qed

lemma chain_no_zero:
  assumes "0 \<notin> set scan" "m < 65536"
  shows "chain m scan (Suc n) at \<noteq> Anchored"
proof (cases "at + 9 \<le> length scan")
  case False
  then show ?thesis using chain_Anchored by blast
next
  case True
  then have "at < length scan" by simp
  then have "scan ! at \<in> set scan" by simp
  then have "scan ! at \<noteq> 0" using assms(1) by metis
  moreover have "take 9 (drop at scan) ! 0 = scan ! at" using True by simp
  ultimately have "take 9 (drop at scan) ! 0 \<noteq> 0" by simp
  then have "unat (take 9 (drop at scan) ! 0) > 0" by (simp add: unat_gt_0)
  then have "m < head_length (take 9 (drop at scan))"
    using head_length_ge [of "take 9 (drop at scan)"] assms(2) by linarith
  then show ?thesis using True by (simp add: scan_head_def Let_def)
qed

text \<open>text is never taken for HTTP/2: bytes without a NUL (any HTTP/1.1 head) hold no run of
  frame heads, since a head's first byte above zero announces a frame larger than the maximum.\<close>

lemma text_is_not_http2:
  assumes no_nul: "0 \<notin> set bs"
  shows "\<not> looks_like_http2 bs"
proof
  assume looks: "looks_like_http2 bs"
  let ?r = "scan_push (resync server) bs"
  have "set (r_scan ?r) \<subseteq> set bs" "r_max_frame_size ?r = 16384"
    by (auto simp: scan_push_def resync_def Let_def server_def DEFAULT_MAX_FRAME_SIZE_def dest: in_set_dropD)
  then have none: "chain_at ?r off \<noteq> Anchored" for off
    using chain_no_zero [of "r_scan ?r" 16384 2 off] no_nul by (auto simp: chain_at_def numeral_3_eq_3 numeral_2_eq_2)
  have "ruled_out ?r" by (intro ruled_out_push) (simp add: ruled_out_def resync_def)
  then have "case snd (anchor ?r) of Some k \<Rightarrow> chain_at ?r k = Anchored | None \<Rightarrow> True"
    using anchor_from_spec [of ?r "r_scan_from ?r"] none unfolding anchor_def by (auto split: option.splits)
  then show False using looks none by (auto simp: looks_like_http2_def split: option.splits)
qed

lemma text_is_not_http2_witness: "\<not> looks_like_http2 (as_bytes ''GET / HTTP/1.1'')"
  by (rule text_is_not_http2) (simp add: as_bytes_def word_unat_eq_iff)

end
