(* ===== verification/Frame_Resync.thy ===== *)
theory Frame_Resync
  imports Frame_Props
begin

text \<open>
  A resync that interrupts a frame head: what the reader then reads, evaluated on concrete bytes.
\<close>

section \<open>A head cut by a gap\<close>

text \<open>
  \<open>resync\<close> drops the frame in progress but not the bytes of a head in progress: \<open>head_len\<close> keeps
  its count. After the scan re-anchors, the next head is those stale bytes and the start of the
  anchored frame, and framing is wrong from there on.
\<close>

definition settings_run :: bytes where
  "settings_run = concat (replicate 3 [0, 0, 0, 4, 0, 0, 0, 0, 0])"

definition cut_head :: frame_reader where
  "cut_head = fst (read server [0, 0, 10, 0, 1])"

lemma cut_head_eq:
  "cut_head = server\<lparr>r_head := [0, 0, 10, 0, 1, 0, 0, 0, 0], r_head_len := 5\<rparr>"
  by (simp add: cut_head_def read.simps read_round_def server_def copy_at_def Let_def eval_nat_numeral)

definition anchored :: "frame_reader \<Rightarrow> frame_reader" where
  "anchored r = (resync r)\<lparr>r_scan := [], r_scan_from := 0, r_state := Head\<rparr>"

lemma settings_run_eq: "settings_run = [0,0,0,4,0,0,0,0,0, 0,0,0,4,0,0,0,0,0, 0,0,0,4,0,0,0,0,0]"
  by (simp add: settings_run_def numeral_3_eq_3)

lemma read_anchored:
  assumes "r_max_frame_size r = 16384"
  shows "read (resync r) settings_run = read (anchored r) settings_run"
proof -
  have head: "scan_head 16384 settings_run 0 = HeadOk 0" "scan_head 16384 settings_run 9 = HeadOk 0"
    "scan_head 16384 settings_run 18 = HeadOk 0"
    by (simp_all add: scan_head_def settings_run_eq head_length_def head_stream_def
      from_be_bytes_def plausible_head_def Let_def)
  have push: "scan_push (resync r) settings_run = (resync r)\<lparr>r_scan := settings_run\<rparr>"
    using assms by (simp add: scan_push_def resync_def Let_def settings_run_eq)
  let ?R = "(resync r)\<lparr>r_scan := settings_run\<rparr>"
  have fields: "r_scan ?R = settings_run" "r_scan_from ?R = 0" "r_max_frame_size ?R = 16384"
    using assms by (simp_all add: resync_def)
  have "chain_at ?R 0 = Anchored"
    unfolding chain_at_def fields numeral_3_eq_3 by (simp add: head)
  moreover have "0 + 9 \<le> length settings_run" by (simp add: settings_run_eq)
  ultimately have anchor: "anchor ?R = (?R, Some 0)"
    unfolding anchor_def fields(2) by (subst anchor_from.simps) (simp add: fields(1))
  have st: "r_state (resync r) = Scan" by (simp add: resync_def)
  have "read_round (resync r) settings_run = (?R\<lparr>r_scan := [], r_state := Head\<rparr>, [], drop 0 settings_run)"
    unfolding read_round_def st push anchor by (simp add: fields(1))
  moreover have "?R\<lparr>r_scan := [], r_state := Head\<rparr> = anchored r" by (simp add: anchored_def resync_def)
  ultimately have "read_round (resync r) settings_run = (anchored r, [], settings_run)" by simp
  moreover have "settings_run \<noteq> []" by (simp add: settings_run_eq)
  ultimately show ?thesis by (simp add: read_by_round reads_on_def)
qed

definition idle :: "frame_reader \<Rightarrow> bool" where
  "idle q \<longleftrightarrow> r_state q = Head \<and> r_head_len q = 0 \<and> length (r_head q) = 9 \<and>
     r_block q = None \<and> r_max_frame_size q = 16384"

lemma read_settings:
  assumes "idle q"
  shows "\<exists>q'. idle q' \<and> read q ([0, 0, 0, 4, 0, 0, 0, 0, 0] @ rest) = reads_on (q', []) rest"
proof -
  have copy: "copy_at 0 (r_head q) [0, 0, 0, 4, 0, 0, 0, 0, 0] = [0, 0, 0, 4, 0, 0, 0, 0, 0]"
    using assms by (simp add: copy_at_def idle_def)
  have take: "take 9 ([0, 0, 0, 4, 0, 0, 0, 0, 0 :: u8] @ rest) = [0, 0, 0, 4, 0, 0, 0, 0, 0]" by simp
  have "\<exists>q'. idle q' \<and> read_round q ([0, 0, 0, 4, 0, 0, 0, 0, 0] @ rest) = (q', [], rest)"
    using assms copy take
    by (simp add: read_round_def idle_def Let_def start_frame_def check_head_def head_length_def
      head_stream_def from_be_bytes_def has_def finish_frame_def)
  then show ?thesis using read_by_round [of "[0, 0, 0, 4, 0, 0, 0, 0, 0] @ rest" q] by fastforce
qed

lemma cut_head_reads:
  "take 2 (snd (read (anchored cut_head) settings_run)) =
     [Data 4 [0, 0, 0, 0, 0, 0, 0, 0, 4, 0], StreamEnd 4]"
proof -
  define p where "p = (anchored cut_head)\<lparr>r_head := [0, 0, 10, 0, 1, 0, 0, 0, 4], r_head_len := 0,
    r_kind := 0, r_flags := 1, r_stream := 4, r_left := 10, r_front := 0, r_pad_due := False,
    r_pad := 0, r_state := Payload\<rparr>"
  have c: "r_state (anchored cut_head) = Head" "r_head_len (anchored cut_head) = 5"
    "r_head (anchored cut_head) = [0, 0, 10, 0, 1, 0, 0, 0, 0]" "r_block (anchored cut_head) = None"
    "r_max_frame_size (anchored cut_head) = 16384"
    by (simp_all add: anchored_def resync_def cut_head_eq server_def DEFAULT_MAX_FRAME_SIZE_def)
  have "read_round (anchored cut_head) settings_run = (p, [], drop 4 settings_run)"
    using c by (simp add: read_round_def Let_def settings_run_eq copy_at_def start_frame_def check_head_def
      head_length_def head_stream_def from_be_bytes_def has_def p_def)
  then have "read (anchored cut_head) settings_run = reads_on (p, []) (drop 4 settings_run)"
    by (intro read_by_round) (simp add: settings_run_eq)
  moreover define p' where "p' = fst (finish_frame (p\<lparr>r_left := 0\<rparr>))"
  have pf: "r_state p = Payload" "r_kind p = 0" "r_left p = 10" "r_front p = 0" "r_pad p = 0"
    "r_stream p = 4" "r_flags p = 1" by (simp_all add: p_def)
  have rest: "take 10 (drop 4 settings_run) = [0, 0, 0, 0, 0, 0, 0, 0, 4, 0]" "length (drop 4 settings_run) = 23"
    "drop 10 (drop 4 settings_run) = drop 14 settings_run"
    by (simp_all add: settings_run_eq)
  have content: "content_bytes p [0, 0, 0, 0, 0, 0, 0, 0, 4, 0] = (p, [Data 4 [0, 0, 0, 0, 0, 0, 0, 0, 4, 0]])"
    using pf by (simp add: content_bytes_def)
  have "payload p (drop 4 settings_run) = (p\<lparr>r_left := 0\<rparr>, 10, [Data 4 [0, 0, 0, 0, 0, 0, 0, 0, 4, 0]])"
    unfolding payload_def front_loop_none [OF pf(4)]
    using pf rest content by (simp add: payload_body_def content_due_def payload_part_def Let_def)
  moreover have "snd (finish_frame (p\<lparr>r_left := 0\<rparr>)) = [StreamEnd 4]"
    using pf by (simp add: finish_frame_def has_def Let_def)
  ultimately have "read_round p (drop 4 settings_run) =
      (p', [Data 4 [0, 0, 0, 0, 0, 0, 0, 0, 4, 0], StreamEnd 4], drop 14 settings_run)"
    using pf rest(3) by (simp add: read_round_def case_prod_beta Let_def p'_def)
  then have "read p (drop 4 settings_run) =
      reads_on (p', [Data 4 [0, 0, 0, 0, 0, 0, 0, 0, 4, 0], StreamEnd 4]) (drop 14 settings_run)"
    by (intro read_by_round) (simp add: settings_run_eq)
  moreover have "read (anchored cut_head) settings_run = reads_on (p, []) (drop 4 settings_run)" by fact
  ultimately show ?thesis
    by (auto simp: reads_on_def case_prod_beta Let_def)
qed

lemma whole_head_reads: "snd (read (anchored server) settings_run) = []"
proof -
  have run: "settings_run = [0, 0, 0, 4, 0, 0, 0, 0, 0] @ [0, 0, 0, 4, 0, 0, 0, 0, 0] @ [0, 0, 0, 4, 0, 0, 0, 0, 0] @ []"
    by (simp add: settings_run_eq)
  have "idle (anchored server)"
    by (simp add: idle_def anchored_def resync_def server_def DEFAULT_MAX_FRAME_SIZE_def)
  then obtain q1 where q1: "idle q1" "read (anchored server) settings_run =
      reads_on (q1, []) ([0, 0, 0, 4, 0, 0, 0, 0, 0] @ [0, 0, 0, 4, 0, 0, 0, 0, 0] @ [])"
    unfolding run using read_settings by blast
  obtain q2 where q2: "idle q2" "read q1 ([0, 0, 0, 4, 0, 0, 0, 0, 0] @ [0, 0, 0, 4, 0, 0, 0, 0, 0] @ []) =
      reads_on (q2, []) ([0, 0, 0, 4, 0, 0, 0, 0, 0] @ [])"
    using read_settings [OF q1(1)] by blast
  obtain q3 where q3: "read q2 ([0, 0, 0, 4, 0, 0, 0, 0, 0] @ []) = reads_on (q3, []) []"
    using read_settings [OF q2(1)] by blast
  show ?thesis
    unfolding q1(2) reads_on_def fst_conv q2(2) unfolding reads_on_def fst_conv q3 by simp
qed

text \<open>a resync that finds the reader inside a frame head keeps the bytes of that head. From a
  reader that had read five bytes of a DATA head, three whole SETTINGS frames after the gap are read
  as a DATA frame of stream 4: the reader emits bytes of frame heads as stream data and ends a
  stream no one opened. A reader with no head in progress reads the same three frames as they are.\<close>

lemma resync_keeps_a_cut_head:
  "take 2 (snd (read (resync cut_head) settings_run)) =
     [Data 4 [0, 0, 0, 0, 0, 0, 0, 0, 4, 0], StreamEnd 4] \<and>
   snd (read (resync server) settings_run) = []"
proof -
  have "r_max_frame_size cut_head = 16384" "r_max_frame_size server = 16384"
    by (simp_all add: cut_head_eq server_def DEFAULT_MAX_FRAME_SIZE_def)
  then show ?thesis by (simp add: read_anchored cut_head_reads whole_head_reads)
qed

end
