(* ===== verification/Common.thy ===== *)
theory Common
  imports Prelude
begin

text \<open>
  The types the kernel programs and the agent share (honeybeepf-llm-common/src/lib.rs): the event
  header, directions, capture limits, and the keys of a plaintext connection. The byte order is the
  agent's targets' (little-endian), where \<open>to_be\<close> and \<open>from_be\<close> swap bytes. A \<open>#[repr(C)]\<close>
  record is a record; its padding carries nothing.
\<close>

unbundle bit_operations_syntax

section \<open>Byte order\<close>

fun le_word :: "bytes \<Rightarrow> 'a :: len word" where
  "le_word [] = 0"
| "le_word (b # bs) = ucast b OR push_bit 8 (le_word bs)"

definition swap16 :: "u16 \<Rightarrow> u16" where
  "swap16 x = push_bit 8 x OR drop_bit 8 x"

definition swap32 :: "u32 \<Rightarrow> u32" where
  "swap32 x = push_bit 24 x OR (push_bit 8 x AND 0xFF0000) OR (drop_bit 8 x AND 0xFF00) OR drop_bit 24 x"

section \<open>Sizes\<close>

definition MAX_SSL_BUF_SIZE :: nat where "MAX_SSL_BUF_SIZE = 4096"
definition MAX_SSL_FRAGMENTS :: nat where "MAX_SSL_FRAGMENTS = 4"
definition MAX_SSL_CAPTURE :: nat where "MAX_SSL_CAPTURE = MAX_SSL_BUF_SIZE * MAX_SSL_FRAGMENTS"

section \<open>Plaintext connections\<close>

definition plain_endpoint_key :: "u32 \<Rightarrow> u16 \<Rightarrow> u64" where
  "plain_endpoint_key ip_be port_be = push_bit 16 (ucast ip_be) OR ucast port_be"

definition sock_ops_remote_port :: "u32 \<Rightarrow> u16" where
  "sock_ops_remote_port remote_port = swap16 (ucast (swap32 remote_port))"

definition flow_local_port :: "u32 \<Rightarrow> u16" where
  "flow_local_port local_port = ucast local_port"

record plain_flow =
  local_ip4 :: u32
  remote_ip4 :: u32
  local_port :: u16
  remote_port :: u16

definition plain_flow_key :: "u32 \<Rightarrow> u32 \<Rightarrow> u32 \<Rightarrow> u32 \<Rightarrow> plain_flow" where
  "plain_flow_key lip rip lport rport =
     \<lparr>local_ip4 = lip, remote_ip4 = rip, local_port = flow_local_port lport,
      remote_port = sock_ops_remote_port rport\<rparr>"

definition plain_stream_id :: "plain_flow \<Rightarrow> u64" where
  "plain_stream_id key =
     push_bit 32 (ucast (remote_ip4 key)) OR push_bit 16 (ucast (local_port key)) OR
     ucast (remote_port key)"

definition PLAIN_ENDPOINTS_ENTRIES :: nat where "PLAIN_ENDPOINTS_ENTRIES = 8192"
definition PLAIN_SOCKS_ENTRIES :: nat where "PLAIN_SOCKS_ENTRIES = 65536"
definition PLAIN_CONNS_ENTRIES :: nat where "PLAIN_CONNS_ENTRIES = 65536"

record plain_entries =
  endpoints :: nat
  socks :: nat
  conns :: nat

definition plain_map_entries :: "bool \<Rightarrow> plain_entries" where
  "plain_map_entries configured =
     (if configured
      then \<lparr>endpoints = PLAIN_ENDPOINTS_ENTRIES, socks = PLAIN_SOCKS_ENTRIES, conns = PLAIN_CONNS_ENTRIES\<rparr>
      else \<lparr>endpoints = 1, socks = 1, conns = 1\<rparr>)"

section \<open>Events\<close>

datatype llm_stat =
  Stat_Enter | Stat_Submit | Stat_Reserve_Fail | Stat_Discard | Stat_Empty | Stat_Truncated
  | Stat_Handshake | Stat_Fragment | Stat_Filtered

record event_metadata =
  m_pid :: u32
  m_pad :: u32
  m_cgroup :: u64
  m_timestamp :: u64

datatype llm_direction = Read | Write | Handshake | Unknown_Dir

definition dir_u8 :: "llm_direction \<Rightarrow> u8" where
  "dir_u8 d = (case d of Read \<Rightarrow> 0 | Write \<Rightarrow> 1 | Handshake \<Rightarrow> 2 | Unknown_Dir \<Rightarrow> 255)"

definition dir_from :: "u8 \<Rightarrow> llm_direction" where
  "dir_from v = (if v = 0 then Read else if v = 1 then Write else if v = 2 then Handshake else Unknown_Dir)"

definition capture_limit :: "llm_direction \<Rightarrow> nat" where
  "capture_limit dir = (case dir of Read \<Rightarrow> MAX_SSL_CAPTURE | _ \<Rightarrow> MAX_SSL_BUF_SIZE)"

record event_header =
  h_metadata :: event_metadata
  h_ssl :: u64
  h_latency :: u64
  h_len :: u32
  h_buf_filled :: u32
  h_offset :: u32
  h_handshake :: u8
  h_rw :: u8
  h_truncated :: u8
  h_closed :: u8
  h_comm :: bytes

definition payload_len :: "event_header \<Rightarrow> nat" where
  "payload_len h =
     (if h_buf_filled h = 0 then 0
      else let avail = unat (h_len h) - unat (h_offset h)
           in if avail < MAX_SSL_BUF_SIZE then avail else MAX_SSL_BUF_SIZE)"

section \<open>Lemmas\<close>

lemma dir_from_u8 [simp]: "dir_from (dir_u8 d) = d"
  by (cases d) (simp_all add: dir_from_def dir_u8_def)

lemma capture_limit_le: "capture_limit d \<le> MAX_SSL_CAPTURE"
  by (simp add: capture_limit_def MAX_SSL_CAPTURE_def MAX_SSL_FRAGMENTS_def split: llm_direction.split)

lemma bit_le_word:
  "bit (le_word bs :: 'a :: len word) n \<longleftrightarrow>
     n < LENGTH('a) \<and> n div 8 < length bs \<and> bit (bs ! (n div 8)) (n mod 8)"
proof (induction bs arbitrary: n)
  case (Cons b bs)
  show ?case
  proof (cases "n < 8")
    case True
    then show ?thesis by (auto simp: bit_or_iff bit_ucast_iff bit_push_bit_iff)
  next
    case False
    then obtain m where n: "n = m + 8" by (metis le_add_diff_inverse2 not_le)
    have b: "\<not> bit b (m + 8)" using bit_imp_le_length [of b "m + 8"] by auto
    have div: "(m + 8) div 8 = Suc (m div 8)" "(m + 8) mod 8 = m mod 8" by simp_all
    show ?thesis
      using Cons.IH [of m] b unfolding n div by (auto simp: bit_or_iff bit_ucast_iff bit_push_bit_iff)
  qed
qed simp

lemma le_word_inject:
  assumes "length xs = length ys" "8 * length xs \<le> LENGTH('a)"
  shows "(le_word xs :: 'a :: len word) = le_word ys \<longleftrightarrow> xs = ys"
proof
  assume eq: "(le_word xs :: 'a word) = le_word ys"
  show "xs = ys"
  proof (rule nth_equalityI)
    fix i assume i: "i < length xs"
    show "xs ! i = ys ! i"
    proof (rule bit_word_eqI)
      fix k assume "k < LENGTH(8)"
      then have k: "k < 8" by simp
      have n: "(8 * i + k) div 8 = i" "(8 * i + k) mod 8 = k" "8 * i + k < LENGTH('a)"
        using k i assms(2) by auto
      have "bit (le_word xs :: 'a word) (8 * i + k) = bit (le_word ys :: 'a word) (8 * i + k)"
        using eq by simp
      then show "bit (xs ! i) k = bit (ys ! i) k"
        using i assms(1) n by (simp only: bit_le_word) simp
    qed
  qed (use assms in simp)
qed simp

end
