(* ===== verification/Ssl_Class.thy ===== *)
theory Ssl_Class
  imports Common
begin

text \<open>
  The kernel's connection classes (honeybeepf-llm-common/src/ssl_class.rs): an entry of the map
  \<open>SSL_CLASS\<close> is one 64-bit word, its low byte the class and the rest the entry's creation time, and
  every Write and Read of a connection moves it. The code compares methods and paths as machine
  words; the lemmas show these comparisons are the byte comparisons they stand for.
\<close>

section \<open>Entries\<close>

datatype ssl_class = Unknown_Class | Send | SkipRequest | SkipConnection | H2

definition class_word :: "ssl_class \<Rightarrow> u64" where
  "class_word c = (case c of Unknown_Class \<Rightarrow> 0 | Send \<Rightarrow> 1 | SkipRequest \<Rightarrow> 2 | SkipConnection \<Rightarrow> 3 | H2 \<Rightarrow> 4)"

definition LOW_BYTE :: u64 where "LOW_BYTE = 0xFF"
definition READ_SEEN :: u64 where "READ_SEEN = 0x80"

definition entry_new :: "u64 \<Rightarrow> u64" where
  "entry_new born_ns = born_ns AND NOT LOW_BYTE"

definition entry_class :: "u64 \<Rightarrow> ssl_class" where
  "entry_class e =
     (let low = e AND LOW_BYTE
      in if low = 1 \<or> low = 0x81 then Send
         else if low = 2 then SkipRequest
         else if low = 3 then SkipConnection
         else if low = 4 then H2
         else Unknown_Class)"

definition born :: "u64 \<Rightarrow> u64" where
  "born e = e AND NOT LOW_BYTE"

definition is_class :: "u64 \<Rightarrow> ssl_class \<Rightarrow> bool" where
  "is_class e c \<longleftrightarrow> e AND LOW_BYTE = class_word c"

definition with_class :: "u64 \<Rightarrow> ssl_class \<Rightarrow> u64" where
  "with_class e c = born e OR class_word c"

definition skip_connection :: "u64 \<Rightarrow> u64 \<Rightarrow> u64 option" where
  "skip_connection e event_ns = (if born e \<le> event_ns then Some (with_class e SkipConnection) else None)"

section \<open>A GET of a stored Responses object\<close>

text \<open>\<open>GetHead\<close>: the first 32 bytes of a Write as four little-endian words.\<close>

definition word_at :: "u64 list \<Rightarrow> nat \<Rightarrow> u64" where
  "word_at head at =
     (let i = at div 8; shift = (at mod 8) * 8
      in if shift = 0 then head ! i
         else drop_bit shift (head ! i) OR push_bit (64 - shift) (head ! (i + 1)))"

definition responses_at :: "u64 list \<Rightarrow> nat \<Rightarrow> bool" where
  "responses_at head at \<longleftrightarrow>
     word_at head at = le_word (as_bytes ''/respons'') \<and>
     word_at head (at + 8) AND 0xFFFFFF = ucast (le_word (as_bytes ''es/'' @ [0]) :: u32)"

definition requests_response :: "u64 list \<Rightarrow> bool" where
  "requests_response head \<longleftrightarrow>
     responses_at head 4 \<or> responses_at head 7 \<or> responses_at head 11 \<or> responses_at head 14"

section \<open>Moves\<close>

text \<open>
  \<open>after_write\<close>: \<open>head\<close> is the eight bytes, and \<open>gets_response\<close> what the closure returns; the code
  calls it only for a GET, which matters to the probe's cost and not to the result.
\<close>

definition after_write :: "u64 \<Rightarrow> bytes \<Rightarrow> u32 \<Rightarrow> bool \<Rightarrow> u64" where
  "after_write e head len gets_response =
     (let word = (le_word :: bytes \<Rightarrow> u32); lit = (\<lambda>s. word (as_bytes s)) in
      if is_class e SkipConnection \<or> is_class e H2 then e
      else if len < 8 \<or> (head ! 0 = 0x0D \<and> head ! 1 = 0x0A) then
        (if is_class e SkipRequest then with_class e Unknown_Class else e)
      else let w = word [head ! 0, head ! 1, head ! 2, head ! 3] in
        if w = lit ''POST'' \<and> head ! 4 = 0x20 then with_class e Send
        else if w = lit ''PRI '' \<and> word [head ! 4, head ! 5, head ! 6, head ! 7] = lit ''* HT''
          then with_class e H2
        else if w = lit ''HTTP'' \<and> is_class e Unknown_Class \<and>
                head ! 4 = 0x2F \<and> head ! 5 = 0x31 \<and> head ! 6 = 0x2E
          then with_class e SkipConnection
        else if w = lit ''GET '' \<and> gets_response then with_class e Send
        else if (w = lit ''GET '' \<or> w = lit ''PUT '' \<or> w = lit ''HEAD'' \<or> w = lit ''DELE'' \<or>
                 w = lit ''PATC'' \<or> w = lit ''OPTI'' \<or> w = lit ''CONN'') \<and> \<not> is_class e Send
          then with_class e SkipRequest
        else e)"

definition after_read :: "u64 \<Rightarrow> u64" where
  "after_read e = (if is_class e Send then e OR READ_SEEN else e)"

definition class_drops :: "u64 \<Rightarrow> bool" where
  "class_drops e \<longleftrightarrow> is_class e SkipRequest \<or> is_class e SkipConnection"

section \<open>Lemmas\<close>

lemma low_byte_bits: "e AND LOW_BYTE = take_bit 8 e"
  by (simp add: LOW_BYTE_def take_bit_eq_mask mask_eq_exp_minus_1)

lemma class_word_small: "take_bit 8 (class_word c) = class_word c"
  by (cases c) (simp_all add: class_word_def)

lemma take_bit_born [simp]: "take_bit 8 (born e) = 0"
  by (rule bit_word_eqI)
     (auto simp: born_def LOW_BYTE_def bit_take_bit_iff bit_and_iff bit_not_iff
        mask_eq_exp_minus_1 [of 8, simplified, symmetric] bit_mask_iff)

lemma is_with_class [simp]: "is_class (with_class e c) d \<longleftrightarrow> c = d"
  by (cases c; cases d)
     (simp_all add: is_class_def with_class_def low_byte_bits class_word_small take_bit_or class_word_def)

lemma born_with_class [simp]: "born (with_class e c) = born e"
proof -
  have "born x = x AND NOT (mask 8)" for x by (simp add: born_def LOW_BYTE_def mask_eq_exp_minus_1)
  moreover have "class_word c AND NOT (mask 8) = 0"
    by (cases c) (simp_all add: class_word_def mask_eq_exp_minus_1)
  ultimately show ?thesis
    by (simp add: with_class_def bit.conj_disj_distrib2 and.assoc)
qed

lemma is_class_unique: "is_class e c \<Longrightarrow> is_class e d \<longleftrightarrow> c = d"
  by (cases c; cases d) (simp_all add: is_class_def class_word_def)

lemma class_with_class [simp]: "entry_class (with_class e c) = c"
proof -
  have "with_class e c AND LOW_BYTE = class_word c"
    using is_with_class [of e c c] by (simp only: is_class_def)
  then show ?thesis by (cases c) (simp_all add: entry_class_def class_word_def)
qed

lemma is_entry_new [simp]: "is_class (entry_new t) c \<longleftrightarrow> c = Unknown_Class"
proof -
  have "is_class (entry_new t) Unknown_Class"
    using take_bit_born [of t]
    by (simp add: is_class_def entry_new_def class_word_def born_def low_byte_bits)
  from is_class_unique [OF this] show ?thesis by auto
qed

section \<open>Word compares are byte compares\<close>

text \<open>What the probe reads as a \<open>GetHead\<close>: the 32 bytes as aligned words.\<close>

definition get_head :: "bytes \<Rightarrow> u64 list" where
  "get_head bs = map (\<lambda>i. le_word (take 8 (drop (8 * i) bs))) [0, 1, 2, 3]"

lemma get_head_nth: "i < 4 \<Longrightarrow> get_head bs ! i = le_word (take 8 (drop (8 * i) bs))"
  by (auto simp: get_head_def less_Suc_eq numeral_eq_Suc)

lemma bit_get_head:
  assumes "length bs = 32" "i < 4" "n < 64"
  shows "bit (get_head bs ! i) n \<longleftrightarrow> bit (bs ! (8 * i + n div 8)) (n mod 8)"
proof -
  have "n div 8 < 8" using assms(3) by simp
  with assms show ?thesis by (simp add: get_head_nth bit_le_word)
qed

lemma word_at_bytes:
  assumes bs: "length bs = 32" and at: "at + 8 \<le> 32"
  shows "word_at (get_head bs) at = le_word (take 8 (drop at bs))"
proof (rule bit_word_eqI)
  fix n assume "n < LENGTH(64)"
  then have n: "n < 64" by simp
  define i r where "i = at div 8" and "r = at mod 8"
  have at_eq: "at = 8 * i + r" "r < 8" by (simp_all add: i_def r_def)
  have i4: "i < 4" "r > 0 \<Longrightarrow> i + 1 < 4" using at at_eq by linarith+
  have n8: "n div 8 < 8" using n by simp
  have right: "bit (le_word (take 8 (drop at bs)) :: u64) n \<longleftrightarrow> bit (bs ! (at + n div 8)) (n mod 8)"
    using n n8 at bs by (simp add: bit_le_word)
  have low: "(n + r * 8) div 8 = n div 8 + r" "(n + r * 8) mod 8 = n mod 8" by simp_all
  show "bit (word_at (get_head bs) at) n = bit (le_word (take 8 (drop at bs)) :: u64) n"
  proof (cases "r = 0")
    case True
    then show ?thesis
      using right n bs i4(1) at_eq bit_get_head [of bs i n]
      by (simp add: word_at_def i_def [symmetric] r_def [symmetric] Let_def)
  next
    case False
    have split: "bit (word_at (get_head bs) at) n \<longleftrightarrow>
        bit (get_head bs ! i) (n + r * 8) \<or> 64 - r * 8 \<le> n \<and> bit (get_head bs ! (i + 1)) (n - (64 - r * 8))"
      using False n
      by (simp add: word_at_def i_def [symmetric] r_def [symmetric] Let_def bit_or_iff bit_drop_bit_eq
          bit_push_bit_iff add.commute)
    show ?thesis
    proof (cases "n + r * 8 < 64")
      case True
      then have "\<not> 64 - r * 8 \<le> n" using at_eq(2) by linarith
      then show ?thesis
        using split right bit_get_head [OF bs i4(1) True] low at_eq by (simp add: algebra_simps)
    next
      case over: False
      have "\<not> bit (get_head bs ! i) (n + r * 8)"
        using over bit_imp_le_length [of "get_head bs ! i" "n + r * 8"] by auto
      moreover have "bit (get_head bs ! (i + 1)) (n - (64 - r * 8)) \<longleftrightarrow>
          bit (bs ! (at + n div 8)) (n mod 8)"
      proof -
        have m: "n - (64 - r * 8) < 64" "n = (n - (64 - r * 8)) + 8 * (8 - r)"
          using n over at_eq(2) by linarith+
        define k where "k = n - (64 - r * 8)"
        have "n div 8 = k div 8 + (8 - r)" "n mod 8 = k mod 8" using m(2) by (simp_all add: k_def [symmetric])
        moreover have "8 * (i + 1) + k div 8 = at + (k div 8 + (8 - r))" using at_eq by simp
        ultimately show ?thesis
          using bit_get_head [OF bs i4(2) m(1)] False by (simp only: k_def [symmetric] add.assoc add.commute add.left_commute)
      qed
      moreover have "64 - r * 8 \<le> n" using over by simp
      ultimately show ?thesis using split right by simp
    qed
  qed
qed

lemma responses_at_bytes:
  assumes bs: "length bs = 32" and at: "at + 16 \<le> 32"
  shows "responses_at (get_head bs) at \<longleftrightarrow> take 11 (drop at bs) = as_bytes ''/responses/''"
proof -
  let ?lit = "as_bytes ''/responses/''"
  have first: "(le_word (take 8 (drop at bs)) :: u64) = le_word (as_bytes ''/respons'') \<longleftrightarrow>
      take 8 (drop at bs) = as_bytes ''/respons''"
    using bs at by (intro le_word_inject) (simp_all add: as_bytes_def)
  have low: "(le_word (take 8 xs) :: u64) AND 0xFFFFFF = le_word (take 3 xs)" if "8 \<le> length xs" for xs
  proof (rule bit_word_eqI)
    fix n assume "n < LENGTH(64)"
    have "(0xFFFFFF :: u64) = mask 24" by (simp add: mask_eq_exp_minus_1)
    then have "bit ((le_word (take 8 xs) :: u64) AND 0xFFFFFF) n \<longleftrightarrow>
        n < 24 \<and> bit (le_word (take 8 xs) :: u64) n"
      by (simp only: bit_and_iff bit_mask_iff) auto
    moreover have "n div 8 < 3 \<longleftrightarrow> n < 24" by auto
    ultimately show "bit ((le_word (take 8 xs) :: u64) AND 0xFFFFFF) n =
        bit (le_word (take 3 xs) :: u64) n"
      using that by (auto simp: bit_le_word)
  qed
  have rest_lit: "ucast (le_word (as_bytes ''es/'' @ [0]) :: u32) = (le_word (as_bytes ''es/'') :: u64)"
    by (simp add: as_bytes_def)
  have rest: "(le_word (take 3 (drop (at + 8) bs)) :: u64) = le_word (as_bytes ''es/'') \<longleftrightarrow>
      take 3 (drop (at + 8) bs) = as_bytes ''es/''"
    using bs at by (intro le_word_inject) (simp_all add: as_bytes_def)
  have "take 11 (drop at bs) = take 8 (drop at bs) @ take 3 (drop (at + 8) bs)"
    using take_add [of 8 3 "drop at bs"] by (simp add: add.commute)
  moreover have "?lit = as_bytes ''/respons'' @ as_bytes ''es/''" by (simp add: as_bytes_def)
  ultimately have "take 11 (drop at bs) = ?lit \<longleftrightarrow>
      take 8 (drop at bs) = as_bytes ''/respons'' \<and> take 3 (drop (at + 8) bs) = as_bytes ''es/''"
    using bs at by (simp only:) (rule append_eq_append_conv, simp add: as_bytes_def)
  then show ?thesis
    using bs at
    by (simp add: responses_at_def word_at_bytes [OF bs] rest_lit first rest low)
qed

text \<open>The method compares of \<open>after_write\<close> on the head's bytes.\<close>

definition begins :: "bytes \<Rightarrow> str \<Rightarrow> bool" where
  "begins head s \<longleftrightarrow> take (length s) head = as_bytes s"

definition after_write_spec :: "u64 \<Rightarrow> bytes \<Rightarrow> u32 \<Rightarrow> bool \<Rightarrow> u64" where
  "after_write_spec e head len gets_response =
     (if is_class e SkipConnection \<or> is_class e H2 then e
      else if len < 8 \<or> take 2 head = [0x0D, 0x0A] then
        (if is_class e SkipRequest then with_class e Unknown_Class else e)
      else if begins head ''POST '' then with_class e Send
      else if begins head ''PRI * HT'' then with_class e H2
      else if begins head ''HTTP/1.'' \<and> is_class e Unknown_Class then with_class e SkipConnection
      else if begins head ''GET '' \<and> gets_response then with_class e Send
      else if (begins head ''GET '' \<or> begins head ''PUT '' \<or> begins head ''HEAD'' \<or>
               begins head ''DELE'' \<or> begins head ''PATC'' \<or> begins head ''OPTI'' \<or>
               begins head ''CONN'') \<and> \<not> is_class e Send
        then with_class e SkipRequest
      else e)"

lemma after_write_eq_spec:
  assumes "length head = 8"
  shows "after_write e head len g = after_write_spec e head len g"
proof -
  obtain a b c d i j k l where head: "head = [a, b, c, d, i, j, k, l]"
    using assms by (auto simp: length_Suc_conv numeral_eq_Suc)
  have word: "(le_word [x1, x2, x3, x4] :: u32) = le_word (as_bytes s) \<longleftrightarrow> [x1, x2, x3, x4] = as_bytes s"
    if "length s = 4" for x1 x2 x3 x4 s
    using that by (intro le_word_inject) (simp_all add: as_bytes_def)
  have lit: "length ''POST'' = 4" "length ''PRI '' = 4" "length ''* HT'' = 4" "length ''HTTP'' = 4"
    "length ''GET '' = 4" "length ''PUT '' = 4" "length ''HEAD'' = 4" "length ''DELE'' = 4"
    "length ''PATC'' = 4" "length ''OPTI'' = 4" "length ''CONN'' = 4" by simp_all
  have b: "begins head ''POST '' \<longleftrightarrow> [a, b, c, d] = as_bytes ''POST'' \<and> i = 0x20"
    "begins head ''PRI * HT'' \<longleftrightarrow> [a, b, c, d] = as_bytes ''PRI '' \<and> [i, j, k, l] = as_bytes ''* HT''"
    "begins head ''HTTP/1.'' \<longleftrightarrow> [a, b, c, d] = as_bytes ''HTTP'' \<and> i = 0x2F \<and> j = 0x31 \<and> k = 0x2E"
    by (auto simp: begins_def head as_bytes_def)
  have b4: "begins head s \<longleftrightarrow> [a, b, c, d] = as_bytes s" if "length s = 4" for s
    using that by (simp add: begins_def head)
  have nths: "head ! 0 = a" "head ! 1 = b" "head ! 2 = c" "head ! 3 = d" "head ! 4 = i"
    "head ! 5 = j" "head ! 6 = k" "head ! 7 = l" "take 2 head = [0x0D, 0x0A] \<longleftrightarrow> a = 0x0D \<and> b = 0x0A"
    by (auto simp: head)
  show ?thesis
    unfolding after_write_def after_write_spec_def Let_def nths b b4 [OF lit(5)] b4 [OF lit(6)]
      b4 [OF lit(7)] b4 [OF lit(8)] b4 [OF lit(9)] b4 [OF lit(10)] b4 [OF lit(11)]
      word [OF lit(1)] word [OF lit(2)] word [OF lit(3)] word [OF lit(4)] word [OF lit(5)]
      word [OF lit(6)] word [OF lit(7)] word [OF lit(8)] word [OF lit(9)] word [OF lit(10)] word [OF lit(11)]
    by (simp only: conj_assoc conj_commute)
qed

section \<open>Exchanges\<close>

text \<open>The calls of one connection in order, and its entry after each.\<close>

datatype conn_call = WriteCall bytes u32 bool | ReadCall

fun class_step :: "u64 \<Rightarrow> conn_call \<Rightarrow> u64" where
  "class_step e (WriteCall head len g) = after_write e head len g"
| "class_step e ReadCall = after_read e"

primrec class_trace :: "u64 \<Rightarrow> conn_call list \<Rightarrow> u64 list" where
  "class_trace e [] = []"
| "class_trace e (c # cs) = class_step e c # class_trace (class_step e c) cs"

lemma class_trace_append:
  "class_trace e (xs @ ys) = class_trace e xs @ class_trace (foldl class_step e xs) ys"
  by (induction xs arbitrary: e) simp_all

text \<open>A sent request stays sent: no Write moves it to a class that drops, and a Read marks it read.\<close>

definition unread_request :: "u64 \<Rightarrow> bool" where
  "unread_request e \<longleftrightarrow> is_class e Send \<or> is_class e H2"

definition being_read :: "u64 \<Rightarrow> bool" where
  "being_read e \<longleftrightarrow> is_class e Send \<or> e AND LOW_BYTE = 0x81 \<or> is_class e H2"

lemma unread_after_write:
  assumes "unread_request e"
  shows "unread_request (after_write e head len g)"
proof -
  from assms consider "is_class e Send" | "is_class e H2" by (auto simp: unread_request_def)
  then show ?thesis
  proof cases
    case 1
    then have "\<not> is_class e SkipConnection" "\<not> is_class e H2" "\<not> is_class e SkipRequest"
      "\<not> is_class e Unknown_Class" by (simp_all add: is_class_unique)
    then show ?thesis using 1 by (simp add: after_write_def Let_def unread_request_def)
  next
    case 2
    then show ?thesis by (simp add: after_write_def unread_request_def)
  qed
qed

lemma being_read_after_read: "being_read e \<Longrightarrow> being_read (after_read e)"
proof -
  have "(e OR READ_SEEN) AND LOW_BYTE = 0x81" if "is_class e Send"
    using that by (simp add: is_class_def class_word_def READ_SEEN_def LOW_BYTE_def bit.conj_disj_distrib2)
  then show "being_read e \<Longrightarrow> being_read (after_read e)"
    by (auto simp: being_read_def after_read_def)
qed

lemma unread_being_read: "unread_request e \<Longrightarrow> being_read e"
  by (auto simp: unread_request_def being_read_def)

lemma being_read_sent: "being_read e \<Longrightarrow> \<not> class_drops e"
  by (auto simp: being_read_def class_drops_def is_class_def class_word_def)

lemma writes_sent:
  "unread_request e \<Longrightarrow>
     list_all (\<lambda>e. \<not> class_drops e) (class_trace e (map (\<lambda>(h, l, g). WriteCall h l g) ws)) \<and>
     unread_request (foldl class_step e (map (\<lambda>(h, l, g). WriteCall h l g) ws))"
proof (induction ws arbitrary: e)
  case (Cons w ws)
  obtain h l g where w: "w = (h, l, g)" by (rule prod_cases3)
  have "unread_request (after_write e h l g)" using Cons.prems by (rule unread_after_write)
  with Cons.IH [OF this] show ?case by (simp add: w unread_being_read being_read_sent)
qed simp

lemma reads_sent: "being_read e \<Longrightarrow> list_all (\<lambda>e. \<not> class_drops e) (class_trace e (replicate n ReadCall))"
proof (induction n arbitrary: e)
  case (Suc n)
  have "being_read (after_read e)" using Suc.prems by (rule being_read_after_read)
  with Suc.IH [OF this] show ?case by (simp add: being_read_sent)
qed simp



text \<open>the word compares of the kernel filter are the byte compares they stand for: a Write is
  classed by its head's bytes as \<open>after_write_spec\<close> says, and a GET asks for a stored Responses
  object exactly when \<open>/responses/\<close> stands at one of the four offsets of its first 32 bytes.\<close>

lemma class_compares_bytes:
  assumes "length head = 8" "length bs = 32"
  shows "after_write e head len g = after_write_spec e head len g \<and>
    (requests_response (get_head bs) \<longleftrightarrow>
       (\<exists>at \<in> {4, 7, 11, 14}. take 11 (drop at bs) = as_bytes ''/responses/''))"
  using after_write_eq_spec [OF assms(1)] assms(2) by (simp add: requests_response_def responses_at_bytes)

lemma class_compares_bytes_witness:
  "after_write (entry_new 0) (as_bytes ''DELETE /'') 8 False = with_class (entry_new 0) SkipRequest \<and>
   requests_response (get_head (as_bytes ''GET /v1/responses/resp_bg1 HTTP/''))"
  using class_compares_bytes [of "as_bytes ''DELETE /''" "as_bytes ''GET /v1/responses/resp_bg1 HTTP/''"
      "entry_new 0" 8 False]
  by (simp add: after_write_spec_def begins_def as_bytes_def)

text \<open>a host verdict from the agent, which lags the kernel, never skips a later connection that
  reuses the SSL* address: it replaces an entry only when the entry is no newer than the event, keeps
  the entry's creation time, and from then on no call of the connection is sent.\<close>

lemma host_verdict_hits_its_connection:
  "case skip_connection e event_ns of
     None \<Rightarrow> event_ns < born e
   | Some e' \<Rightarrow> born e \<le> event_ns \<and> born e' = born e \<and> entry_class e' = SkipConnection \<and>
       list_all class_drops (class_trace e' calls) \<and> foldl class_step e' calls = e'"
proof -
  have skip: "class_step x c = x" if "is_class x SkipConnection" for x c
    using that by (cases c) (auto simp: after_write_def after_read_def Let_def is_class_unique)
  have "list_all class_drops (class_trace x calls) \<and> foldl class_step x calls = x"
    if "is_class x SkipConnection" for x
    using that by (induction calls) (simp_all add: skip class_drops_def)
  then show ?thesis by (simp add: skip_connection_def not_le split: if_split)
qed

end
