(* ===== verification/Ssl_Probe.thy ===== *)
theory Ssl_Probe
  imports Ssl_Class
begin

text \<open>
  The kernel's SSL probes (honeybeepf-llm-ebpf/src/probes/builtin/llm/: mod.rs, filter.rs,
  helpers.rs, maps.rs), as steps on the state of their maps, counters and ring buffer.

  What the kernel answers a program is a parameter, the record \<open>task_env\<close>: the current task, the
  clock, the task's readable memory, whether a map update succeeds (a full hash map refuses it) and
  whether the ring has room for a record. Atomicity is the kernel's: a program runs to its end on one
  CPU, and the per-CPU counters are their sum. \<open>k_ring\<close> is every record submitted so far, in order;
  how many of them the agent has drained is part of what \<open>e_room\<close> answers. \<open>keep_task_stack\<close> has
  no effect.
\<close>

section \<open>State\<close>

datatype bpf_map = START_NS | BUFS | READBYTES_PTRS | SSL_CLASS

type_synonym ring = "(event_header \<times> bytes) list"

record task_env =
  e_pid_tgid :: u64
  e_now :: u64
  e_cgroup :: u64
  e_comm :: "bytes option"
  e_mem :: "u64 \<Rightarrow> u8 option"
  e_stores :: "bpf_map \<Rightarrow> bool"
  e_room :: "ring \<Rightarrow> nat \<Rightarrow> bool"

record kernel =
  k_start :: "u32 \<rightharpoonup> u64"
  k_bufs :: "u32 \<rightharpoonup> u64 \<times> u64"
  k_lens :: "u32 \<rightharpoonup> u64"
  k_class :: "u64 \<times> u64 \<rightharpoonup> u64"
  k_stats :: "llm_stat \<Rightarrow> u64"
  k_ring :: ring

text \<open>\<open>bpf_probe_read_user\<close> of \<open>n\<close> bytes: an error when any of them faults.\<close>

primrec read_user :: "(u64 \<Rightarrow> u8 option) \<Rightarrow> u64 \<Rightarrow> nat \<Rightarrow> bytes option" where
  "read_user mem addr 0 = Some []"
| "read_user mem addr (Suc n) =
     (case mem addr of
        None \<Rightarrow> None
      | Some b \<Rightarrow> map_option ((#) b) (read_user mem (addr + 1) n))"

definition kernel_new :: kernel where
  "kernel_new = \<lparr>k_start = Map.empty, k_bufs = Map.empty, k_lens = Map.empty,
     k_class = Map.empty, k_stats = (\<lambda>_. 0), k_ring = []\<rparr>"

definition count_stat :: "llm_stat \<Rightarrow> kernel \<Rightarrow> kernel" where
  "count_stat s k = k\<lparr>k_stats := (k_stats k)(s := k_stats k s + 1)\<rparr>"

section \<open>Sessions\<close>

definition current_tid :: "task_env \<Rightarrow> u32" where
  "current_tid env = ucast (e_pid_tgid env)"

definition session_start :: "task_env \<Rightarrow> u32 \<Rightarrow> u64 \<Rightarrow> u64 \<Rightarrow> u64 option \<Rightarrow> kernel \<Rightarrow> kernel" where
  "session_start env tid ssl buf len_ptr k =
     (let put = (\<lambda>m f v. if e_stores env m then f(tid \<mapsto> v) else f);
          put2 = (\<lambda>f v. if e_stores env BUFS then f(tid \<mapsto> v) else f)
      in k\<lparr>k_start := put START_NS (k_start k) (e_now env),
           k_bufs := put2 (k_bufs k) (buf, ssl),
           k_lens := (case len_ptr of None \<Rightarrow> k_lens k | Some lp \<Rightarrow> put READBYTES_PTRS (k_lens k) lp)\<rparr>)"

definition session_info :: "u32 \<Rightarrow> kernel \<Rightarrow> u64 \<times> u64 \<times> u64 \<times> u64 option" where
  "session_info tid k =
     (let ts = (case k_start k tid of None \<Rightarrow> 0 | Some t \<Rightarrow> t);
          (buf, ssl) = (case k_bufs k tid of None \<Rightarrow> (0, 0) | Some p \<Rightarrow> p)
      in (ts, buf, ssl, k_lens k tid))"

definition session_clear :: "u32 \<Rightarrow> kernel \<Rightarrow> kernel" where
  "session_clear tid k =
     k\<lparr>k_start := (k_start k)(tid := None), k_bufs := (k_bufs k)(tid := None),
       k_lens := (k_lens k)(tid := None)\<rparr>"

section \<open>Calls\<close>

record ssl_call =
  c_metadata :: event_metadata
  c_latency :: u64
  c_comm :: bytes
  c_buf :: u64
  c_ssl :: u64
  c_len :: u32
  c_closed :: u8

definition current_metadata :: "task_env \<Rightarrow> event_metadata" where
  "current_metadata env =
     \<lparr>m_pid = ucast (drop_bit 32 (e_pid_tgid env)), m_pad = ucast (e_pid_tgid env),
      m_cgroup = e_cgroup env, m_timestamp = e_now env\<rparr>"

definition call_free :: "task_env \<Rightarrow> u64 \<Rightarrow> ssl_call" where
  "call_free env ssl =
     \<lparr>c_metadata = current_metadata env, c_latency = 0, c_comm = replicate 16 0, c_buf = 0,
      c_ssl = ssl, c_len = 0, c_closed = 1\<rparr>"

text \<open>\<open>SslCall::capture\<close>: \<open>ret\<close> is the probed function's return value as the C \<open>int\<close> it is.\<close>

definition call_capture :: "task_env \<Rightarrow> u32 option \<Rightarrow> bool \<Rightarrow> kernel \<Rightarrow> ssl_call option" where
  "call_capture env ret is_handshake k =
     (let (start_ts, buf, ssl, len_ptr) = session_info (current_tid env) k;
          metadata = current_metadata env;
          latency = (if start_ts > 0 then m_timestamp metadata - start_ts else 0);
          call = (\<lambda>len. \<lparr>c_metadata = metadata, c_latency = latency,
                    c_comm = (case e_comm env of None \<Rightarrow> replicate 16 0 | Some c \<Rightarrow> c),
                    c_buf = buf, c_ssl = ssl, c_len = len, c_closed = 0\<rparr>)
      in case ret of
           None \<Rightarrow> None
         | Some r \<Rightarrow>
             (if sint r \<le> 0 then None
              else if buf = 0 \<and> \<not> is_handshake then None
              else case len_ptr of
                     None \<Rightarrow> Some (call r)
                   | Some lp \<Rightarrow>
                       (case read_user (e_mem env) lp 8 of
                          None \<Rightarrow> None
                        | Some b \<Rightarrow> Some (call (ucast (le_word b :: u64))))))"

section \<open>The filter\<close>

definition gets_response :: "task_env \<Rightarrow> ssl_call \<Rightarrow> bool" where
  "gets_response env call =
     (if unat (c_len call) < 32 then False
      else case read_user (e_mem env) (c_buf call) 32 of
             None \<Rightarrow> False
           | Some b \<Rightarrow> requests_response (get_head b))"

definition call_head :: "task_env \<Rightarrow> ssl_call \<Rightarrow> bytes" where
  "call_head env call =
     (if c_len call \<ge> 8
      then (case read_user (e_mem env) (c_buf call) 8 of None \<Rightarrow> replicate 8 0 | Some b \<Rightarrow> b)
      else replicate 8 0)"

definition class_key :: "ssl_call \<Rightarrow> u64 \<times> u64" where
  "class_key call = (ucast (m_pid (c_metadata call)), c_ssl call)"

definition call_entry :: "ssl_call \<Rightarrow> kernel \<Rightarrow> u64" where
  "call_entry call k =
     (case k_class k (class_key call) of
        None \<Rightarrow> entry_new (m_timestamp (c_metadata call)) | Some v \<Rightarrow> v)"

definition filter_drops :: "task_env \<Rightarrow> ssl_call \<Rightarrow> u8 \<Rightarrow> kernel \<Rightarrow> kernel \<times> bool" where
  "filter_drops env call rw k =
     (let e = call_entry call k;
          new = (if rw = dir_u8 Write
                 then after_write e (call_head env call) (c_len call) (gets_response env call)
                 else after_read e);
          k = (if new \<noteq> e \<and> e_stores env SSL_CLASS
               then k\<lparr>k_class := (k_class k)(class_key call \<mapsto> new)\<rparr> else k)
      in (k, class_drops new))"

definition filter_forget :: "task_env \<Rightarrow> u64 \<Rightarrow> kernel \<Rightarrow> kernel" where
  "filter_forget env ssl k =
     k\<lparr>k_class := (k_class k)((drop_bit 32 (e_pid_tgid env), ssl) := None)\<rparr>"

section \<open>Fragments\<close>

definition BUCKET_SMALL :: nat where "BUCKET_SMALL = 512"
definition BUCKET_MED :: nat where "BUCKET_MED = 2048"

definition fill_header :: "ssl_call \<Rightarrow> u8 \<Rightarrow> bool \<Rightarrow> u8 \<Rightarrow> u32 \<Rightarrow> u32 \<Rightarrow> event_header" where
  "fill_header call rw is_handshake truncated offset filled =
     \<lparr>h_metadata = c_metadata call, h_ssl = c_ssl call, h_latency = c_latency call,
      h_len = c_len call, h_buf_filled = filled, h_offset = offset,
      h_handshake = (if is_handshake then 1 else 0), h_rw = rw, h_truncated = truncated,
      h_closed = c_closed call, h_comm = c_comm call\<rparr>"

datatype emitted = Payload_Sent | Empty_Sent | NoRoom | ReadFail

definition submit :: "event_header \<Rightarrow> bytes \<Rightarrow> kernel \<Rightarrow> kernel" where
  "submit h payload k = k\<lparr>k_ring := k_ring k @ [(h, payload)]\<rparr>"

text \<open>\<open>emit_bucket::<N>\<close>: the record holds the header and \<open>N\<close> bytes, of which \<open>n\<close> are written.\<close>

definition emit_bucket ::
  "nat \<Rightarrow> task_env \<Rightarrow> ssl_call \<Rightarrow> u8 \<Rightarrow> bool \<Rightarrow> u8 \<Rightarrow> u32 \<Rightarrow> nat \<Rightarrow> kernel \<Rightarrow> kernel \<times> emitted" where
  "emit_bucket N env call rw is_handshake truncated offset to_read k =
     (if \<not> e_room env (k_ring k) (72 + N) then (k, NoRoom)
      else if N = 0 \<or> c_buf call = 0
        then (submit (fill_header call rw is_handshake truncated offset 0) [] k, Empty_Sent)
      else let n = min to_read N in
           case read_user (e_mem env) (c_buf call + ucast offset) n of
             None \<Rightarrow> (k, ReadFail)
           | Some b \<Rightarrow> (submit (fill_header call rw is_handshake truncated offset 1) b k, Payload_Sent))"

definition fragment_bytes :: "ssl_call \<Rightarrow> u32 \<Rightarrow> nat" where
  "fragment_bytes call offset =
     (if c_buf call > 0 then min (unat (c_len call) - unat offset) MAX_SSL_BUF_SIZE else 0)"

definition emit_one ::
  "task_env \<Rightarrow> ssl_call \<Rightarrow> u8 \<Rightarrow> bool \<Rightarrow> u8 \<Rightarrow> u32 \<Rightarrow> kernel \<Rightarrow> kernel \<times> emitted" where
  "emit_one env call rw is_handshake truncated offset k =
     (let to_read = fragment_bytes call offset in
      if to_read = 0 then emit_bucket 0 env call rw is_handshake truncated offset 0 k
      else if to_read \<le> BUCKET_SMALL
        then emit_bucket BUCKET_SMALL env call rw is_handshake truncated offset to_read k
      else if to_read \<le> BUCKET_MED
        then emit_bucket BUCKET_MED env call rw is_handshake truncated offset to_read k
      else emit_bucket MAX_SSL_BUF_SIZE env call rw is_handshake truncated offset to_read k)"

definition tail_lost :: "ssl_call \<Rightarrow> nat \<Rightarrow> nat \<Rightarrow> kernel \<Rightarrow> kernel" where
  "tail_lost call limit i k =
     (if i > 0 \<and> unat (c_len call) \<le> limit then count_stat Stat_Truncated k else k)"

text \<open>The loop of \<open>emit_fragments\<close> over the indexes still to send.\<close>

fun emit_loop ::
  "task_env \<Rightarrow> ssl_call \<Rightarrow> u8 \<Rightarrow> bool \<Rightarrow> u8 \<Rightarrow> nat \<Rightarrow> nat list \<Rightarrow> kernel \<Rightarrow> kernel" where
  "emit_loop env call rw is_handshake truncated limit [] k = k"
| "emit_loop env call rw is_handshake truncated limit (i # rest) k =
     (let offset = i * MAX_SSL_BUF_SIZE in
      if i > 0 \<and> (offset \<ge> unat (c_len call) \<or> offset \<ge> limit) then k
      else case emit_one env call rw is_handshake truncated (of_nat offset) k of
             (k, NoRoom) \<Rightarrow>
               tail_lost call limit i (if i = 0 then count_stat Stat_Reserve_Fail k else k)
           | (k, ReadFail) \<Rightarrow>
               tail_lost call limit i (if i = 0 then count_stat Stat_Discard k else k)
           | (k, outcome) \<Rightarrow>
               (let k = (if i > 0 then count_stat Stat_Fragment k
                         else if is_handshake then count_stat Stat_Handshake k
                         else if outcome = Empty_Sent then count_stat Stat_Empty k
                         else if truncated \<noteq> 0 then count_stat Stat_Truncated k
                         else k)
                in emit_loop env call rw is_handshake truncated limit rest (count_stat Stat_Submit k)))"

definition emit_fragments :: "task_env \<Rightarrow> ssl_call \<Rightarrow> u8 \<Rightarrow> bool \<Rightarrow> kernel \<Rightarrow> kernel" where
  "emit_fragments env call rw is_handshake k =
     (let limit = capture_limit (dir_from rw);
          truncated = (if unat (c_len call) > limit then 1 else 0)
      in emit_loop env call rw is_handshake truncated limit [0..<MAX_SSL_FRAGMENTS] k)"

section \<open>Probes\<close>

definition emit_llm_event :: "task_env \<Rightarrow> u32 option \<Rightarrow> u8 \<Rightarrow> bool \<Rightarrow> kernel \<Rightarrow> kernel" where
  "emit_llm_event env ret rw is_handshake k =
     session_clear (current_tid env)
       (case call_capture env ret is_handshake k of
          None \<Rightarrow> count_stat Stat_Discard k
        | Some call \<Rightarrow>
            (if is_handshake then emit_fragments env call rw is_handshake k
             else case filter_drops env call rw k of
                    (k, True) \<Rightarrow> count_stat Stat_Filtered k
                  | (k, False) \<Rightarrow> emit_fragments env call rw is_handshake k))"

text \<open>\<open>arg i\<close> is the probed function's i-th argument, zero where the code's \<open>unwrap_or(0)\<close> makes it so.\<close>

definition probe_ssl_rw_enter :: "task_env \<Rightarrow> u64 \<Rightarrow> u64 \<Rightarrow> kernel \<Rightarrow> kernel" where
  "probe_ssl_rw_enter env ssl buf k =
     session_start env (current_tid env) ssl buf None (count_stat Stat_Enter k)"

definition probe_ssl_rw_ex_enter :: "task_env \<Rightarrow> u64 \<Rightarrow> u64 \<Rightarrow> u64 \<Rightarrow> kernel \<Rightarrow> kernel" where
  "probe_ssl_rw_ex_enter env ssl buf len_ptr k =
     session_start env (current_tid env) ssl buf (Some len_ptr) (count_stat Stat_Enter k)"

definition probe_ssl_read_exit :: "task_env \<Rightarrow> u32 option \<Rightarrow> kernel \<Rightarrow> kernel" where
  "probe_ssl_read_exit env ret k = emit_llm_event env ret (dir_u8 Read) False k"

definition probe_ssl_write_exit :: "task_env \<Rightarrow> u32 option \<Rightarrow> kernel \<Rightarrow> kernel" where
  "probe_ssl_write_exit env ret k = emit_llm_event env ret (dir_u8 Write) False k"

definition probe_ssl_do_handshake_enter :: "task_env \<Rightarrow> u64 \<Rightarrow> kernel \<Rightarrow> kernel" where
  "probe_ssl_do_handshake_enter env ssl k =
     session_start env (current_tid env) ssl 0 None (filter_forget env ssl (count_stat Stat_Enter k))"

definition probe_ssl_do_handshake_exit :: "task_env \<Rightarrow> u32 option \<Rightarrow> kernel \<Rightarrow> kernel" where
  "probe_ssl_do_handshake_exit env ret k = emit_llm_event env ret (dir_u8 Handshake) True k"

definition probe_ssl_free :: "task_env \<Rightarrow> u64 option \<Rightarrow> kernel \<Rightarrow> kernel" where
  "probe_ssl_free env arg k =
     (let k = count_stat Stat_Enter k in
      case arg of
        None \<Rightarrow> count_stat Stat_Discard k
      | Some ssl \<Rightarrow>
          (if ssl \<noteq> 0
           then emit_fragments env (call_free env ssl) (dir_u8 Unknown_Dir) False (filter_forget env ssl k)
           else count_stat Stat_Discard k))"

definition probe_ssl_task_exit :: "task_env \<Rightarrow> kernel \<Rightarrow> kernel" where
  "probe_ssl_task_exit env k = session_clear (current_tid env) k"

end
