(* ===== verification/Ssl_Probe_Props.thy ===== *)
theory Ssl_Probe_Props
  imports Ssl_Probe
begin

text \<open>
  What the SSL probes guarantee: their counters and records agree, every probed call ends in exactly
  one counted way, a call's records are its bytes cut in order with only a tail ever missing, and what
  a connection that reuses an address inherits.
\<close>

section \<open>Records\<close>

lemma read_user_length: "read_user mem addr n = Some b \<Longrightarrow> length b = n"
  by (induction n arbitrary: addr b) (auto split: option.splits)

definition frag_off :: "nat \<Rightarrow> u32" where
  "frag_off i = of_nat (i * MAX_SSL_BUF_SIZE)"

text \<open>The record the \<open>i\<close>-th fragment of a call is sent in.\<close>

definition fragment_payload :: "task_env \<Rightarrow> ssl_call \<Rightarrow> nat \<Rightarrow> bytes option" where
  "fragment_payload env call i =
     (let offset = frag_off i
      in read_user (e_mem env) (c_buf call + ucast offset) (fragment_bytes call offset))"

definition fragment_record :: "task_env \<Rightarrow> ssl_call \<Rightarrow> u8 \<Rightarrow> bool \<Rightarrow> u8 \<Rightarrow> nat \<Rightarrow> event_header \<times> bytes" where
  "fragment_record env call rw is_handshake truncated i =
     (let offset = frag_off i
      in (fill_header call rw is_handshake truncated offset (if fragment_bytes call offset = 0 then 0 else 1),
          the (fragment_payload env call i)))"

definition bucket :: "nat \<Rightarrow> nat" where
  "bucket n = (if n = 0 then 0 else if n \<le> BUCKET_SMALL then BUCKET_SMALL
               else if n \<le> BUCKET_MED then BUCKET_MED else MAX_SSL_BUF_SIZE)"

lemma fragment_bytes_le: "fragment_bytes call offset \<le> MAX_SSL_BUF_SIZE"
  by (simp add: fragment_bytes_def)

lemma le_bucket: "n \<le> MAX_SSL_BUF_SIZE \<Longrightarrow> n \<le> bucket n"
  by (simp add: bucket_def)

lemma emit_one_cases:
  fixes i :: nat
  defines "offset \<equiv> frag_off i"
  shows "emit_one env call rw hs tr offset k =
    (if \<not> e_room env (k_ring k) (72 + bucket (fragment_bytes call offset)) then (k, NoRoom)
     else if fragment_payload env call i = None then (k, ReadFail)
     else (k\<lparr>k_ring := k_ring k @ [fragment_record env call rw hs tr i]\<rparr>,
           if fragment_bytes call offset = 0 then Empty_Sent else Payload_Sent))"
proof (cases "fragment_bytes call offset = 0")
  case True
  then show ?thesis
    by (simp add: emit_one_def emit_bucket_def bucket_def fragment_payload_def fragment_record_def
        submit_def Let_def offset_def)
next
  case False
  let ?n = "fragment_bytes call offset"
  have n: "?n \<le> bucket ?n" "bucket ?n \<noteq> 0" "c_buf call \<noteq> 0"
    using False le_bucket [OF fragment_bytes_le, of call offset]
    by (auto simp: bucket_def fragment_bytes_def BUCKET_SMALL_def BUCKET_MED_def MAX_SSL_BUF_SIZE_def)
  have "emit_one env call rw hs tr offset k = emit_bucket (bucket ?n) env call rw hs tr offset ?n k"
    using False by (simp add: emit_one_def bucket_def Let_def)
  then show ?thesis
    using n False
    by (auto simp: emit_bucket_def min_absorb1 fragment_payload_def fragment_record_def submit_def
        Let_def offset_def split: option.splits)
qed

lemma fragment_record_len:
  assumes "fragment_payload env call i \<noteq> None"
  shows "length (snd (fragment_record env call rw hs tr i)) = payload_len (fst (fragment_record env call rw hs tr i))"
proof -
  obtain b where b: "fragment_payload env call i = Some b" using assms by blast
  then have "length b = fragment_bytes call (frag_off i)"
    by (auto simp: fragment_payload_def Let_def dest: read_user_length)
  then show ?thesis
    using b by (auto simp: fragment_record_def payload_len_def fill_header_def fragment_bytes_def Let_def
        min_def split: if_splits)
qed

section \<open>The counters and the ring\<close>

definition records_where :: "(event_header \<Rightarrow> bool) \<Rightarrow> ring \<Rightarrow> u64" where
  "records_where P ring = of_nat (length (filter (P \<circ> fst) ring))"

lemma records_where_append [simp]:
  "records_where P (xs @ ys) = records_where P xs + records_where P ys"
  by (simp add: records_where_def)

lemma records_where_Nil [simp]: "records_where P [] = 0"
  by (simp add: records_where_def)

lemma records_where_one [simp]: "records_where P [r] = (if P (fst r) then 1 else 0)"
  by (simp add: records_where_def)

definition kernel_inv :: "kernel \<Rightarrow> bool" where
  "kernel_inv k \<longleftrightarrow>
     list_all (\<lambda>(h, payload). length payload = payload_len h) (k_ring k) \<and>
     k_stats k Stat_Submit = of_nat (length (k_ring k)) \<and>
     k_stats k Stat_Fragment = records_where (\<lambda>h. h_offset h \<noteq> 0) (k_ring k) \<and>
     k_stats k Stat_Handshake = records_where (\<lambda>h. h_offset h = 0 \<and> h_handshake h \<noteq> 0) (k_ring k) \<and>
     k_stats k Stat_Empty =
       records_where (\<lambda>h. h_offset h = 0 \<and> h_handshake h = 0 \<and> h_buf_filled h = 0) (k_ring k)"

lemma count_stat_simps [simp]:
  "k_ring (count_stat s k) = k_ring k"
  "k_class (count_stat s k) = k_class k"
  "k_bufs (count_stat s k) = k_bufs k"
  "k_start (count_stat s k) = k_start k"
  "k_lens (count_stat s k) = k_lens k"
  "k_stats (count_stat s k) s' = (if s' = s then k_stats k s + 1 else k_stats k s')"
  by (simp_all add: count_stat_def)

lemma kernel_inv_cong:
  "k_ring k' = k_ring k \<Longrightarrow>
   (\<And>s. s \<in> {Stat_Submit, Stat_Fragment, Stat_Handshake, Stat_Empty} \<Longrightarrow> k_stats k' s = k_stats k s) \<Longrightarrow>
   kernel_inv k' \<longleftrightarrow> kernel_inv k"
  by (simp add: kernel_inv_def)

lemma count_other_inv:
  "s \<notin> {Stat_Submit, Stat_Fragment, Stat_Handshake, Stat_Empty} \<Longrightarrow>
     kernel_inv (count_stat s k) \<longleftrightarrow> kernel_inv k"
  by (rule kernel_inv_cong) auto

text \<open>A fragment sent and counted, as \<open>emit_loop\<close> does it.\<close>

definition sent ::
  "task_env \<Rightarrow> ssl_call \<Rightarrow> u8 \<Rightarrow> bool \<Rightarrow> u8 \<Rightarrow> nat \<Rightarrow> kernel \<Rightarrow> kernel" where
  "sent env call rw is_handshake truncated i k =
     (let r = fragment_record env call rw is_handshake truncated i;
          k = k\<lparr>k_ring := k_ring k @ [r]\<rparr>
      in count_stat Stat_Submit
          (if i > 0 then count_stat Stat_Fragment k
           else if is_handshake then count_stat Stat_Handshake k
           else if snd r = [] \<and> h_buf_filled (fst r) = 0 then count_stat Stat_Empty k
           else if truncated \<noteq> 0 then count_stat Stat_Truncated k
           else k))"

definition fragment_due :: "ssl_call \<Rightarrow> nat \<Rightarrow> nat \<Rightarrow> bool" where
  "fragment_due call limit i \<longleftrightarrow>
     i = 0 \<or> i * MAX_SSL_BUF_SIZE < unat (c_len call) \<and> i * MAX_SSL_BUF_SIZE < limit"

definition fragment_sendable :: "task_env \<Rightarrow> ssl_call \<Rightarrow> nat \<Rightarrow> ring \<Rightarrow> bool" where
  "fragment_sendable env call i ring \<longleftrightarrow>
     e_room env ring (72 + bucket (fragment_bytes call (frag_off i))) \<and>
     fragment_payload env call i \<noteq> None"

definition failed :: "task_env \<Rightarrow> ssl_call \<Rightarrow> nat \<Rightarrow> nat \<Rightarrow> kernel \<Rightarrow> kernel" where
  "failed env call limit i k =
     tail_lost call limit i
       (if i = 0 then
          (if e_room env (k_ring k) (72 + bucket (fragment_bytes call 0))
           then count_stat Stat_Discard k else count_stat Stat_Reserve_Fail k)
        else k)"

lemma emit_loop_step:
  "emit_loop env call rw hs tr limit (i # is) k =
     (if i > 0 \<and> (i * MAX_SSL_BUF_SIZE \<ge> unat (c_len call) \<or> i * MAX_SSL_BUF_SIZE \<ge> limit) then k
      else case emit_one env call rw hs tr (frag_off i) k of
             (k, NoRoom) \<Rightarrow>
               tail_lost call limit i (if i = 0 then count_stat Stat_Reserve_Fail k else k)
           | (k, ReadFail) \<Rightarrow>
               tail_lost call limit i (if i = 0 then count_stat Stat_Discard k else k)
           | (k, outcome) \<Rightarrow>
               (let k = (if i > 0 then count_stat Stat_Fragment k
                         else if hs then count_stat Stat_Handshake k
                         else if outcome = Empty_Sent then count_stat Stat_Empty k
                         else if tr \<noteq> 0 then count_stat Stat_Truncated k
                         else k)
                in emit_loop env call rw hs tr limit is (count_stat Stat_Submit k)))"
  by (simp add: frag_off_def Let_def del: of_nat_mult)

declare emit_loop.simps(2) [simp del]

lemma emit_loop_Cons:
  "emit_loop env call rw hs tr limit (i # is) k =
     (if \<not> fragment_due call limit i then k
      else if fragment_sendable env call i (k_ring k)
        then emit_loop env call rw hs tr limit is (sent env call rw hs tr i k)
      else failed env call limit i k)"
proof (cases "fragment_due call limit i")
  case True
  then have due: "\<not> (i > 0 \<and> (i * MAX_SSL_BUF_SIZE \<ge> unat (c_len call) \<or> i * MAX_SSL_BUF_SIZE \<ge> limit))"
    by (auto simp: fragment_due_def)
  have empty: "snd (fragment_record env call rw hs tr i) = [] \<and> h_buf_filled (fst (fragment_record env call rw hs tr i)) = 0 \<longleftrightarrow>
      fragment_bytes call (frag_off i) = 0" if "fragment_payload env call i \<noteq> None"
    using that by (auto simp: fragment_record_def fill_header_def fragment_payload_def Let_def)
  let ?off = "frag_off i"
  note step = emit_loop_step [of env call rw hs tr limit i "is" k, unfolded if_not_P [OF due]]
  show ?thesis
  proof (cases "e_room env (k_ring k) (72 + bucket (fragment_bytes call ?off))")
    case False
    then have "emit_one env call rw hs tr ?off k = (k, NoRoom)" by (simp add: emit_one_cases)
    moreover have "i = 0 \<Longrightarrow> ?off = 0" by (simp add: frag_off_def)
    ultimately show ?thesis
      using True False by (auto simp: step fragment_sendable_def failed_def Let_def)
  next
    case room: True
    show ?thesis
    proof (cases "fragment_payload env call i")
      case None
      then have "emit_one env call rw hs tr ?off k = (k, ReadFail)" using room by (simp add: emit_one_cases)
      moreover have "i = 0 \<Longrightarrow> ?off = 0" by (simp add: frag_off_def)
      ultimately show ?thesis
        using True None room by (auto simp: step fragment_sendable_def failed_def Let_def)
    next
      case (Some b)
      then have one: "emit_one env call rw hs tr ?off k =
          (k\<lparr>k_ring := k_ring k @ [fragment_record env call rw hs tr i]\<rparr>,
           if fragment_bytes call ?off = 0 then Empty_Sent else Payload_Sent)"
        using room by (simp add: emit_one_cases)
      have "fragment_sendable env call i (k_ring k)" using room Some by (simp add: fragment_sendable_def)
      moreover have emp: "snd (fragment_record env call rw hs tr i) = [] \<and>
          h_buf_filled (fst (fragment_record env call rw hs tr i)) = 0 \<longleftrightarrow> fragment_bytes call ?off = 0"
        using empty Some by simp
      moreover define z where "z \<longleftrightarrow> fragment_bytes call ?off = 0"
      ultimately show ?thesis
        using True unfolding step one sent_def Let_def emp z_def [symmetric] by (cases z) simp_all
    qed
  qed
next
  case False
  then show ?thesis by (auto simp: emit_loop_step fragment_due_def)
qed

lemma offset_zero: "i < MAX_SSL_FRAGMENTS \<Longrightarrow> frag_off i = 0 \<longleftrightarrow> i = 0"
proof -
  assume "i < MAX_SSL_FRAGMENTS"
  then have "i * 4096 < 2 ^ 32" by (simp add: MAX_SSL_FRAGMENTS_def)
  then have "(2 :: nat) ^ 32 dvd i * 4096 \<longleftrightarrow> i = 0" using nat_dvd_not_less by fastforce
  then show ?thesis by (simp add: frag_off_def MAX_SSL_BUF_SIZE_def word_of_nat_eq_0_iff del: of_nat_mult)
qed

lemma fragment_header_simps:
  "i < MAX_SSL_FRAGMENTS \<Longrightarrow> h_offset (fst (fragment_record env call rw hs tr i)) = 0 \<longleftrightarrow> i = 0"
  "h_handshake (fst (fragment_record env call rw hs tr i)) = 0 \<longleftrightarrow> \<not> hs"
  by (simp_all add: fragment_record_def fill_header_def Let_def offset_zero)

lemma sent_inv:
  assumes "kernel_inv k" "fragment_payload env call i \<noteq> None" "i < MAX_SSL_FRAGMENTS"
  shows "kernel_inv (sent env call rw hs tr i k)"
proof -
  define r where "r = fragment_record env call rw hs tr i"
  have r: "length (snd r) = payload_len (fst r)" "h_offset (fst r) = 0 \<longleftrightarrow> i = 0"
    "h_handshake (fst r) = 0 \<longleftrightarrow> \<not> hs"
    unfolding r_def by (rule fragment_record_len fragment_header_simps assms)+
  have filled: "h_buf_filled (fst r) = 0 \<Longrightarrow> snd r = []" using r(1) by (simp add: payload_len_def)
  have sent: "sent env call rw hs tr i k = count_stat Stat_Submit
          (if i > 0 then count_stat Stat_Fragment (k\<lparr>k_ring := k_ring k @ [r]\<rparr>)
           else if hs then count_stat Stat_Handshake (k\<lparr>k_ring := k_ring k @ [r]\<rparr>)
           else if h_buf_filled (fst r) = 0 then count_stat Stat_Empty (k\<lparr>k_ring := k_ring k @ [r]\<rparr>)
           else if tr \<noteq> 0 then count_stat Stat_Truncated (k\<lparr>k_ring := k_ring k @ [r]\<rparr>)
           else k\<lparr>k_ring := k_ring k @ [r]\<rparr>)"
    using filled by (auto simp: sent_def r_def Let_def)
  show ?thesis
    using assms(1) r(1) unfolding sent kernel_inv_def
    by (cases "i = 0"; cases hs; cases "h_buf_filled (fst r) = 0")
       (simp_all add: r(2,3) case_prod_beta)
qed

lemma failed_inv: "kernel_inv k \<Longrightarrow> kernel_inv (failed env call limit i k)"
  by (simp add: failed_def tail_lost_def count_other_inv)

lemma emit_loop_inv:
  "kernel_inv k \<Longrightarrow> \<forall>i \<in> set is. i < MAX_SSL_FRAGMENTS \<Longrightarrow> kernel_inv (emit_loop env call rw hs tr limit is k)"
proof (induction "is" arbitrary: k)
  case (Cons i "is")
  then show ?case
    by (auto simp: emit_loop_Cons failed_inv fragment_sendable_def intro!: sent_inv)
qed simp

lemma emit_fragments_inv: "kernel_inv k \<Longrightarrow> kernel_inv (emit_fragments env call rw hs k)"
  by (simp add: emit_fragments_def emit_loop_inv Let_def)

section \<open>Runs\<close>

text \<open>
  What may happen to the kernel's state: a probe hit on any task, an entry evicted from the LRU map,
  and a class the agent writes.
\<close>

datatype probe_op =
    RwEnter task_env u64 u64
  | RwExEnter task_env u64 u64 u64
  | ReadExit task_env "u32 option"
  | WriteExit task_env "u32 option"
  | HandshakeEnter task_env u64
  | HandshakeExit task_env "u32 option"
  | SslFree task_env "u64 option"
  | TaskExit task_env
  | Evict "u64 \<times> u64"
  | Verdict "u64 \<times> u64" u64

fun probe_step :: "kernel \<Rightarrow> probe_op \<Rightarrow> kernel" where
  "probe_step k (RwEnter env ssl buf) = probe_ssl_rw_enter env ssl buf k"
| "probe_step k (RwExEnter env ssl buf lp) = probe_ssl_rw_ex_enter env ssl buf lp k"
| "probe_step k (ReadExit env ret) = probe_ssl_read_exit env ret k"
| "probe_step k (WriteExit env ret) = probe_ssl_write_exit env ret k"
| "probe_step k (HandshakeEnter env ssl) = probe_ssl_do_handshake_enter env ssl k"
| "probe_step k (HandshakeExit env ret) = probe_ssl_do_handshake_exit env ret k"
| "probe_step k (SslFree env ssl) = probe_ssl_free env ssl k"
| "probe_step k (TaskExit env) = probe_ssl_task_exit env k"
| "probe_step k (Evict key) = k\<lparr>k_class := (k_class k)(key := None)\<rparr>"
| "probe_step k (Verdict key e) =
     (if k_class k key = None then k else k\<lparr>k_class := (k_class k)(key \<mapsto> e)\<rparr>)"

lemma session_inv [simp]:
  "kernel_inv (session_clear tid k) \<longleftrightarrow> kernel_inv k"
  "kernel_inv (session_start env tid ssl buf lp k) \<longleftrightarrow> kernel_inv k"
  "kernel_inv (filter_forget env ssl k) \<longleftrightarrow> kernel_inv k"
  "kernel_inv (k\<lparr>k_class := m\<rparr>) \<longleftrightarrow> kernel_inv k"
  by (rule kernel_inv_cong; simp add: session_clear_def session_start_def filter_forget_def Let_def)+

lemma filter_drops_state:
  obtains m where "fst (filter_drops env call rw k) = k\<lparr>k_class := m\<rparr>"
proof -
  define new where "new = (if rw = dir_u8 Write
      then after_write (call_entry call k) (call_head env call) (c_len call) (gets_response env call)
      else after_read (call_entry call k))"
  define stores where "stores \<longleftrightarrow> new \<noteq> call_entry call k \<and> e_stores env SSL_CLASS"
  have "fst (filter_drops env call rw k) =
      (if stores then k\<lparr>k_class := (k_class k)(class_key call \<mapsto> new)\<rparr> else k)"
    by (simp add: filter_drops_def Let_def new_def stores_def)
  moreover have "k = k\<lparr>k_class := k_class k\<rparr>" by simp
  ultimately show thesis using that by (cases stores) metis+
qed

lemma emit_llm_event_inv:
  assumes "kernel_inv k" shows "kernel_inv (emit_llm_event env ret rw hs k)"
proof -
  have filtered: "kernel_inv k'" if "filter_drops env call rw k = (k', b)" for call k' b
    using assms filter_drops_state [of env call rw k] that by (metis fst_conv session_inv(4))
  have "kernel_inv (case filter_drops env call rw k of
      (k, True) \<Rightarrow> count_stat Stat_Filtered k
    | (k, False) \<Rightarrow> emit_fragments env call rw h k)" for call h
    using filtered [of call]
    by (cases "filter_drops env call rw k"; cases "snd (filter_drops env call rw k)")
       (simp_all add: count_other_inv emit_fragments_inv)
  then show ?thesis
    using assms by (cases hs) (simp_all add: emit_llm_event_def emit_fragments_inv count_other_inv split: option.split)
qed

lemma probe_step_inv: "kernel_inv k \<Longrightarrow> kernel_inv (probe_step k op)"
  by (cases op)
     (simp_all add: probe_ssl_rw_enter_def probe_ssl_rw_ex_enter_def probe_ssl_read_exit_def
        probe_ssl_write_exit_def probe_ssl_do_handshake_enter_def probe_ssl_do_handshake_exit_def
        probe_ssl_free_def probe_ssl_task_exit_def emit_llm_event_inv emit_fragments_inv count_other_inv
        Let_def split: option.split)

text \<open>the kernel's counters never disagree with what it sent: after any probe hits by any tasks, in
  any order, with any memory faults, refused map updates, full rings, evictions and verdicts, every
  record carries exactly the payload its header claims, and the counters of submitted records,
  fragments, handshakes and empty records are the numbers of such records in the ring.\<close>

lemma counters_match_ring:
  "kernel_inv (foldl probe_step kernel_new ops)"
proof -
  have "kernel_inv k \<Longrightarrow> kernel_inv (foldl probe_step k ops)" for k
    by (induction ops arbitrary: k) (simp_all add: probe_step_inv)
  moreover have "kernel_inv kernel_new" by (simp add: kernel_inv_def kernel_new_def)
  ultimately show ?thesis .
qed

section \<open>Every call is counted once\<close>

definition first_records :: "kernel \<Rightarrow> u64" where
  "first_records k = records_where (\<lambda>h. h_offset h = 0) (k_ring k)"

text \<open>The four ways a probed call can end.\<close>

definition ends :: "kernel \<Rightarrow> u64" where
  "ends k = first_records k + k_stats k Stat_Filtered + k_stats k Stat_Discard + k_stats k Stat_Reserve_Fail"

lemma ends_count:
  "ends (count_stat s k) =
     ends k + (if s = Stat_Filtered \<or> s = Stat_Discard \<or> s = Stat_Reserve_Fail then 1 else 0)"
  by (auto simp: ends_def first_records_def)

lemma ends_sent:
  assumes "i < MAX_SSL_FRAGMENTS"
  shows "ends (sent env call rw hs tr i k) = ends k + (if i = 0 then 1 else 0)"
proof -
  define r where "r = fragment_record env call rw hs tr i"
  have "h_offset (fst r) = 0 \<longleftrightarrow> i = 0" unfolding r_def by (rule fragment_header_simps(1) [OF assms])
  then have "ends (k\<lparr>k_ring := k_ring k @ [r]\<rparr>) = ends k + (if i = 0 then 1 else 0)"
    by (simp add: ends_def first_records_def)
  then show ?thesis
    unfolding sent_def Let_def r_def [symmetric] by (simp add: ends_count)
qed

lemma ends_failed: "ends (failed env call limit i k) = ends k + (if i = 0 then 1 else 0)"
  by (simp add: ends_def first_records_def failed_def tail_lost_def)

lemma ends_rest:
  "\<forall>i \<in> set is. 0 < i \<and> i < MAX_SSL_FRAGMENTS \<Longrightarrow> ends (emit_loop env call rw hs tr limit is k) = ends k"
proof (induction "is" arbitrary: k)
  case (Cons i "is")
  then show ?case by (simp add: emit_loop_Cons ends_sent ends_failed)
qed simp

lemma ends_emit_fragments: "ends (emit_fragments env call rw hs k) = ends k + 1"
proof -
  have four: "[0..<MAX_SSL_FRAGMENTS] = 0 # [1, 2, 3]" by (simp add: MAX_SSL_FRAGMENTS_def upt_rec)
  have "fragment_due call limit 0" for limit by (simp add: fragment_due_def)
  then show ?thesis
    unfolding emit_fragments_def Let_def four emit_loop_Cons [of env call rw hs _ _ 0]
    by (auto simp: ends_rest ends_sent ends_failed MAX_SSL_FRAGMENTS_def)
qed

text \<open>no probed call is lost in silence or counted twice: each return probe either sends the call's
  first record or adds one to exactly one of the counters filtered, discard and reserve_fail, whatever
  faults on the way; and it always leaves the thread's session maps empty.\<close>

lemma every_exit_is_counted_once:
  "ends (emit_llm_event env ret rw is_handshake k) = ends k + 1 \<and>
   session_info (current_tid env) (emit_llm_event env ret rw is_handshake k) = (0, 0, 0, None)"
proof -
  have ring: "ends (session_clear tid k) = ends k" for tid k
    by (simp add: ends_def first_records_def session_clear_def)
  have "ends (case filter_drops env call rw k of
      (k, True) \<Rightarrow> count_stat Stat_Filtered k
    | (k, False) \<Rightarrow> emit_fragments env call rw h k) = ends k + 1" for h call
  proof -
    obtain m where "fst (filter_drops env call rw k) = k\<lparr>k_class := m\<rparr>" by (rule filter_drops_state)
    then have "ends (fst (filter_drops env call rw k)) = ends k" by (simp add: ends_def first_records_def)
    then show ?thesis
      by (cases "filter_drops env call rw k"; cases "snd (filter_drops env call rw k)")
         (simp_all add: ends_emit_fragments ends_count)
  qed
  moreover have "ends (count_stat Stat_Discard k) = ends k + 1" by (simp add: ends_count)
  ultimately have "ends (emit_llm_event env ret rw is_handshake k) = ends k + 1"
    by (cases is_handshake) (simp_all add: emit_llm_event_def ring ends_emit_fragments split: option.split)
  moreover have "session_info tid (session_clear tid k) = (0, 0, 0, None)" for tid k
    by (simp add: session_info_def session_clear_def)
  ultimately show ?thesis by (simp add: emit_llm_event_def)
qed

section \<open>What is missing is a tail\<close>

definition records_due :: "ssl_call \<Rightarrow> nat \<Rightarrow> nat" where
  "records_due call limit =
     length (takeWhile (fragment_due call limit) [0..<MAX_SSL_FRAGMENTS])"

lemma emit_loop_ring:
  "\<exists>n \<le> length (takeWhile (fragment_due call limit) is).
     k_ring (emit_loop env call rw hs tr limit is k) =
       k_ring k @ map (fragment_record env call rw hs tr) (take n is) \<and>
     list_all (\<lambda>i. fragment_payload env call i \<noteq> None) (take n is) \<and>
     (n = length (takeWhile (fragment_due call limit) is) \<or>
      fragment_sendable env call (is ! n)
        (k_ring k @ map (fragment_record env call rw hs tr) (take n is)) = False)"
proof (induction "is" arbitrary: k)
  case (Cons i "is")
  show ?case
  proof (cases "fragment_due call limit i \<and> fragment_sendable env call i (k_ring k)")
    case True
    have ring: "k_ring (sent env call rw hs tr i k) = k_ring k @ [fragment_record env call rw hs tr i]"
      by (simp add: sent_def Let_def)
    from Cons.IH [of "sent env call rw hs tr i k"] obtain n where
      "n \<le> length (takeWhile (fragment_due call limit) is)"
      "k_ring (emit_loop env call rw hs tr limit is (sent env call rw hs tr i k)) =
         (k_ring k @ [fragment_record env call rw hs tr i]) @ map (fragment_record env call rw hs tr) (take n is)"
      "list_all (\<lambda>i. fragment_payload env call i \<noteq> None) (take n is)"
      "n = length (takeWhile (fragment_due call limit) is) \<or>
        fragment_sendable env call (is ! n)
          ((k_ring k @ [fragment_record env call rw hs tr i]) @ map (fragment_record env call rw hs tr) (take n is)) = False"
      unfolding ring by blast
    with True show ?thesis
      by (intro exI [of _ "Suc n"]) (auto simp: emit_loop_Cons fragment_sendable_def)
  next
    case False
    have "k_ring (failed env call limit i k) = k_ring k"
      by (simp add: failed_def tail_lost_def)
    with False show ?thesis
      by (intro exI [of _ 0]) (auto simp: emit_loop_Cons)
  qed
qed simp

lemma read_user_split:
  "read_user mem a (m + n) = Some b \<Longrightarrow>
     read_user mem a m = Some (take m b) \<and> read_user mem (a + of_nat m) n = Some (drop m b)"
proof (induction m arbitrary: a b)
  case (Suc m)
  then obtain x c where x: "mem a = Some x" and c: "read_user mem (a + 1) (m + n) = Some c" "b = x # c"
    by (auto split: option.splits)
  from Suc.IH [OF c(1)] x c(2) show ?case by (simp add: add.commute add.left_commute)
qed simp

text \<open>A call whose buffer is readable, seen through its fragments.\<close>

definition call_reads :: "task_env \<Rightarrow> ssl_call \<Rightarrow> bytes \<Rightarrow> bool" where
  "call_reads env call data \<longleftrightarrow>
     c_buf call \<noteq> 0 \<and> read_user (e_mem env) (c_buf call) (unat (c_len call)) = Some data"

lemma unat_frag_off: "i < MAX_SSL_FRAGMENTS \<Longrightarrow> unat (frag_off i) = i * 4096"
  by (auto simp: frag_off_def MAX_SSL_BUF_SIZE_def MAX_SSL_FRAGMENTS_def unat_of_nat take_bit_nat_eq_self
      simp del: of_nat_mult)

lemma fragment_payload_slice:
  assumes reads: "call_reads env call data" and i: "i < MAX_SSL_FRAGMENTS"
  shows "fragment_payload env call i = Some (take 4096 (drop (i * 4096) data))"
proof (cases "i * 4096 \<le> unat (c_len call)")
  case True
  define m where "m = min (unat (c_len call) - i * 4096) 4096"
  have split: "unat (c_len call) = i * 4096 + (m + (unat (c_len call) - i * 4096 - m))"
    using True by (simp add: m_def)
  have data: "read_user (e_mem env) (c_buf call) (unat (c_len call)) = Some data" "c_buf call \<noteq> 0"
    using reads by (auto simp: call_reads_def)
  then have len: "length data = unat (c_len call)" by (auto dest: read_user_length)
  have "read_user (e_mem env) (c_buf call + of_nat (i * 4096)) m = Some (take m (drop (i * 4096) data))"
    using read_user_split [of _ _ "i * 4096" _ data] read_user_split [of _ _ m] data(1) split by metis
  moreover have "ucast (frag_off i) = (of_nat (i * 4096) :: u64)"
    using unat_frag_off [OF i] i
    by (simp add: word_unat_eq_iff unsigned_ucast_eq unat_of_nat take_bit_nat_eq_self MAX_SSL_FRAGMENTS_def
        del: of_nat_mult)
  moreover have "fragment_bytes call (frag_off i) = m"
    using data(2) by (simp add: fragment_bytes_def unat_frag_off [OF i] m_def MAX_SSL_BUF_SIZE_def word_gt_0)
  moreover have "take m (drop (i * 4096) data) = take 4096 (drop (i * 4096) data)"
    by (cases "unat (c_len call) - i * 4096 \<le> 4096") (simp_all add: m_def len min_def)
  ultimately show ?thesis by (simp add: fragment_payload_def Let_def)
next
  case False
  then have "length data \<le> i * 4096"
    using reads by (auto simp: call_reads_def dest: read_user_length)
  moreover have "fragment_bytes call (frag_off i) = 0"
    using False by (simp add: fragment_bytes_def unat_frag_off [OF i])
  ultimately show ?thesis by (simp add: fragment_payload_def Let_def)
qed

lemma concat_slices: "concat (map (\<lambda>i. take m (drop (i * m) xs)) [0..<n]) = take (n * m) xs"
  by (induction n) (simp_all add: take_add [symmetric] add.commute)

lemma take_fragments: "n \<le> MAX_SSL_FRAGMENTS \<Longrightarrow> take n [0..<MAX_SSL_FRAGMENTS] = [0..<n]"
  by (simp add: take_upt)

text \<open>C17: what the kernel sends of a call is a prefix of its bytes, cut into records of 4096 bytes at
  consecutive offsets: the only bytes ever missing are past the capture limit or from the first
  fragment the ring had no room for, which is what the agent's gap accounting relies on.\<close>

theorem missing_bytes_are_a_tail:
  fixes rw :: u8 and call :: ssl_call
  assumes "call_reads env call data"
  defines "limit \<equiv> capture_limit (dir_from rw)"
  defines "tr \<equiv> if unat (c_len call) > limit then 1 else 0"
  shows "\<exists>n \<le> records_due call limit.
     k_ring (emit_fragments env call rw hs k) =
       k_ring k @ map (fragment_record env call rw hs tr) [0..<n] \<and>
     concat (map snd (map (fragment_record env call rw hs tr) [0..<n])) = take (n * 4096) data \<and>
     map (unat \<circ> h_offset \<circ> fst) (map (fragment_record env call rw hs tr) [0..<n]) = map (\<lambda>i. i * 4096) [0..<n] \<and>
     (n = records_due call limit \<or>
      e_room env (k_ring k @ map (fragment_record env call rw hs tr) [0..<n])
        (72 + bucket (fragment_bytes call (frag_off n))) = False)"
proof -
  have due: "records_due call limit \<le> MAX_SSL_FRAGMENTS"
    using length_takeWhile_le [of "fragment_due call limit" "[0..<MAX_SSL_FRAGMENTS]"] by (simp add: records_due_def)
  obtain n where n: "n \<le> records_due call limit"
    "k_ring (emit_loop env call rw hs tr limit [0..<MAX_SSL_FRAGMENTS] k) =
       k_ring k @ map (fragment_record env call rw hs tr) [0..<n]"
    "n = records_due call limit \<or>
      fragment_sendable env call ([0..<MAX_SSL_FRAGMENTS] ! n)
        (k_ring k @ map (fragment_record env call rw hs tr) [0..<n]) = False"
  proof -
    obtain n where n: "n \<le> records_due call limit"
      "k_ring (emit_loop env call rw hs tr limit [0..<MAX_SSL_FRAGMENTS] k) =
         k_ring k @ map (fragment_record env call rw hs tr) (take n [0..<MAX_SSL_FRAGMENTS])"
      "n = records_due call limit \<or>
        fragment_sendable env call ([0..<MAX_SSL_FRAGMENTS] ! n)
          (k_ring k @ map (fragment_record env call rw hs tr) (take n [0..<MAX_SSL_FRAGMENTS])) = False"
      using emit_loop_ring [of call limit "[0..<MAX_SSL_FRAGMENTS]" env rw hs tr k]
      unfolding records_due_def by blast
    have le: "n \<le> MAX_SSL_FRAGMENTS" using n(1) due by linarith
    from n that show thesis unfolding take_fragments [OF le] by blast
  qed
  have pay: "fragment_payload env call i = Some (take 4096 (drop (i * 4096) data))" if "i < MAX_SSL_FRAGMENTS" for i
    using that assms(1) by (rule fragment_payload_slice [rotated])
  have snds: "map snd (map (fragment_record env call rw hs tr) [0..<n]) = map (\<lambda>i. take 4096 (drop (i * 4096) data)) [0..<n]"
    using n(1) due by (auto simp: fragment_record_def pay Let_def)
  have offs: "map (unat \<circ> h_offset \<circ> fst) (map (fragment_record env call rw hs tr) [0..<n]) = map (\<lambda>i. i * 4096) [0..<n]"
    using n(1) due by (auto simp: fragment_record_def fill_header_def unat_frag_off Let_def)
  have room: "e_room env (k_ring k @ map (fragment_record env call rw hs tr) [0..<n])
      (72 + bucket (fragment_bytes call (frag_off n))) = False" if "n \<noteq> records_due call limit"
  proof -
    have "n < MAX_SSL_FRAGMENTS" using that n(1) due by linarith
    then show ?thesis using that n(3) pay [of n] by (auto simp: fragment_sendable_def)
  qed
  have "emit_fragments env call rw hs k = emit_loop env call rw hs tr limit [0..<MAX_SSL_FRAGMENTS] k"
    by (simp add: emit_fragments_def limit_def tr_def Let_def)
  moreover have "concat (map snd (map (fragment_record env call rw hs tr) [0..<n])) = take (n * 4096) data"
    unfolding snds by (rule concat_slices)
  moreover have "n = records_due call limit \<or>
      e_room env (k_ring k @ map (fragment_record env call rw hs tr) [0..<n])
        (72 + bucket (fragment_bytes call (frag_off n))) = False"
    using room by blast
  ultimately show ?thesis using n(1,2) offs by (intro exI [of _ n] conjI) simp_all
qed

lemma missing_bytes_are_a_tail_witness:
  "let env = \<lparr>e_pid_tgid = 7, e_now = 1, e_cgroup = 1, e_comm = None, e_mem = (\<lambda>a. Some (ucast a)),
         e_stores = (\<lambda>_. True), e_room = (\<lambda>_ _. True)\<rparr>;
       call = \<lparr>c_metadata = current_metadata env, c_latency = 0, c_comm = [], c_buf = 0x41, c_ssl = 5,
         c_len = 3, c_closed = 0\<rparr>
   in map snd (k_ring (emit_fragments env call (dir_u8 Read) False kernel_new)) = [[0x41, 0x42, 0x43]]"
proof -
  define env where "env = \<lparr>e_pid_tgid = 7, e_now = 1, e_cgroup = 1, e_comm = None,
    e_mem = (\<lambda>a. Some (ucast a)), e_stores = (\<lambda>_. True), e_room = (\<lambda>_ _. True)\<rparr>"
  define call where "call = \<lparr>c_metadata = current_metadata env, c_latency = 0, c_comm = [], c_buf = 0x41,
    c_ssl = 5, c_len = 3, c_closed = 0\<rparr>"
  have reads: "call_reads env call [0x41, 0x42, 0x43]"
  proof -
    have "read_user (\<lambda>a. Some (ucast a)) 0x41 (Suc (Suc (Suc 0))) = Some [0x41, 0x42, 0x43]" by simp
    then show ?thesis by (simp add: call_reads_def env_def call_def numeral_3_eq_3 [symmetric])
  qed
  have due: "records_due call (capture_limit (dir_from (dir_u8 Read))) = 1"
    by (simp add: records_due_def fragment_due_def call_def MAX_SSL_FRAGMENTS_def MAX_SSL_BUF_SIZE_def upt_rec)
  obtain n where "n \<le> 1" "n = 1 \<or> e_room env (k_ring kernel_new @ map (fragment_record env call (dir_u8 Read) False 0) [0..<n])
      (72 + bucket (fragment_bytes call (frag_off n))) = False"
    "k_ring (emit_fragments env call (dir_u8 Read) False kernel_new) =
       k_ring kernel_new @ map (fragment_record env call (dir_u8 Read) False 0) [0..<n]"
    "concat (map snd (map (fragment_record env call (dir_u8 Read) False 0) [0..<n])) = take (n * 4096) [0x41, 0x42, 0x43]"
    using missing_bytes_are_a_tail [OF reads, of "dir_u8 Read" False kernel_new] due
    by (auto simp: capture_limit_def call_def MAX_SSL_CAPTURE_def MAX_SSL_FRAGMENTS_def MAX_SSL_BUF_SIZE_def)
  then have "map snd (k_ring (emit_fragments env call (dir_u8 Read) False kernel_new)) = [[0x41, 0x42, 0x43]]"
    by (simp add: env_def kernel_new_def)
  then show ?thesis unfolding Let_def env_def [symmetric] call_def [symmetric] .
qed

section \<open>What an address or a thread inherits\<close>

lemma emit_loop_class: "k_class (emit_loop env call rw hs tr limit is k) = k_class k"
  by (induction "is" arbitrary: k)
     (auto simp: emit_loop_Cons sent_def failed_def tail_lost_def Let_def)

text \<open>a connection that reuses a freed SSL* address inherits no class: right after \<open>SSL_free\<close>, and
  again after its own handshake began, the next call of the process on that address is judged from a
  fresh entry created at the call.\<close>

lemma reused_address_starts_fresh:
  "call_entry (call\<lparr>c_metadata := current_metadata env, c_ssl := ssl\<rparr>)
     (probe_ssl_do_handshake_enter env ssl k) = entry_new (e_now env) \<and>
   (ssl = 0 \<or>
    call_entry (call\<lparr>c_metadata := current_metadata env, c_ssl := ssl\<rparr>)
      (probe_ssl_free env (Some ssl) k) = entry_new (e_now env))"
proof -
  have key: "ucast (ucast (drop_bit 32 x) :: u32) = drop_bit 32 (x :: u64)" for x
  proof (rule bit_word_eqI)
    fix n assume "n < LENGTH(64)"
    have "\<not> bit x (32 + n)" if "32 \<le> n" using that bit_imp_le_length [of x "32 + n"] by auto
    then show "bit (ucast (ucast (drop_bit 32 x) :: u32) :: u64) n = bit (drop_bit 32 x) n"
      by (cases "n < 32") (auto simp: bit_ucast_iff bit_drop_bit_eq)
  qed
  show ?thesis
    by (auto simp: call_entry_def class_key_def current_metadata_def key probe_ssl_do_handshake_enter_def
        probe_ssl_free_def session_start_def filter_forget_def emit_fragments_def emit_loop_class Let_def)
qed

text \<open>a plain \<open>SSL_read\<close> or \<open>SSL_write\<close> on a thread whose \<open>SSL_read_ex\<close> or \<open>SSL_write_ex\<close>
  never reached its return probe is measured by that call's length pointer, not by its own return
  value: the entry probe overwrites the other session entries but keeps the pointer.\<close>

lemma plain_entry_keeps_length_pointer:
  assumes "current_tid env' = current_tid env" "\<forall>m. e_stores env m" "\<forall>m. e_stores env' m"
    and "buf \<noteq> 0" "0 < sint ret"
  shows "map_option c_len (call_capture env (Some ret) False
      (probe_ssl_rw_enter env ssl buf (probe_ssl_rw_ex_enter env' ssl' buf' lp k))) =
    map_option (\<lambda>b. ucast (le_word b :: u64)) (read_user (e_mem env) lp 8)"
proof -
  have "session_info (current_tid env)
      (probe_ssl_rw_enter env ssl buf (probe_ssl_rw_ex_enter env' ssl' buf' lp k)) =
      (e_now env, buf, ssl, Some lp)"
    using assms(1-3)
    by (simp add: session_info_def probe_ssl_rw_enter_def probe_ssl_rw_ex_enter_def session_start_def)
  then show ?thesis
    using assms(4,5) by (cases "read_user (e_mem env) lp 8") (simp_all add: call_capture_def Let_def)
qed

lemma plain_entry_keeps_length_pointer_witness:
  "let env = \<lparr>e_pid_tgid = 7, e_now = 1, e_cgroup = 1, e_comm = None, e_mem = (\<lambda>_. Some 0),
         e_stores = (\<lambda>_. True), e_room = (\<lambda>_ _. True)\<rparr>
   in map_option c_len (call_capture env (Some 5) False
        (probe_ssl_rw_enter env 9 0x41 (probe_ssl_rw_ex_enter env 9 0x41 0x80 kernel_new))) \<noteq> Some 5"
proof -
  define env where "env = \<lparr>e_pid_tgid = 7, e_now = 1, e_cgroup = 1, e_comm = None,
    e_mem = (\<lambda>_. Some 0), e_stores = (\<lambda>_. True), e_room = (\<lambda>_ _. True)\<rparr>"
  have "read_user (e_mem env) a n = Some (replicate n 0)" for a n
    by (induction n arbitrary: a) (simp_all add: env_def)
  moreover have "(le_word (replicate n 0) :: u64) = 0" for n by (induction n) simp_all
  ultimately have "map_option c_len (call_capture env (Some 5) False
        (probe_ssl_rw_enter env 9 0x41 (probe_ssl_rw_ex_enter env 9 0x41 0x80 kernel_new))) = Some 0"
    using plain_entry_keeps_length_pointer [of env env "0x41" 5 9 9 "0x41" "0x80" kernel_new]
    by (simp add: env_def)
  then show ?thesis unfolding Let_def env_def [symmetric] by auto
qed

end
