(* ===== verification/Plain_Capture.thy ===== *)
theory Plain_Capture
  imports Common
begin

text \<open>
  Socket-level capture of plaintext connections (honeybeepf-llm-ebpf/src/probes/builtin/plaintext.rs):
  the sockops program notes a watched connection's task when it connects and forgets it when it
  closes; the send and receive programs copy the first bytes of each message into the ring. Messages
  are never changed: both programs always answer SK_PASS.

  What the kernel answers is a parameter, as for the SSL probes: the current task, whether a map
  update succeeds, the room in the ring, and whether a helper's copy of a message's first bytes fails.
\<close>

section \<open>State\<close>

type_synonym plain_ring = "(event_header \<times> bytes) list"

datatype plain_map = PLAIN_CONNS | PLAIN_SOCKS

record plain_env =
  p_pid_tgid :: u64
  p_cgroup :: u64
  p_stores :: "plain_map \<Rightarrow> bool"
  p_room :: "plain_ring \<Rightarrow> nat \<Rightarrow> bool"

record plain_state =
  p_endpoints :: "u64 set"
  p_conns :: "plain_flow \<rightharpoonup> event_metadata"
  p_socks :: "u64 set"
  p_ring :: plain_ring

text \<open>The fields of a \<open>bpf_sock_ops\<close> context the program reads; \<open>so_arg1\<close> is whether the new state is
  \<open>BPF_TCP_CLOSE\<close>.\<close>

datatype sock_op = State_Cb | Active_Established | Passive_Established | Other_Op

record raw_flow =
  raw_local_ip4 :: u32
  raw_remote_ip4 :: u32
  raw_local_port :: u32
  raw_remote_port :: u32

record sock_ops =
  so_op :: sock_op
  so_closes :: bool
  so_flow :: raw_flow
  so_cookie :: u64

definition raw_flow_key :: "raw_flow \<Rightarrow> plain_flow" where
  "raw_flow_key f = plain_flow_key (raw_local_ip4 f) (raw_remote_ip4 f) (raw_local_port f) (raw_remote_port f)"

section \<open>Records\<close>

definition PLAIN_BUCKET_SMALL :: nat where "PLAIN_BUCKET_SMALL = 512"
definition PLAIN_BUCKET_MED :: nat where "PLAIN_BUCKET_MED = 2048"

definition init_header ::
  "event_metadata \<Rightarrow> u32 \<Rightarrow> llm_direction \<Rightarrow> u8 \<Rightarrow> u64 \<Rightarrow> event_header" where
  "init_header meta len rw truncated stream =
     \<lparr>h_metadata = meta, h_ssl = stream, h_latency = 0, h_len = len, h_buf_filled = 0, h_offset = 0,
      h_handshake = 0, h_rw = dir_u8 rw, h_truncated = truncated, h_closed = 0,
      h_comm = replicate 16 0\<rparr>"

definition plain_submit :: "event_header \<Rightarrow> bytes \<Rightarrow> plain_state \<Rightarrow> plain_state" where
  "plain_submit h payload s = s\<lparr>p_ring := p_ring s @ [(h, payload)]\<rparr>"

text \<open>\<open>emit_close\<close>: a header alone.\<close>

definition emit_close :: "plain_env \<Rightarrow> plain_flow \<Rightarrow> event_metadata \<Rightarrow> plain_state \<Rightarrow> plain_state" where
  "emit_close env flow meta s =
     (if \<not> p_room env (p_ring s) 72 then s
      else plain_submit ((init_header meta 0 Unknown_Dir 0 (plain_stream_id flow))\<lparr>h_closed := 1\<rparr>) [] s)"

text \<open>
  \<open>emit_send\<close> and \<open>emit_recv\<close> of the message \<open>msg\<close>, whose size the context gives as a \<open>u32\<close>;
  \<open>load n\<close> is whether the helper's copy of its first \<open>n\<close> bytes succeeds.
\<close>

definition msg_size :: "bytes \<Rightarrow> u32" where
  "msg_size msg = of_nat (length msg)"

definition emit_send ::
  "nat \<Rightarrow> plain_env \<Rightarrow> (nat \<Rightarrow> bool) \<Rightarrow> bytes \<Rightarrow> event_metadata \<Rightarrow> u64 \<Rightarrow> plain_state \<Rightarrow> plain_state" where
  "emit_send N env load msg meta stream s =
     (if \<not> p_room env (p_ring s) (72 + N) then s
      else let sz = msg_size msg;
               h = init_header meta sz Write (if unat sz > N then 1 else 0) stream;
               n = min (unat sz) N
           in if load n then plain_submit (h\<lparr>h_buf_filled := 1\<rparr>) (take n msg) s else s)"

definition emit_recv ::
  "nat \<Rightarrow> plain_env \<Rightarrow> (nat \<Rightarrow> bool) \<Rightarrow> bytes \<Rightarrow> event_metadata \<Rightarrow> u64 \<Rightarrow> plain_state \<Rightarrow> plain_state" where
  "emit_recv N env load msg meta stream s =
     (if \<not> p_room env (p_ring s) (72 + N) then s
      else let sz = msg_size msg;
               h = init_header meta sz Read (if unat sz > N then 1 else 0) stream;
               n = min (unat sz) N
           in if n = 0 then s
              else (let n = max 1 (min n N)
                    in if load n then plain_submit (h\<lparr>h_buf_filled := 1\<rparr>) (take n msg) s else s))"

text \<open>\<open>pull n\<close> is whether \<open>bpf_msg_pull_data\<close> made the first \<open>n\<close> bytes contiguous.\<close>

definition capture_send ::
  "plain_env \<Rightarrow> (nat \<Rightarrow> bool) \<Rightarrow> (nat \<Rightarrow> bool) \<Rightarrow> bytes \<Rightarrow> event_metadata \<Rightarrow> u64 \<Rightarrow> plain_state \<Rightarrow> plain_state" where
  "capture_send env pull load msg meta stream s =
     (let sz = msg_size msg in
      if sz = 0 then s
      else let to_read = min (unat sz) MAX_SSL_BUF_SIZE in
        if \<not> pull to_read then s
        else if to_read \<le> PLAIN_BUCKET_SMALL then emit_send PLAIN_BUCKET_SMALL env load msg meta stream s
        else if to_read \<le> PLAIN_BUCKET_MED then emit_send PLAIN_BUCKET_MED env load msg meta stream s
        else emit_send MAX_SSL_BUF_SIZE env load msg meta stream s)"

definition capture_recv ::
  "plain_env \<Rightarrow> (nat \<Rightarrow> bool) \<Rightarrow> bytes \<Rightarrow> event_metadata \<Rightarrow> u64 \<Rightarrow> plain_state \<Rightarrow> plain_state" where
  "capture_recv env load msg meta stream s =
     (let sz = msg_size msg in
      if sz = 0 then s
      else let to_read = min (unat sz) MAX_SSL_BUF_SIZE in
        if to_read \<le> PLAIN_BUCKET_SMALL then emit_recv PLAIN_BUCKET_SMALL env load msg meta stream s
        else if to_read \<le> PLAIN_BUCKET_MED then emit_recv PLAIN_BUCKET_MED env load msg meta stream s
        else emit_recv MAX_SSL_BUF_SIZE env load msg meta stream s)"

section \<open>Programs\<close>

definition plaintext_sockops :: "plain_env \<Rightarrow> sock_ops \<Rightarrow> plain_state \<Rightarrow> plain_state" where
  "plaintext_sockops env ctx s =
     (if so_op ctx = State_Cb then
        (if so_closes ctx then
           (let flow = raw_flow_key (so_flow ctx);
                s = (case p_conns s flow of None \<Rightarrow> s | Some meta \<Rightarrow> emit_close env flow meta s)
            in s\<lparr>p_conns := (p_conns s)(flow := None)\<rparr>)
         else s)
      else if so_op ctx \<noteq> Active_Established \<and> so_op ctx \<noteq> Passive_Established then s
      else if plain_endpoint_key (raw_remote_ip4 (so_flow ctx))
                (sock_ops_remote_port (raw_remote_port (so_flow ctx))) \<notin> p_endpoints s then s
      else
        (let meta = \<lparr>m_pid = ucast (drop_bit 32 (p_pid_tgid env)), m_pad = ucast (p_pid_tgid env),
                     m_cgroup = p_cgroup env, m_timestamp = 0\<rparr>;
             flow = raw_flow_key (so_flow ctx)
         in s\<lparr>p_conns := (if p_stores env PLAIN_CONNS then (p_conns s)(flow \<mapsto> meta) else p_conns s),
              p_socks := (if p_stores env PLAIN_SOCKS then insert (so_cookie ctx) (p_socks s) else p_socks s)\<rparr>))"

definition plaintext_skmsg ::
  "plain_env \<Rightarrow> raw_flow \<Rightarrow> (nat \<Rightarrow> bool) \<Rightarrow> (nat \<Rightarrow> bool) \<Rightarrow> bytes \<Rightarrow> plain_state \<Rightarrow> plain_state" where
  "plaintext_skmsg env raw pull load msg s =
     (let flow = raw_flow_key raw
      in case p_conns s flow of
           None \<Rightarrow> s
         | Some meta \<Rightarrow> capture_send env pull load msg meta (plain_stream_id flow) s)"

definition plaintext_skskb ::
  "plain_env \<Rightarrow> raw_flow \<Rightarrow> (nat \<Rightarrow> bool) \<Rightarrow> bytes \<Rightarrow> plain_state \<Rightarrow> plain_state" where
  "plaintext_skskb env raw load msg s =
     (let flow = raw_flow_key raw
      in case p_conns s flow of
           None \<Rightarrow> s
         | Some meta \<Rightarrow> capture_recv env load msg meta (plain_stream_id flow) s)"

end
