(* ===== verification/Plain_Props.thy ===== *)
theory Plain_Props
  imports Plain_Capture
begin

text \<open>
  What plaintext capture guarantees: keys that are exact, records that carry what they say, attributed
  to the task that connected, and no attribution past a close.
\<close>

section \<open>Keys\<close>

lemma stream_id_fields:
  "(ucast (drop_bit 32 (plain_stream_id k)) :: u32) = remote_ip4 k"
  "(ucast (drop_bit 16 (plain_stream_id k)) :: u16) = local_port k"
  "(ucast (plain_stream_id k) :: u16) = remote_port k"
  by (rule bit_word_eqI,
      auto simp: plain_stream_id_def bit_ucast_iff bit_drop_bit_eq bit_or_iff bit_push_bit_iff
        dest: bit_imp_le_length)+

lemma endpoint_key_fields:
  "(ucast (drop_bit 16 (plain_endpoint_key ip port)) :: u32) = ip"
  "(ucast (plain_endpoint_key ip port) :: u16) = port"
  by (rule bit_word_eqI,
      auto simp: plain_endpoint_key_def bit_ucast_iff bit_drop_bit_eq bit_or_iff bit_push_bit_iff
        dest: bit_imp_le_length)+

lemma less_16: "n < 16 \<Longrightarrow> n \<in> {0, 1, 2, 3, 4, 5, 6, 7, 8, 9, 10, 11, 12, 13, 14, 15 :: nat}"
  by (auto simp: less_Suc_eq numeral_eq_Suc)

lemma raw_port: "sock_ops_remote_port (push_bit 16 (ucast port)) = port"
proof (rule bit_word_eqI)
  fix n assume "n < LENGTH(16)"
  then have n: "n < 16" by simp
  have m: "(0xFF0000 :: u32) = push_bit 16 (mask 8)" "(0xFF00 :: u32) = push_bit 8 (mask 8)"
    by (simp_all add: mask_eq_exp_minus_1)
  have swap: "(ucast (swap32 (push_bit 16 (ucast port))) :: u16) = swap16 port"
    by (rule bit_word_eqI)
       (auto simp: swap32_def swap16_def m bit_ucast_iff bit_or_iff bit_and_iff bit_push_bit_iff
          bit_drop_bit_eq bit_mask_iff dest: bit_imp_le_length)
  have "bit (swap16 (swap16 port)) n = bit port n"
    using n by (auto simp: swap16_def bit_or_iff bit_push_bit_iff bit_drop_bit_eq dest: bit_imp_le_length)
  then show "bit (sock_ops_remote_port (push_bit 16 (ucast port))) n = bit port n"
    by (simp only: sock_ops_remote_port_def swap)
qed

text \<open>the packed keys are exact: two flows have one stream id only if they agree on remote address
  and both ports, two endpoints have one key only if they are the same, and the port the kernel
  unpacks from a socket's raw field is the one the agent's configuration packs.\<close>

lemma keys_are_exact:
  "(plain_stream_id a = plain_stream_id b \<longleftrightarrow>
      remote_ip4 a = remote_ip4 b \<and> local_port a = local_port b \<and> remote_port a = remote_port b) \<and>
   (plain_endpoint_key ip port = plain_endpoint_key ip' port' \<longleftrightarrow> ip = ip' \<and> port = port') \<and>
   sock_ops_remote_port (push_bit 16 (ucast port)) = port"
proof -
  have "plain_stream_id a = plain_stream_id b \<longleftrightarrow>
      remote_ip4 a = remote_ip4 b \<and> local_port a = local_port b \<and> remote_port a = remote_port b"
  proof
    assume "plain_stream_id a = plain_stream_id b"
    then show "remote_ip4 a = remote_ip4 b \<and> local_port a = local_port b \<and> remote_port a = remote_port b"
      using stream_id_fields [of a] stream_id_fields [of b] by metis
  qed (simp add: plain_stream_id_def)
  moreover have "plain_endpoint_key ip port = plain_endpoint_key ip' port' \<longleftrightarrow> ip = ip' \<and> port = port'"
    using endpoint_key_fields [of ip port] endpoint_key_fields [of ip' port'] by metis
  ultimately show ?thesis by (simp add: raw_port)
qed

section \<open>Records\<close>

definition plain_record ::
  "llm_direction \<Rightarrow> bytes \<Rightarrow> event_metadata \<Rightarrow> u64 \<Rightarrow> event_header \<times> bytes" where
  "plain_record dir msg meta stream =
     ((init_header meta (msg_size msg) dir (if unat (msg_size msg) > MAX_SSL_BUF_SIZE then 1 else 0) stream)
        \<lparr>h_buf_filled := 1\<rparr>,
      take (min (unat (msg_size msg)) MAX_SSL_BUF_SIZE) msg)"

lemmas bucket_sizes = PLAIN_BUCKET_SMALL_def PLAIN_BUCKET_MED_def MAX_SSL_BUF_SIZE_def

lemma capture_send_cases:
  "capture_send env pull load msg meta stream s \<in>
     {s, s\<lparr>p_ring := p_ring s @ [plain_record Write msg meta stream]\<rparr>}"
  by (auto simp: capture_send_def emit_send_def plain_submit_def plain_record_def Let_def bucket_sizes
      min_def not_le)

lemma capture_recv_cases:
  "capture_recv env load msg meta stream s \<in>
     {s, s\<lparr>p_ring := p_ring s @ [plain_record Read msg meta stream]\<rparr>}"
proof -
  have "max 1 (min n N) = n" if "n = min m N" "n \<noteq> 0" for n m N :: nat using that by simp
  then show ?thesis
    by (auto simp: capture_recv_def emit_recv_def plain_submit_def plain_record_def Let_def bucket_sizes
        min_def not_le)
qed

lemma msg_size_le: "unat (msg_size msg) \<le> length msg"
  by (simp add: msg_size_def unat_of_nat)

lemma plain_record_len:
  "length (snd (plain_record dir msg meta stream)) = payload_len (fst (plain_record dir msg meta stream))"
  using msg_size_le [of msg]
  by (auto simp: plain_record_def payload_len_def init_header_def MAX_SSL_BUF_SIZE_def min_def Let_def)

section \<open>Runs\<close>

datatype plain_op =
    SockOps plain_env sock_ops
  | SendMsg plain_env raw_flow "nat \<Rightarrow> bool" "nat \<Rightarrow> bool" bytes
  | RecvSkb plain_env raw_flow "nat \<Rightarrow> bool" bytes
  | Watch u64
  | Unwatch u64

fun plain_step :: "plain_state \<Rightarrow> plain_op \<Rightarrow> plain_state" where
  "plain_step s (SockOps env ctx) = plaintext_sockops env ctx s"
| "plain_step s (SendMsg env raw pull load msg) = plaintext_skmsg env raw pull load msg s"
| "plain_step s (RecvSkb env raw load msg) = plaintext_skskb env raw load msg s"
| "plain_step s (Watch key) = s\<lparr>p_endpoints := insert key (p_endpoints s)\<rparr>"
| "plain_step s (Unwatch key) = s\<lparr>p_endpoints := p_endpoints s - {key}\<rparr>"

text \<open>The connects to a watched endpoint in a run, as stream ids with the connecting task.\<close>

definition watched :: "plain_state \<Rightarrow> raw_flow \<Rightarrow> bool" where
  "watched s flow \<longleftrightarrow>
     plain_endpoint_key (raw_remote_ip4 flow) (sock_ops_remote_port (raw_remote_port flow)) \<in> p_endpoints s"

definition connecting_task :: "plain_env \<Rightarrow> event_metadata" where
  "connecting_task env =
     \<lparr>m_pid = ucast (drop_bit 32 (p_pid_tgid env)), m_pad = ucast (p_pid_tgid env),
      m_cgroup = p_cgroup env, m_timestamp = 0\<rparr>"

fun connects :: "plain_state \<Rightarrow> plain_op list \<Rightarrow> (plain_flow \<times> event_metadata) set" where
  "connects s [] = {}"
| "connects s (op # ops) =
     (case op of
        SockOps env ctx \<Rightarrow>
          (if (so_op ctx = Active_Established \<or> so_op ctx = Passive_Established) \<and> watched s (so_flow ctx)
           then {(raw_flow_key (so_flow ctx), connecting_task env)} else {})
      | _ \<Rightarrow> {}) \<union> connects (plain_step s op) ops"

definition attributed :: "(plain_flow \<times> event_metadata) set \<Rightarrow> plain_state \<Rightarrow> bool" where
  "attributed C s \<longleftrightarrow>
     list_all (\<lambda>(h, payload). length payload = payload_len h) (p_ring s) \<and>
     (\<lambda>(h, _). (h_ssl h, h_metadata h)) ` set (p_ring s) \<subseteq> (\<lambda>(f, m). (plain_stream_id f, m)) ` C \<and>
     {(f, m). p_conns s f = Some m} \<subseteq> C"

lemma attributed_mono: "attributed C s \<Longrightarrow> C \<subseteq> D \<Longrightarrow> attributed D s"
  unfolding attributed_def by (blast intro: subset_trans image_mono)

lemma attributed_connect:
  assumes "attributed C s"
  shows "attributed (insert (f, m) C) (s\<lparr>p_conns := (p_conns s)(f \<mapsto> m), p_socks := k\<rparr>)"
    and "attributed (insert (f, m) C) (s\<lparr>p_socks := k\<rparr>)"
proof -
  have D: "attributed (insert (f, m) C) s" using assms by (rule attributed_mono) blast
  then have "(f', m') \<in> insert (f, m) C" if "p_conns s f' = Some m'" for f' m'
    using that unfolding attributed_def by blast
  then have "{(f', m'). ((p_conns s)(f \<mapsto> m)) f' = Some m'} \<subseteq> insert (f, m) C"
    by (auto split: if_splits) blast+
  with D show "attributed (insert (f, m) C) (s\<lparr>p_conns := (p_conns s)(f \<mapsto> m), p_socks := k\<rparr>)"
    by (simp add: attributed_def)
  from D show "attributed (insert (f, m) C) (s\<lparr>p_socks := k\<rparr>)" by (simp add: attributed_def)
qed

lemma attributed_record:
  assumes "attributed C s" "p_conns s f = Some m" "h_ssl (fst r) = plain_stream_id f" "h_metadata (fst r) = m"
    "length (snd r) = payload_len (fst r)"
  shows "attributed C (s\<lparr>p_ring := p_ring s @ [r]\<rparr>)"
proof -
  have "(f, m) \<in> C" using assms(1,2) by (auto simp: attributed_def)
  then have "(plain_stream_id f, m) \<in> (\<lambda>(f, m). (plain_stream_id f, m)) ` C" by force
  then show ?thesis using assms by (cases r) (auto simp: attributed_def)
qed

lemma attributed_forget: "attributed C s \<Longrightarrow> attributed C (s\<lparr>p_conns := (p_conns s)(f := None)\<rparr>)"
  by (auto simp: attributed_def split: if_splits)

lemma attributed_endpoints [simp]: "attributed C (s\<lparr>p_endpoints := e\<rparr>) \<longleftrightarrow> attributed C s"
  by (simp add: attributed_def)

lemma attributed_sockops:
  assumes "attributed C s"
  shows "attributed (C \<union> connects s [SockOps env ctx]) (plaintext_sockops env ctx s)"
proof -
  have close: "attributed C (emit_close env f m s)" if "p_conns s f = Some m" for f m
    using attributed_record [OF assms that] assms
    by (simp add: emit_close_def plain_submit_def init_header_def payload_len_def)
  have conns: "p_conns (emit_close env f m s) = p_conns s" for f m
    by (simp add: emit_close_def plain_submit_def)
  show ?thesis
  proof (cases "so_op ctx = Active_Established \<or> so_op ctx = Passive_Established")
    case True
    then have op: "so_op ctx \<noteq> State_Cb" by auto
    show ?thesis
    proof (cases "watched s (so_flow ctx)")
      case w: True
      define f m where "f = raw_flow_key (so_flow ctx)" and "m = connecting_task env"
      have "plaintext_sockops env ctx s =
          s\<lparr>p_conns := (if p_stores env PLAIN_CONNS then (p_conns s)(f \<mapsto> m) else p_conns s),
            p_socks := (if p_stores env PLAIN_SOCKS then insert (so_cookie ctx) (p_socks s) else p_socks s)\<rparr>"
        using True op w
        by (auto simp: plaintext_sockops_def watched_def f_def m_def connecting_task_def Let_def)
      moreover have "C \<union> connects s [SockOps env ctx] = insert (f, m) C"
        using True w by (auto simp: f_def m_def)
      moreover have "s\<lparr>p_conns := p_conns s, p_socks := k\<rparr> = s\<lparr>p_socks := k\<rparr>" for k by simp
      ultimately show ?thesis
        using attributed_connect [OF assms, of f m] by (cases "p_stores env PLAIN_CONNS") simp_all
    next
      case False
      then have "plaintext_sockops env ctx s = s"
        using True op by (auto simp: plaintext_sockops_def watched_def)
      then show ?thesis using False assms by simp
    qed
  next
    case False
    have "attributed C (plaintext_sockops env ctx s)"
      using False assms attributed_forget [OF assms] attributed_forget [OF close]
      by (auto simp: plaintext_sockops_def Let_def conns split: option.split)
    then show ?thesis by (rule attributed_mono) simp
  qed
qed

lemma attributed_step:
  assumes "attributed C s"
  shows "attributed (C \<union> connects s [op]) (plain_step s op)"
proof (cases op)
  case (SendMsg env raw pull load msg)
  have "attributed C (plaintext_skmsg env raw pull load msg s)"
  proof (cases "p_conns s (raw_flow_key raw)")
    case (Some m)
    have "attributed C (s\<lparr>p_ring := p_ring s @ [plain_record Write msg m (plain_stream_id (raw_flow_key raw))]\<rparr>)"
      by (rule attributed_record [OF assms Some])
         (simp_all add: plain_record_len, simp_all add: plain_record_def init_header_def)
    with capture_send_cases [of env pull load msg m "plain_stream_id (raw_flow_key raw)" s] assms Some
    show ?thesis by (auto simp: plaintext_skmsg_def Let_def)
  qed (simp add: plaintext_skmsg_def assms)
  then show ?thesis using SendMsg by simp
next
  case (RecvSkb env raw load msg)
  have "attributed C (plaintext_skskb env raw load msg s)"
  proof (cases "p_conns s (raw_flow_key raw)")
    case (Some m)
    have "attributed C (s\<lparr>p_ring := p_ring s @ [plain_record Read msg m (plain_stream_id (raw_flow_key raw))]\<rparr>)"
      by (rule attributed_record [OF assms Some])
         (simp_all add: plain_record_len, simp_all add: plain_record_def init_header_def)
    with capture_recv_cases [of env load msg m "plain_stream_id (raw_flow_key raw)" s] assms Some
    show ?thesis by (auto simp: plaintext_skskb_def Let_def)
  qed (simp add: plaintext_skskb_def assms)
  then show ?thesis using RecvSkb by simp
qed (use attributed_sockops [OF assms] assms in simp_all)

definition plain_new :: "u64 set \<Rightarrow> plain_state" where
  "plain_new W = \<lparr>p_endpoints = W, p_conns = Map.empty, p_socks = {}, p_ring = []\<rparr>"

text \<open>plaintext records are attributed to whoever connected: after any connects, closes, sends,
  receives and configuration changes, every record's stream id and task are those of some connect to
  an endpoint watched at that moment, nothing else is in the attribution map, and every record
  carries exactly the payload its header claims.\<close>

lemma plaintext_is_attributed:
  "attributed (connects (plain_new W) ops) (foldl plain_step (plain_new W) ops)"
proof -
  have "attributed C s \<Longrightarrow> attributed (C \<union> connects s ops) (foldl plain_step s ops)" for C s
  proof (induction ops arbitrary: C s)
    case (Cons op ops)
    have "connects s (op # ops) = connects s [op] \<union> connects (plain_step s op) ops" by simp
    then show ?case
      using Cons.IH [OF attributed_step [OF Cons.prems, of op]] by (simp add: Un_assoc del: connects.simps)
  qed simp
  from this [of "{}" "plain_new W"] show ?thesis by (simp add: attributed_def plain_new_def)
qed

end
