(* ===== verification/Json_Value.thy ===== *)
theory Json_Value
  imports Byte_Utils
begin

text \<open>
  JSON values as \<open>serde_json::Value\<close> gives them, the dotted-path lookup on them
  (\<open>get_nested_value\<close> of byte_utils.rs), and the usage a response reports (types.rs). The parser is
  the library's: where the code parses, it is a parameter. An object is its members in order with
  unique keys; a number keeps the kind serde gives it, and token counts are \<open>u64\<close> values, here
  natural numbers with saturating sums at \<open>u64_max\<close>.
\<close>

section \<open>Values\<close>

datatype json_number = PosInt nat | NegInt int | Float u64

datatype json =
    Null
  | Bool bool
  | Number json_number
  | Str str
  | Array "json list"
  | Object "(str \<times> json) list"

definition json_get :: "json \<Rightarrow> str \<Rightarrow> json option" where
  "json_get v key = (case v of Object members \<Rightarrow> map_of members key | _ \<Rightarrow> None)"

definition as_str :: "json \<Rightarrow> str option" where
  "as_str v = (case v of Str s \<Rightarrow> Some s | _ \<Rightarrow> None)"

definition as_array :: "json \<Rightarrow> json list option" where
  "as_array v = (case v of Array xs \<Rightarrow> Some xs | _ \<Rightarrow> None)"

definition as_u64 :: "json \<Rightarrow> nat option" where
  "as_u64 v = (case v of Number (PosInt n) \<Rightarrow> Some n | _ \<Rightarrow> None)"

definition is_null :: "json \<Rightarrow> bool" where
  "is_null v = (case v of Null \<Rightarrow> True | _ \<Rightarrow> False)"

section \<open>Paths\<close>

text \<open>\<open>str::split\<close> at one character: always at least one part.\<close>

fun split_at :: "'a \<Rightarrow> 'a list \<Rightarrow> 'a list list" where
  "split_at c [] = [[]]"
| "split_at c (x # xs) =
     (if x = c then [] # split_at c xs
      else (x # hd (split_at c xs)) # tl (split_at c xs))"

primrec get_keys :: "json \<Rightarrow> str list \<Rightarrow> json option" where
  "get_keys current [] = Some current"
| "get_keys current (key # keys) =
     (case json_get current key of None \<Rightarrow> None | Some v \<Rightarrow> get_keys v keys)"

definition get_nested_value :: "json \<Rightarrow> str \<Rightarrow> json option" where
  "get_nested_value json path = get_keys json (split_at (CHR ''.'') path)"

section \<open>Usage\<close>

definition u64_max :: nat where
  "u64_max = 2 ^ 64 - 1"

definition sat_add :: "nat \<Rightarrow> nat \<Rightarrow> nat" where
  "sat_add a b = min (a + b) u64_max"

datatype usage_info = Usage_Info
  (prompt_tokens: nat)
  (completion_tokens: nat)
  (thoughts_tokens: "nat option")
  (cache_read_tokens: "nat option")
  (cache_write_tokens: "nat option")
  (cache_write_long_ttl_tokens: "nat option")
  (model: "str option")
  (service_tier: "str option")
  (speed: "str option")
  (inference_geo: "str option")
  (iterations: "usage_info list")
  (cost_suppressed: bool)

definition usage_default :: usage_info where
  "usage_default = Usage_Info 0 0 None None None None None None None None [] False"

text \<open>Assignments to single fields.\<close>

definition with_model :: "str option \<Rightarrow> usage_info \<Rightarrow> usage_info" where
  "with_model m u = (case u of Usage_Info p c t r w l _ st sp g its cs \<Rightarrow>
     Usage_Info p c t r w l m st sp g its cs)"

definition with_iterations :: "usage_info list \<Rightarrow> usage_info \<Rightarrow> usage_info" where
  "with_iterations its u = (case u of Usage_Info p c t r w l m st sp g _ cs \<Rightarrow>
     Usage_Info p c t r w l m st sp g its cs)"

definition with_suppressed :: "bool \<Rightarrow> usage_info \<Rightarrow> usage_info" where
  "with_suppressed b u = (case u of Usage_Info p c t r w l m st sp g its _ \<Rightarrow>
     Usage_Info p c t r w l m st sp g its b)"

lemma with_fields [simp]:
  "prompt_tokens (with_model m u) = prompt_tokens u"
  "completion_tokens (with_model m u) = completion_tokens u"
  "thoughts_tokens (with_model m u) = thoughts_tokens u"
  "cache_read_tokens (with_model m u) = cache_read_tokens u"
  "cache_write_tokens (with_model m u) = cache_write_tokens u"
  "cache_write_long_ttl_tokens (with_model m u) = cache_write_long_ttl_tokens u"
  "model (with_model m u) = m"
  "iterations (with_model m u) = iterations u"
  "cost_suppressed (with_model m u) = cost_suppressed u"
  "prompt_tokens (with_iterations its u) = prompt_tokens u"
  "completion_tokens (with_iterations its u) = completion_tokens u"
  "thoughts_tokens (with_iterations its u) = thoughts_tokens u"
  "cache_read_tokens (with_iterations its u) = cache_read_tokens u"
  "cache_write_tokens (with_iterations its u) = cache_write_tokens u"
  "cache_write_long_ttl_tokens (with_iterations its u) = cache_write_long_ttl_tokens u"
  "model (with_iterations its u) = model u"
  "iterations (with_iterations its u) = its"
  "cost_suppressed (with_iterations its u) = cost_suppressed u"
  "prompt_tokens (with_suppressed b u) = prompt_tokens u"
  "completion_tokens (with_suppressed b u) = completion_tokens u"
  "thoughts_tokens (with_suppressed b u) = thoughts_tokens u"
  "cache_read_tokens (with_suppressed b u) = cache_read_tokens u"
  "cache_write_tokens (with_suppressed b u) = cache_write_tokens u"
  "cache_write_long_ttl_tokens (with_suppressed b u) = cache_write_long_ttl_tokens u"
  "model (with_suppressed b u) = model u"
  "iterations (with_suppressed b u) = iterations u"
  "cost_suppressed (with_suppressed b u) = b"
  by (simp_all add: with_model_def with_iterations_def with_suppressed_def split: usage_info.split)

text \<open>\<open>SseChunkDelta\<close>: the members of a stream event that may carry usage.\<close>

record sse_chunk_delta =
  sd_usage :: "json option"
  sd_message :: "json option"
  sd_response :: "json option"
  sd_interaction :: "json option"

definition nested_usage :: "json option \<Rightarrow> json option" where
  "nested_usage v = (case v of None \<Rightarrow> None | Some m \<Rightarrow> json_get m ''usage'')"

definition has_usage :: "sse_chunk_delta \<Rightarrow> bool" where
  "has_usage d \<longleftrightarrow>
     sd_usage d \<noteq> None \<or> nested_usage (sd_message d) \<noteq> None \<or>
     (case nested_usage (sd_response d) of None \<Rightarrow> False | Some u \<Rightarrow> \<not> is_null u) \<or>
     (case nested_usage (sd_interaction d) of None \<Rightarrow> False | Some u \<Rightarrow> \<not> is_null u)"

section \<open>Lemmas\<close>

lemma split_at_nonempty [simp]: "split_at c xs \<noteq> []"
  by (cases xs) auto

lemma get_keys_append:
  "get_keys v (xs @ ys) = (case get_keys v xs of None \<Rightarrow> None | Some w \<Rightarrow> get_keys w ys)"
  by (induction xs arbitrary: v) (auto split: option.splits)

lemma sat_add_le [simp]: "sat_add a b \<le> u64_max" "sat_add a b \<le> a + b"
  by (simp_all add: sat_add_def)

end
