(* ===== verification/Rust_Map.thy ===== *)
theory Rust_Map
  imports Json_Value
begin

text \<open>
  Rust's maps as association lists with distinct keys: the order of the list stands for the map's
  iteration order, which nothing here depends on.
\<close>

section \<open>Operations\<close>

definition has_key :: "'k \<Rightarrow> ('k \<times> 'v) list \<Rightarrow> bool" where
  "has_key k m \<longleftrightarrow> map_of m k \<noteq> None"

definition remove_key :: "'k \<Rightarrow> ('k \<times> 'v) list \<Rightarrow> ('k \<times> 'v) list" where
  "remove_key k m = filter (\<lambda>(k', _). k' \<noteq> k) m"

text \<open>\<open>HashMap::insert\<close>: an equal key keeps its place and takes the new value.\<close>

fun put_key :: "'k \<Rightarrow> 'v \<Rightarrow> ('k \<times> 'v) list \<Rightarrow> ('k \<times> 'v) list" where
  "put_key k v [] = [(k, v)]"
| "put_key k v ((k', v') # m) = (if k' = k then (k, v) # m else (k', v') # put_key k v m)"

text \<open>\<open>Iterator::min_by_key\<close>: the first of the least.\<close>

fun min_by :: "('a \<Rightarrow> nat) \<Rightarrow> 'a list \<Rightarrow> 'a option" where
  "min_by f [] = None"
| "min_by f (x # xs) =
     (case min_by f xs of None \<Rightarrow> Some x | Some y \<Rightarrow> if f x \<le> f y then Some x else Some y)"

text \<open>\<open>Map::extend\<close>.\<close>

definition put_all :: "('k \<times> 'v) list \<Rightarrow> ('k \<times> 'v) list \<Rightarrow> ('k \<times> 'v) list" where
  "put_all kvs m = fold (\<lambda>(k, v). put_key k v) kvs m"

section \<open>Lemmas\<close>

definition distinct_keys :: "('k \<times> 'v) list \<Rightarrow> bool" where
  "distinct_keys m = distinct (map fst m)"

lemma has_key_iff: "has_key k m \<longleftrightarrow> k \<in> fst ` set m"
  by (auto simp: has_key_def map_of_eq_None_iff)

lemma map_of_put_key [simp]: "map_of (put_key k v m) = (map_of m)(k \<mapsto> v)"
  by (induction m) (auto simp: fun_eq_iff)

lemma keys_put_key [simp]: "fst ` set (put_key k v m) = insert k (fst ` set m)"
  by (induction k v m rule: put_key.induct) auto

lemma length_put_key: "length (put_key k v m) = (if has_key k m then length m else Suc (length m))"
  by (induction m) (auto simp: has_key_def)

lemma distinct_put_key: "distinct_keys m \<Longrightarrow> distinct_keys (put_key k v m)"
  unfolding distinct_keys_def
proof (induction m)
  case (Cons kv m)
  then show ?case
    using keys_put_key [of k v m] by (cases kv) (auto simp: image_iff)
qed simp

lemma map_of_remove_key: "map_of (remove_key k m) = (map_of m)(k := None)"
  by (induction m) (auto simp: remove_key_def fun_eq_iff)

lemma distinct_filter_keys: "distinct_keys m \<Longrightarrow> distinct_keys (filter P m)"
  unfolding distinct_keys_def by (induction m) auto

lemma length_remove_key:
  "distinct_keys m \<Longrightarrow> has_key k m \<Longrightarrow> Suc (length (remove_key k m)) = length m"
proof (induction m)
  case (Cons kv m)
  show ?case
  proof (cases "fst kv = k")
    case True
    with Cons.prems have "k \<notin> fst ` set m" by (auto simp: distinct_keys_def)
    then have "remove_key k m = m"
      unfolding remove_key_def by (intro filter_True) force
    with True show ?thesis by (simp add: remove_key_def case_prod_beta)
  next
    case False
    with Cons show ?thesis
      by (auto simp: remove_key_def case_prod_beta distinct_keys_def has_key_iff)
  qed
qed (simp add: has_key_def)

lemma min_by_None_iff: "min_by f xs = None \<longleftrightarrow> xs = []"
  by (cases xs) (auto split: option.splits)

lemma min_by_SomeD: "min_by f xs = Some y \<Longrightarrow> y \<in> set xs \<and> (\<forall>x \<in> set xs. f y \<le> f x)"
proof (induction xs arbitrary: y)
  case (Cons x xs)
  then show ?case
    by (cases "min_by f xs") (auto simp: min_by_None_iff split: if_splits intro: le_trans)
qed simp

lemma distinct_put_all: "distinct_keys m \<Longrightarrow> distinct_keys (put_all kvs m)"
  unfolding put_all_def by (induction kvs arbitrary: m) (auto intro: distinct_put_key)

end
