(* ===== verification/Background.thy ===== *)
theory Background
  imports Rust_Map "HOL-Library.Multiset"
begin

text \<open>
  Background calls waiting for the poll that carries their usage (agent, background.rs). The hash map
  is an association list whose order stands for the map's unspecified iteration order; instants are
  nanoseconds of the monotonic clock. The pod a call belongs to only labels metrics and is left out.
\<close>

section \<open>State and operations\<close>

definition MAX_CALLS :: nat where
  "MAX_CALLS = 4096"

definition IDLE_TTL :: nat where
  "IDLE_TTL = 3600 * 1000000000"

record pending_call =
  call_start :: nat
  call_pid :: u32
  last_seen :: nat

definition pending_call_new :: "nat \<Rightarrow> nat \<Rightarrow> u32 \<Rightarrow> pending_call" where
  "pending_call_new now start_time pid = \<lparr>call_start = start_time, call_pid = pid, last_seen = now\<rparr>"

type_synonym background_calls = "(str \<times> pending_call) list"

definition calls_insert :: "str \<Rightarrow> pending_call \<Rightarrow> background_calls \<Rightarrow> pending_call option \<times> background_calls" where
  "calls_insert rid call calls =
     (let (evicted, calls) =
        (if length calls \<ge> MAX_CALLS \<and> \<not> has_key rid calls
         then (case map_option fst (min_by (\<lambda>(_, c). last_seen c) calls) of
                 None \<Rightarrow> (None, calls)
               | Some k \<Rightarrow> (map_of calls k, remove_key k calls))
         else (None, calls))
      in (evicted, put_key rid call calls))"

definition calls_contains :: "str \<Rightarrow> background_calls \<Rightarrow> bool" where
  "calls_contains rid calls = has_key rid calls"

definition calls_touch :: "nat \<Rightarrow> str \<Rightarrow> background_calls \<Rightarrow> background_calls" where
  "calls_touch now rid calls =
     map (\<lambda>(k, c). if k = rid then (k, c\<lparr>last_seen := now\<rparr>) else (k, c)) calls"

definition calls_take :: "str \<Rightarrow> background_calls \<Rightarrow> pending_call option \<times> background_calls" where
  "calls_take rid calls = (map_of calls rid, remove_key rid calls)"

definition calls_expire :: "nat \<Rightarrow> background_calls \<Rightarrow> pending_call list \<times> background_calls" where
  "calls_expire now calls =
     (let idle = (\<lambda>(_, c). now - last_seen c \<ge> IDLE_TTL)
      in (map snd (filter idle calls), filter (\<lambda>kc. \<not> idle kc) calls))"

section \<open>Runs\<close>

text \<open>
  One operation of the agent on the calls: what it gives back (a taken, evicted or expired call) and
  what it overwrites without giving it back (an insert under an id already there).
\<close>

datatype call_op = Insert str pending_call | Touch nat str | Take str | Expire nat

definition call_step :: "call_op \<Rightarrow> background_calls \<Rightarrow> pending_call list \<times> pending_call list \<times> background_calls" where
  "call_step op calls =
     (case op of
        Insert k c \<Rightarrow>
          (let (evicted, calls') = calls_insert k c calls
           in (case evicted of None \<Rightarrow> [] | Some e \<Rightarrow> [e],
               case map_of calls k of None \<Rightarrow> [] | Some old \<Rightarrow> [old], calls'))
      | Touch now k \<Rightarrow> ([], [], calls_touch now k calls)
      | Take k \<Rightarrow> (let (taken, calls') = calls_take k calls
                 in (case taken of None \<Rightarrow> [] | Some c \<Rightarrow> [c], [], calls'))
      | Expire now \<Rightarrow> (let (gone, calls') = calls_expire now calls in (gone, [], calls')))"

fun call_run :: "call_op list \<Rightarrow> background_calls \<Rightarrow> pending_call list \<times> pending_call list \<times> background_calls" where
  "call_run [] calls = ([], [], calls)"
| "call_run (op # ops) calls =
     (let (gone, over, calls1) = call_step op calls;
          (gone', over', calls2) = call_run ops calls1
      in (gone @ gone', over @ over', calls2))"

definition calls_ok :: "background_calls \<Rightarrow> bool" where
  "calls_ok calls \<longleftrightarrow> distinct_keys calls \<and> length calls \<le> MAX_CALLS"

text \<open>A call's identity: what a poll's record is made of.\<close>

definition ident :: "pending_call \<Rightarrow> nat \<times> u32" where
  "ident c = (call_start c, call_pid c)"

definition idents :: "background_calls \<Rightarrow> (nat \<times> u32) multiset" where
  "idents calls = image_mset (\<lambda>(_, c). ident c) (mset calls)"

definition inserted :: "call_op list \<Rightarrow> (nat \<times> u32) multiset" where
  "inserted ops = mset (List.map_filter (\<lambda>op. case op of Insert _ c \<Rightarrow> Some (ident c) | _ \<Rightarrow> None) ops)"

lemma oldest_is_kept_key:
  assumes "min_by (\<lambda>(_, c). last_seen c) calls = Some kc" and "distinct_keys calls"
  shows "map_of calls (fst kc) = Some (snd kc)"
  using min_by_SomeD [OF assms(1)] assms(2) by (simp add: distinct_keys_def)

lemma calls_insert_cases:
  assumes "distinct_keys calls"
  obtains (room) "calls_insert k c calls = (None, put_key k c calls)"
      "length calls < MAX_CALLS \<or> has_key k calls"
  | (full) old e where "calls_insert k c calls = (Some e, put_key k c (remove_key old calls))"
      "length calls \<ge> MAX_CALLS" "\<not> has_key k calls" "map_of calls old = Some e"
      "\<forall>x \<in> set calls. last_seen e \<le> last_seen (snd x)"
proof (cases "length calls \<ge> MAX_CALLS \<and> \<not> has_key k calls")
  case True
  then have "calls \<noteq> []" by (auto simp: MAX_CALLS_def)
  then obtain kc where kc: "min_by (\<lambda>(_, c). last_seen c) calls = Some kc"
    by (cases "min_by (\<lambda>(_, c). last_seen c) calls") (auto simp: min_by_None_iff)
  then have "map_of calls (fst kc) = Some (snd kc)" by (rule oldest_is_kept_key [OF _ assms])
  moreover have "\<forall>x \<in> set calls. last_seen (snd kc) \<le> last_seen (snd x)"
    using min_by_SomeD [OF kc] by (auto simp: case_prod_beta)
  moreover have "calls_insert k c calls = (Some (snd kc), put_key k c (remove_key (fst kc) calls))"
    using True kc calculation(1) by (simp add: calls_insert_def)
  ultimately show thesis using True full by blast
next
  case False
  then show thesis using room by (auto simp: calls_insert_def not_le)
qed

lemma call_step_ok: "calls_ok calls \<Longrightarrow> calls_ok (snd (snd (call_step op calls)))"
proof (cases op)
  case (Insert k c)
  assume ok: "calls_ok calls"
  then have d: "distinct_keys calls" by (simp add: calls_ok_def)
  show ?thesis
    using d
  proof (cases rule: calls_insert_cases [of calls k c])
    case room
    with ok Insert show ?thesis
      by (auto simp: call_step_def calls_ok_def distinct_put_key length_put_key)
  next
    case (full old e)
    then have "Suc (length (remove_key old calls)) = length calls"
      using d by (intro length_remove_key) (auto simp: has_key_def)
    moreover have "distinct_keys (remove_key old calls)"
      unfolding remove_key_def using d by (rule distinct_filter_keys)
    ultimately show ?thesis
      using ok Insert full by (auto simp: call_step_def calls_ok_def distinct_put_key length_put_key)
  qed
qed (auto simp: call_step_def calls_ok_def calls_touch_def calls_take_def calls_expire_def remove_key_def
      distinct_keys_def Let_def comp_def case_prod_beta if_distrib [of fst] cong: if_cong
      intro: distinct_map_filter length_filter_le [THEN le_trans])

section \<open>Every call is accounted for\<close>

lemma idents_Cons [simp]: "idents ((k, c) # m) = add_mset (ident c) (idents m)"
  by (simp add: idents_def)

lemma idents_Nil [simp]: "idents [] = {#}"
  by (simp add: idents_def)

lemma idents_put_key:
  "(case map_of m k of None \<Rightarrow> {#} | Some old \<Rightarrow> {#ident old#}) + idents (put_key k c m) =
     add_mset (ident c) (idents m)"
  by (induction k c m rule: put_key.induct) (auto split: option.splits)

lemma remove_absent: "map_of m k = None \<Longrightarrow> remove_key k m = m"
  unfolding remove_key_def by (rule filter_True) (force simp: map_of_eq_None_iff)

lemma idents_remove_key:
  "distinct_keys m \<Longrightarrow>
     (case map_of m k of None \<Rightarrow> {#} | Some c \<Rightarrow> {#ident c#}) + idents (remove_key k m) = idents m"
proof (induction m)
  case (Cons kc m)
  obtain k' c where kc: "kc = (k', c)" by (cases kc)
  show ?case
  proof (cases "k' = k")
    case True
    with Cons.prems kc have "remove_key k m = m"
      by (intro remove_absent) (simp add: distinct_keys_def map_of_eq_None_iff)
    with True kc show ?thesis by (simp add: remove_key_def)
  next
    case False
    with Cons kc show ?thesis by (simp add: remove_key_def distinct_keys_def split: option.splits)
  qed
qed (simp add: remove_key_def)

lemma idents_partition: "mset (map ident (map snd (filter P m))) + idents (filter (\<lambda>x. \<not> P x) m) = idents m"
  by (induction m) (auto simp: idents_def)

lemma idents_touch: "idents (calls_touch now k m) = idents m"
  by (induction m) (auto simp: calls_touch_def idents_def ident_def)

lemma inserted_Cons:
  "inserted (op # ops) = (case op of Insert _ c \<Rightarrow> {#ident c#} | _ \<Rightarrow> {#}) + inserted ops"
  by (cases op) (auto simp: inserted_def map_filter_simps)

lemma call_step_accounts:
  assumes "calls_ok calls" and step: "call_step op calls = (gone, over, calls')"
  shows "(case op of Insert _ c \<Rightarrow> {#ident c#} | _ \<Rightarrow> {#}) + idents calls =
     mset (map ident gone) + mset (map ident over) + idents calls'"
proof (cases op)
  case (Insert k c)
  have d: "distinct_keys calls" using assms(1) by (simp add: calls_ok_def)
  show ?thesis
    using d
  proof (cases rule: calls_insert_cases [of calls k c])
    case room
    with Insert step idents_put_key [of calls k c] show ?thesis
      by (auto simp: call_step_def split: option.splits)
  next
    case (full old e)
    have "map_of calls k = None" using full(3) by (simp add: has_key_def)
    with Insert step full(1) have "gone = [e]" "over = []" "calls' = put_key k c (remove_key old calls)"
      by (simp_all add: call_step_def)
    moreover have "map_of (remove_key old calls) k = None"
      using full(3) by (simp add: map_of_remove_key has_key_def)
    then have "idents (put_key k c (remove_key old calls)) = add_mset (ident c) (idents (remove_key old calls))"
      using idents_put_key [of "remove_key old calls" k c] by simp
    ultimately show ?thesis
      using idents_remove_key [OF d, of old] full(4) Insert by simp
  qed
next
  case (Take k)
  with assms idents_remove_key [of calls k] show ?thesis
    by (auto simp: call_step_def calls_take_def calls_ok_def split: option.splits)
next
  case (Touch now k)
  with step show ?thesis by (simp add: call_step_def idents_touch [of now k calls, symmetric])
next
  case (Expire now)
  with step idents_partition [of "\<lambda>(_, c). now - last_seen c \<ge> IDLE_TTL" calls] show ?thesis
    by (simp add: call_step_def calls_expire_def Let_def case_prod_unfold)
qed

lemma call_run_accounts:
  "calls_ok calls \<Longrightarrow> call_run ops calls = (gone, over, kept) \<Longrightarrow>
     calls_ok kept \<and>
     inserted ops + idents calls = mset (map ident gone) + mset (map ident over) + idents kept"
proof (induction ops calls arbitrary: gone over kept rule: call_run.induct)
  case (2 op ops calls)
  obtain b o1 calls1 where step: "call_step op calls = (b, o1, calls1)"
    by (cases "call_step op calls") auto
  obtain b' o2 where run: "call_run ops calls1 = (b', o2, kept)" "gone = b @ b'" "over = o1 @ o2"
    using 2(3) step by (auto simp: case_prod_beta Let_def prod_eq_iff)
  have ok: "calls_ok calls1" using call_step_ok [OF 2(2), of op] step by simp
  have "inserted ops + idents calls1 = mset (map ident b') + mset (map ident o2) + idents kept"
    and "calls_ok kept"
    using 2(1) [OF step [symmetric] refl refl ok run(1)] by simp_all
  moreover have "x + n + c = (g1 + g2) + (o1 + o2) + k"
    if "x + c = g1 + o1 + c1" "n + c1 = g2 + o2 + k" for x n c c1 g1 g2 o1 o2 k :: "(nat \<times> u32) multiset"
  proof -
    have "x + n + c = n + (x + c)" by (simp only: ac_simps)
    also have "\<dots> = n + (g1 + o1 + c1)" by (simp only: that(1))
    also have "\<dots> = (g1 + o1) + (n + c1)" by (simp only: ac_simps)
    also have "\<dots> = (g1 + o1) + (g2 + o2 + k)" by (simp only: that(2))
    finally show ?thesis by (simp only: ac_simps)
  qed
  note this [OF call_step_accounts [OF 2(2) step]]
  ultimately show ?case
    by (simp only: inserted_Cons run map_append mset_append)
qed (simp add: inserted_def map_filter_simps)

section \<open>Property\<close>

text \<open>However the agent uses the background calls, each call ever inserted is in exactly one place: it
  was given back once (taken by its poll, evicted or expired), overwritten by an insert under its id, or
  is still kept. At most 4096 are kept, an insert evicts only when they are full and then one idle the
  longest, and after an expiry every call kept was polled within the hour.\<close>

lemma background_calls_accounted:
  "case call_run ops [] of (gone, over, kept) \<Rightarrow>
     inserted ops = mset (map ident gone) + mset (map ident over) + idents kept \<and>
     distinct_keys kept \<and> length kept \<le> MAX_CALLS \<and>
     (case calls_insert k c kept of
        (None, _) \<Rightarrow> length kept < MAX_CALLS \<or> calls_contains k kept
      | (Some e, _) \<Rightarrow>
          length kept = MAX_CALLS \<and> list_all (\<lambda>(_, x). last_seen e \<le> last_seen x) kept) \<and>
     list_all (\<lambda>(_, x). now - last_seen x < IDLE_TTL) (snd (calls_expire now kept))"
proof -
  obtain gone over kept where run: "call_run ops [] = (gone, over, kept)" by (metis prod_cases3)
  have "calls_ok kept"
    and "inserted ops = mset (map ident gone) + mset (map ident over) + idents kept"
    using call_run_accounts [OF _ run] by (simp_all add: calls_ok_def distinct_keys_def)
  moreover from this have "distinct_keys kept" by (simp add: calls_ok_def)
  then have "case calls_insert k c kept of
        (None, _) \<Rightarrow> length kept < MAX_CALLS \<or> calls_contains k kept
      | (Some e, _) \<Rightarrow>
          length kept \<ge> MAX_CALLS \<and> list_all (\<lambda>(_, x). last_seen e \<le> last_seen x) kept"
    by (cases rule: calls_insert_cases [of kept k c])
      (auto simp: calls_contains_def list_all_iff case_prod_beta)
  moreover have "list_all (\<lambda>(_, x). now - last_seen x < IDLE_TTL) (snd (calls_expire now kept))"
    by (auto simp: calls_expire_def list_all_iff Let_def)
  ultimately show ?thesis
    using run by (auto simp: calls_ok_def split: option.splits prod.splits)
qed

end
