(* ===== verification/Encoding.thy ===== *)
theory Encoding
  imports Byte_Utils
begin

text \<open>
  Content codings of response bodies (agent, http/encoding.rs). The decoders are libraries': a parameter
  gives, for one decoder on its input, the bytes it yields and whether it then ends in an error.
\<close>

definition MAX_RESPONSE_BUFFER_SIZE :: nat where
  "MAX_RESPONSE_BUFFER_SIZE = 16 * 1024 * 1024"

definition MAX_CODINGS :: nat where
  "MAX_CODINGS = 4"

text \<open>
  \<open>zstd_frame\<close> is one frame read through the limited window: refused, or the bytes it took of the
  input after the first (a frame takes its magic number at least), what it yields and whether it fails.
\<close>

record decoders =
  gunzip :: "bytes \<Rightarrow> bytes \<times> bool"
  zlib :: "bytes \<Rightarrow> bytes \<times> bool"
  raw_deflate :: "bytes \<Rightarrow> bytes \<times> bool"
  brotli :: "bytes \<Rightarrow> bytes \<times> bool"
  zstd_frame :: "bytes \<Rightarrow> (nat \<times> bytes \<times> bool) option"

section \<open>ASCII\<close>

definition to_ascii_lowercase :: "u8 \<Rightarrow> u8" where
  "to_ascii_lowercase b = (if 0x41 \<le> b \<and> b \<le> 0x5A then b + 0x20 else b)"

definition eq_ignore_ascii_case :: "bytes \<Rightarrow> bytes \<Rightarrow> bool" where
  "eq_ignore_ascii_case a b \<longleftrightarrow> map to_ascii_lowercase a = map to_ascii_lowercase b"

definition trim_ascii :: "bytes \<Rightarrow> bytes" where
  "trim_ascii bs = rev (dropWhile is_ascii_whitespace (rev (dropWhile is_ascii_whitespace bs)))"

text \<open>The parts of \<open>slice::split\<close>, at least one.\<close>

fun split_byte :: "'a \<Rightarrow> 'a list \<Rightarrow> 'a list list" where
  "split_byte c [] = [[]]"
| "split_byte c (x # xs) =
     (if x = c then [] # split_byte c xs
      else case split_byte c xs of p # ps \<Rightarrow> (x # p) # ps | [] \<Rightarrow> [[x]])"

section \<open>Codings\<close>

type_synonym headers = "(str \<times> bytes) list"

definition header_is :: "str \<Rightarrow> str \<times> bytes \<Rightarrow> bool" where
  "header_is name h \<longleftrightarrow> eq_ignore_ascii_case (as_bytes (fst h)) (as_bytes name)"

definition codings :: "headers \<Rightarrow> bytes list" where
  "codings hs =
     filter (\<lambda>c. c \<noteq> [] \<and> \<not> eq_ignore_ascii_case c (as_bytes ''identity''))
       (map trim_ascii
         (concat (map (\<lambda>h. split_byte 0x2C (snd h)) (filter (header_is ''Content-Encoding'') hs))))"

definition is_encoded :: "headers \<Rightarrow> bool" where
  "is_encoded hs \<longleftrightarrow> codings hs \<noteq> []"

text \<open>\<open>read_capped\<close>: at most one byte over the room left is read, then the length decides.\<close>

definition read_capped :: "bytes \<times> bool \<Rightarrow> bytes \<Rightarrow> bytes option" where
  "read_capped decoder out =
     (let (yielded, fails) = decoder;
          room = MAX_RESPONSE_BUFFER_SIZE - length out;
          read = take (room + 1) yielded
      in if fails \<and> length yielded < room + 1 then None
         else if length (out @ read) \<le> MAX_RESPONSE_BUFFER_SIZE then Some (out @ read) else None)"

function zstd_loop :: "decoders \<Rightarrow> bytes \<Rightarrow> bytes \<Rightarrow> bytes option" where
  "zstd_loop dec rest out =
     (if rest = [] then Some out
      else case zstd_frame dec rest of
        None \<Rightarrow> None
      | Some (n, yielded) \<Rightarrow>
          (case read_capped yielded out of
             None \<Rightarrow> None
           | Some out \<Rightarrow> zstd_loop dec (drop (Suc n) rest) out))"
  by pat_completeness auto
termination
  by (relation "measure (\<lambda>(dec, rest, out). length rest)") (auto simp: diff_less)

declare zstd_loop.simps [simp del]

definition decode_one :: "decoders \<Rightarrow> bytes \<Rightarrow> bytes \<Rightarrow> bytes option" where
  "decode_one dec body coding =
     (if eq_ignore_ascii_case coding (as_bytes ''gzip'') \<or> eq_ignore_ascii_case coding (as_bytes ''x-gzip'')
      then read_capped (gunzip dec body) []
      else if eq_ignore_ascii_case coding (as_bytes ''deflate'')
      then (case read_capped (zlib dec body) [] of
              Some out \<Rightarrow> Some out
            | None \<Rightarrow> read_capped (raw_deflate dec body) [])
      else if eq_ignore_ascii_case coding (as_bytes ''br'') then read_capped (brotli dec body) []
      else if eq_ignore_ascii_case coding (as_bytes ''zstd'') then zstd_loop dec body []
      else None)"

primrec decode_all :: "decoders \<Rightarrow> bytes list \<Rightarrow> bytes \<Rightarrow> bytes option" where
  "decode_all dec [] body = Some body"
| "decode_all dec (c # cs) body =
     (case decode_one dec body c of None \<Rightarrow> None | Some body \<Rightarrow> decode_all dec cs body)"

definition decode :: "decoders \<Rightarrow> bytes \<Rightarrow> headers \<Rightarrow> bytes option" where
  "decode dec body hs =
     (if length (codings hs) > MAX_CODINGS then None else decode_all dec (rev (codings hs)) body)"

section \<open>Lemmas\<close>

lemma read_capped_length: "read_capped d out = Some out' \<Longrightarrow> length out' \<le> MAX_RESPONSE_BUFFER_SIZE"
  by (auto simp: read_capped_def Let_def split: prod.splits if_splits)

lemma zstd_loop_length:
  "zstd_loop dec rest out = Some out' \<Longrightarrow> length out \<le> MAX_RESPONSE_BUFFER_SIZE \<Longrightarrow>
     length out' \<le> MAX_RESPONSE_BUFFER_SIZE"
proof (induction dec rest out rule: zstd_loop.induct)
  case (1 dec rest out)
  note run = 1(2) [unfolded zstd_loop.simps [of dec rest out]]
  show ?case
  proof (cases "rest = []")
    case False
    with run obtain n y out1 where "zstd_frame dec rest = Some (n, y)" "read_capped y out = Some out1"
        "zstd_loop dec (drop (Suc n) rest) out1 = Some out'"
      by (auto split: option.splits)
    with 1(1) [OF False this(1) refl this(2)] read_capped_length show ?thesis by blast
  qed (use run 1(3) in simp)
qed

lemma decode_one_length: "decode_one dec body c = Some out \<Longrightarrow> length out \<le> MAX_RESPONSE_BUFFER_SIZE"
  by (auto simp: decode_one_def split: if_splits option.splits dest: read_capped_length zstd_loop_length)

text \<open>No stage grows a body past the response cap, whatever the decoders yield.\<close>

lemma decode_length:
  assumes "decode dec body hs = Some out"
  shows "length out \<le> max (length body) MAX_RESPONSE_BUFFER_SIZE"
proof -
  have "decode_all dec cs body = Some out \<Longrightarrow> length out \<le> max (length body) MAX_RESPONSE_BUFFER_SIZE" for cs
    by (induction cs arbitrary: body) (fastforce split: option.splits dest: decode_one_length)+
  with assms show ?thesis by (auto simp: decode_def split: if_splits)
qed

end
