(* ===== verification/Providers.thy ===== *)
theory Providers
  imports Json_Value
begin

text \<open>
  The configured providers (honeybeepf-llm-core/src/providers/: config.rs, request.rs, usage.rs):
  which requests belong to a provider, and what its responses report. Reading a configuration file is
  serde's; the flat record it fills and its defaults are here.
\<close>

section \<open>Configuration\<close>

datatype request_extractor_type = Messages | Contents | Prompt | Input | NoExtractor

record token_config =
  usage_path :: str
  tc_prompt :: str
  tc_completion :: str
  completion_optional :: bool
  extra_prompt :: "str option"
  tc_thoughts :: "str option"
  completion_excludes_thoughts :: bool

record cache_config =
  cc_read :: "str option"
  cc_write :: "str option"
  cc_write_long :: "str option"
  prompt_excludes_cache :: bool

record pricing_config =
  service_tier_path :: "str option"
  pc_speed :: "str option"
  pc_geo :: "str option"
  billed_categories :: "str list option"

record identity_config =
  model_path :: str
  required_field :: "str option"
  iterations_path :: "str option"

record response_config =
  tokens :: token_config
  cache :: cache_config
  pricing :: pricing_config
  identity :: identity_config

record flat_response_config =
  f_usage_path :: str
  f_prompt_tokens :: str
  f_completion_tokens :: str
  f_completion_optional :: bool
  f_extra_prompt_tokens :: "str option"
  f_thoughts_tokens :: "str option"
  f_completion_excludes_thoughts :: bool
  f_cache_read_tokens :: "str option"
  f_cache_write_tokens :: "str option"
  f_cache_write_long_ttl_tokens :: "str option"
  f_speed :: "str option"
  f_inference_geo :: "str option"
  f_prompt_excludes_cache :: bool
  f_required_field :: "str option"
  f_model_path :: str
  f_service_tier_path :: "str option"
  f_iterations_path :: "str option"
  f_billed_categories :: "str list option"

definition response_config_from :: "flat_response_config \<Rightarrow> response_config" where
  "response_config_from flat =
     \<lparr>tokens = \<lparr>usage_path = f_usage_path flat, tc_prompt = f_prompt_tokens flat,
        tc_completion = f_completion_tokens flat, completion_optional = f_completion_optional flat,
        extra_prompt = f_extra_prompt_tokens flat, tc_thoughts = f_thoughts_tokens flat,
        completion_excludes_thoughts = f_completion_excludes_thoughts flat\<rparr>,
      cache = \<lparr>cc_read = f_cache_read_tokens flat, cc_write = f_cache_write_tokens flat,
        cc_write_long = f_cache_write_long_ttl_tokens flat,
        prompt_excludes_cache = f_prompt_excludes_cache flat\<rparr>,
      pricing = \<lparr>service_tier_path = f_service_tier_path flat, pc_speed = f_speed flat,
        pc_geo = f_inference_geo flat, billed_categories = f_billed_categories flat\<rparr>,
      identity = \<lparr>model_path = f_model_path flat, required_field = f_required_field flat,
        iterations_path = f_iterations_path flat\<rparr>\<rparr>"

definition token_config_default :: token_config where
  "token_config_default =
     \<lparr>usage_path = ''usage'', tc_prompt = ''prompt_tokens'', tc_completion = ''completion_tokens'',
      completion_optional = False, extra_prompt = None, tc_thoughts = None,
      completion_excludes_thoughts = False\<rparr>"

definition identity_config_default :: identity_config where
  "identity_config_default = \<lparr>model_path = ''model'', required_field = None, iterations_path = None\<rparr>"

definition response_config_default :: response_config where
  "response_config_default =
     \<lparr>tokens = token_config_default,
      cache = \<lparr>cc_read = None, cc_write = None, cc_write_long = None, prompt_excludes_cache = False\<rparr>,
      pricing = \<lparr>service_tier_path = None, pc_speed = None, pc_geo = None, billed_categories = None\<rparr>,
      identity = identity_config_default\<rparr>"

record plaintext_config =
  pt_port :: u16
  pt_namespace :: "str option"

record provider_config =
  p_name :: str
  p_hosts :: "str list"
  p_paths :: "str list"
  p_response :: response_config
  p_extractor :: request_extractor_type
  p_plaintext :: "plaintext_config option"

section \<open>Matching\<close>

definition ends_with_pattern :: "str \<Rightarrow> str \<Rightarrow> bool" where
  "ends_with_pattern s pattern =
     (case split_once (CHR ''*'') pattern of
        Some (head, tail) \<Rightarrow>
          (case strip_suffix s tail of None \<Rightarrow> False | Some rest \<Rightarrow> contains rest head)
      | None \<Rightarrow> ends_with s pattern)"

definition host_matches :: "str \<Rightarrow> str \<Rightarrow> bool" where
  "host_matches host pattern =
     (case split_once (CHR ''*'') pattern of
        Some (head, tail) \<Rightarrow>
          (let host = (case split_once (CHR '':'') host of None \<Rightarrow> host | Some (h, _) \<Rightarrow> h)
           in length host \<ge> length head + length tail \<and> starts_with host head \<and> ends_with host tail)
      | None \<Rightarrow> contains host pattern)"

definition path_matches :: "str \<Rightarrow> str \<Rightarrow> bool" where
  "path_matches path pattern =
     (case strip_suffix pattern ''$'' of
        Some suffix \<Rightarrow>
          (let path = (case split_once (CHR ''?'') path of None \<Rightarrow> path | Some (p, _) \<Rightarrow> p)
           in ends_with_pattern path suffix \<or>
              (case strip_suffix path ''/'' of
                 None \<Rightarrow> False | Some p \<Rightarrow> ends_with_pattern p suffix))
      | None \<Rightarrow> contains path pattern)"

definition provider_matches :: "provider_config \<Rightarrow> str \<Rightarrow> str \<Rightarrow> bool" where
  "provider_matches p host path \<longleftrightarrow>
     (p_hosts p = [] \<or> list_ex (host_matches host) (p_hosts p)) \<and>
     (p_paths p = [] \<or> list_ex (path_matches path) (p_paths p))"

section \<open>The registry\<close>

type_synonym registry = "provider_config list"

text \<open>The loop of \<open>merge\<close>: \<open>replaced\<close> is the user providers' names, \<open>rest\<close> those not placed yet.\<close>

fun merge_loop :: "str list \<Rightarrow> registry \<Rightarrow> registry \<Rightarrow> registry" where
  "merge_loop replaced [] rest = rest"
| "merge_loop replaced (p # ps) rest =
     (if p_name p \<notin> set replaced then p # merge_loop replaced ps rest
      else let (same, others) = partition (\<lambda>u. p_name u = p_name p) rest
           in same @ merge_loop replaced ps others)"

definition registry_merge :: "registry \<Rightarrow> registry \<Rightarrow> registry" where
  "registry_merge builtin user = merge_loop (map p_name user) builtin user"

definition find_provider :: "registry \<Rightarrow> str \<Rightarrow> str \<Rightarrow> provider_config option" where
  "find_provider reg host path =
     find (\<lambda>p. (p_hosts p = [] \<or> list_ex (host_matches host) (p_hosts p)) \<and>
               (p_paths p = [] \<or> list_ex (path_matches path) (p_paths p))) reg"

definition may_serve_host :: "registry \<Rightarrow> str \<Rightarrow> bool" where
  "may_serve_host reg host \<longleftrightarrow>
     list_ex (\<lambda>p. p_hosts p = [] \<or> list_ex (host_matches host) (p_hosts p)) reg"

section \<open>Request text\<close>

definition join_space :: "str list \<Rightarrow> str" where
  "join_space ts = concat (case ts of [] \<Rightarrow> [] | t # ts \<Rightarrow> t # map (\<lambda>t. '' '' @ t) ts)"

definition str_member :: "str \<Rightarrow> json \<Rightarrow> str list" where
  "str_member key v = (case Option.bind (json_get v key) as_str of None \<Rightarrow> [] | Some s \<Rightarrow> [s])"

definition message_texts :: "json list \<Rightarrow> str list" where
  "message_texts messages =
     concat (map (\<lambda>msg.
       case json_get msg ''content'' of
         None \<Rightarrow> []
       | Some content \<Rightarrow>
           (case as_str content of
              Some s \<Rightarrow> [s]
            | None \<Rightarrow>
                (case as_array content of
                   None \<Rightarrow> []
                 | Some blocks \<Rightarrow> concat (map (str_member ''text'') blocks)))) messages)"

definition array_member :: "str \<Rightarrow> json \<Rightarrow> json list" where
  "array_member key v = (case Option.bind (json_get v key) as_array of None \<Rightarrow> [] | Some xs \<Rightarrow> xs)"

definition extract_text :: "request_extractor_type \<Rightarrow> json \<Rightarrow> str" where
  "extract_text ty json =
     (case ty of
        Messages \<Rightarrow> join_space (message_texts (array_member ''messages'' json))
      | Contents \<Rightarrow>
          join_space (concat (map (\<lambda>content. concat (map (str_member ''text'') (array_member ''parts'' content)))
            (array_member ''contents'' json)))
      | Prompt \<Rightarrow> (case Option.bind (json_get json ''prompt'') as_str of None \<Rightarrow> [] | Some s \<Rightarrow> s)
      | Input \<Rightarrow>
          (case json_get json ''input'' of
             Some (Str s) \<Rightarrow> s
           | Some (Array items) \<Rightarrow> join_space (message_texts items)
           | _ \<Rightarrow> [])
      | NoExtractor \<Rightarrow> [])"

definition detect_request_json :: "provider_config \<Rightarrow> json \<Rightarrow> bool" where
  "detect_request_json p json \<longleftrightarrow> extract_text (p_extractor p) json \<noteq> []"

section \<open>Usage of a response\<close>

definition json_text :: "json \<Rightarrow> str \<Rightarrow> str option" where
  "json_text root path = Option.bind (get_nested_value root path) as_str"

definition optional_text :: "json \<Rightarrow> str option \<Rightarrow> str option" where
  "optional_text root path = Option.bind path (json_text root)"

definition optional_count :: "json \<Rightarrow> str option \<Rightarrow> nat option" where
  "optional_count root path = Option.bind (Option.bind path (get_nested_value root)) as_u64"

record token_counts =
  t_prompt :: nat
  t_completion :: nat
  t_thoughts :: "nat option"

record cache_counts =
  c_read :: "nat option"
  c_write :: "nat option"
  c_write_long :: "nat option"

definition or_zero :: "nat option \<Rightarrow> nat" where
  "or_zero v = (case v of None \<Rightarrow> 0 | Some n \<Rightarrow> n)"

definition read_tokens :: "token_config \<Rightarrow> json \<Rightarrow> token_counts option" where
  "read_tokens config usage =
     (case Option.bind (get_nested_value usage (tc_prompt config)) as_u64 of
        None \<Rightarrow> None
      | Some prompt \<Rightarrow>
          (case (case get_nested_value usage (tc_completion config) of
                   Some v \<Rightarrow> as_u64 v
                 | None \<Rightarrow> if completion_optional config then Some 0 else None) of
             None \<Rightarrow> None
           | Some completion \<Rightarrow>
               (let prompt = sat_add prompt (or_zero (optional_count usage (extra_prompt config)));
                    thoughts = optional_count usage (tc_thoughts config);
                    completion = (if completion_excludes_thoughts config
                                  then sat_add completion (or_zero thoughts) else completion)
                in Some \<lparr>t_prompt = prompt, t_completion = completion, t_thoughts = thoughts\<rparr>)))"

definition read_cache :: "cache_config \<Rightarrow> json \<Rightarrow> cache_counts" where
  "read_cache config usage =
     (let w = optional_count usage (cc_write config);
          write_long = (case (optional_count usage (cc_write_long config), w) of
                          (Some long, Some all) \<Rightarrow> Some (min long all)
                        | _ \<Rightarrow> None)
      in \<lparr>c_read = optional_count usage (cc_read config), c_write = w, c_write_long = write_long\<rparr>)"

definition read_usage :: "provider_config \<Rightarrow> json \<Rightarrow> json \<Rightarrow> usage_info option" where
  "read_usage p usage root =
     (let response = p_response p in
      case read_tokens (tokens response) usage of
        None \<Rightarrow> None
      | Some toks \<Rightarrow>
          (let c = read_cache (cache response) usage;
               prompt = (if prompt_excludes_cache (cache response)
                         then sat_add (sat_add (t_prompt toks) (or_zero (c_read c))) (or_zero (c_write c))
                         else t_prompt toks);
               pr = pricing response
           in Some (Usage_Info prompt (t_completion toks) (t_thoughts toks) (c_read c) (c_write c)
                (c_write_long c) (json_text root (model_path (identity response)))
                (optional_text root (service_tier_path pr)) (optional_text usage (pc_speed pr))
                (optional_text usage (pc_geo pr)) [] False)))"

definition is_own_usage :: "identity_config \<Rightarrow> json \<Rightarrow> bool" where
  "is_own_usage config usage =
     (case required_field config of None \<Rightarrow> True | Some field \<Rightarrow> get_nested_value usage field \<noteq> None)"

definition text_member :: "json \<Rightarrow> str \<Rightarrow> str option" where
  "text_member v key = Option.bind (json_get v key) as_str"

definition fallback_categories :: "json \<Rightarrow> (str \<times> str option) list" where
  "fallback_categories root =
     List.map_filter
       (\<lambda>b. case json_text b ''from.model'' of
              None \<Rightarrow> None
            | Some from_model \<Rightarrow> Some (from_model, json_text b ''trigger.category''))
       (filter (\<lambda>b. text_member b ''type'' = Some ''fallback'') (array_member ''content'' root))"

definition category_of :: "(str \<times> str option) list \<Rightarrow> str \<Rightarrow> str option" where
  "category_of blocks m =
     (case find (\<lambda>(from_model, _). from_model = m) blocks of None \<Rightarrow> None | Some (_, category) \<Rightarrow> category)"

definition is_billed_category :: "str option \<Rightarrow> str list \<Rightarrow> bool" where
  "is_billed_category category billed =
     (case category of None \<Rightarrow> False | Some c \<Rightarrow> c \<in> set billed)"

text \<open>One declined attempt of \<open>usage.iterations\<close>, when it has counts and a model.\<close>

definition read_attempt :: "provider_config \<Rightarrow> (str \<times> str option) list \<Rightarrow> json \<Rightarrow> usage_info option" where
  "read_attempt p categories entry =
     (case read_usage p entry entry of
        None \<Rightarrow> None
      | Some attempt \<Rightarrow>
          (if model attempt = None then None
           else Some
             (case billed_categories (pricing (p_response p)) of
                Some billed \<Rightarrow>
                  (if completion_tokens attempt = 0
                   then with_suppressed
                          (\<not> is_billed_category (Option.bind (model attempt) (category_of categories)) billed)
                          attempt
                   else attempt)
              | None \<Rightarrow> attempt)))"

definition parse_usage :: "provider_config \<Rightarrow> json \<Rightarrow> usage_info option" where
  "parse_usage p json =
     (let response = p_response p in
      case get_nested_value json (usage_path (tokens response)) of
        None \<Rightarrow> None
      | Some usage \<Rightarrow>
          (if \<not> is_own_usage (identity response) usage then None
           else case read_usage p usage json of
             None \<Rightarrow> None
           | Some info \<Rightarrow>
               Some
                 (case Option.bind (Option.bind (iterations_path (identity response)) (get_nested_value usage)) as_array of
                    None \<Rightarrow> info
                  | Some entries \<Rightarrow>
                      (if entries = [] \<or> text_member (last entries) ''type'' \<noteq> Some ''fallback_message''
                       then info
                       else
                         (let info = (case json_text (last entries) (model_path (identity response)) of
                                        None \<Rightarrow> info | Some m \<Rightarrow> with_model (Some m) info)
                          in with_iterations
                               (iterations info @
                                List.map_filter (read_attempt p (fallback_categories json)) (butlast entries))
                               info)))))"

end
