(* ===== verification/Llm_Body.thy ===== *)
theory Llm_Body
  imports Providers
begin

text \<open>
  JSON response and request bodies (agent, http/body.rs): usage through the provider list, the state of
  a background call, and request text, whole or from a cut body. serde_json's parser is the parameter
  \<open>serde\<close>; the provider list is the registry's, loaded once.
\<close>

section \<open>The parser\<close>

text \<open>
  \<open>serde_json::from_str\<close> at the types the agent reads: any value, the members of a stream event that
  may carry usage (\<open>SseChunkDelta\<close>), and the \<open>bytes\<close> of a Bedrock chunk. \<open>None\<close> is a parse error.
\<close>

record serde =
  from_str :: "str \<Rightarrow> json option"
  delta_from_str :: "str \<Rightarrow> sse_chunk_delta option"
  chunk_from_str :: "str \<Rightarrow> str option"

definition from_slice :: "serde \<Rightarrow> bytes \<Rightarrow> json option" where
  "from_slice sd bs = Option.bind (from_utf8 bs) (from_str sd)"

section \<open>Responses\<close>

definition is_object :: "json \<Rightarrow> bool" where
  "is_object v = (case v of Object _ \<Rightarrow> True | _ \<Rightarrow> False)"

definition is_responses_event :: "json \<Rightarrow> bool" where
  "is_responses_event val \<longleftrightarrow>
     json_get val ''usage'' = None \<and>
     (case json_get val ''response'' of None \<Rightarrow> False | Some r \<Rightarrow> is_object r)"

datatype background_state = Running str | Finished_Call | Cancelled

definition is_id_char :: "char \<Rightarrow> bool" where
  "is_id_char c \<longleftrightarrow>
     (let b = of_char c :: nat in
      48 \<le> b \<and> b \<le> 57 \<or> 65 \<le> b \<and> b \<le> 90 \<or> 97 \<le> b \<and> b \<le> 122 \<or> c = CHR ''_'' \<or> c = CHR ''-'')"

definition is_response_id :: "str \<Rightarrow> bool" where
  "is_response_id rid \<longleftrightarrow> 1 \<le> length rid \<and> length rid \<le> 128 \<and> list_all is_id_char rid"

definition as_bool :: "json \<Rightarrow> bool option" where
  "as_bool v = (case v of Bool b \<Rightarrow> Some b | _ \<Rightarrow> None)"

definition background_state :: "json \<Rightarrow> background_state option" where
  "background_state val =
     (if Option.bind (json_get val ''background'') as_bool \<noteq> Some True then None
      else case text_member val ''status'' of
        None \<Rightarrow> None
      | Some s \<Rightarrow>
          (if s \<in> {''queued'', ''in_progress''}
           then (case text_member val ''id'' of
                   None \<Rightarrow> None
                 | Some rid \<Rightarrow> if is_response_id rid then Some (Running rid) else None)
           else if s \<in> {''completed'', ''incomplete'', ''failed''} then Some Finished_Call
           else if s = ''cancelled'' then Some Cancelled
           else None))"

text \<open>The first provider whose usage the value has.\<close>

fun first_usage :: "registry \<Rightarrow> json \<Rightarrow> usage_info option" where
  "first_usage [] val = None"
| "first_usage (p # ps) val =
     (case parse_usage p val of Some info \<Rightarrow> Some info | None \<Rightarrow> first_usage ps val)"

definition parse_response_json_value :: "registry \<Rightarrow> json \<Rightarrow> usage_info option" where
  "parse_response_json_value reg val =
     (let is_error =
        (case json_get val ''error'' of None \<Rightarrow> False | Some e \<Rightarrow> \<not> is_null e) \<or>
        text_member val ''status'' = Some ''failed''
      in if is_error then Some usage_default else first_usage reg val)"

text \<open>The usage, and the state noted: a body that does not parse leaves what was noted before.\<close>

definition parse_response_json ::
  "serde \<Rightarrow> registry \<Rightarrow> str \<Rightarrow> background_state option \<Rightarrow> usage_info option \<times> background_state option" where
  "parse_response_json sd reg s background =
     (case from_str sd s of
        None \<Rightarrow> (None, background)
      | Some val \<Rightarrow> (parse_response_json_value reg val, background_state val))"

section \<open>Request text\<close>

text \<open>The value of a JSON string up to its quote, with its escapes undone; what there is of a cut one.\<close>

fun json_string_chars :: "str \<Rightarrow> bool \<Rightarrow> str \<Rightarrow> bool \<times> str" where
  "json_string_chars [] escape result = (False, result)"
| "json_string_chars (c # cs) escape result =
     (if escape
      then json_string_chars cs False
             (result @ [if c = CHR ''n'' then CHR 0x0A else if c = CHR ''t'' then CHR 0x09 else c])
      else if c = CHR 0x5C then json_string_chars cs True result
      else if c = CHR 0x22 then (True, result)
      else json_string_chars cs False (result @ [c]))"

definition extract_json_string :: "str \<Rightarrow> str option" where
  "extract_json_string s =
     (case json_string_chars s False [] of
        (True, result) \<Rightarrow> Some result
      | (False, result) \<Rightarrow> if result \<noteq> [] then Some result else None)"

lemma find_sub_bound: "find_sub p s = Some i \<Longrightarrow> i + length p \<le> length s"
  by (induction s arbitrary: i) (auto split: if_splits dest: starts_with_length)

text \<open>The loop over one pattern, on what follows its position; the patterns are never empty.\<close>

function pattern_texts :: "str \<Rightarrow> str \<Rightarrow> str list" where
  "pattern_texts pattern json =
     (if pattern = [] then []
      else case find_sub pattern json of
        None \<Rightarrow> []
      | Some idx \<Rightarrow>
          (let after = drop (idx + length pattern) json; rest = trim_start after in
           (if starts_with rest [CHR 0x22]
            then (case extract_json_string (drop 1 rest) of
                    None \<Rightarrow> []
                  | Some t \<Rightarrow> if length t > 10 then [t] else [])
            else [])
           @ pattern_texts pattern after))"
  by pat_completeness auto
termination
  by (relation "measure (\<lambda>(pattern, json). length json)")
     (auto dest!: find_sub_bound intro!: diff_less)

declare pattern_texts.simps [simp del]

definition extract_text_from_incomplete_json :: "str \<Rightarrow> str" where
  "extract_text_from_incomplete_json json =
     (let q = [CHR 0x22]
      in join_space (concat (map (\<lambda>p. pattern_texts p json)
           [q @ ''text'' @ q @ '':'', q @ ''content'' @ q @ '':''])))"

fun detected_text :: "registry \<Rightarrow> json \<Rightarrow> str option" where
  "detected_text [] val = None"
| "detected_text (p # ps) val =
     (let t = extract_text (p_extractor p) val
      in if detect_request_json p val \<and> t \<noteq> [] then Some t else detected_text ps val)"

fun any_text :: "registry \<Rightarrow> json \<Rightarrow> str option" where
  "any_text [] val = None"
| "any_text (p # ps) val =
     (let t = extract_text (p_extractor p) val in if t \<noteq> [] then Some t else any_text ps val)"

definition extract_text_from_json :: "serde \<Rightarrow> registry \<Rightarrow> str \<Rightarrow> str" where
  "extract_text_from_json sd reg json =
     (case Option.bind (from_str sd json)
             (\<lambda>val. case detected_text reg val of Some t \<Rightarrow> Some t | None \<Rightarrow> any_text reg val) of
        Some t \<Rightarrow> t
      | None \<Rightarrow> extract_text_from_incomplete_json json)"

end
