(* ===== verification/Sse.thy ===== *)
theory Sse
  imports Llm_Body Rust_Map
begin

text \<open>
  Server-sent event bodies (agent, http/sse.rs): the cursor over the complete lines of a body, the end
  of the stream, and the usage merged across its events. The cursor is an incremental reader: it is
  left the same however the body was cut.
\<close>

section \<open>Lines\<close>

text \<open>\<open>str::lines\<close>: a line ends at a newline, with a carriage return before it left out.\<close>

function lines :: "str \<Rightarrow> str list" where
  "lines s =
     (if s = [] then []
      else case split_once (CHR 0x0A) s of
        None \<Rightarrow> [s]
      | Some (a, b) \<Rightarrow> (case strip_suffix a [CHR 0x0D] of None \<Rightarrow> a | Some a' \<Rightarrow> a') # lines b)"
  by pat_completeness auto
termination
  by (relation "measure length") (auto simp: split_once_Some_iff)

declare lines.simps [simp del]

section \<open>Merging events\<close>

text \<open>One member of a later event, over the accumulated object.\<close>

definition merge_member :: "str \<times> json \<Rightarrow> (str \<times> json) list \<Rightarrow> (str \<times> json) list" where
  "merge_member kv acc =
     (let (key, value) = kv
      in put_key key
           (case map_of acc key of
              Some (Object prev) \<Rightarrow>
                (case value of
                   Object new \<Rightarrow> Object (put_all (filter (\<lambda>(_, v). \<not> is_null v) new) prev)
                 | _ \<Rightarrow> value)
            | _ \<Rightarrow> value)
           acc)"

definition merge_sse_event :: "json \<Rightarrow> json \<Rightarrow> json" where
  "merge_sse_event acc update =
     (case (acc, update) of
        (Object a, Object u) \<Rightarrow> Object (fold merge_member u a)
      | _ \<Rightarrow> acc)"

definition member_has_usage :: "json \<Rightarrow> str \<Rightarrow> bool" where
  "member_has_usage val key =
     (case json_get val key of None \<Rightarrow> False | Some m \<Rightarrow> json_get m ''usage'' \<noteq> None)"

definition unwrap_event :: "json \<Rightarrow> json" where
  "unwrap_event val =
     (let member = (\<lambda>key. case json_get val key of None \<Rightarrow> Null | Some m \<Rightarrow> m)
      in if member_has_usage val ''message'' then member ''message''
         else if is_responses_event val then member ''response''
         else if member_has_usage val ''interaction'' then member ''interaction''
         else val)"

definition merge_usage_event :: "json option \<Rightarrow> json \<Rightarrow> json option" where
  "merge_usage_event acc val =
     (let val = unwrap_event val
      in case acc of Some prev \<Rightarrow> Some (merge_sse_event prev val) | None \<Rightarrow> Some val)"

section \<open>The cursor\<close>

definition SSE_END_MARKERS :: "str list" where
  "SSE_END_MARKERS =
     map (\<lambda>m. CHR 0x22 # m @ [CHR 0x22])
       [''finish_reason'', ''message_stop'', ''finishReason'', ''blockReason'', ''response.completed'',
        ''response.failed'', ''response.incomplete'', ''interaction.completed'']"

definition MAX_FALLBACK_BLOCKS :: nat where
  "MAX_FALLBACK_BLOCKS = 64"

record sse_cursor =
  sc_partial :: bytes
  sc_ended :: bool
  sc_done :: bool
  sc_acc :: "json option"
  sc_fallbacks :: "json list"

definition sse_cursor_default :: sse_cursor where
  "sse_cursor_default =
     \<lparr>sc_partial = [], sc_ended = False, sc_done = False, sc_acc = None, sc_fallbacks = []\<rparr>"

text \<open>The fallback block of a \<open>content_block_start\<close> event.\<close>

definition fallback_block :: "serde \<Rightarrow> str \<Rightarrow> json option" where
  "fallback_block sd data =
     (if \<not> contains data (CHR 0x22 # ''fallback'' @ [CHR 0x22]) then None
      else case from_str sd data of
        None \<Rightarrow> None
      | Some v \<Rightarrow>
          (if text_member v ''type'' \<noteq> Some ''content_block_start'' then None
           else case json_get v ''content_block'' of
             None \<Rightarrow> None
           | Some b \<Rightarrow> if text_member b ''type'' = Some ''fallback'' then Some b else None))"

definition is_usage_event :: "serde \<Rightarrow> str \<Rightarrow> bool" where
  "is_usage_event sd data =
     (case delta_from_str sd data of
        None \<Rightarrow> False
      | Some chunk \<Rightarrow>
          has_usage chunk \<or>
          (case sd_response chunk of
             None \<Rightarrow> False
           | Some r \<Rightarrow> text_member r ''status'' = Some ''failed''))"

text \<open>The body of the loop over lines.\<close>

definition read_line :: "serde \<Rightarrow> str \<Rightarrow> sse_cursor \<Rightarrow> sse_cursor" where
  "read_line sd raw cursor =
     (let line = trim raw;
          cursor =
            (if line = ''data: [DONE]'' then cursor\<lparr>sc_ended := True, sc_done := True\<rparr>
             else if \<not> sc_ended cursor \<and> list_ex (contains line) SSE_END_MARKERS
             then cursor\<lparr>sc_ended := True\<rparr>
             else cursor)
      in if sc_done cursor \<or> \<not> starts_with line ''data: '' then cursor
         else
           (let data = drop (length ''data: '') line;
                cursor =
                  (if length (sc_fallbacks cursor) < MAX_FALLBACK_BLOCKS
                   then (case fallback_block sd data of
                           None \<Rightarrow> cursor
                         | Some b \<Rightarrow> cursor\<lparr>sc_fallbacks := sc_fallbacks cursor @ [b]\<rparr>)
                   else cursor)
            in if \<not> is_usage_event sd data then cursor
               else case from_str sd data of
                 None \<Rightarrow> cursor
               | Some val \<Rightarrow> cursor\<lparr>sc_acc := merge_usage_event (sc_acc cursor) val\<rparr>))"

definition read_lines :: "serde \<Rightarrow> sse_cursor \<Rightarrow> bytes \<Rightarrow> sse_cursor" where
  "read_lines sd cursor bs = fold (read_line sd) (lines (from_utf8_lossy bs)) cursor"

text \<open>\<open>Iterator::rposition\<close>.\<close>

definition rposition :: "('a \<Rightarrow> bool) \<Rightarrow> 'a list \<Rightarrow> nat option" where
  "rposition P xs = map_option (\<lambda>i. length xs - 1 - i) (position P (rev xs))"

definition sse_feed :: "serde \<Rightarrow> sse_cursor \<Rightarrow> bytes \<Rightarrow> sse_cursor" where
  "sse_feed sd cursor bs =
     (case rposition (\<lambda>b. b = 0x0A) bs of
        None \<Rightarrow> cursor\<lparr>sc_partial := sc_partial cursor @ bs\<rparr>
      | Some i \<Rightarrow>
          (let complete = take (i + 1) bs; rest = drop (i + 1) bs
           in if sc_partial cursor = []
              then (let cursor = read_lines sd cursor complete
                    in cursor\<lparr>sc_partial := sc_partial cursor @ rest\<rparr>)
              else (let joined = sc_partial cursor @ complete;
                        cursor = read_lines sd (cursor\<lparr>sc_partial := []\<rparr>) joined
                    in cursor\<lparr>sc_partial := [] @ rest\<rparr>)))"

definition partial_len :: "sse_cursor \<Rightarrow> nat" where
  "partial_len cursor = length (sc_partial cursor)"

definition sse_usage :: "registry \<Rightarrow> sse_cursor \<Rightarrow> usage_info option" where
  "sse_usage reg cursor =
     (if \<not> sc_ended cursor then None
      else if sc_fallbacks cursor = [] then Option.bind (sc_acc cursor) (parse_response_json_value reg)
      else case sc_acc cursor of
        None \<Rightarrow> None
      | Some acc \<Rightarrow>
          (case Option.bind (json_get acc ''content'') as_array of
             Some content \<Rightarrow>
               (case acc of
                  Object ms \<Rightarrow>
                    parse_response_json_value reg
                      (Object (put_key ''content'' (Array (content @ sc_fallbacks cursor)) ms))
                | _ \<Rightarrow> None)
           | None \<Rightarrow>
               (case acc of
                  Object ms \<Rightarrow>
                    parse_response_json_value reg
                      (Object (put_key ''content'' (Array (sc_fallbacks cursor)) ms))
                | _ \<Rightarrow> None)))"

definition parse_sse_body :: "serde \<Rightarrow> registry \<Rightarrow> bytes \<Rightarrow> usage_info option" where
  "parse_sse_body sd reg body = sse_usage reg (sse_feed sd sse_cursor_default body)"

end
