(* ===== verification/Event_Stream.thy ===== *)
theory Event_Stream
  imports Sse
begin

text \<open>
  AWS event stream bodies (agent, http/eventstream.rs): CRC-checked binary messages, the headers that
  name them, base64 chunks of a model's own events, and the cursor over the messages of one body. The
  CRC-32 is flate2's, the parameter \<open>crc32\<close>. The cursor's scratch buffer for decoded chunks is cleared
  before every use and is not part of its state.
\<close>

definition PRELUDE_LEN :: nat where
  "PRELUDE_LEN = 12"

definition CRC_LEN :: nat where
  "CRC_LEN = 4"

definition MAX_MESSAGE_LEN :: nat where
  "MAX_MESSAGE_LEN = 16 * 1024 * 1024"

definition HEADER_STRING :: u8 where
  "HEADER_STRING = 7"

definition INVOCATION_METRICS :: str where
  "INVOCATION_METRICS = ''amazon-bedrock-invocationMetrics''"

datatype stream_progress = Stream_Open | Stream_Ended | Stream_Failed | Stream_Broken

record event_cursor =
  ec_partial :: bytes
  ec_progress :: stream_progress
  ec_acc :: "json option"

definition event_cursor_default :: event_cursor where
  "event_cursor_default = \<lparr>ec_partial = [], ec_progress = Stream_Open, ec_acc = None\<rparr>"

section \<open>Messages\<close>

datatype message_frame = Frame_Partial | Frame_Broken | Frame_Message nat bytes bytes

definition be_word :: "bytes \<Rightarrow> nat \<Rightarrow> u32" where
  "be_word bs at =
     or (push_bit 24 (ucast (bs ! at))) (or (push_bit 16 (ucast (bs ! (at + 1))))
       (or (push_bit 8 (ucast (bs ! (at + 2)))) (ucast (bs ! (at + 3)))))"

definition be_bytes :: "u32 \<Rightarrow> bytes" where
  "be_bytes w = [ucast (drop_bit 24 w), ucast (drop_bit 16 w), ucast (drop_bit 8 w), ucast w]"

definition next_message :: "(bytes \<Rightarrow> u32) \<Rightarrow> bytes \<Rightarrow> message_frame" where
  "next_message crc32 buf =
     (if length buf < PRELUDE_LEN then Frame_Partial
      else
        (let prelude = take PRELUDE_LEN buf;
             total = unat (be_word prelude 0);
             headers_len = unat (be_word prelude 4)
         in if crc32 (take 8 prelude) \<noteq> be_word prelude 8 \<or>
               \<not> (PRELUDE_LEN + CRC_LEN \<le> total \<and> total \<le> MAX_MESSAGE_LEN) \<or>
               headers_len > total - PRELUDE_LEN - CRC_LEN
            then Frame_Broken
            else if length buf < total then Frame_Partial
            else
              (let message = take total buf;
                   checked = take (total - CRC_LEN) message;
                   crc = drop (total - CRC_LEN) message
               in if be_bytes (crc32 checked) \<noteq> crc then Frame_Broken
                  else
                    (let rest = drop PRELUDE_LEN checked
                     in Frame_Message total (take headers_len rest) (drop headers_len rest)))))"

text \<open>How long the value of a header of this kind is, from the bytes that follow the kind.\<close>

definition header_value_len :: "u8 \<Rightarrow> bytes \<Rightarrow> nat option" where
  "header_value_len kind rest =
     (if kind \<in> {0, 1} then Some 0
      else if kind = 2 then Some 1
      else if kind = 3 then Some 2
      else if kind = 4 then Some 4
      else if kind \<in> {5, 8} then Some 8
      else if kind = 9 then Some 16
      else if kind \<in> {6, HEADER_STRING}
      then (case rest of
              a # b # _ \<Rightarrow> Some (2 + unat (or (push_bit 8 (ucast a)) (ucast b) :: u16))
            | _ \<Rightarrow> None)
      else None)"

function header :: "bytes \<Rightarrow> str \<Rightarrow> bytes option" where
  "header [] name = None"
| "header (name_len # rest) name =
     (if length rest < unat name_len then None
      else
        (let key = take (unat name_len) rest in
         case drop (unat name_len) rest of
           [] \<Rightarrow> None
         | kind # rest \<Rightarrow>
             (case header_value_len kind rest of
                None \<Rightarrow> None
              | Some value_len \<Rightarrow>
                  (if length rest < value_len then None
                   else if key = as_bytes name
                   then (let v = take value_len rest
                         in if kind = HEADER_STRING
                            then (if 2 \<le> length v then Some (drop 2 v) else None)
                            else None)
                   else header (drop value_len rest) name))))"
  by pat_completeness auto
termination
  by (relation "measure (\<lambda>(headers, name). length headers)")
     (auto dest!: arg_cong [where f = length] simp: less_Suc_eq_le)

section \<open>Base64\<close>

definition sextet :: "u8 \<Rightarrow> u8 option" where
  "sextet c =
     (if 0x41 \<le> c \<and> c \<le> 0x5A then Some (c - 0x41)
      else if 0x61 \<le> c \<and> c \<le> 0x7A then Some (c - 0x61 + 26)
      else if 0x30 \<le> c \<and> c \<le> 0x39 then Some (c - 0x30 + 52)
      else if c = 0x2B then Some 62
      else if c = 0x2F then Some 63
      else None)"

text \<open>The loop: the bits read so far, how many of them are held, and the output.\<close>

fun base64_loop :: "bytes \<Rightarrow> u32 \<Rightarrow> nat \<Rightarrow> bytes \<Rightarrow> bytes option" where
  "base64_loop [] bits held out = Some out"
| "base64_loop (c # cs) bits held out =
     (case sextet c of
        None \<Rightarrow> None
      | Some s \<Rightarrow>
          (let bits = or (push_bit 6 bits) (ucast s);
               held = held + 6
           in if held \<ge> 8
              then base64_loop cs bits (held - 8) (out @ [ucast (drop_bit (held - 8) bits)])
              else base64_loop cs bits held out))"

definition decode_base64 :: "bytes \<Rightarrow> bytes option" where
  "decode_base64 t = base64_loop (takeWhile (\<lambda>c. c \<noteq> 0x3D) t) 0 0 []"

section \<open>The cursor\<close>

definition read_chunk :: "serde \<Rightarrow> bytes \<Rightarrow> event_cursor \<Rightarrow> event_cursor" where
  "read_chunk sd payload cursor =
     (case Option.bind (from_utf8 payload) (chunk_from_str sd) of
        None \<Rightarrow> cursor
      | Some chunk \<Rightarrow>
          (case decode_base64 (as_bytes chunk) of
             None \<Rightarrow> cursor
           | Some decoded \<Rightarrow>
               (if \<not> contains_pattern decoded (as_bytes ''usage'') \<and>
                   \<not> contains_pattern decoded (as_bytes INVOCATION_METRICS)
                then cursor
                else
                  (case from_slice sd decoded of
                     None \<Rightarrow> cursor
                   | Some event \<Rightarrow>
                       (let metrics = json_get event INVOCATION_METRICS;
                            event = (case event of
                                       Object ms \<Rightarrow> Object (remove_key INVOCATION_METRICS ms)
                                     | _ \<Rightarrow> event);
                            cursor =
                              (if json_get event ''usage'' \<noteq> None \<or> member_has_usage event ''message''
                               then cursor\<lparr>ec_acc := merge_usage_event (ec_acc cursor) event\<rparr>
                               else cursor)
                        in case metrics of
                             None \<Rightarrow> cursor
                           | Some m \<Rightarrow>
                               (let acc = (case ec_acc cursor of None \<Rightarrow> Object [] | Some a \<Rightarrow> a);
                                    acc = (case acc of
                                             Object ms \<Rightarrow> Object (put_key INVOCATION_METRICS m ms)
                                           | _ \<Rightarrow> acc)
                                in cursor\<lparr>ec_acc := Some acc, ec_progress := Stream_Ended\<rparr>))))))"

definition read_message :: "serde \<Rightarrow> bytes \<Rightarrow> bytes \<Rightarrow> event_cursor \<Rightarrow> event_cursor" where
  "read_message sd headers payload cursor =
     (if header headers '':message-type'' \<in> {Some (as_bytes ''exception''), Some (as_bytes ''error'')}
      then cursor\<lparr>ec_progress := Stream_Failed\<rparr>
      else if header headers '':event-type'' = Some (as_bytes ''chunk'') then read_chunk sd payload cursor
      else if header headers '':event-type'' = Some (as_bytes ''metadata'')
      then
        (let cursor =
           (case from_slice sd payload of
              None \<Rightarrow> cursor
            | Some event \<Rightarrow> cursor\<lparr>ec_acc := merge_usage_event (ec_acc cursor) event\<rparr>)
         in cursor\<lparr>ec_progress := Stream_Ended\<rparr>)
      else cursor)"

lemma next_message_len: "next_message crc32 buf = Frame_Message len h p \<Longrightarrow> 16 \<le> len \<and> len \<le> length buf"
  by (auto simp: next_message_def Let_def PRELUDE_LEN_def CRC_LEN_def split: if_splits)

text \<open>The loop of \<open>read_messages\<close> on what is left of the buffer: the cursor and the bytes used.\<close>

function read_messages :: "serde \<Rightarrow> (bytes \<Rightarrow> u32) \<Rightarrow> event_cursor \<Rightarrow> bytes \<Rightarrow> event_cursor \<times> nat" where
  "read_messages sd crc32 cursor buf =
     (if ec_progress cursor \<noteq> Stream_Open then (cursor, 0)
      else case next_message crc32 buf of
        Frame_Partial \<Rightarrow> (cursor, 0)
      | Frame_Broken \<Rightarrow> (cursor\<lparr>ec_progress := Stream_Broken\<rparr>, 0)
      | Frame_Message len headers payload \<Rightarrow>
          (let (cursor', used) =
             read_messages sd crc32 (read_message sd headers payload cursor) (drop len buf)
           in (cursor', len + used)))"
  by pat_completeness auto
termination
  by (relation "measure (\<lambda>(sd, crc32, cursor, buf). length buf)") (auto dest!: next_message_len)

declare read_messages.simps [simp del]

definition event_feed :: "serde \<Rightarrow> (bytes \<Rightarrow> u32) \<Rightarrow> event_cursor \<Rightarrow> bytes \<Rightarrow> event_cursor" where
  "event_feed sd crc32 cursor bs =
     (if ec_progress cursor \<noteq> Stream_Open then cursor
      else
        (let cursor =
           (if ec_partial cursor = []
            then (let (cursor', used) = read_messages sd crc32 cursor bs
                  in cursor'\<lparr>ec_partial := ec_partial cursor' @ drop used bs\<rparr>)
            else (let joined = ec_partial cursor @ bs;
                      (cursor', used) = read_messages sd crc32 (cursor\<lparr>ec_partial := []\<rparr>) joined
                  in cursor'\<lparr>ec_partial := drop used joined\<rparr>))
         in if ec_progress cursor \<noteq> Stream_Open then cursor\<lparr>ec_partial := []\<rparr> else cursor))"

definition event_usage :: "registry \<Rightarrow> event_cursor \<Rightarrow> usage_info option" where
  "event_usage reg cursor =
     (case ec_progress cursor of
        Stream_Ended \<Rightarrow> Option.bind (ec_acc cursor) (parse_response_json_value reg)
      | Stream_Failed \<Rightarrow> Some usage_default
      | Stream_Open \<Rightarrow> None
      | Stream_Broken \<Rightarrow> None)"

definition parse_event_stream_body ::
  "serde \<Rightarrow> (bytes \<Rightarrow> u32) \<Rightarrow> registry \<Rightarrow> bytes \<Rightarrow> usage_info option" where
  "parse_event_stream_body sd crc32 reg body =
     event_usage reg (event_feed sd crc32 event_cursor_default body)"

end
