(* ===== verification/Http1.thy ===== *)
theory Http1
  imports Encoding Event_Stream Body_Walk
begin

text \<open>
  HTTP/1.1 (agent, http/h1.rs): request detection, the framing of a response, and its usage, read
  afresh from a whole buffer or with what earlier reads of the same growing buffer decoded. The head
  parser is httparse's, a parameter; so are serde_json, flate2's CRC and the content decoders.
\<close>

section \<open>The libraries\<close>

text \<open>
  What httparse's \<open>parse\<close> returns and leaves in the structs it fills; fields may be set when the head
  is only partial.
\<close>

datatype parse_status = Parse_Error | Parse_Partial | Parse_Complete nat

record request_head =
  rq_status :: parse_status
  rq_method :: "str option"
  rq_path :: "str option"
  rq_headers :: headers

record response_head =
  rs_status :: parse_status
  rs_code :: "nat option"
  rs_headers :: headers

record libs =
  httparse_request :: "bytes \<Rightarrow> request_head"
  httparse_response :: "bytes \<Rightarrow> response_head"
  libs_serde :: serde
  crc32 :: "bytes \<Rightarrow> u32"
  libs_decoders :: decoders

section \<open>Text\<close>

definition find_header :: "str \<Rightarrow> headers \<Rightarrow> bytes option" where
  "find_header name hs = map_option snd (find (header_is name) hs)"

definition rsplit_once :: "'a \<Rightarrow> 'a list \<Rightarrow> ('a list \<times> 'a list) option" where
  "rsplit_once c s = map_option (\<lambda>(a, b). (rev b, rev a)) (split_once c (rev s))"

primrec dec_value :: "nat \<Rightarrow> str \<Rightarrow> nat option" where
  "dec_value acc [] = Some acc"
| "dec_value acc (c # cs) =
     (let n = of_char c :: nat
      in if 48 \<le> n \<and> n \<le> 57 then dec_value (10 * acc + (n - 48)) cs else None)"

text \<open>\<open>usize::from_str\<close>: one leading \<open>+\<close> is allowed, no digits and a value past 64 bits are errors.\<close>

definition usize_from_dec :: "str \<Rightarrow> nat option" where
  "usize_from_dec s =
     (let digits = (case s of c # cs \<Rightarrow> if c = CHR ''+'' then cs else s | [] \<Rightarrow> [])
      in if digits = [] then None
         else case dec_value 0 digits of
                None \<Rightarrow> None
              | Some v \<Rightarrow> if v \<le> usize_max then Some v else None)"

definition content_length :: "headers \<Rightarrow> nat option" where
  "content_length hs =
     Option.bind (Option.bind (find_header ''Content-Length'' hs) from_utf8) (\<lambda>v. usize_from_dec (trim v))"

definition header_contains :: "headers \<Rightarrow> str \<Rightarrow> bytes \<Rightarrow> bool" where
  "header_contains hs name pattern = list_ex (\<lambda>h. header_is name h \<and> contains_pattern (snd h) pattern) hs"

section \<open>Requests\<close>

definition before :: "char \<Rightarrow> str \<Rightarrow> str" where
  "before c s = (case split_once c s of None \<Rightarrow> s | Some (p, _) \<Rightarrow> p)"

definition is_request_head :: "libs \<Rightarrow> bytes \<Rightarrow> bool" where
  "is_request_head lib buffer =
     (case rq_status (httparse_request lib buffer) of Parse_Complete _ \<Rightarrow> True | _ \<Rightarrow> False)"

definition retrieved_response_id :: "libs \<Rightarrow> registry \<Rightarrow> bytes \<Rightarrow> str option" where
  "retrieved_response_id lib reg buffer =
     (let req = httparse_request lib buffer in
      if rq_status req = Parse_Error then None
      else if rq_method req \<noteq> Some ''GET'' then None
      else case rq_path req of
        None \<Rightarrow> None
      | Some path \<Rightarrow>
          (case rsplit_once (CHR ''/'') (before (CHR ''?'') path) of
             None \<Rightarrow> None
           | Some (base, rid) \<Rightarrow>
               (case Option.bind (find_header ''Host'' (rq_headers req)) from_utf8 of
                  None \<Rightarrow> None
                | Some host \<Rightarrow>
                    (if is_response_id rid \<and> find_provider reg host base \<noteq> None then Some rid else None))))"

definition has_foreign_host :: "libs \<Rightarrow> registry \<Rightarrow> bytes \<Rightarrow> bool" where
  "has_foreign_host lib reg buffer =
     (let req = httparse_request lib buffer in
      case rq_status req of
        Parse_Complete _ \<Rightarrow>
          (case Option.bind (find_header ''Host'' (rq_headers req)) from_utf8 of
             None \<Rightarrow> False
           | Some host \<Rightarrow> \<not> may_serve_host reg host)
      | _ \<Rightarrow> False)"

definition h1_detect_request :: "libs \<Rightarrow> registry \<Rightarrow> bytes \<Rightarrow> str option" where
  "h1_detect_request lib reg buffer =
     (let req = httparse_request lib buffer in
      if rq_status req \<noteq> Parse_Error \<and> rq_method req = Some ''POST''
      then (case rq_path req of
              None \<Rightarrow> None
            | Some path \<Rightarrow>
                (let host = (case find_header ''Host'' (rq_headers req) of
                               None \<Rightarrow> [] | Some v \<Rightarrow> from_utf8_lossy v)
                 in if find_provider reg host path \<noteq> None then Some (before (CHR ''?'') path) else None))
      else None)"

definition h1_extract_request_text :: "libs \<Rightarrow> registry \<Rightarrow> bytes \<Rightarrow> str" where
  "h1_extract_request_text lib reg buffer =
     (let body_start = (case find_pattern buffer [13, 10, 13, 10] of None \<Rightarrow> 0 | Some i \<Rightarrow> i + 4)
      in extract_text_from_json (libs_serde lib) reg (from_utf8_lossy (drop body_start buffer)))"

section \<open>Response heads\<close>

datatype framing = Length nat | Chunked | UntilClose

record head =
  hd_headers :: headers
  hd_body :: bytes
  hd_framing :: framing
  hd_is_sse :: bool
  hd_is_eventstream :: bool

text \<open>
  The loop of \<open>final_head\<close>. httparse completes a head only over bytes it took, so each interim response
  shortens the rest; a head of none, which would loop forever, is taken as final here.
\<close>

function final_head :: "libs \<Rightarrow> bytes \<Rightarrow> head option" where
  "final_head lib rest =
     (let resp = httparse_response lib rest in
      case rs_status resp of
        Parse_Complete n \<Rightarrow>
          (if (case rs_code resp of None \<Rightarrow> False | Some c \<Rightarrow> 100 \<le> c \<and> c < 200) \<and> n > 0 \<and> rest \<noteq> []
           then final_head lib (drop n rest)
           else Some
             \<lparr>hd_headers = rs_headers resp,
              hd_body = drop n rest,
              hd_framing =
                (if header_contains (rs_headers resp) ''Transfer-Encoding'' (as_bytes ''chunked'') then Chunked
                 else case content_length (rs_headers resp) of None \<Rightarrow> UntilClose | Some len \<Rightarrow> Length len),
              hd_is_sse = header_contains (rs_headers resp) ''Content-Type'' (as_bytes ''text/event-stream''),
              hd_is_eventstream =
                header_contains (rs_headers resp) ''Content-Type''
                  (as_bytes ''application/vnd.amazon.eventstream'')\<rparr>)
      | _ \<Rightarrow> None)"
  by pat_completeness auto
termination
  by (relation "measure (\<lambda>(lib, rest). length rest)") (auto simp: diff_less)

declare final_head.simps [simp del]

definition plain_body :: "libs \<Rightarrow> bytes \<Rightarrow> (framing \<times> bytes) option" where
  "plain_body lib buffer =
     (case final_head lib buffer of
        None \<Rightarrow> None
      | Some h \<Rightarrow>
          (if \<not> hd_is_sse h \<and> \<not> hd_is_eventstream h \<and> \<not> is_encoded (hd_headers h)
           then Some (hd_framing h, hd_body h) else None))"

definition plain_sse_body :: "libs \<Rightarrow> bytes \<Rightarrow> (framing \<times> bytes) option" where
  "plain_sse_body lib buffer =
     (case final_head lib buffer of
        None \<Rightarrow> None
      | Some h \<Rightarrow>
          (if hd_is_sse h \<and> \<not> is_encoded (hd_headers h)
           then Some (hd_framing h, hd_body h) else None))"

section \<open>The end of a body\<close>

definition ENDED_RULES :: chunk_rules where
  "ENDED_RULES = \<lparr>extensions = True, utf8_line = False, data_crlf = True,
                  max_size = MAX_RESPONSE_BUFFER_SIZE, bare_lf_breaks = False, max_line = usize_max\<rparr>"

definition TERMINATOR :: bytes where
  "TERMINATOR = [0x30, 13, 10, 13, 10]"

definition chunked_ended :: "bytes \<Rightarrow> bool" where
  "chunked_ended body =
     (let (w, _, _) = chunk_walk_walk (chunk_walk_new ENDED_RULES) body
      in case state w of
           Ended \<Rightarrow> True
         | Broken \<Rightarrow> ends_with body TERMINATOR
         | _ \<Rightarrow> False)"

definition framing_ended :: "framing \<Rightarrow> bytes \<Rightarrow> bool" where
  "framing_ended f body =
     (case f of
        Length len \<Rightarrow> length body \<ge> len
      | Chunked \<Rightarrow> chunked_ended body
      | UntilClose \<Rightarrow> False)"

definition is_complete_response :: "libs \<Rightarrow> bytes \<Rightarrow> bool" where
  "is_complete_response lib buffer =
     (case final_head lib buffer of
        None \<Rightarrow> False
      | Some h \<Rightarrow> framing_ended (hd_framing h) (hd_body h))"

definition starts_with_response_head :: "libs \<Rightarrow> bytes \<Rightarrow> bool" where
  "starts_with_response_head lib buffer =
     (case final_head lib buffer of None \<Rightarrow> False | Some h \<Rightarrow> hd_headers h \<noteq> [])"

section \<open>Chunks decoded as they come\<close>

record dechunker =
  dc_pos :: nat
  dc_walk :: chunk_walk
  dc_raw :: bool
  dc_decoded_any :: bool

definition dechunker_default :: dechunker where
  "dechunker_default =
     \<lparr>dc_pos = 0, dc_walk = chunk_walk_new BASIC, dc_raw = False, dc_decoded_any = False\<rparr>"

definition dc_stopped :: "dechunker \<Rightarrow> bool" where
  "dc_stopped d \<longleftrightarrow> dc_raw d \<or> state (dc_walk d) \<in> {Trailer, Ended, Broken}"

text \<open>\<open>Dechunker::advance\<close>: the dechunker after, and the slices passed to the sink.\<close>

definition dc_advance :: "dechunker \<Rightarrow> bytes \<Rightarrow> bool \<Rightarrow> dechunker \<times> bytes list" where
  "dc_advance d body chunked =
     (let d = d\<lparr>dc_raw := dc_raw d \<or> \<not> chunked\<rparr>;
          (d, ds) =
            (if dc_stopped d then (d, [])
             else
               (let (w, used, ds) = chunk_walk_walk (dc_walk d) (drop (dc_pos d) body);
                    d = d\<lparr>dc_walk := w, dc_pos := dc_pos d + used,
                          dc_decoded_any := dc_decoded_any d \<or> ds \<noteq> []\<rparr>
                in if dc_stopped d \<and> \<not> dc_decoded_any d
                   then (d\<lparr>dc_raw := True, dc_pos := 0\<rparr>, ds) else (d, ds)))
      in if dc_raw d
         then (d\<lparr>dc_pos := length body\<rparr>, ds @ [drop (dc_pos d) body])
         else (d, ds))"

section \<open>Responses\<close>

record response_progress =
  rp_chunks :: dechunker
  rp_sse :: sse_cursor
  rp_events :: event_cursor
  rp_background :: "background_state option"

definition response_progress_default :: response_progress where
  "response_progress_default =
     \<lparr>rp_chunks = dechunker_default, rp_sse = sse_cursor_default, rp_events = event_cursor_default,
      rp_background = None\<rparr>"

definition take_background :: "response_progress \<Rightarrow> background_state option \<times> response_progress" where
  "take_background rp = (rp_background rp, rp\<lparr>rp_background := None\<rparr>)"

definition stream_end ::
  "usage_info option \<Rightarrow> background_state option \<Rightarrow> usage_info option \<times> background_state option" where
  "stream_end usage background = (usage, if usage \<noteq> None then Some Finished_Call else background)"

text \<open>Whether the body has all its framing announces, or has no end to wait for.\<close>

definition body_ended :: "framing \<Rightarrow> dechunker \<Rightarrow> bytes \<Rightarrow> bool" where
  "body_ended f d body =
     (case f of
        Chunked \<Rightarrow> (dc_stopped d \<or> ends_with body TERMINATOR) \<and> chunked_ended body
      | _ \<Rightarrow> f = UntilClose \<or> framing_ended f body)"

text \<open>The end of \<open>parse_response_from\<close>: a JSON body decoded as it stands.\<close>

definition parse_json_body ::
  "libs \<Rightarrow> registry \<Rightarrow> bytes \<Rightarrow> background_state option \<Rightarrow> usage_info option \<times> background_state option" where
  "parse_json_body lib reg decompressed background =
     (let trimmed = trim_trailing_whitespace decompressed;
          is_json_array = (find (\<lambda>b. \<not> is_ascii_whitespace b) trimmed = Some 0x5B)
      in if is_json_array \<or> \<not> ends_with trimmed [0x7D] then (None, background)
         else
           (let s = from_utf8_lossy trimmed
            in case find_sub (''{'') s of
                 None \<Rightarrow> (None, background)
               | Some start \<Rightarrow> parse_response_json (libs_serde lib) reg (drop start s) background))"

text \<open>
  \<open>parse_response_from\<close> in two parts: what this read adds to the progress, and the usage the buffer then
  shows.
\<close>

definition feed_progress :: "libs \<Rightarrow> head \<Rightarrow> response_progress \<Rightarrow> response_progress" where
  "feed_progress lib h rp =
     (let encoded = is_encoded (hd_headers h);
          (chunks, ds) = dc_advance (rp_chunks rp) (hd_body h) (hd_framing h = Chunked);
          rp = rp\<lparr>rp_chunks := chunks\<rparr>
      in if hd_is_sse h \<and> \<not> encoded
         then rp\<lparr>rp_sse := fold (\<lambda>d c. sse_feed (libs_serde lib) c d) ds (rp_sse rp)\<rparr>
         else if hd_is_eventstream h \<and> \<not> encoded
         then rp\<lparr>rp_events := fold (\<lambda>d c. event_feed (libs_serde lib) (crc32 lib) c d) ds (rp_events rp)\<rparr>
         else rp)"

definition read_response ::
  "libs \<Rightarrow> registry \<Rightarrow> head \<Rightarrow> response_progress \<Rightarrow> usage_info option \<times> response_progress" where
  "read_response lib reg h rp =
     (let body = hd_body h;
          is_chunked = (hd_framing h = Chunked);
          encoded = is_encoded (hd_headers h);
          ended = body_ended (hd_framing h) (rp_chunks rp) body;
          set_background = (\<lambda>(usage, background). (usage, rp\<lparr>rp_background := background\<rparr>))
      in if hd_is_eventstream h \<and> \<not> encoded then (event_usage reg (rp_events rp), rp)
         else if hd_is_sse h \<and> \<not> encoded
         then
           (let usage =
              (case sse_usage reg (rp_sse rp) of
                 Some u \<Rightarrow> Some u
               | None \<Rightarrow>
                   if is_chunked \<and> ended then parse_sse_body (libs_serde lib) reg body else None)
            in set_background (stream_end usage (rp_background rp)))
         else if encoded \<and> \<not> ended then (None, rp)
         else
           (let dechunked = (if is_chunked then decode_chunked_body body else body)
            in case decode (libs_decoders lib) dechunked (hd_headers h) of
                 None \<Rightarrow> (None, rp)
               | Some decompressed \<Rightarrow>
                   (if hd_is_sse h
                    then set_background
                      (stream_end (parse_sse_body (libs_serde lib) reg decompressed) (rp_background rp))
                    else if hd_is_eventstream h
                    then (parse_event_stream_body (libs_serde lib) (crc32 lib) reg decompressed, rp)
                    else set_background (parse_json_body lib reg decompressed (rp_background rp)))))"

definition parse_response_from ::
  "libs \<Rightarrow> registry \<Rightarrow> bytes \<Rightarrow> response_progress \<Rightarrow> usage_info option \<times> response_progress" where
  "parse_response_from lib reg buffer rp =
     (case final_head lib buffer of
        None \<Rightarrow> (None, rp)
      | Some h \<Rightarrow> read_response lib reg h (feed_progress lib h rp))"

definition parse_response :: "libs \<Rightarrow> registry \<Rightarrow> bytes \<Rightarrow> usage_info option" where
  "parse_response lib reg buffer = fst (parse_response_from lib reg buffer response_progress_default)"

end
