(* ===== verification/Sse_Props.thy ===== *)
theory Sse_Props
  imports Sse
begin

text \<open>
  The event cursor is an incremental reader: the usage of a stream depends on its bytes, not on how the
  reads cut them. Once the stream said \<open>[DONE]\<close> its usage is final, and the fallback blocks kept are
  bounded.
\<close>

section \<open>Decoding cut at a newline\<close>

lemma utf8_conts_append:
  "bs \<noteq> [] \<Longrightarrow> last bs < 0x80 \<Longrightarrow> 0x80 \<le> lo \<Longrightarrow>
     utf8_conts n lo hi (bs @ ys) = utf8_conts n lo hi bs \<and> utf8_conts n lo hi bs < length bs"
proof (induction n lo hi bs rule: utf8_conts.induct)
  case (1 n lo hi b bs)
  show ?case
  proof (cases "lo \<le> b \<and> b \<le> hi")
    case True
    then have "bs \<noteq> []" using 1(3,4) by auto
    with 1 True show ?thesis by simp
  qed auto
qed auto

lemma utf8_lead_low: "utf8_lead b = Some (n, lo, hi) \<Longrightarrow> 0x80 \<le> lo"
  by (auto simp: utf8_lead_def split: if_splits)

lemma utf8_seq_append:
  assumes "last (b # bs) < 0x80"
  shows "utf8_seq b (bs @ ys) = utf8_seq b bs \<and> snd (utf8_seq b bs) \<le> length (b # bs) \<and>
    (snd (utf8_seq b bs) = length (b # bs) \<longrightarrow> bs = [] \<and> fst (utf8_seq b bs))"
proof (cases "bs = []")
  case True
  with assms show ?thesis by (simp add: utf8_seq_def utf8_lead_def)
next
  case False
  with assms have "last bs < 0x80" by simp
  show ?thesis
  proof (cases "utf8_lead b")
    case (Some t)
    obtain n lo hi where t: "t = (n, lo, hi)" by (metis prod_cases3)
    have "utf8_conts n lo hi (bs @ ys) = utf8_conts n lo hi bs" "utf8_conts n lo hi bs < length bs"
      using utf8_conts_append [of bs lo n hi ys] False \<open>last bs < 0x80\<close> utf8_lead_low Some t by auto
    with Some t show ?thesis by (simp add: utf8_seq_def Let_def)
  qed (simp add: utf8_seq_def False)
qed

lemma utf8_lossy_cut:
  "xs \<noteq> [] \<Longrightarrow> last xs < 0x80 \<Longrightarrow>
     utf8_lossy (xs @ ys) = utf8_lossy xs @ utf8_lossy ys \<and>
     utf8_lossy xs \<noteq> [] \<and> last (utf8_lossy xs) = last xs"
proof (induction xs rule: utf8_lossy.induct)
  case (2 b bs)
  obtain ok n where seq: "utf8_seq b bs = (ok, n)" by force
  have cut: "utf8_seq b (bs @ ys) = (ok, n)" "n \<le> length (b # bs)"
      "n = length (b # bs) \<Longrightarrow> bs = [] \<and> ok"
    using utf8_seq_append [OF 2(3), of ys, unfolded seq fst_conv snd_conv] by blast+
  show ?case
  proof (cases "n = length (b # bs)")
    case True
    with cut seq show ?thesis by (simp add: utf8_lossy.simps(2))
  next
    case False
    with cut have "drop n (b # bs) \<noteq> []" "last (drop n (b # bs)) = last (b # bs)"
      by (simp_all add: last_drop)
    with 2 seq have ih: "utf8_lossy (drop n (b # bs) @ ys) = utf8_lossy (drop n (b # bs)) @ utf8_lossy ys"
      "utf8_lossy (drop n (b # bs)) \<noteq> []" "last (utf8_lossy (drop n (b # bs))) = last (b # bs)"
      by auto
    have "drop n (b # bs @ ys) = drop n (b # bs) @ ys" "take n (b # bs @ ys) = take n (b # bs)"
      using cut(2) by (simp_all flip: append_Cons)
    with ih cut seq show ?thesis by (simp add: utf8_lossy.simps(2))
  qed
qed simp

lemma char_of_lf: "char_of (10 :: nat) = CHR 0x0A"
  by code_simp

lemma lossy_cut:
  "xs \<noteq> [] \<Longrightarrow> last xs = 0x0A \<Longrightarrow>
     from_utf8_lossy (xs @ ys) = from_utf8_lossy xs @ from_utf8_lossy ys \<and>
     from_utf8_lossy xs \<noteq> [] \<and> last (from_utf8_lossy xs) = CHR 0x0A"
  using utf8_lossy_cut [of xs ys] by (simp add: from_utf8_lossy_def str_of_def last_map char_of_lf)

lemma split_once_append:
  "split_once c s = Some (a, b) \<Longrightarrow> split_once c (s @ t) = Some (a, b @ t)"
  by (auto simp: split_once_Some_iff)

lemma lines_cut: "s \<noteq> [] \<Longrightarrow> last s = CHR 0x0A \<Longrightarrow> lines (s @ t) = lines s @ lines t"
proof (induction s rule: lines.induct)
  case (1 s)
  then obtain a b where ab: "split_once (CHR 0x0A) s = Some (a, b)"
    by (cases "split_once (CHR 0x0A) s") (use last_in_set [of s] in \<open>auto simp: split_once_None_iff\<close>)
  then have s: "s = a @ CHR 0x0A # b" by (simp add: split_once_Some_iff)
  show ?case
  proof (cases "b = []")
    case True
    with ab 1(2) show ?thesis
      by (simp add: lines.simps [of "s @ t"] lines.simps [of s] split_once_append lines.simps [of "[]"])
  next
    case False
    with 1(3) s have "last b = CHR 0x0A" by simp
    with 1 ab False have "lines (b @ t) = lines b @ lines t" by auto
    with ab 1(2) show ?thesis
      by (simp add: lines.simps [of "s @ t"] lines.simps [of s] split_once_append)
  qed
qed

lemma read_lines_cut:
  "xs \<noteq> [] \<Longrightarrow> last xs = 0x0A \<Longrightarrow>
     read_lines sd c (xs @ ys) = read_lines sd (read_lines sd c xs) ys"
  using lossy_cut [of xs ys] by (simp add: read_lines_def lines_cut)

section \<open>The cursor as an incremental reader\<close>

lemma rposition_None: "rposition P xs = None \<longleftrightarrow> (\<forall>x \<in> set xs. \<not> P x)"
  by (simp add: rposition_def position_None_iff)

lemma rposition_Some:
  assumes "rposition P xs = Some i"
  obtains a x b where "xs = a @ x # b" "length a = i" "P x" "\<forall>y \<in> set b. \<not> P y"
proof -
  obtain j where j: "position P (rev xs) = Some j" "i = length xs - 1 - j"
    using assms by (auto simp: rposition_def)
  from position_SomeD [OF j(1)] have *: "j < length xs" "P (xs ! i)"
      "\<forall>k < j. \<not> P (xs ! (length xs - Suc k))"
    using j(2) by (auto simp: rev_nth)
  have "\<forall>y \<in> set (drop (Suc i) xs). \<not> P y"
  proof
    fix y assume "y \<in> set (drop (Suc i) xs)"
    then obtain m where m: "m < length xs - Suc i" "y = xs ! (Suc i + m)" by (auto simp: in_set_conv_nth)
    define k where "k = length xs - Suc (Suc i + m)"
    have "k < j" "Suc i + m = length xs - Suc k" using m(1) *(1) j(2) by (auto simp: k_def)
    with *(3) m(2) show "\<not> P y" by metis
  qed
  moreover have "xs = take i xs @ xs ! i # drop (Suc i) xs"
    using *(1) j(2) by (intro id_take_nth_drop) simp
  ultimately show thesis using that [of "take i xs" "xs ! i" "drop (Suc i) xs"] * j(2) by simp
qed

lemma rposition_split:
  "P x \<Longrightarrow> \<forall>y \<in> set b. \<not> P y \<Longrightarrow> rposition P (a @ x # b) = Some (length a)"
  by (simp add: rposition_def position_append position_None_iff [THEN iffD2] split: option.splits)

text \<open>A feed as one case distinction: the bytes held and read are split after the last newline.\<close>

lemma sse_feed_None: "0x0A \<notin> set bs \<Longrightarrow> sse_feed sd c bs = c\<lparr>sc_partial := sc_partial c @ bs\<rparr>"
proof -
  assume "0x0A \<notin> set bs"
  then have "rposition (\<lambda>b. b = 0x0A) bs = None" by (auto simp: rposition_None)
  then show ?thesis by (simp add: sse_feed_def)
qed

lemma read_line_partial: "sc_partial (read_line sd l c) = sc_partial c"
  by (simp add: read_line_def Let_def split: option.splits)

lemma read_lines_partial: "sc_partial (read_lines sd c bs) = sc_partial c"
proof -
  have "sc_partial (fold (read_line sd) ls c) = sc_partial c" for ls
    by (induction ls arbitrary: c) (simp_all add: read_line_partial)
  then show ?thesis by (simp add: read_lines_def)
qed

lemma sse_feed_Some:
  assumes "0x0A \<notin> set b"
  shows "sse_feed sd c (a @ 0x0A # b) =
    (read_lines sd (c\<lparr>sc_partial := []\<rparr>) (sc_partial c @ a @ [0x0A]))\<lparr>sc_partial := b\<rparr>"
proof -
  have "rposition (\<lambda>x. x = 0x0A) (a @ 0x0A # b) = Some (length a)"
    using assms by (intro rposition_split) auto
  then have feed: "sse_feed sd c (a @ 0x0A # b) =
     (if sc_partial c = [] then (read_lines sd c (a @ [0x0A]))\<lparr>sc_partial := b\<rparr>
      else (read_lines sd (c\<lparr>sc_partial := []\<rparr>) (sc_partial c @ a @ [0x0A]))\<lparr>sc_partial := b\<rparr>)"
    by (simp add: sse_feed_def Let_def read_lines_partial)
  show ?thesis
  proof (cases "sc_partial c = []")
    case True
    then have "c = c\<lparr>sc_partial := []\<rparr>" by simp
    then have "read_lines sd c (a @ [0x0A]) = read_lines sd (c\<lparr>sc_partial := []\<rparr>) (a @ [0x0A])"
      by (rule arg_cong)
    with feed True show ?thesis by (simp only: append_Nil if_cancel)
  qed (simp only: feed if_False)
qed

lemma newline_split:
  obtains "0x0A \<notin> set bs" | a b where "bs = a @ (0x0A :: u8) # b" "0x0A \<notin> set b"
  by (metis split_list_last)

lemma sse_feed_append: "sse_feed sd c (xs @ ys) = sse_feed sd (sse_feed sd c xs) ys"
proof (cases rule: newline_split [of ys])
  case 1
  then show ?thesis
    by (cases rule: newline_split [of xs]) (simp_all add: sse_feed_None sse_feed_Some)
next
  case (2 a b)
  show ?thesis
  proof (cases rule: newline_split [of xs])
    case 1
    with 2 show ?thesis
      using sse_feed_Some [of b sd c "xs @ a"] sse_feed_Some [of b sd _ a] by (simp add: sse_feed_None)
  next
    case xs: (2 u v)
    define c1 where "c1 = read_lines sd (c\<lparr>sc_partial := []\<rparr>) (sc_partial c @ u @ [0x0A])"
    have "sc_partial c1 = []" by (simp add: c1_def read_lines_partial)
    then have "c1\<lparr>sc_partial := []\<rparr> = c1" by simp
    then have "read_lines sd (c\<lparr>sc_partial := []\<rparr>) (sc_partial c @ u @ 0x0A # v @ a @ [0x0A]) =
        read_lines sd (c1\<lparr>sc_partial := v, sc_partial := []\<rparr>) (v @ a @ [0x0A])"
      using read_lines_cut [of "sc_partial c @ u @ [0x0A]" sd "c\<lparr>sc_partial := []\<rparr>" "v @ a @ [0x0A]"]
      by (simp add: c1_def)
    then show ?thesis
      using 2 xs sse_feed_Some [of b sd c "u @ 0x0A # v @ a"] sse_feed_Some [of v sd c u]
        sse_feed_Some [of b sd "c1\<lparr>sc_partial := v\<rparr>" a]
      by (simp add: c1_def)
  qed
qed

definition sse_step :: "serde \<Rightarrow> sse_cursor \<Rightarrow> bytes \<Rightarrow> sse_cursor \<times> unit list" where
  "sse_step sd c bs = (sse_feed sd c bs, [])"

interpretation sse: incremental "sse_step sd" "\<lambda>_. True" id id for sd
  by unfold_locales (simp_all add: sse_step_def sse_feed_append sse_feed_None)

lemma fold_feeds: "fst (feeds (sse_step sd) c reads) = fold (\<lambda>bs c. sse_feed sd c bs) reads c"
  by (induction reads arbitrary: c) (simp_all add: sse_step_def case_prod_beta Let_def)

section \<open>Merging\<close>

lemma map_of_put_all:
  "distinct_keys kvs \<Longrightarrow>
     map_of (put_all kvs m) k = (case map_of kvs k of None \<Rightarrow> map_of m k | Some v \<Rightarrow> Some v)"
proof (induction kvs arbitrary: m)
  case (Cons kv kvs)
  obtain k' v where kv: "kv = (k', v)" by force
  have "distinct_keys kvs" and "map_of kvs k' = None"
    using Cons.prems kv by (simp_all add: distinct_keys_def map_of_eq_None_iff)
  with Cons.IH [of "put_key k' v m"] kv show ?case
    by (cases "k' = k") (simp_all add: put_all_def split: option.splits)
qed (simp add: put_all_def)

lemma map_of_merge_members:
  "distinct_keys u \<Longrightarrow>
     map_of (fold merge_member u a) k =
       (case map_of u k of None \<Rightarrow> map_of a k | Some v \<Rightarrow> map_of (merge_member (k, v) a) k)"
proof (induction u arbitrary: a)
  case (Cons kv u)
  obtain k' v where kv: "kv = (k', v)" by force
  have d: "distinct_keys u" "k' \<notin> fst ` set u" using Cons.prems kv by (simp_all add: distinct_keys_def)
  have same: "map_of (merge_member (k', v) a) k'' = map_of a k''" if "k'' \<noteq> k'" for k''
    using that by (simp add: merge_member_def)
  show ?case
  proof (cases "k' = k")
    case True
    with d have "map_of u k = None" by (simp add: map_of_eq_None_iff)
    with True kv Cons.IH [OF d(1), of "merge_member kv a"] show ?thesis by simp
  next
    case False
    with kv Cons.IH [OF d(1), of "merge_member kv a"] same [of k] show ?thesis
      by (auto simp: merge_member_def split: option.splits)
  qed
qed simp

section \<open>Properties\<close>

text \<open>C39: The usage of a streamed body depends on its bytes only: however the reads cut it, inside a line,
  between the bytes of a character, anywhere, the cursor ends with the usage of the whole body.\<close>

theorem sse_cuts_agree:
  "sse_usage reg (fold (\<lambda>bs c. sse_feed sd c bs) reads sse_cursor_default) =
     parse_sse_body sd reg (concat reads)"
  using sse.feeds_concat [where s = sse_cursor_default and reads = reads and sd = sd]
  by (simp add: fold_feeds parse_sse_body_def sse_step_def)

lemma read_line_bound:
  "length (sc_fallbacks c) \<le> MAX_FALLBACK_BLOCKS \<Longrightarrow>
     length (sc_fallbacks (read_line sd l c)) \<le> MAX_FALLBACK_BLOCKS"
  by (simp add: read_line_def Let_def split: option.splits)

lemma read_line_final:
  "sc_done c \<Longrightarrow> sc_ended c \<Longrightarrow> read_line sd l c = c"
  by (simp add: read_line_def Let_def)

lemma read_line_done: "sc_done (read_line sd l c) \<Longrightarrow> sc_done c \<or> sc_ended (read_line sd l c)"
  by (simp add: read_line_def Let_def split: option.splits if_splits)

definition cursor_ok :: "sse_cursor \<Rightarrow> bool" where
  "cursor_ok c \<longleftrightarrow> length (sc_fallbacks c) \<le> MAX_FALLBACK_BLOCKS \<and> (sc_done c \<longrightarrow> sc_ended c)"

lemma read_line_ok: "cursor_ok c \<Longrightarrow> cursor_ok (read_line sd l c)"
  using read_line_bound [of c sd l] read_line_done [of sd l c] read_line_final [of c sd l]
  by (auto simp: cursor_ok_def)

lemma read_lines_ok: "cursor_ok c \<Longrightarrow> cursor_ok (read_lines sd c bs)"
proof -
  have "cursor_ok c \<Longrightarrow> cursor_ok (fold (read_line sd) ls c)" for ls
    by (induction ls arbitrary: c) (simp_all add: read_line_ok)
  then show "cursor_ok c \<Longrightarrow> ?thesis" by (simp add: read_lines_def)
qed

lemma cursor_ok_partial [simp]: "cursor_ok (c\<lparr>sc_partial := p\<rparr>) = cursor_ok c"
  by (simp add: cursor_ok_def)

lemma sse_feed_ok: "cursor_ok c \<Longrightarrow> cursor_ok (sse_feed sd c bs)"
  by (cases rule: newline_split [of bs]) (simp_all add: sse_feed_None sse_feed_Some read_lines_ok)

lemma fold_feed_ok: "cursor_ok c \<Longrightarrow> cursor_ok (fold (\<lambda>bs c. sse_feed sd c bs) reads c)"
  by (induction reads arbitrary: c) (simp_all add: sse_feed_ok)

lemma read_lines_final: "sc_done c \<Longrightarrow> sc_ended c \<Longrightarrow> read_lines sd c bs = c"
proof -
  have "sc_done c \<Longrightarrow> sc_ended c \<Longrightarrow> fold (read_line sd) ls c = c" for ls
    by (induction ls) (simp_all add: read_line_final)
  then show "sc_done c \<Longrightarrow> sc_ended c \<Longrightarrow> ?thesis" by (simp add: read_lines_def)
qed

lemma sse_usage_partial [simp]: "sse_usage reg (c\<lparr>sc_partial := p\<rparr>) = sse_usage reg c"
  by (simp add: sse_usage_def cong: option.case_cong json.case_cong)

lemma sse_feed_final:
  assumes "sc_done c" "sc_ended c"
  shows "sse_usage reg (sse_feed sd c bs) = sse_usage reg c"
  using assms
  by (cases rule: newline_split [of bs]) (simp_all add: sse_feed_None sse_feed_Some read_lines_final)

text \<open>After any reads, at most 64 fallback blocks are held, and once \<open>[DONE]\<close> was read no later byte
  changes the stream's usage.\<close>

lemma sse_done_is_final:
  "let c = fold (\<lambda>bs c. sse_feed sd c bs) reads sse_cursor_default
   in length (sc_fallbacks c) \<le> MAX_FALLBACK_BLOCKS \<and>
      (if sc_done c then sse_usage reg (sse_feed sd c bs) = sse_usage reg c else True)"
proof -
  have "cursor_ok (fold (\<lambda>bs c. sse_feed sd c bs) reads sse_cursor_default)"
    by (rule fold_feed_ok) (simp add: cursor_ok_def sse_cursor_default_def)
  then show ?thesis by (auto simp: Let_def cursor_ok_def sse_feed_final)
qed

text \<open>Merging a later event into the usage read so far never loses a count to a null: where both carry
  a usage object, each count is the later one's if it has one that is not null and else the earlier one's;
  and every other member of the earlier event that the later one lacks stays.\<close>

lemma merge_keeps_counts:
  assumes "distinct_keys u" and "distinct_keys new" and "map_of u ''usage'' = Some (Object new)"
    and "map_of a ''usage'' = Some (Object prev)"
  shows "get_keys (merge_sse_event (Object a) (Object u)) [''usage'', k] =
      (case map_of new k of
         Some v \<Rightarrow> if is_null v then map_of prev k else Some v
       | None \<Rightarrow> map_of prev k) \<and>
     (if map_of u m = None then json_get (merge_sse_event (Object a) (Object u)) m = map_of a m else True)"
proof (rule conjI)
  have "distinct_keys (filter (\<lambda>(_, v). \<not> is_null v) new)" using assms(2) by (rule distinct_filter_keys)
  moreover have "map_of (filter (\<lambda>(_, v). \<not> is_null v) new) k =
      (case map_of new k of Some v \<Rightarrow> if is_null v then None else Some v | None \<Rightarrow> None)"
    using assms(2) by (induction new) (auto simp: distinct_keys_def map_of_eq_None_iff split: option.splits)
  ultimately show "get_keys (merge_sse_event (Object a) (Object u)) [''usage'', k] =
      (case map_of new k of
         Some v \<Rightarrow> if is_null v then map_of prev k else Some v
       | None \<Rightarrow> map_of prev k)"
    using assms(3,4) map_of_merge_members [OF assms(1), of a "''usage''"]
    by (auto simp: merge_sse_event_def json_get_def merge_member_def map_of_put_all split: option.splits)
  show "if map_of u m = None then json_get (merge_sse_event (Object a) (Object u)) m = map_of a m else True"
    using map_of_merge_members [OF assms(1), of a m] by (simp add: merge_sse_event_def json_get_def)
qed

theorem merge_keeps_counts_witness:
  "get_keys (merge_sse_event
       (Object [(''model'', Str ''m''), (''usage'', Object [(''input_tokens'', Number (PosInt 9))])])
       (Object [(''usage'', Object [(''input_tokens'', Null), (''output_tokens'', Number (PosInt 4))])]))
     [''usage'', ''input_tokens''] = Some (Number (PosInt 9))"
  by (rule trans [OF merge_keeps_counts
        [where new = "[(''input_tokens'', Null), (''output_tokens'', Number (PosInt 4))]"
         and prev = "[(''input_tokens'', Number (PosInt 9))]", THEN conjunct1]])
     (simp_all add: distinct_keys_def is_null_def)

end
