(* ===== verification/Event_Props.thy ===== *)
theory Event_Props
  imports Event_Stream Sse_Props
begin

text \<open>
  The message cursor is an incremental reader as the line cursor is, messages decode to what an encoder
  framed, and base64 decoding undoes the encoding.
\<close>

section \<open>Messages and cuts\<close>

lemma be_word_take: "at + 3 < n \<Longrightarrow> n \<le> length bs \<Longrightarrow> be_word (take n (bs @ ys)) at = be_word (take n bs) at"
  by (simp add: be_word_def)

lemma next_message_append:
  "next_message crc32 buf \<noteq> Frame_Partial \<Longrightarrow> next_message crc32 (buf @ ys) = next_message crc32 buf"
  by (auto simp: next_message_def Let_def split: if_splits)

lemma read_messages_append:
  "read_messages sd crc32 c buf = (c1, used) \<Longrightarrow>
     used \<le> length buf \<and>
     read_messages sd crc32 c (buf @ ys) =
       (let (c2, more) = read_messages sd crc32 c1 (drop used buf @ ys) in (c2, used + more))"
proof (induction sd crc32 c buf arbitrary: c1 used rule: read_messages.induct)
  case (1 sd crc32 c buf)
  show ?case
  proof (cases "ec_progress c \<noteq> Stream_Open")
    case True
    with 1(2) show ?thesis
      by (auto simp: read_messages.simps [of sd crc32 c buf] read_messages.simps [of sd crc32 c "buf @ ys"])
  next
    case False
    show ?thesis
    proof (cases "next_message crc32 buf")
      case Frame_Partial
      with 1(2) False show ?thesis by (simp add: read_messages.simps [of sd crc32 c buf] case_prod_beta)
    next
      case Frame_Broken
      with 1(2) False next_message_append [of crc32 buf ys] show ?thesis
        by (auto simp: read_messages.simps [of sd crc32 c buf] read_messages.simps [of sd crc32 c "buf @ ys"]
            read_messages.simps [of sd crc32 "c\<lparr>ec_progress := Stream_Broken\<rparr>"])
    next
      case (Frame_Message len h p)
      define d where "d = read_message sd h p c"
      have len: "len \<le> length buf" using next_message_len [OF Frame_Message] by simp
      obtain u where u: "read_messages sd crc32 d (drop len buf) = (c1, u)" "used = len + u"
        using 1(2) False Frame_Message
        by (auto simp: read_messages.simps [of sd crc32 c buf] d_def case_prod_beta Let_def prod_eq_iff)
      have "u \<le> length (drop len buf)"
        and step: "read_messages sd crc32 d (drop len buf @ ys) =
          (let (c2, more) = read_messages sd crc32 c1 (drop u (drop len buf) @ ys) in (c2, u + more))"
        using 1(1) [OF _ Frame_Message, of c1 u] False u(1) by (auto simp: d_def)
      moreover have "read_messages sd crc32 c (buf @ ys) =
          (let (c2, more) = read_messages sd crc32 d (drop len buf @ ys) in (c2, len + more))"
        using False Frame_Message next_message_append [of crc32 buf ys] len
        by (simp add: read_messages.simps [of sd crc32 c "buf @ ys"] d_def)
      ultimately show ?thesis
        using u(2) len by (simp add: case_prod_beta Let_def add.commute)
    qed
  qed
qed

lemma read_message_partial: "ec_partial (read_message sd h p c) = ec_partial c"
  by (simp add: read_message_def read_chunk_def Let_def split: option.splits)

lemma read_messages_partial: "ec_partial (fst (read_messages sd crc32 c buf)) = ec_partial c"
proof (induction sd crc32 c buf rule: read_messages.induct)
  case (1 sd crc32 c buf)
  then show ?case
    by (subst read_messages.simps)
      (auto simp: read_message_partial case_prod_beta Let_def split: message_frame.splits)
qed

text \<open>A feed, in one line: what is held and what is new is read as far as it goes.\<close>

definition event_ok :: "event_cursor \<Rightarrow> bool" where
  "event_ok c \<longleftrightarrow> ec_progress c \<noteq> Stream_Open \<longrightarrow> ec_partial c = []"

lemma event_feed_alt:
  "event_feed sd crc32 c bs =
     (if ec_progress c \<noteq> Stream_Open then c
      else
        (let (c', used) = read_messages sd crc32 (c\<lparr>ec_partial := []\<rparr>) (ec_partial c @ bs)
         in c'\<lparr>ec_partial := if ec_progress c' \<noteq> Stream_Open then [] else drop used (ec_partial c @ bs)\<rparr>))"
proof (cases "ec_partial c = []")
  case True
  then obtain pr acc where "c = \<lparr>ec_partial = [], ec_progress = pr, ec_acc = acc\<rparr>" by (cases c) auto
  then show ?thesis
    using read_messages_partial [of sd crc32 c bs]
    by (auto simp: event_feed_def Let_def case_prod_beta)
qed (auto simp: event_feed_def Let_def case_prod_beta)

lemma drop_past: "n \<le> length zs \<Longrightarrow> drop (n + m) (zs @ ys) = drop m (drop n zs @ ys)"
  by (metis add.commute drop_append_le drop_drop)

lemma read_messages_stop:
  "ec_progress c \<noteq> Stream_Open \<Longrightarrow> read_messages sd crc32 c buf = (c, 0)"
  by (simp add: read_messages.simps)

lemma event_feed_append:
  "event_feed sd crc32 c (xs @ ys) = event_feed sd crc32 (event_feed sd crc32 c xs) ys"
proof (cases "ec_progress c \<noteq> Stream_Open")
  case True
  then show ?thesis by (simp add: event_feed_alt)
next
  case False
  obtain c1 used where run: "read_messages sd crc32 (c\<lparr>ec_partial := []\<rparr>) (ec_partial c @ xs) = (c1, used)"
    by force
  from read_messages_append [OF run, of ys]
  have all: "read_messages sd crc32 (c\<lparr>ec_partial := []\<rparr>) (ec_partial c @ xs @ ys) =
      (let (c2, more) = read_messages sd crc32 c1 (drop used (ec_partial c @ xs) @ ys) in (c2, used + more))"
    and used: "used \<le> length (ec_partial c @ xs)"
    by simp_all
  have p: "ec_partial c1 = []"
    using read_messages_partial [of sd crc32 "c\<lparr>ec_partial := []\<rparr>" "ec_partial c @ xs"] run by simp
  then have c1: "c1\<lparr>ec_partial := []\<rparr> = c1" by simp
  show ?thesis
  proof (cases "ec_progress c1 \<noteq> Stream_Open")
    case True
    with False run all show ?thesis
      by (simp add: event_feed_alt read_messages_stop)
  next
    case open1: False
    define held where "held = drop used (ec_partial c @ xs)"
    obtain c2 more where run2: "read_messages sd crc32 c1 (held @ ys) = (c2, more)" by force
    have all': "read_messages sd crc32 (c\<lparr>ec_partial := []\<rparr>) (ec_partial c @ xs @ ys) = (c2, used + more)"
      using all by (simp only: held_def [symmetric] run2 Let_def case_prod_conv)
    have run2': "read_messages sd crc32 (c1\<lparr>ec_partial := []\<rparr>) (held @ ys) = (c2, more)"
      by (simp only: c1 run2)
    have left: "drop (used + more) (ec_partial c @ xs @ ys) = drop more (held @ ys)"
      using drop_past [OF used, of more ys] by (simp only: held_def append_assoc)
    have feed: "event_feed sd crc32 c xs = c1\<lparr>ec_partial := held\<rparr>"
      using False open1 run by (simp add: event_feed_alt held_def del: drop_append)
    show ?thesis
      unfolding feed
      using False open1 all' run2' left
      by (simp add: event_feed_alt del: drop_append)
  qed
qed

lemma read_messages_rest:
  "read_messages sd crc32 c buf = (c1, used) \<Longrightarrow> ec_progress c1 = Stream_Open \<Longrightarrow>
     next_message crc32 (drop used buf) = Frame_Partial"
proof (induction sd crc32 c buf arbitrary: c1 used rule: read_messages.induct)
  case (1 sd crc32 c buf)
  show ?case
  proof (cases "ec_progress c \<noteq> Stream_Open")
    case True
    with 1(2,3) show ?thesis by (auto simp: read_messages_stop)
  next
    case False
    with 1(2,3) show ?thesis
    proof (cases "next_message crc32 buf")
      case (Frame_Message len h p)
      with 1(2) False obtain u where "used = len + u"
          "read_messages sd crc32 (read_message sd h p c) (drop len buf) = (c1, u)"
        by (auto simp: read_messages.simps [of sd crc32 c buf] case_prod_beta Let_def prod_eq_iff)
      with 1(1) [OF _ Frame_Message, of c1 u] False 1(3) show ?thesis by (simp add: add.commute)
    qed (auto simp: read_messages.simps [of sd crc32 c buf])
  qed
qed

definition event_inv :: "(bytes \<Rightarrow> u32) \<Rightarrow> event_cursor \<Rightarrow> bool" where
  "event_inv crc32 c \<longleftrightarrow>
     (if ec_progress c = Stream_Open then next_message crc32 (ec_partial c) = Frame_Partial
      else ec_partial c = [])"

lemma event_feed_inv: "event_inv crc32 c \<Longrightarrow> event_inv crc32 (event_feed sd crc32 c bs)"
  using read_messages_rest [of sd crc32 "c\<lparr>ec_partial := []\<rparr>" "ec_partial c @ bs"]
  by (auto simp: event_inv_def event_feed_alt case_prod_beta Let_def prod_eq_iff)

lemma event_feed_Nil: "event_inv crc32 c \<Longrightarrow> event_feed sd crc32 c [] = c"
  by (cases c)
    (auto simp: event_inv_def event_feed_alt read_messages.simps [of sd crc32 "\<lparr>ec_partial = [], ec_progress = Stream_Open, ec_acc = _\<rparr>"])

definition event_step :: "serde \<Rightarrow> (bytes \<Rightarrow> u32) \<Rightarrow> event_cursor \<Rightarrow> bytes \<Rightarrow> event_cursor \<times> unit list" where
  "event_step sd crc32 c bs = (event_feed sd crc32 c bs, [])"

interpretation events: incremental "event_step sd crc32" "event_inv crc32" id id for sd crc32
  by unfold_locales (simp_all add: event_step_def event_feed_append event_feed_inv event_feed_Nil)

lemma event_default_inv: "event_inv crc32 event_cursor_default"
  by (simp add: event_inv_def event_cursor_default_def next_message_def PRELUDE_LEN_def)

lemma fold_event_feeds:
  "fst (feeds (event_step sd crc32) c reads) = fold (\<lambda>bs c. event_feed sd crc32 c bs) reads c"
  by (induction reads arbitrary: c) (simp_all add: event_step_def case_prod_beta Let_def)

section \<open>Base64\<close>

text \<open>RFC 4648's encoder: groups of three bytes as four characters, a cut last group padded.\<close>

definition base64_char :: "u8 \<Rightarrow> u8" where
  "base64_char s =
     (if s < 26 then s + 0x41 else if s < 52 then s - 26 + 0x61 else if s < 62 then s - 52 + 0x30
      else if s = 62 then 0x2B else 0x2F)"

fun base64_encode :: "bytes \<Rightarrow> bytes" where
  "base64_encode [] = []"
| "base64_encode [a] =
     [base64_char (drop_bit 2 a), base64_char (and (push_bit 4 a) 0x30), 0x3D, 0x3D]"
| "base64_encode [a, b] =
     [base64_char (drop_bit 2 a), base64_char (or (and (push_bit 4 a) 0x30) (drop_bit 4 b)),
      base64_char (and (push_bit 2 b) 0x3C), 0x3D]"
| "base64_encode (a # b # c # bs) =
     base64_char (drop_bit 2 a) # base64_char (or (and (push_bit 4 a) 0x30) (drop_bit 4 b)) #
     base64_char (or (and (push_bit 2 b) 0x3C) (drop_bit 6 c)) # base64_char (and c 0x3F) #
     base64_encode bs"

lemma sextet_char: "s < 64 \<Longrightarrow> sextet (base64_char s) = Some s \<and> base64_char s \<noteq> 0x3D"
proof -
  have all: "list_all (\<lambda>n. sextet (base64_char (word_of_nat n)) = Some (word_of_nat n) \<and>
      base64_char (word_of_nat n) \<noteq> 0x3D) [0..<64]"
    by code_simp
  assume "s < 64"
  then have "unat s \<in> set [0..<64]" by (simp add: word_less_nat_alt)
  with all have "sextet (base64_char (word_of_nat (unat s))) = Some (word_of_nat (unat s)) \<and>
      base64_char (word_of_nat (unat s)) \<noteq> 0x3D"
    unfolding list_all_iff by blast
  then show ?thesis by simp
qed

lemma below_64: "\<not> bit x 6 \<Longrightarrow> \<not> bit x 7 \<Longrightarrow> x < (64 :: u8)"
proof -
  assume no: "\<not> bit x 6" "\<not> bit x 7"
  have "take_bit 6 x = x"
  proof (rule bit_word_eqI)
    fix n assume "n < LENGTH(8)"
    then have "n < 6 \<or> n = 6 \<or> n = 7" by (simp, linarith)
    with no show "bit (take_bit 6 x) n = bit x n" by (auto simp: bit_take_bit_iff)
  qed
  then have "unat x = take_bit 6 (unat x)" by (metis unsigned_take_bit_eq)
  also have "\<dots> < 64" using take_bit_nat_less_exp [of 6 "unat x"] by simp
  finally show ?thesis by (simp add: word_less_nat_alt)
qed

lemma bit_small_consts:
  "\<not> bit (0x30 :: u8) 6" "\<not> bit (0x30 :: u8) 7" "\<not> bit (0x3C :: u8) 6" "\<not> bit (0x3C :: u8) 7"
  "\<not> bit (0x3F :: u8) 6" "\<not> bit (0x3F :: u8) 7"
  by simp_all

lemma sextet_parts:
  "drop_bit 2 a < (64 :: u8)" "and x 0x3F < (64 :: u8)"
  "or (and (push_bit 4 a) 0x30) (drop_bit 4 b) < (64 :: u8)"
  "or (and (push_bit 2 b) 0x3C) (drop_bit 6 c) < (64 :: u8)"
  "and (push_bit 4 a) 0x30 < (64 :: u8)" "and (push_bit 2 b) 0x3C < (64 :: u8)"
  by (rule below_64;
      simp add: bit_and_iff bit_or_iff bit_drop_bit_eq bit_push_bit_iff bit_small_consts;
      use bit_imp_le_length in force)+

lemma byte_eqI:
  assumes "list_all (\<lambda>n. bit x n = bit y n) [0, 1, 2, 3, 4, 5, 6, 7]"
  shows "x = (y :: u8)"
proof (rule bit_word_eqI)
  fix n assume "n < LENGTH(8)"
  then have "n \<in> set [0..<8]" by simp
  also have "[0..<8] = [0, 1, 2, 3, 4, 5, 6, 7]" by code_simp
  finally show "bit x n = bit y n" using assms unfolding list_all_iff by blast
qed

lemma byte_high: "n \<ge> 8 \<Longrightarrow> \<not> bit (x :: u8) n"
  using bit_imp_le_length [of x n] by auto

text \<open>The bytes that come back out of the accumulated bits.\<close>

lemma base64_bytes:
  fixes x :: u32 and a b c :: u8
  defines "s1 \<equiv> or (push_bit 6 x) (ucast (drop_bit 2 a))"
  defines "s2 \<equiv> \<lambda>t. or (push_bit 6 s1) (ucast (or (and (push_bit 4 a) 0x30) t))"
  defines "s3 \<equiv> \<lambda>t. or (push_bit 6 (s2 (drop_bit 4 b))) (ucast (or (and (push_bit 2 b) 0x3C) t))"
  shows "ucast (drop_bit 4 (s2 (drop_bit 4 b))) = (a :: u8)"
    and "ucast (drop_bit 4 (or (push_bit 6 s1) (ucast (and (push_bit 4 a) 0x30)))) = (a :: u8)"
    and "ucast (drop_bit 2 (s3 (drop_bit 6 c))) = (b :: u8)"
    and "ucast (drop_bit 2 (or (push_bit 6 (s2 (drop_bit 4 b))) (ucast (and (push_bit 2 b) 0x3C)))) = (b :: u8)"
    and "ucast (or (push_bit 6 (s3 (drop_bit 6 c))) (ucast (and c 0x3F))) = (c :: u8)"
  unfolding s1_def s2_def s3_def
  by (rule byte_eqI;
      simp add: bit_ucast_iff bit_or_iff bit_and_iff bit_push_bit_iff bit_drop_bit_eq byte_high;
      simp add: numeral_2_eq_2 numeral_3_eq_3)+

lemma base64_loop_encode:
  "base64_loop (takeWhile (\<lambda>c. c \<noteq> 0x3D) (base64_encode bs)) bits 0 out = Some (out @ bs)"
proof (induction bs arbitrary: bits out rule: base64_encode.induct)
  case 1
  then show ?case by simp
next
  case (2 a)
  then show ?case by (simp add: sextet_char sextet_parts Let_def base64_bytes(2) del: push_bit_or drop_bit_or push_bit_push_bit)
next
  case (3 a b)
  then show ?case by (simp add: sextet_char sextet_parts Let_def base64_bytes(1,4)
    del: push_bit_or drop_bit_or push_bit_push_bit)
next
  case (4 a b c bs)
  then show ?case by (simp add: sextet_char sextet_parts Let_def base64_bytes(1,3,5)
    del: push_bit_or drop_bit_or push_bit_push_bit)
qed

section \<open>Framing\<close>

text \<open>The encoder of a message: prelude, its CRC, headers, payload, and the CRC of it all.\<close>

definition frame_message :: "(bytes \<Rightarrow> u32) \<Rightarrow> bytes \<Rightarrow> bytes \<Rightarrow> bytes" where
  "frame_message crc32 h p =
     (let prelude = be_bytes (of_nat (16 + length h + length p)) @ be_bytes (of_nat (length h));
          message = prelude @ be_bytes (crc32 prelude) @ h @ p
      in message @ be_bytes (crc32 message))"

lemma length_be_bytes [simp]: "length (be_bytes w) = 4"
  by (simp add: be_bytes_def)

lemma be_word_bytes: "be_word (pre @ be_bytes w @ post) (length pre) = w"
proof -
  have "be_word (pre @ be_bytes w @ post) (length pre) =
      or (push_bit 24 (ucast (ucast (drop_bit 24 w) :: u8)))
        (or (push_bit 16 (ucast (ucast (drop_bit 16 w) :: u8)))
          (or (push_bit 8 (ucast (ucast (drop_bit 8 w) :: u8))) (ucast (ucast w :: u8))))"
    by (simp add: be_word_def be_bytes_def nth_append)
  also have "\<dots> = w" (is "?bytes = w")
  proof (rule bit_word_eqI)
    fix n assume "n < LENGTH(32)"
    then show "bit ?bytes n = bit w n"
      by (cases "n < 8"; cases "n < 16"; cases "n < 24")
        (auto simp: bit_or_iff bit_push_bit_iff bit_ucast_iff bit_drop_bit_eq)
  qed
  finally show ?thesis .
qed

lemma next_message_frame:
  assumes "16 + length h + length p \<le> MAX_MESSAGE_LEN"
  shows "next_message crc32 (frame_message crc32 h p @ after) = Frame_Message (16 + length h + length p) h p"
proof -
  define pre where "pre = be_bytes (of_nat (16 + length h + length p)) @ be_bytes (of_nat (length h))"
  define message where "message = pre @ be_bytes (crc32 pre) @ h @ p"
  have buf: "frame_message crc32 h p @ after = message @ be_bytes (crc32 message) @ after"
    by (simp add: frame_message_def Let_def pre_def message_def)
  have small: "16 + length h + length p < 2 ^ 32" using assms by (simp add: MAX_MESSAGE_LEN_def)
  have take: "take 12 (message @ be_bytes (crc32 message) @ after) = pre @ be_bytes (crc32 pre)"
    by (simp add: message_def pre_def)
  have words: "unat (be_word (pre @ be_bytes (crc32 pre)) 0) = 16 + length h + length p"
      "unat (be_word (pre @ be_bytes (crc32 pre)) 4) = length h"
      "be_word (pre @ be_bytes (crc32 pre)) 8 = crc32 pre" "take 8 (pre @ be_bytes (crc32 pre)) = pre"
    using be_word_bytes [of "[]" "of_nat (16 + length h + length p)" "be_bytes (of_nat (length h)) @ be_bytes (crc32 pre)"]
      be_word_bytes [of "be_bytes (of_nat (16 + length h + length p))" "of_nat (length h)" "be_bytes (crc32 pre)"]
      be_word_bytes [of pre "crc32 pre" "[]"] small
    by (simp_all add: pre_def unat_of_nat del: of_nat_add of_nat_numeral)
  have len: "length message = 12 + length h + length p" by (simp add: message_def pre_def)
  show ?thesis
    unfolding buf next_message_def take PRELUDE_LEN_def Let_def words
    using assms len by (simp add: CRC_LEN_def message_def pre_def)
qed

section \<open>Properties\<close>

text \<open>However the reads cut an event stream, its usage is that of the whole body read at once.\<close>

lemma event_cuts_agree:
  "event_usage reg (fold (\<lambda>bs c. event_feed sd crc32 c bs) reads event_cursor_default) =
     parse_event_stream_body sd crc32 reg (concat reads)"
  using events.feeds_concat [OF event_default_inv, where reads = reads and sd = sd]
  by (simp add: fold_event_feeds parse_event_stream_body_def event_step_def)

text \<open>Decoding undoes RFC 4648's base64 encoding, for payloads of any length.\<close>

lemma base64_roundtrip: "decode_base64 (base64_encode bs) = Some bs"
  using base64_loop_encode [of bs 0 "[]"] by (simp add: decode_base64_def)

text \<open>A message framed with both checksums is read back whole, its headers and payload as they were,
  whatever follows it.\<close>

lemma framed_message_is_read:
  assumes "16 + length h + length p \<le> MAX_MESSAGE_LEN"
  shows "next_message crc32 (frame_message crc32 h p @ after) = Frame_Message (16 + length h + length p) h p"
  using assms by (rule next_message_frame)

theorem framed_message_is_read_witness:
  "next_message (\<lambda>bs. of_nat (length bs)) (frame_message (\<lambda>bs. of_nat (length bs)) [1] [2, 3] @ [4]) =
     Frame_Message 19 [1] [2, 3]"
  using framed_message_is_read [of "[1]" "[2, 3]" "\<lambda>bs. of_nat (length bs)" "[4]"]
  by (simp add: MAX_MESSAGE_LEN_def)

end
