(* ===== verification/Provider_Props.thy ===== *)
theory Provider_Props
  imports Providers
begin

text \<open>
  What the provider configuration promises: patterns with a star cover the whole host or path end, the
  host filter never skips a host the lookup would serve, a merge replaces providers by name and keeps
  the order, and the usage read from a response is consistent with its own parts.
\<close>

section \<open>Patterns\<close>

lemma strip_suffix_Some_iff: "strip_suffix s p = Some r \<longleftrightarrow> s = r @ p"
  by (auto simp: strip_suffix_def ends_with_iff)

lemma strip_suffix_None_iff: "strip_suffix s p = None \<longleftrightarrow> (\<nexists>r. s = r @ p)"
  by (auto simp: strip_suffix_def ends_with_iff)

lemma takeWhile_split_once:
  "(case split_once c s of None \<Rightarrow> s | Some (a, _) \<Rightarrow> a) = takeWhile (\<lambda>x. x \<noteq> c) s"
  by (induction s) (auto split: option.splits)

lemma split_star:
  "c \<notin> set a \<Longrightarrow> split_once c (a @ c # b) = Some (a, b)"
  by (simp add: split_once_Some_iff)

lemma host_star:
  assumes "split_once (CHR ''*'') pattern = Some (a, b)"
  shows "host_matches host pattern \<longleftrightarrow> (\<exists>mid. takeWhile (\<lambda>c. c \<noteq> CHR '':'') host = a @ mid @ b)"
proof -
  define h where "h = takeWhile (\<lambda>c. c \<noteq> CHR '':'') host"
  have "host_matches host pattern \<longleftrightarrow>
      length h \<ge> length a + length b \<and> starts_with h a \<and> ends_with h b"
    unfolding host_matches_def assms takeWhile_split_once by (simp add: h_def Let_def)
  also have "\<dots> \<longleftrightarrow> (\<exists>mid. h = a @ mid @ b)"
  proof
    assume *: "length h \<ge> length a + length b \<and> starts_with h a \<and> ends_with h b"
    then obtain t where "h = a @ t" by (auto simp: starts_with_iff)
    moreover from * have "drop (length h - length b) h = b" by (simp add: ends_with_def)
    moreover from * \<open>h = a @ t\<close> have "length h - length b = length a + (length t - length b)"
      by simp
    ultimately have "drop (length t - length b) t = b" by simp
    then have "h = a @ take (length t - length b) t @ b"
      by (metis \<open>h = a @ t\<close> append_take_drop_id)
    then show "\<exists>mid. h = a @ mid @ b" ..
  qed (auto simp: starts_with_iff ends_with_iff)
  finally show ?thesis by (simp add: h_def)
qed

lemma ends_with_star:
  "ends_with_pattern s pattern \<longleftrightarrow>
     (case split_once (CHR ''*'') pattern of
        None \<Rightarrow> \<exists>r. s = r @ pattern
      | Some (a, b) \<Rightarrow> \<exists>r mid. s = r @ a @ mid @ b)"
  by (auto simp: ends_with_pattern_def strip_suffix_Some_iff strip_suffix_None_iff ends_with_iff
      contains_iff split: option.splits)

section \<open>Merging registries\<close>

lemma merge_loop_named:
  "filter (\<lambda>p. p_name p = n) (merge_loop replaced ps rest) =
     (if n \<in> set replaced then filter (\<lambda>p. p_name p = n) rest
      else filter (\<lambda>p. p_name p = n) ps @ filter (\<lambda>p. p_name p = n) rest)"
proof (induction replaced ps rest rule: merge_loop.induct)
  case (2 replaced p ps rest)
  show ?case
  proof (cases "p_name p \<in> set replaced")
    case False
    then show ?thesis using 2(1) by auto
  next
    case True
    have "filter (\<lambda>p. p_name p = n) (merge_loop replaced ps (filter (\<lambda>u. p_name u \<noteq> p_name p) rest)) =
        (if n \<in> set replaced then filter (\<lambda>p. p_name p = n) (filter (\<lambda>u. p_name u \<noteq> p_name p) rest)
         else filter (\<lambda>p. p_name p = n) ps @
              filter (\<lambda>p. p_name p = n) (filter (\<lambda>u. p_name u \<noteq> p_name p) rest))"
      using 2(2) [of "(filter (\<lambda>u. p_name u = p_name p) rest, filter (\<lambda>u. p_name u \<noteq> p_name p) rest)"] True
      by (simp add: partition_filter_conv comp_def)
    moreover have "filter (\<lambda>q. p_name q = n) (filter (\<lambda>u. p_name u = m) rest) =
        (if m = n then filter (\<lambda>u. p_name u = n) rest else [])"
      and "filter (\<lambda>q. p_name q = n) (filter (\<lambda>u. p_name u \<noteq> m) rest) =
        (if m = n then [] else filter (\<lambda>u. p_name u = n) rest)" for m
      by (auto simp: filter_empty_conv intro: filter_cong)
    ultimately show ?thesis using True by (auto simp: comp_def)
  qed
qed simp

text \<open>The place of every provider: what stands for the built-in provider at each index.\<close>

fun merge_slots :: "str list \<Rightarrow> registry \<Rightarrow> str list \<Rightarrow> registry \<Rightarrow> registry" where
  "merge_slots seen [] replaced user = filter (\<lambda>u. p_name u \<notin> set seen) user"
| "merge_slots seen (p # ps) replaced user =
     (if p_name p \<notin> set replaced then [p]
      else if p_name p \<in> set seen then []
      else filter (\<lambda>u. p_name u = p_name p) user)
     @ merge_slots (if p_name p \<in> set replaced then p_name p # seen else seen) ps replaced user"

lemma merge_loop_slots:
  "merge_loop replaced ps (filter (\<lambda>u. p_name u \<notin> set seen) user) = merge_slots seen ps replaced user"
proof (induction ps arbitrary: seen)
  case (Cons p ps)
  have "filter (\<lambda>u. p_name u = p_name p) (filter (\<lambda>u. p_name u \<notin> set seen) user) =
      (if p_name p \<in> set seen then [] else filter (\<lambda>u. p_name u = p_name p) user)"
    by (auto simp: filter_empty_conv intro: filter_cong)
  moreover have "filter (\<lambda>u. p_name u \<noteq> p_name p) (filter (\<lambda>u. p_name u \<notin> set seen) user) =
      filter (\<lambda>u. p_name u \<notin> set (p_name p # seen)) user"
    by (auto intro: filter_cong)
  ultimately show ?case
    using Cons.IH [of seen] Cons.IH [of "p_name p # seen"]
    by (simp add: partition_filter_conv comp_def Let_def)
qed simp

section \<open>Usage\<close>

text \<open>What serde guarantees of a parsed value: unsigned numbers fit 64 bits.\<close>

fun json_ok :: "json \<Rightarrow> bool" where
  "json_ok (Number (PosInt n)) = (n \<le> u64_max)"
| "json_ok (Array xs) = list_all json_ok xs"
| "json_ok (Object ms) = list_all (\<lambda>(_, v). json_ok v) ms"
| "json_ok _ = True"

definition counts_ok :: "provider_config \<Rightarrow> usage_info \<Rightarrow> bool" where
  "counts_ok p u \<longleftrightarrow>
     prompt_tokens u \<le> u64_max \<and> completion_tokens u \<le> u64_max \<and>
     (case cache_write_long_ttl_tokens u of
        None \<Rightarrow> True
      | Some l \<Rightarrow> cache_write_tokens u \<noteq> None \<and> l \<le> or_zero (cache_write_tokens u)) \<and>
     (if completion_excludes_thoughts (tokens (p_response p))
      then or_zero (thoughts_tokens u) \<le> completion_tokens u else True) \<and>
     (if prompt_excludes_cache (cache (p_response p))
      then prompt_tokens u = u64_max \<or>
           or_zero (cache_read_tokens u) + or_zero (cache_write_tokens u) \<le> prompt_tokens u
      else True)"

lemma json_get_ok: "json_ok v \<Longrightarrow> json_get v k = Some w \<Longrightarrow> json_ok w"
  by (cases v) (auto simp: json_get_def list_all_iff dest: map_of_SomeD)

lemma get_keys_ok: "json_ok v \<Longrightarrow> get_keys v ks = Some w \<Longrightarrow> json_ok w"
  by (induction ks arbitrary: v) (auto split: option.splits dest: json_get_ok)

lemma nested_ok: "json_ok v \<Longrightarrow> get_nested_value v path = Some w \<Longrightarrow> json_ok w"
  by (simp add: get_nested_value_def get_keys_ok)

lemma as_u64_ok: "json_ok v \<Longrightarrow> as_u64 v = Some n \<Longrightarrow> n \<le> u64_max"
  by (auto simp: as_u64_def split: json.splits json_number.splits)

lemma optional_count_ok: "json_ok v \<Longrightarrow> or_zero (optional_count v path) \<le> u64_max"
  by (cases path) (auto simp: optional_count_def or_zero_def bind_eq_Some_conv
      split: option.splits dest: nested_ok as_u64_ok)

text \<open>Where the counts of a response come from.\<close>

lemma read_tokens_Some:
  assumes "read_tokens config u = Some t"
  obtains p c where
    "Option.bind (get_nested_value u (tc_prompt config)) as_u64 = Some p"
    "c = 0 \<or> Option.bind (get_nested_value u (tc_completion config)) as_u64 = Some c"
    "t = \<lparr>t_prompt = sat_add p (or_zero (optional_count u (extra_prompt config))),
          t_completion =
            (if completion_excludes_thoughts config
             then sat_add c (or_zero (optional_count u (tc_thoughts config))) else c),
          t_thoughts = optional_count u (tc_thoughts config)\<rparr>"
  using assms unfolding read_tokens_def Let_def
  by (auto split: option.split_asm if_split_asm)

lemma path_count_ok:
  "json_ok v \<Longrightarrow> Option.bind (get_nested_value v path) as_u64 = Some n \<Longrightarrow> n \<le> u64_max"
  by (auto simp: bind_eq_Some_conv dest: nested_ok as_u64_ok)

lemma read_tokens_ok:
  assumes "json_ok u" and "read_tokens config u = Some t"
  shows "t_prompt t \<le> u64_max" "t_completion t \<le> u64_max"
    "completion_excludes_thoughts config \<Longrightarrow> or_zero (t_thoughts t) \<le> t_completion t"
  using assms(2)
  by (rule read_tokens_Some;
      use path_count_ok [OF assms(1)] optional_count_ok [OF assms(1), of "tc_thoughts config"]
      in \<open>auto simp: sat_add_def\<close>)+

lemma read_cache_ok:
  "case c_write_long (read_cache config u) of
     None \<Rightarrow> True
   | Some l \<Rightarrow> c_write (read_cache config u) \<noteq> None \<and> l \<le> or_zero (c_write (read_cache config u))"
  by (auto simp: read_cache_def Let_def or_zero_def split: option.splits)

lemma read_usage_ok:
  assumes "json_ok u" and "read_usage p u root = Some i"
  shows "counts_ok p i"
proof -
  obtain t where t: "read_tokens (tokens (p_response p)) u = Some t"
    using assms(2) by (auto simp: read_usage_def Let_def split: option.splits)
  define c where "c = read_cache (cache (p_response p)) u"
  from assms(2) t have "completion_tokens i = t_completion t" "thoughts_tokens i = t_thoughts t"
      "cache_read_tokens i = c_read c" "cache_write_tokens i = c_write c"
      "cache_write_long_ttl_tokens i = c_write_long c"
      "prompt_tokens i = (if prompt_excludes_cache (cache (p_response p))
         then sat_add (sat_add (t_prompt t) (or_zero (c_read c))) (or_zero (c_write c))
         else t_prompt t)"
    by (auto simp: read_usage_def Let_def c_def)
  with read_tokens_ok [OF assms(1) t] read_cache_ok [of "cache (p_response p)" u, folded c_def]
  show ?thesis
    by (auto simp: counts_ok_def sat_add_def split: option.splits)
qed

lemma counts_ok_with [simp]:
  "counts_ok p (with_suppressed b i) = counts_ok p i"
  "counts_ok p (with_model m i) = counts_ok p i"
  "counts_ok p (with_iterations its i) = counts_ok p i"
  by (simp_all add: counts_ok_def cong: option.case_cong)

lemma attempt_ok:
  assumes "json_ok e" and "read_attempt p cats e = Some a"
  shows "counts_ok p a"
proof -
  obtain i where i: "read_usage p e e = Some i" and "a = i \<or> (\<exists>b. a = with_suppressed b i)"
    using assms(2) by (auto simp: read_attempt_def split: option.splits if_splits)
  with read_usage_ok [OF assms(1) i] show ?thesis by auto
qed

lemma as_array_iff: "as_array w = Some es \<longleftrightarrow> w = Array es"
  by (cases w) (auto simp: as_array_def)

lemma entries_ok:
  assumes "json_ok v" and "Option.bind (Option.bind path (get_nested_value v)) as_array = Some es"
  shows "list_all json_ok es"
  using assms nested_ok [OF assms(1)] by (fastforce simp: bind_eq_Some_conv as_array_iff)

lemma read_usage_iterations: "read_usage p u root = Some i \<Longrightarrow> iterations i = []"
  by (auto simp: read_usage_def Let_def split: option.splits)

definition suppression_ok :: "provider_config \<Rightarrow> (str \<times> str option) list \<Rightarrow> usage_info \<Rightarrow> bool" where
  "suppression_ok p categories a \<longleftrightarrow>
     model a \<noteq> None \<and> iterations a = [] \<and>
     cost_suppressed a =
       (case billed_categories (pricing (p_response p)) of
          None \<Rightarrow> False
        | Some billed \<Rightarrow>
            completion_tokens a = 0 \<and> \<not> is_billed_category (category_of categories (the (model a))) billed)"

lemma attempt_suppression:
  assumes "read_attempt p cats e = Some a"
  shows "suppression_ok p cats a"
proof -
  obtain i where i: "read_usage p e e = Some i" "model i \<noteq> None"
    using assms by (auto simp: read_attempt_def split: option.splits if_splits)
  have "cost_suppressed i = False" "iterations i = []"
    using i(1) by (auto simp: read_usage_def Let_def split: option.splits)
  with assms i show ?thesis
    by (auto simp: read_attempt_def suppression_ok_def split: option.splits if_splits)
qed

text \<open>The cases of \<open>parse_usage\<close>: the top level alone, or with a fallback's attempts.\<close>

lemma parse_usage_cases:
  assumes "parse_usage p json = Some u"
  obtains usage info es where
    "get_nested_value json (usage_path (tokens (p_response p))) = Some usage"
    "read_usage p usage json = Some info"
    "u = info \<or>
     (Option.bind (Option.bind (iterations_path (identity (p_response p))) (get_nested_value usage)) as_array = Some es
      \<and> (\<exists>m. u = with_iterations (List.map_filter (read_attempt p (fallback_categories json)) (butlast es))
                  (with_model m info)))"
proof -
  obtain usage where usage: "get_nested_value json (usage_path (tokens (p_response p))) = Some usage"
    using assms by (auto simp: parse_usage_def Let_def split: option.splits)
  obtain info where info: "read_usage p usage json = Some info"
    using assms usage by (auto simp: parse_usage_def Let_def split: option.splits if_splits)
  then have none: "iterations info = []" and same: "with_model (model info) info = info"
    by (auto simp: read_usage_def Let_def with_model_def split: option.splits usage_info.splits)
  define es where "es = Option.bind (Option.bind (iterations_path (identity (p_response p)))
    (get_nested_value usage)) as_array"
  define its where "its = (\<lambda>xs. List.map_filter (read_attempt p (fallback_categories json)) (butlast xs))"
  have "u = (case es of None \<Rightarrow> info | Some entries \<Rightarrow>
      (if entries = [] \<or> text_member (last entries) ''type'' \<noteq> Some ''fallback_message'' then info
       else with_iterations (its entries)
         (case json_text (last entries) (model_path (identity (p_response p))) of
            None \<Rightarrow> info | Some m \<Rightarrow> with_model (Some m) info)))"
    using assms usage info none
    by (auto simp: parse_usage_def es_def its_def Let_def split: if_split_asm option.splits)
  then have "u = info \<or> (\<exists>xs. es = Some xs \<and> (\<exists>m. u = with_iterations (its xs) (with_model m info)))"
    by (auto split: option.splits if_splits)
      (metis same)
  with usage info that show thesis by (auto simp: es_def its_def)
qed

section \<open>Properties\<close>

text \<open>A provider and a response of it with a declined attempt, for the examples.\<close>

definition sample_provider :: provider_config where
  "sample_provider =
     \<lparr>p_name = ''anthropic'', p_hosts = [''api.anthropic.com''], p_paths = [''/v1/messages$''],
      p_response = response_config_default
        \<lparr>tokens := token_config_default
           \<lparr>tc_prompt := ''input_tokens'', tc_completion := ''output_tokens''\<rparr>,
         cache := \<lparr>cc_read = Some ''cache_read'', cc_write = Some ''cache_write'', cc_write_long = None,
           prompt_excludes_cache = True\<rparr>,
         pricing := \<lparr>service_tier_path = None, pc_speed = None, pc_geo = None,
           billed_categories = Some [''cyber'']\<rparr>,
         identity := identity_config_default\<lparr>iterations_path := Some ''iterations''\<rparr>\<rparr>,
      p_extractor = Messages, p_plaintext = None\<rparr>"

definition sample_response :: json where
  "sample_response =
     (let attempt = (\<lambda>ty m n. Object [(''type'', Str ty), (''model'', Str m),
            (''input_tokens'', Number (PosInt 9)), (''output_tokens'', Number (PosInt n))])
      in Object
        [(''model'', Str ''opus''),
         (''content'', Array [Object [(''type'', Str ''fallback''),
            (''from'', Object [(''model'', Str ''opus'')]),
            (''trigger'', Object [(''category'', Str ''bio'')])]]),
         (''usage'', Object
            [(''input_tokens'', Number (PosInt 5)), (''output_tokens'', Number (PosInt 7)),
             (''cache_read'', Number (PosInt 3)),
             (''iterations'', Array [attempt ''message'' ''opus'' 0, attempt ''fallback_message'' ''haiku'' 7])])])"

lemmas usage_eval =
  parse_usage_def read_usage_def read_attempt_def read_tokens_def read_cache_def is_own_usage_def
  category_of_def is_billed_category_def array_member_def text_member_def
  optional_count_def optional_text_def json_text_def get_nested_value_def json_get_def as_str_def
  as_u64_def as_array_def or_zero_def sat_add_def u64_max_def map_filter_simps

lemma sample_categories: "fallback_categories sample_response = [(''opus'', Some ''bio'')]"
  by code_simp

lemma sample_usage:
  "map_option (\<lambda>u. (prompt_tokens u, model u, map cost_suppressed (iterations u)))
     (parse_usage sample_provider sample_response) = Some (8, Some ''haiku'', [True])"
  "json_ok sample_response"
  by (simp_all add: usage_eval sample_categories [unfolded sample_response_def Let_def]
     sample_provider_def sample_response_def
     response_config_default_def token_config_default_def identity_config_default_def)

text \<open>A host pattern without a star is a substring of the host. With a star it covers the whole host
  without its port: the part before the star, any run of characters, the part after.\<close>

lemma host_matches_iff:
  "host_matches host pattern \<longleftrightarrow>
     (case split_once (CHR ''*'') pattern of
        None \<Rightarrow> (\<exists>a b. host = a @ pattern @ b)
      | Some (a, b) \<Rightarrow> (\<exists>mid. takeWhile (\<lambda>c. c \<noteq> CHR '':'') host = a @ mid @ b))"
proof (cases "split_once (CHR ''*'') pattern")
  case None
  then show ?thesis by (simp add: host_matches_def contains_iff)
qed (auto simp: host_star)

text \<open>A path pattern ending in \<open>$\<close> covers the end of the path without its query, with one trailing
  slash allowed; one star in it stands for any run of characters. Any other pattern is a substring.\<close>

lemma path_matches_iff:
  "path_matches path pattern \<longleftrightarrow>
     (if pattern \<noteq> [] \<and> last pattern = CHR ''$''
      then (\<exists>before slash mid.
              takeWhile (\<lambda>c. c \<noteq> CHR ''?'') path = before @ mid @ slash \<and> slash \<in> {[], ''/''} \<and>
              (case split_once (CHR ''*'') (butlast pattern) of
                 None \<Rightarrow> mid = butlast pattern
               | Some (a, b) \<Rightarrow> \<exists>any. mid = a @ any @ b))
      else (\<exists>a b. path = a @ pattern @ b))"
proof (cases "pattern \<noteq> [] \<and> last pattern = CHR ''$''")
  case True
  then obtain suffix where pattern: "pattern = suffix @ ''$''"
    by (metis append_butlast_last_id)
  then have strip: "strip_suffix pattern ''$'' = Some suffix" by (simp add: strip_suffix_Some_iff)
  have slash: "(case strip_suffix s ''/'' of None \<Rightarrow> False | Some q \<Rightarrow> ends_with_pattern q suffix) \<longleftrightarrow>
      (\<exists>q. s = q @ ''/'' \<and> ends_with_pattern q suffix)" for s
    by (auto simp: strip_suffix_Some_iff strip_suffix_None_iff split: option.splits)
  show ?thesis
    unfolding path_matches_def strip option.case takeWhile_split_once Let_def slash
    using True by (cases "split_once (CHR ''*'') suffix") (auto simp: ends_with_star pattern, (metis append_assoc append_Nil2)+)
next
  case False
  then have "strip_suffix pattern ''$'' = None" by (auto simp: strip_suffix_None_iff)
  then show ?thesis unfolding if_not_P [OF False] by (simp add: path_matches_def contains_iff)
qed

text \<open>The lookup serves the first provider whose host and path patterns both match, and the host
  filter passes every host the lookup serves at any path: no servable connection is skipped.\<close>

lemma lookup_is_first_and_never_filtered:
  "(case find_provider reg host path of
      None \<Rightarrow> list_all (\<lambda>p. \<not> provider_matches p host path) reg
    | Some p \<Rightarrow>
        may_serve_host reg host \<and> provider_matches p host path \<and>
        (\<exists>before after. reg = before @ p # after \<and>
           list_all (\<lambda>q. \<not> provider_matches q host path) before))"
proof (cases "find_provider reg host path")
  case None
  then have "list_all (\<lambda>p. \<not> provider_matches p host path) reg"
    unfolding find_provider_def find_None_iff list_all_iff provider_matches_def by blast
  then show ?thesis using None by simp
next
  case (Some p)
  then obtain i where i: "i < length reg" "reg ! i = p" "provider_matches p host path"
      "\<forall>j<i. \<not> provider_matches (reg ! j) host path"
    unfolding find_provider_def find_Some_iff provider_matches_def by blast
  then have "reg = take i reg @ p # drop (Suc i) reg" by (metis id_take_nth_drop)
  moreover have "list_all (\<lambda>q. \<not> provider_matches q host path) (take i reg)"
    using i by (auto simp: list_all_length)
  moreover have "may_serve_host reg host"
    using i nth_mem [OF i(1)] by (auto simp: may_serve_host_def provider_matches_def list_ex_iff)
  ultimately show ?thesis using Some i(3) by auto
qed

text \<open>Merging a user's providers replaces the built-in ones of the same name and keeps every other:
  by name, the result lists the user's providers where there are any and else the built-in ones. By
  place, each kept provider stays where it was, the user's providers of a replaced name take the place of
  the first one replaced, and the rest follow in the user's order.\<close>

lemma registry_merge_by_name_and_place:
  "filter (\<lambda>p. p_name p = n) (registry_merge builtin user) =
     (if n \<in> p_name ` set user then filter (\<lambda>p. p_name p = n) user
      else filter (\<lambda>p. p_name p = n) builtin) \<and>
   registry_merge builtin user = merge_slots [] builtin (map p_name user) user"
  using merge_loop_named [of n "map p_name user" builtin user]
    merge_loop_slots [of "map p_name user" builtin "[]" user]
  by (auto simp: registry_merge_def filter_empty_conv)

text \<open>The usage of any well-formed response is consistent with itself, for the response and each
  declined attempt: counts fit 64 bits, long-lived cache writes are within the cache writes, reasoning is
  within the completion where the provider reports it apart, and the cached tokens are within the prompt
  where it reports them apart, unless the sum saturated.\<close>

lemma parse_usage_consistent:
  assumes "json_ok json" and "parse_usage p json = Some u"
  shows "list_all (counts_ok p) (u # iterations u)"
  using assms(2)
proof (rule parse_usage_cases)
  fix usage info es
  assume usage: "get_nested_value json (usage_path (tokens (p_response p))) = Some usage"
    and info: "read_usage p usage json = Some info"
    and u: "u = info \<or>
     (Option.bind (Option.bind (iterations_path (identity (p_response p))) (get_nested_value usage)) as_array = Some es
      \<and> (\<exists>m. u = with_iterations (List.map_filter (read_attempt p (fallback_categories json)) (butlast es))
                  (with_model m info)))"
  have ok: "json_ok usage" by (rule nested_ok [OF assms(1) usage])
  have top: "counts_ok p info" by (rule read_usage_ok [OF ok info])
  have "iterations info = []" using info by (rule read_usage_iterations)
  moreover have "counts_ok p a"
    if "list_all json_ok es" "a \<in> set (List.map_filter (read_attempt p (fallback_categories json)) (butlast es))" for a
    using that by (auto simp: map_filter_def list_all_iff intro!: attempt_ok dest: in_set_butlastD)
  ultimately show ?thesis
    using u top entries_ok [OF ok] by (auto simp: list_all_iff)
qed

theorem parse_usage_consistent_witness:
  "list_all (counts_ok sample_provider)
     (the (parse_usage sample_provider sample_response) #
      iterations (the (parse_usage sample_provider sample_response)))"
  by (rule parse_usage_consistent [OF sample_usage(2)]) (use sample_usage(1) in auto)

text \<open>The response's own usage is never suppressed and needs no cost of a nested attempt. An attempt
  has a model, no attempts of its own, and is suppressed exactly when the provider declares billed
  categories, the attempt has no output, and its refusal category is not one of them.\<close>

lemma suppressed_attempts:
  assumes "parse_usage p json = Some u"
  shows "\<not> cost_suppressed u \<and> list_all (suppression_ok p (fallback_categories json)) (iterations u)"
proof -
  obtain usage info es where info: "read_usage p usage json = Some info"
    and u: "u = info \<or>
     (Option.bind (Option.bind (iterations_path (identity (p_response p))) (get_nested_value usage)) as_array = Some es
      \<and> (\<exists>m. u = with_iterations (List.map_filter (read_attempt p (fallback_categories json)) (butlast es))
                  (with_model m info)))"
    using assms by (rule parse_usage_cases)
  have "cost_suppressed info = False"
    using info by (auto simp: read_usage_def Let_def split: option.splits)
  with u have "\<not> cost_suppressed u" by auto
  moreover have some: "suppression_ok p cats a" if "a \<in> set (List.map_filter (read_attempt p cats) xs)" for a xs cats
    using that attempt_suppression by (auto simp: map_filter_def)
  have "list_all (suppression_ok p (fallback_categories json)) (iterations u)"
    using u read_usage_iterations [OF info] some by (auto simp: list_all_iff)
  ultimately show ?thesis by simp
qed

theorem suppressed_attempts_witness:
  "cost_suppressed (the (parse_usage sample_provider sample_response)) = False \<and>
   list_all (suppression_ok sample_provider (fallback_categories sample_response))
     (iterations (the (parse_usage sample_provider sample_response)))"
proof -
  have "parse_usage sample_provider sample_response =
      Some (the (parse_usage sample_provider sample_response))"
    using sample_usage(1) by auto
  from suppressed_attempts [OF this] show ?thesis by simp
qed

end
