(* ===== verification/Http1_Props.thy ===== *)
theory Http1_Props
  imports Http1 Event_Props Provider_Props
begin

text \<open>
  Reading a response as it grows gives what reading the whole buffer afresh gives: the head found once
  stays, the chunk decoder and the cursors resume where the last read left them.
\<close>

section \<open>The chunk decoder resumed\<close>

definition stop_state :: "chunk_state \<Rightarrow> bool" where
  "stop_state st \<longleftrightarrow> st \<in> {Trailer, Ended, Broken}"

lemma walk_stopped:
  "stop_state st \<Longrightarrow> walk r st rest = (st1, u, d) \<Longrightarrow> stop_state st1 \<and> d = []"
proof (induction r st rest arbitrary: st1 u d rule: walk_induct)
  case (LineEnd r st rest lf)
  from LineEnd.prems(1) LineEnd.hyps(1) have "stop_state (after_line r st (take (lf - 1) rest))"
    by (auto simp: stop_state_def after_line_def line_state_def)
  then show ?case
    using LineEnd.IH LineEnd.prems(2) LineEnd.hyps by (auto simp: walk_line split: prod.splits)
next
  case (LineCut r st rest)
  then show ?case by (simp add: walk_line)
next
  case (LineBad r st rest)
  then show ?case by (auto simp: walk_line stop_state_def)
qed (auto simp: stop_state_def)

text \<open>Every slice a walk passes on has bytes, when no chunk of length zero is under way.\<close>

lemma walk_slices:
  "st \<noteq> Data 0 \<Longrightarrow> walk r st rest = (st1, u, d) \<Longrightarrow> st1 \<noteq> Data 0 \<and> [] \<notin> set d"
proof (induction r st rest arbitrary: st1 u d rule: walk_induct)
  case (DataPart r left rest)
  then show ?case by (auto simp: walk_Data_part)
next
  case (DataWhole r left rest)
  then show ?case by (fastforce simp: walk_Data_whole after_data_def split: prod.splits if_splits)
next
  case (SkipPart r left rest)
  then show ?case by (auto simp: walk_Skip_part)
next
  case (SkipWhole r left rest)
  then show ?case by (auto simp: walk_Skip_whole split: prod.splits)
next
  case (LineEnd r st rest lf)
  have "after_line r st (take (lf - 1) rest) \<noteq> Data 0"
    by (auto simp: after_line_def split: chunk_state.splits option.splits)
  with LineEnd show ?case by (fastforce simp: walk_line split: prod.splits)
next
  case (LineCut r st rest)
  then show ?case by (simp add: walk_line)
next
  case (LineBad r st rest)
  then show ?case by (auto simp: walk_line)
qed auto

definition dc_inv :: "bool \<Rightarrow> bytes \<Rightarrow> bytes \<Rightarrow> dechunker \<Rightarrow> bool" where
  "dc_inv chunked body fed d \<longleftrightarrow>
     rules (dc_walk d) = BASIC \<and>
     (if \<not> chunked then dc_pos d = length body \<and> fed = body
      else case walk BASIC Size body of (st, u, ds) \<Rightarrow>
        if dc_raw d then stop_state st \<and> ds = [] \<and> dc_pos d = length body \<and> fed = body
        else fed = concat ds \<and> dc_decoded_any d = (ds \<noteq> []) \<and>
          (if stop_state st then stop_state (state (dc_walk d)) \<and> ds \<noteq> []
           else state (dc_walk d) = st \<and> dc_pos d = u))"

lemma dc_stopped_alt: "dc_stopped d \<longleftrightarrow> dc_raw d \<or> stop_state (state (dc_walk d))"
  by (auto simp: dc_stopped_def stop_state_def)

lemma dc_inv_default: "dc_inv chunked [] [] dechunker_default"
  by (simp add: dc_inv_def dechunker_default_def chunk_walk_new_def stop_state_def)

lemma concat_data_slices: "[] \<notin> set d \<Longrightarrow> concat d = [] \<longleftrightarrow> d = []"
  by (cases d) auto

lemma dc_advance_inv:
  assumes inv: "dc_inv chunked body fed d"
    and adv: "dc_advance d (body @ x) chunked = (d', ds')"
  shows "dc_inv chunked (body @ x) (fed @ concat ds') d' \<and>
    dc_stopped d' = (if chunked then stop_state (fst (walk BASIC Size (body @ x))) else True)"
proof (cases chunked)
  case False
  with inv adv show ?thesis
    by (auto simp: dc_advance_def dc_inv_def dc_stopped_alt Let_def)
next
  case True
  obtain st u ds where w: "walk BASIC Size body = (st, u, ds)" by (metis prod_cases3)
  obtain s2 u2 d2 where w2: "walk BASIC st (drop u body @ x) = (s2, u2, d2)" by (metis prod_cases3)
  obtain dd where whole: "walk BASIC Size (body @ x) = (s2, u + u2, dd)" "concat dd = concat ds @ concat d2"
    using walk_more [OF w w2] by blast
  have slices: "[] \<notin> set ds" "[] \<notin> set d2" "[] \<notin> set dd"
    using walk_slices [OF _ w] walk_slices [OF _ w2] walk_slices [OF _ whole(1)] by auto
  have none: "dd = [] \<longleftrightarrow> ds = [] \<and> d2 = []"
    using whole(2) slices by (metis append_is_Nil_conv concat_data_slices)
  show ?thesis
  proof (cases "stop_state st")
    case stop: True
    then have "stop_state s2" "d2 = []" using walk_stopped [OF stop w2] by auto
    with True stop inv adv w whole none show ?thesis
      by (auto simp: dc_advance_def dc_inv_def dc_stopped_alt Let_def split: if_splits)
  next
    case go: False
    have u: "u \<le> length body" using walk_used [OF w] .
    from go True inv w have d: "dc_raw d = False" "fed = concat ds" "dc_decoded_any d = (ds \<noteq> [])"
        "state (dc_walk d) = st" "dc_pos d = u" "rules (dc_walk d) = BASIC"
      by (auto simp: dc_inv_def split: if_splits)
    have "chunk_walk_walk (dc_walk d) (drop u (body @ x)) = (dc_walk d\<lparr>state := s2\<rparr>, u2, d2)"
      using u w2 d by (simp add: chunk_walk_walk_simp)
    with go True d adv whole none show ?thesis
      by (auto simp: dc_advance_def dc_inv_def dc_stopped_alt Let_def split: if_splits)
  qed
qed

section \<open>The head once found\<close>

text \<open>
  What httparse promises of a complete head: it took some of the bytes, and more bytes after them change
  nothing it found.
\<close>

definition heads_stable :: "libs \<Rightarrow> bool" where
  "heads_stable lib \<longleftrightarrow>
     (\<forall>buf n more. rs_status (httparse_response lib buf) = Parse_Complete n \<longrightarrow>
        0 < n \<and> n \<le> length buf \<and> httparse_response lib (buf @ more) = httparse_response lib buf)"

lemma heads_stableD:
  assumes "heads_stable lib" and "rs_status (httparse_response lib buf) = Parse_Complete n"
  shows "0 < n" "n \<le> length buf" "buf \<noteq> []"
    "httparse_response lib (buf @ after) = httparse_response lib buf"
proof -
  show *: "0 < n" "n \<le> length buf" "httparse_response lib (buf @ after) = httparse_response lib buf"
    using assms unfolding heads_stable_def by blast+
  then show "buf \<noteq> []" by auto
qed

lemma final_head_append:
  "heads_stable lib \<Longrightarrow> final_head lib buf = Some h \<Longrightarrow> final_head lib (buf @ x) = Some (h\<lparr>hd_body := hd_body h @ x\<rparr>)"
proof (induction lib buf rule: final_head.induct)
  case (1 lib rest)
  define resp where "resp = httparse_response lib rest"
  obtain n where n: "rs_status resp = Parse_Complete n"
    using 1(3) by (auto simp: resp_def final_head.simps [of lib rest] Let_def split: parse_status.splits)
  have same: "0 < n" "n \<le> length rest" "rest \<noteq> []" "httparse_response lib (rest @ x) = resp"
    using heads_stableD [OF 1(2) n [unfolded resp_def]] by (simp_all add: resp_def)
  show ?case
  proof (cases "case rs_code resp of None \<Rightarrow> False | Some c \<Rightarrow> 100 \<le> c \<and> c < 200")
    case True
    have "final_head lib (drop n rest) = Some h"
      using 1(3) True n same by (simp add: final_head.simps [of lib rest] resp_def [symmetric])
    moreover have "final_head lib (rest @ x) = final_head lib (drop n rest @ x)"
      using True n same by (simp add: final_head.simps [of lib "rest @ x"])
    ultimately show ?thesis
      using 1(1) [OF resp_def n _ 1(2)] True same by simp
  next
    case False
    have "hd_body h = drop n rest"
      using 1(3) False n same by (auto simp: final_head.simps [of lib rest] resp_def [symmetric])
    then show ?thesis
      using 1(3) False n same
      by (auto simp: final_head.simps [of lib rest] final_head.simps [of lib "rest @ x"] resp_def [symmetric])
  qed
qed

lemma final_head_Nil: "heads_stable lib \<Longrightarrow> final_head lib [] = None"
  using heads_stableD(3) [of lib "[]"]
  by (auto simp: final_head.simps [of lib "[]"] Let_def split: parse_status.splits)

section \<open>The usage of a buffer\<close>

text \<open>What of a body the cursors have been given once all of it was decoded.\<close>

definition fed_bytes :: "head \<Rightarrow> bytes" where
  "fed_bytes h =
     (if hd_framing h \<noteq> Chunked then hd_body h
      else case walk BASIC Size (hd_body h) of (st, u, ds) \<Rightarrow>
        if stop_state st \<and> ds = [] then hd_body h else concat ds)"

definition feeds_sse :: "head \<Rightarrow> bool" where
  "feeds_sse h \<longleftrightarrow> hd_is_sse h \<and> \<not> is_encoded (hd_headers h)"

definition feeds_events :: "head \<Rightarrow> bool" where
  "feeds_events h \<longleftrightarrow> hd_is_eventstream h \<and> \<not> is_encoded (hd_headers h)"

definition progress_inv :: "libs \<Rightarrow> bytes \<Rightarrow> response_progress \<Rightarrow> bool" where
  "progress_inv lib buf rp \<longleftrightarrow>
     (case final_head lib buf of
        None \<Rightarrow> rp\<lparr>rp_background := None\<rparr> = response_progress_default
      | Some h \<Rightarrow>
          dc_inv (hd_framing h = Chunked) (hd_body h) (fed_bytes h) (rp_chunks rp) \<and>
          rp_sse rp =
            (if feeds_sse h then sse_feed (libs_serde lib) sse_cursor_default (fed_bytes h)
             else sse_cursor_default) \<and>
          rp_events rp =
            (if feeds_events h \<and> \<not> feeds_sse h
             then event_feed (libs_serde lib) (crc32 lib) event_cursor_default (fed_bytes h)
             else event_cursor_default))"

lemma dc_inv_fed: "dc_inv (hd_framing h = Chunked) (hd_body h) fed d \<Longrightarrow> fed = fed_bytes h"
  by (auto simp: dc_inv_def fed_bytes_def split: prod.splits if_splits)

lemma sse_fold: "fold (\<lambda>d c. sse_feed sd c d) ds c = sse_feed sd c (concat ds)"
proof (induction ds arbitrary: c)
  case Nil
  then show ?case by (simp add: sse_feed_None)
qed (simp add: sse_feed_append)

lemma event_fold:
  "event_inv crc c \<Longrightarrow> fold (\<lambda>d c. event_feed sd crc c d) ds c = event_feed sd crc c (concat ds)"
  by (induction ds arbitrary: c) (simp_all add: event_feed_Nil event_feed_append event_feed_inv)

lemma read_response_keeps:
  "rp_chunks (snd (read_response lib reg h rp)) = rp_chunks rp"
  "rp_sse (snd (read_response lib reg h rp)) = rp_sse rp"
  "rp_events (snd (read_response lib reg h rp)) = rp_events rp"
  by (simp_all add: read_response_def Let_def case_prod_beta split: option.splits)

lemma parse_json_body_usage: "fst (parse_json_body lib reg b bg) = fst (parse_json_body lib reg b bg')"
  by (simp add: parse_json_body_def parse_response_json_def Let_def split: option.splits)

lemma read_response_usage:
  assumes "rp_sse rp = rp_sse rp'" "rp_events rp = rp_events rp'"
    "dc_stopped (rp_chunks rp) = dc_stopped (rp_chunks rp')"
  shows "fst (read_response lib reg h rp) = fst (read_response lib reg h rp')"
proof -
  have "body_ended f (rp_chunks rp) b = body_ended f (rp_chunks rp') b" for f b
    using assms(3) by (cases f) (simp_all add: body_ended_def)
  then show ?thesis
    using parse_json_body_usage [of lib reg _ "rp_background rp" "rp_background rp'"]
    by (simp add: read_response_def Let_def case_prod_beta stream_end_def assms(1,2) split: option.split)
qed

lemma progress_fresh:
  assumes "rp\<lparr>rp_background := None\<rparr> = response_progress_default"
  shows "rp_chunks rp = dechunker_default" "rp_sse rp = sse_cursor_default"
    "rp_events rp = event_cursor_default"
  using assms by (cases rp; simp add: response_progress_default_def)+

lemma feed_progress_inv:
  assumes stable: "heads_stable lib" and inv: "progress_inv lib buf rp"
    and h: "final_head lib (buf @ x) = Some h"
  shows "progress_inv lib (buf @ x) (feed_progress lib h rp) \<and>
    dc_stopped (rp_chunks (feed_progress lib h rp)) =
      (if hd_framing h = Chunked then stop_state (fst (walk BASIC Size (hd_body h))) else True)"
proof -
  obtain body fed y where dc: "dc_inv (hd_framing h = Chunked) body fed (rp_chunks rp)"
      "hd_body h = body @ y"
    and sse: "rp_sse rp = (if feeds_sse h then sse_feed (libs_serde lib) sse_cursor_default fed
        else sse_cursor_default)"
    and ev: "rp_events rp = (if feeds_events h \<and> \<not> feeds_sse h
        then event_feed (libs_serde lib) (crc32 lib) event_cursor_default fed else event_cursor_default)"
  proof (cases "final_head lib buf")
    case None
    with inv have "rp\<lparr>rp_background := None\<rparr> = response_progress_default"
      by (simp add: progress_inv_def)
    from progress_fresh [OF this] have fresh: "rp_chunks rp = dechunker_default"
      "rp_sse rp = sse_cursor_default" "rp_events rp = event_cursor_default" .
    have "sse_feed (libs_serde lib) sse_cursor_default [] = sse_cursor_default"
      by (simp add: sse_feed_None)
    then show thesis
      by (intro that [of "[]" "[]" "hd_body h"])
        (simp_all only: fresh dc_inv_default event_feed_Nil [OF event_default_inv] append_Nil if_cancel)
  next
    case (Some g)
    with h final_head_append [OF stable Some, of x] have g: "h = g\<lparr>hd_body := hd_body g @ x\<rparr>" by simp
    with Some inv show thesis
      using that [of "hd_body g" "fed_bytes g" x] by (simp add: progress_inv_def feeds_sse_def feeds_events_def)
  qed
  obtain d' ds' where adv: "dc_advance (rp_chunks rp) (hd_body h) (hd_framing h = Chunked) = (d', ds')"
    by force
  from dc_advance_inv [OF dc(1), of y d' ds'] adv dc(2)
  have new: "dc_inv (hd_framing h = Chunked) (hd_body h) (fed @ concat ds') d'"
    and stopped: "dc_stopped d' =
      (if hd_framing h = Chunked then stop_state (fst (walk BASIC Size (hd_body h))) else True)"
    by simp_all
  from dc_inv_fed [OF new] have fed: "fed_bytes h = fed @ concat ds'" by simp
  have "rp_chunks (feed_progress lib h rp) = d'"
    by (simp add: feed_progress_def adv Let_def)
  moreover have "rp_sse (feed_progress lib h rp) =
      (if feeds_sse h then sse_feed (libs_serde lib) sse_cursor_default (fed_bytes h) else sse_cursor_default)"
    using sse by (simp add: feed_progress_def adv Let_def sse_fold fed sse_feed_append feeds_sse_def)
  moreover have "rp_events (feed_progress lib h rp) =
      (if feeds_events h \<and> \<not> feeds_sse h
       then event_feed (libs_serde lib) (crc32 lib) event_cursor_default (fed_bytes h)
       else event_cursor_default)"
    using ev event_fold [OF event_feed_inv [OF event_default_inv]]
    by (auto simp: feed_progress_def adv Let_def fed event_feed_append feeds_sse_def feeds_events_def)
  ultimately show ?thesis using h new fed stopped by (simp add: progress_inv_def)
qed

section \<open>A growing response\<close>

text \<open>
  The reads of one response as the agent makes them: each extends the buffer, parses it with the progress
  kept, and takes the background state noted.
\<close>

fun grow :: "libs \<Rightarrow> registry \<Rightarrow> bytes \<Rightarrow> response_progress \<Rightarrow> bytes list \<Rightarrow> bytes \<times> response_progress" where
  "grow lib reg buf rp [] = (buf, rp)"
| "grow lib reg buf rp (r # rs) =
     grow lib reg (buf @ r) (snd (take_background (snd (parse_response_from lib reg (buf @ r) rp)))) rs"

lemma progress_inv_background:
  "rp_chunks rp = rp_chunks rp' \<Longrightarrow> rp_sse rp = rp_sse rp' \<Longrightarrow> rp_events rp = rp_events rp' \<Longrightarrow>
     progress_inv lib buf rp = progress_inv lib buf rp'"
  by (cases rp; cases rp') (simp add: progress_inv_def split: option.splits)

lemma parse_step_inv:
  assumes "heads_stable lib" and "progress_inv lib buf rp"
  shows "progress_inv lib (buf @ x) (snd (take_background (snd (parse_response_from lib reg (buf @ x) rp))))"
proof (cases "final_head lib (buf @ x)")
  case None
  then have "final_head lib buf = None"
    using final_head_append [OF assms(1), of buf _ x] by (cases "final_head lib buf") auto
  with assms(2) None show ?thesis
    by (cases rp) (simp add: progress_inv_def parse_response_from_def take_background_def
        response_progress_default_def)
next
  case (Some h)
  have "progress_inv lib (buf @ x) (feed_progress lib h rp)"
    using feed_progress_inv [OF assms Some] by simp
  then show ?thesis
    by (rule progress_inv_background [THEN iffD1, rotated 3])
      (simp_all add: parse_response_from_def Some take_background_def read_response_keeps)
qed

lemma grow_inv:
  "heads_stable lib \<Longrightarrow> progress_inv lib buf rp \<Longrightarrow> grow lib reg buf rp reads = (buf', rp') \<Longrightarrow>
     buf' = buf @ concat reads \<and> progress_inv lib buf' rp'"
proof (induction reads arbitrary: buf rp)
  case (Cons r rs)
  from Cons.IH [OF Cons.prems(1) parse_step_inv [OF Cons.prems(1,2), of r reg]] Cons.prems(3)
  show ?case by auto
qed simp

lemma progress_inv_start: "heads_stable lib \<Longrightarrow> progress_inv lib [] response_progress_default"
  by (simp add: progress_inv_def final_head_Nil response_progress_default_def)

lemma parse_usage_same:
  assumes "heads_stable lib" and "progress_inv lib buf rp" and "progress_inv lib buf' rp'"
    and "buf @ x = buf' @ x'"
  shows "fst (parse_response_from lib reg (buf @ x) rp) = fst (parse_response_from lib reg (buf @ x) rp')"
proof (cases "final_head lib (buf @ x)")
  case (Some h)
  have a: "progress_inv lib (buf @ x) (feed_progress lib h rp)"
    "dc_stopped (rp_chunks (feed_progress lib h rp)) =
      (if hd_framing h = Chunked then stop_state (fst (walk BASIC Size (hd_body h))) else True)"
    using feed_progress_inv [OF assms(1,2) Some] by simp_all
  have b: "progress_inv lib (buf @ x) (feed_progress lib h rp')"
    "dc_stopped (rp_chunks (feed_progress lib h rp')) =
      (if hd_framing h = Chunked then stop_state (fst (walk BASIC Size (hd_body h))) else True)"
    using feed_progress_inv [OF assms(1,3), of x' h] Some assms(4) by simp_all
  from a(1) b(1) Some have "rp_sse (feed_progress lib h rp) = rp_sse (feed_progress lib h rp')"
    "rp_events (feed_progress lib h rp) = rp_events (feed_progress lib h rp')"
    by (simp_all add: progress_inv_def)
  then show ?thesis
    unfolding parse_response_from_def Some option.case by (rule read_response_usage) (simp only: a(2) b(2))
qed (simp add: parse_response_from_def)

section \<open>Properties\<close>

text \<open>C19: The work earlier reads of a response saved never changes its result: after any reads of a growing
  response, the usage the next read gives is the one parsing the whole buffer afresh gives, for chunked
  and plain, streamed and JSON, encoded and raw bodies alike.\<close>

theorem growing_response_parses_afresh:
  assumes "heads_stable lib" and "grow lib reg [] response_progress_default reads = (buf, rp)"
  shows "fst (parse_response_from lib reg (buf @ r) rp) = parse_response lib reg (concat reads @ r)"
proof -
  have inv: "buf = concat reads" "progress_inv lib buf rp"
    using grow_inv [OF assms(1) progress_inv_start [OF assms(1)] assms(2)] by auto
  from parse_usage_same [OF assms(1) inv(2) progress_inv_start [OF assms(1)], of r "buf @ r" reg] inv(1)
  show ?thesis by (simp add: parse_response_def)
qed

text \<open>A parser whose one-byte head opens a chunked event stream, and a serde that reads one event.\<close>

definition sample_libs :: libs where
  "sample_libs =
     \<lparr>httparse_request = (\<lambda>_. \<lparr>rq_status = Parse_Error, rq_method = None, rq_path = None, rq_headers = []\<rparr>),
      httparse_response =
        (\<lambda>buf. \<lparr>rs_status = (case buf of [] \<Rightarrow> Parse_Partial | _ \<Rightarrow> Parse_Complete 1), rs_code = Some 200,
           rs_headers = [(''Content-Type'', as_bytes ''text/event-stream''),
                         (''Transfer-Encoding'', as_bytes ''chunked'')]\<rparr>),
      libs_serde = \<lparr>from_str = (\<lambda>_. Some sample_response),
        delta_from_str = (\<lambda>_. Some \<lparr>sd_usage = Some Null, sd_message = None, sd_response = None,
          sd_interaction = None\<rparr>),
        chunk_from_str = (\<lambda>_. None)\<rparr>,
      crc32 = (\<lambda>_. 0),
      libs_decoders = \<lparr>gunzip = (\<lambda>b. (b, False)), zlib = (\<lambda>b. (b, False)), raw_deflate = (\<lambda>b. (b, False)),
        brotli = (\<lambda>b. (b, False)), zstd_frame = (\<lambda>_. None)\<rparr>\<rparr>"

lemma sample_libs_stable: "heads_stable sample_libs"
  by (auto simp: heads_stable_def sample_libs_def split: list.splits)

theorem growing_response_parses_afresh_witness:
  "fst (parse_response_from sample_libs [sample_provider]
     (fst (grow sample_libs [sample_provider] [] response_progress_default [[1, 0x37], [13, 10, 0x64]]) @ [0x61])
     (snd (grow sample_libs [sample_provider] [] response_progress_default [[1, 0x37], [13, 10, 0x64]]))) =
   parse_response sample_libs [sample_provider] [1, 0x37, 13, 10, 0x64, 0x61]"
  using growing_response_parses_afresh [OF sample_libs_stable, of "[sample_provider]" "[[1, 0x37], [13, 10, 0x64]]"]
  by (metis append.simps concat.simps prod.collapse)

end
