(* ===== verification/Past_Limit.thy ===== *)
theory Past_Limit
  imports Http1_Props
begin

text \<open>
  Responses past the buffer limit (agent, http/json_ends.rs and http/sse_stream.rs): followed to their
  framed end with only a JSON body's two ends kept, or with a stream's events read as they pass.
\<close>

section \<open>Members at the ends\<close>

definition HEAD_KEEP :: nat where
  "HEAD_KEEP = 64 * 1024"

definition TAIL_KEEP :: nat where
  "TAIL_KEEP = 64 * 1024"

definition object_lossy :: "serde \<Rightarrow> bytes \<Rightarrow> (str \<times> json) list option" where
  "object_lossy sd json =
     (case from_str sd (from_utf8_lossy json) of Some (Object ms) \<Rightarrow> Some ms | _ \<Rightarrow> None)"

text \<open>The scan of \<open>leading_members\<close> from index \<open>i\<close>: where the last whole member ends.\<close>

fun leading_cut :: "bytes \<Rightarrow> nat \<Rightarrow> nat \<Rightarrow> bool \<Rightarrow> bool \<Rightarrow> nat option \<Rightarrow> nat option" where
  "leading_cut [] i depth in_str escaped at = at"
| "leading_cut (b # bs) i depth in_str escaped at =
     (if escaped then leading_cut bs (Suc i) depth in_str False at
      else if b = 0x5C \<and> in_str then leading_cut bs (Suc i) depth in_str True at
      else if b = 0x22 then leading_cut bs (Suc i) depth (\<not> in_str) escaped at
      else if in_str then leading_cut bs (Suc i) depth in_str escaped at
      else if b = 0x7B \<or> b = 0x5B then leading_cut bs (Suc i) (depth + 1) in_str escaped at
      else if (b = 0x7D \<or> b = 0x5D) \<and> depth > 0 then leading_cut bs (Suc i) (depth - 1) in_str escaped at
      else if b = 0x2C \<and> depth = 0 then leading_cut bs (Suc i) depth in_str escaped (Some i)
      else if b = 0x7D \<or> b = 0x5D then Some i
      else leading_cut bs (Suc i) depth in_str escaped at)"

definition leading_members :: "serde \<Rightarrow> bytes \<Rightarrow> (str \<times> json) list option" where
  "leading_members sd hd_bytes =
     (case position (\<lambda>b. \<not> is_ascii_whitespace b) hd_bytes of
        None \<Rightarrow> None
      | Some start \<Rightarrow>
          (case leading_cut (drop (start + 1) hd_bytes) (start + 1) 0 False False None of
             None \<Rightarrow> None
           | Some at \<Rightarrow> object_lossy sd (take (at - start) (drop start hd_bytes) @ [0x7D])))"

text \<open>
  The scan of \<open>trailing_members\<close> back from the end: \<open>i\<close> bytes are left before it. A quote is escaped iff
  an odd run of backslashes precedes it; a run up to the first kept byte may go on before it.
\<close>

fun trailing_cut :: "bytes \<Rightarrow> nat \<Rightarrow> nat \<Rightarrow> bool \<Rightarrow> nat option \<Rightarrow> nat option" where
  "trailing_cut tail 0 depth in_str at = at"
| "trailing_cut tail (Suc i) depth in_str at =
     (let b = tail ! i in
      if b = 0x22
      then
        (let slashes = length (takeWhile (\<lambda>c. c = 0x5C) (rev (take i tail)))
         in if slashes = i then at
            else trailing_cut tail i depth (in_str \<noteq> (slashes mod 2 = 0)) at)
      else if in_str then trailing_cut tail i depth in_str at
      else if b = 0x7D \<or> b = 0x5D then trailing_cut tail i (depth + 1) in_str at
      else if (b = 0x7B \<or> b = 0x5B) \<and> depth > 0 then trailing_cut tail i (depth - 1) in_str at
      else if b = 0x2C \<and> depth = 0 then trailing_cut tail i depth in_str (Some i)
      else if b = 0x7B \<or> b = 0x5B then Some i
      else trailing_cut tail i depth in_str at)"

definition trailing_members :: "serde \<Rightarrow> bytes \<Rightarrow> (str \<times> json) list option" where
  "trailing_members sd tail =
     (case rposition (\<lambda>b. \<not> is_ascii_whitespace b) tail of
        None \<Rightarrow> None
      | Some last_at \<Rightarrow>
          (case trailing_cut tail last_at 0 False None of
             None \<Rightarrow> None
           | Some at \<Rightarrow>
               object_lossy sd (0x7B # take (last_at + 1 - (at + 1)) (drop (at + 1) tail))))"

section \<open>JSON bodies\<close>

record json_ends =
  je_walk :: body_walk
  je_head :: bytes
  je_tail :: bytes
  je_usage :: "usage_info option"

text \<open>The closure of \<open>feed\<close> on one slice: the head takes what it has room for, the tail slides.\<close>

definition keep_ends :: "bytes \<Rightarrow> bytes \<times> bytes \<Rightarrow> bytes \<times> bytes" where
  "keep_ends data ends =
     (let (h, tail) = ends;
          room = HEAD_KEEP - length h;
          h = h @ take (min room (length data)) data;
          at = length data - TAIL_KEEP;
          tail =
            (if at > 0 then []
             else if length tail + length data > 2 * TAIL_KEEP then drop (length tail - TAIL_KEEP) tail
             else tail)
      in (h, tail @ drop at data))"

definition or_insert :: "str \<times> json \<Rightarrow> (str \<times> json) list \<Rightarrow> (str \<times> json) list" where
  "or_insert kv ms = (if has_key (fst kv) ms then ms else put_key (fst kv) (snd kv) ms)"

definition je_read_usage :: "serde \<Rightarrow> registry \<Rightarrow> json_ends \<Rightarrow> usage_info option" where
  "je_read_usage sd reg je =
     (let tail = drop (length (je_tail je) - TAIL_KEEP) (je_tail je);
          root = (case trailing_members sd tail of None \<Rightarrow> [] | Some ms \<Rightarrow> ms);
          root = fold or_insert (case leading_members sd (je_head je) of None \<Rightarrow> [] | Some ms \<Rightarrow> ms) root
      in parse_response_json_value reg (Object root))"

definition je_feed :: "serde \<Rightarrow> registry \<Rightarrow> json_ends \<Rightarrow> bytes \<Rightarrow> json_ends \<times> bool" where
  "je_feed sd reg je data =
     (let (w, ds, followed) = body_walk_feed (je_walk je) data;
          (h, tail) = fold keep_ends ds (je_head je, je_tail je);
          je = je\<lparr>je_walk := w, je_head := h, je_tail := tail\<rparr>
      in if body_walk_ended w \<and> je_usage je = None
         then (let usage = je_read_usage sd reg je in (je\<lparr>je_usage := usage\<rparr>, usage \<noteq> None))
         else (je, followed))"

definition je_start :: "libs \<Rightarrow> registry \<Rightarrow> bytes \<Rightarrow> json_ends option" where
  "je_start lib reg buffer =
     (case plain_body lib buffer of
        None \<Rightarrow> None
      | Some (f, body) \<Rightarrow>
          (case (case f of Length len \<Rightarrow> Some (Some len) | Chunked \<Rightarrow> Some None | UntilClose \<Rightarrow> None) of
             None \<Rightarrow> None
           | Some len \<Rightarrow>
               (let (ends, ok) =
                  je_feed (libs_serde lib) reg
                    \<lparr>je_walk = body_walk_new len, je_head = [], je_tail = [], je_usage = None\<rparr> body
                in if ok \<and> (case dropWhile is_ascii_whitespace (je_head ends) of
                               b # _ \<Rightarrow> b = 0x7B | [] \<Rightarrow> False)
                   then Some ends else None)))"

section \<open>Event streams\<close>

record sse_stream =
  ss_walk :: body_walk
  ss_events :: sse_cursor

definition ss_feed :: "serde \<Rightarrow> sse_stream \<Rightarrow> bytes \<Rightarrow> sse_stream \<times> bool" where
  "ss_feed sd s data =
     (let (w, ds, followed) = body_walk_feed (ss_walk s) data;
          events = fold (\<lambda>d c. sse_feed sd c d) ds (ss_events s)
      in (s\<lparr>ss_walk := w, ss_events := events\<rparr>,
          followed \<and> partial_len events \<le> MAX_RESPONSE_BUFFER_SIZE))"

definition ss_start :: "libs \<Rightarrow> bytes \<Rightarrow> sse_stream option" where
  "ss_start lib buffer =
     (case plain_sse_body lib buffer of
        None \<Rightarrow> None
      | Some (f, body) \<Rightarrow>
          (let len = (case f of Length len \<Rightarrow> Some len | Chunked \<Rightarrow> None | UntilClose \<Rightarrow> Some usize_max);
               (stream, ok) =
                 ss_feed (libs_serde lib)
                   \<lparr>ss_walk = body_walk_new len, ss_events = sse_cursor_default\<rparr> body
           in if ok then Some stream else None))"

definition ss_usage :: "registry \<Rightarrow> sse_stream \<Rightarrow> usage_info option" where
  "ss_usage reg s = sse_usage reg (ss_events s)"

section \<open>The ends kept\<close>

text \<open>What the kept ends are to the data passed on: its first bytes, and a run up to its last byte.\<close>

definition ends_of :: "bytes \<Rightarrow> bytes \<times> bytes \<Rightarrow> bool" where
  "ends_of body ends \<longleftrightarrow>
     fst ends = take HEAD_KEEP body \<and>
     (\<exists>old. body = old @ snd ends \<and> (old = [] \<or> TAIL_KEEP \<le> length (snd ends))) \<and>
     length (snd ends) \<le> 2 * TAIL_KEEP"

lemma ends_ofI:
  assumes "fst ends = take HEAD_KEEP body" and "snd ends = tail" and "body = old @ tail"
    and "old = [] \<or> TAIL_KEEP \<le> length tail" and "length tail \<le> 2 * TAIL_KEEP"
  shows "ends_of body ends"
  using assms by (auto simp: ends_of_def)

lemma keep_ends_step:
  assumes "ends_of body ends"
  shows "ends_of (body @ data) (keep_ends data ends)"
proof -
  obtain h tail where ends: "ends = (h, tail)" by force
  with assms have h: "h = take HEAD_KEEP body" and len: "length tail \<le> 2 * TAIL_KEEP"
    by (simp_all add: ends_of_def)
  obtain old where old: "body = old @ tail" "old = [] \<or> TAIL_KEEP \<le> length tail"
    using assms ends by (auto simp: ends_of_def)
  have head: "fst (keep_ends data ends) = take HEAD_KEEP (body @ data)"
    by (simp add: keep_ends_def ends h Let_def min_def)
  show ?thesis
  proof (cases "length data > TAIL_KEEP")
    case True
    then have "snd (keep_ends data ends) = drop (length data - TAIL_KEEP) data"
      by (simp add: keep_ends_def ends Let_def)
    then show ?thesis
      by (rule ends_ofI [OF head, where old = "body @ take (length data - TAIL_KEEP) data"])
        (use True in simp_all)
  next
    case False
    show ?thesis
    proof (cases "length tail + length data > 2 * TAIL_KEEP")
      case slide: True
      then have "snd (keep_ends data ends) = drop (length tail - TAIL_KEEP) tail @ data"
        using False by (simp add: keep_ends_def ends Let_def)
      then show ?thesis
        by (rule ends_ofI [OF head, where old = "old @ take (length tail - TAIL_KEEP) tail"])
          (use False slide old in simp_all)
    next
      case keep: False
      then have "snd (keep_ends data ends) = tail @ data"
        using False by (simp add: keep_ends_def ends Let_def)
      then show ?thesis
        by (rule ends_ofI [OF head, where old = old]) (use False keep old in auto)
    qed
  qed
qed

lemma keep_ends_fold:
  "ends_of body ends \<Longrightarrow> ends_of (body @ concat ds) (fold keep_ends ds ends)"
proof (induction ds arbitrary: body ends)
  case (Cons d ds)
  from Cons.IH [OF keep_ends_step [OF Cons.prems, of d]] show ?case by simp
qed simp

section \<open>Properties\<close>

fun je_feeds :: "serde \<Rightarrow> registry \<Rightarrow> json_ends \<Rightarrow> bytes list \<Rightarrow> json_ends" where
  "je_feeds sd reg je [] = je"
| "je_feeds sd reg je (r # rs) = je_feeds sd reg (fst (je_feed sd reg je r)) rs"

fun ss_feeds :: "serde \<Rightarrow> sse_stream \<Rightarrow> bytes list \<Rightarrow> sse_stream" where
  "ss_feeds sd s [] = s"
| "ss_feeds sd s (r # rs) = ss_feeds sd (fst (ss_feed sd s r)) rs"

lemma je_feed_parts:
  "je_walk (fst (je_feed sd reg je r)) = fst (body_walk_step (je_walk je) r)"
  "(je_head (fst (je_feed sd reg je r)), je_tail (fst (je_feed sd reg je r))) =
     fold keep_ends (snd (body_walk_step (je_walk je) r)) (je_head je, je_tail je)"
  by (simp_all add: je_feed_def body_walk_step_def Let_def case_prod_beta)

lemma je_feeds_ends:
  "ends_of body (je_head je, je_tail je) \<Longrightarrow>
     (let je' = je_feeds sd reg je reads
      in je_walk je' = fst (feeds body_walk_step (je_walk je) reads) \<and>
         ends_of (body @ concat (snd (feeds body_walk_step (je_walk je) reads))) (je_head je', je_tail je'))"
proof (induction reads arbitrary: je body)
  case (Cons r rs)
  from keep_ends_fold [OF Cons.prems, of "snd (body_walk_step (je_walk je) r)"]
  have "ends_of (body @ concat (snd (body_walk_step (je_walk je) r)))
      (je_head (fst (je_feed sd reg je r)), je_tail (fst (je_feed sd reg je r)))"
    by (simp only: je_feed_parts(2))
  from Cons.IH [OF this] show ?case
    by (simp add: je_feed_parts(1) case_prod_beta Let_def)
qed simp

lemma ends_of_tail:
  assumes "ends_of body (h, tail)"
  shows "drop (length tail - TAIL_KEEP) tail = drop (length body - TAIL_KEEP) body"
proof -
  obtain old where "body = old @ tail" "old = [] \<or> TAIL_KEEP \<le> length tail"
    using assms by (auto simp: ends_of_def)
  then show ?thesis by auto
qed

text \<open>A JSON body past the buffer limit is read from its true ends: however its reads are cut, the head
  kept is the first 64 KiB of the body its framing passes on and the tail read is the last 64 KiB, and at
  most 192 KiB are held at any time.\<close>

lemma json_ends_are_the_bodys:
  "let je = je_feeds sd reg
         \<lparr>je_walk = body_walk_new len, je_head = [], je_tail = [], je_usage = None\<rparr> reads;
       body = concat (snd (body_walk_step (body_walk_new len) (concat reads)))
   in je_head je = take HEAD_KEEP body \<and>
      drop (length (je_tail je) - TAIL_KEEP) (je_tail je) = drop (length body - TAIL_KEEP) body \<and>
      length (je_head je) + length (je_tail je) \<le> HEAD_KEEP + 2 * TAIL_KEEP"
proof -
  define je where "je = je_feeds sd reg
    \<lparr>je_walk = body_walk_new len, je_head = [], je_tail = [], je_usage = None\<rparr> reads"
  define body where "body = concat (snd (body_walk_step (body_walk_new len) (concat reads)))"
  have "ends_of [] ([], [])" by (simp add: ends_of_def)
  then have "ends_of (concat (snd (feeds body_walk_step (body_walk_new len) reads))) (je_head je, je_tail je)"
    using je_feeds_ends [of "[]" "\<lparr>je_walk = body_walk_new len, je_head = [], je_tail = [], je_usage = None\<rparr>" sd reg reads]
    by (simp add: je_def Let_def)
  then have "ends_of body (je_head je, je_tail je)"
    using body.feeds_concat [OF body_walk_new_inv, of len reads] by (simp add: body_def)
  then have "je_head je = take HEAD_KEEP body"
    "drop (length (je_tail je) - TAIL_KEEP) (je_tail je) = drop (length body - TAIL_KEEP) body"
    "length (je_tail je) \<le> 2 * TAIL_KEEP"
    using ends_of_tail by (auto simp: ends_of_def)
  then show ?thesis
    unfolding je_def [symmetric] body_def [symmetric] Let_def by (simp add: add_mono)
qed

lemma ss_feeds_parts:
  "ss_events (ss_feeds sd s reads) =
     sse_feed sd (ss_events s) (concat (snd (feeds body_walk_step (ss_walk s) reads)))"
proof (induction reads arbitrary: s)
  case Nil
  then show ?case by (simp add: sse_feed_None)
next
  case (Cons r rs)
  have "ss_walk (fst (ss_feed sd s r)) = fst (body_walk_step (ss_walk s) r)"
    "ss_events (fst (ss_feed sd s r)) =
       sse_feed sd (ss_events s) (concat (snd (body_walk_step (ss_walk s) r)))"
    by (simp_all add: ss_feed_def body_walk_step_def Let_def case_prod_beta sse_fold)
  with Cons.IH [of "fst (ss_feed sd s r)"] show ?case
    by (simp add: case_prod_beta Let_def sse_feed_append)
qed

text \<open>An event stream past the buffer limit gives the usage of the whole stream: however its reads are
  cut, following it event by event ends with what parsing the body its framing passes on gives.\<close>

lemma followed_stream_is_whole:
  "ss_usage reg (ss_feeds sd \<lparr>ss_walk = body_walk_new len, ss_events = sse_cursor_default\<rparr> reads) =
     parse_sse_body sd reg (concat (snd (body_walk_step (body_walk_new len) (concat reads))))"
  using ss_feeds_parts [of sd "\<lparr>ss_walk = body_walk_new len, ss_events = sse_cursor_default\<rparr>" reads]
    body.feeds_concat [OF body_walk_new_inv, of len reads]
  by (simp add: ss_usage_def parse_sse_body_def)

end
