(* ===== verification/Btree.thy ===== *)
theory Btree
  imports Rust_Map
begin

text \<open>
  Rust's \<open>BTreeMap\<close> as an association list in strict key order, which is its iteration order.
  Lookup, removal and the key test are those of \<open>Rust_Map\<close>.
\<close>

section \<open>Operations\<close>

fun btree_insert :: "'k::linorder \<Rightarrow> 'v \<Rightarrow> ('k \<times> 'v) list \<Rightarrow> ('k \<times> 'v) list" where
  "btree_insert k v [] = [(k, v)]"
| "btree_insert k v ((k', v') # m) =
     (if k < k' then (k, v) # (k', v') # m
      else if k = k' then (k, v) # m
      else (k', v') # btree_insert k v m)"

text \<open>\<open>get_mut\<close> followed by a change of the value it gives.\<close>

definition update_key :: "'k \<Rightarrow> ('v \<Rightarrow> 'v) \<Rightarrow> ('k \<times> 'v) list \<Rightarrow> ('k \<times> 'v) list" where
  "update_key k f m = map (\<lambda>(k', v). if k' = k then (k', f v) else (k', v)) m"

definition btree :: "('k::linorder \<times> 'v) list \<Rightarrow> bool" where
  "btree m \<longleftrightarrow> sorted_wrt (<) (map fst m)"

section \<open>Lemmas\<close>

lemma btree_simps [simp]:
  "btree []"
  "btree ((k, v) # m) \<longleftrightarrow> (\<forall>k' \<in> fst ` set m. k < k') \<and> btree m"
  by (simp_all add: btree_def)

lemma btree_distinct: "btree m \<Longrightarrow> distinct_keys m"
  by (induction m) (auto simp: btree_def distinct_keys_def)

lemma keys_btree_insert: "fst ` set (btree_insert k v m) = insert k (fst ` set m)"
  by (induction k v m rule: btree_insert.induct) auto

lemma map_of_btree_insert: "map_of (btree_insert k v m) = (map_of m)(k \<mapsto> v)"
  by (induction k v m rule: btree_insert.induct) (auto simp: fun_eq_iff)

lemma btree_btree_insert: "btree m \<Longrightarrow> btree (btree_insert k v m)"
proof (induction k v m rule: btree_insert.induct)
  case (2 k v k' v' m)
  then show ?case by (auto simp: keys_btree_insert)
qed simp

lemma fst_update_key: "map fst (update_key k f m) = map fst m"
  by (induction m) (auto simp: update_key_def)

lemma btree_update_key [simp]: "btree (update_key k f m) = btree m"
  by (simp add: btree_def fst_update_key)

lemma length_update_key [simp]: "length (update_key k f m) = length m"
  by (simp add: update_key_def)

lemma has_key_update_key [simp]: "has_key k' (update_key k f m) = has_key k' m"
  by (simp add: has_key_iff fst_update_key flip: set_map)

lemma map_of_update_key: "map_of (update_key k f m) k' = (if k' = k then map_option f (map_of m k) else map_of m k')"
  by (induction m) (auto simp: update_key_def)

lemma btree_filter: "btree m \<Longrightarrow> btree (filter P m)"
  by (induction m) auto

lemma btree_remove_key: "btree m \<Longrightarrow> btree (remove_key k m)"
  by (simp add: remove_key_def btree_filter)

section \<open>Sums over a map's values\<close>

definition sum_values :: "('v \<Rightarrow> nat) \<Rightarrow> ('k \<times> 'v) list \<Rightarrow> nat" where
  "sum_values g m = sum_list (map (\<lambda>(_, v). g v) m)"

lemma sum_values_simps [simp]:
  "sum_values g [] = 0" "sum_values g ((k, v) # m) = g v + sum_values g m"
  by (simp_all add: sum_values_def)

lemma sum_values_insert:
  "map_of m k = None \<Longrightarrow> sum_values g (btree_insert k v m) = g v + sum_values g m"
  by (induction k v m rule: btree_insert.induct) (auto split: if_splits)

lemma length_btree_insert:
  "map_of m k = None \<Longrightarrow> length (btree_insert k v m) = Suc (length m)"
  by (induction k v m rule: btree_insert.induct) (auto split: if_splits)

lemma sum_values_filter: "sum_values g (filter P m) + sum_values g (filter (\<lambda>x. \<not> P x) m) = sum_values g m"
  by (induction m) auto

lemma remove_absent_key: "map_of m k = None \<Longrightarrow> remove_key k m = m"
  unfolding remove_key_def by (induction m) (auto split: if_splits)

lemma update_absent_key: "map_of m k = None \<Longrightarrow> update_key k f m = m"
  unfolding update_key_def by (induction m) (auto split: if_splits)

lemma remove_key_Cons:
  "remove_key k ((k', v) # m) = (if k' = k then remove_key k m else (k', v) # remove_key k m)"
  by (simp add: remove_key_def)

lemma sum_values_remove:
  "distinct_keys m \<Longrightarrow> map_of m k = Some v \<Longrightarrow> g v + sum_values g (remove_key k m) = sum_values g m"
proof (induction m)
  case (Cons kv m)
  obtain k' v' where kv [simp]: "kv = (k', v')" by (cases kv)
  show ?case
  proof (cases "k' = k")
    case True
    then have "map_of m k = None" using Cons.prems(1) by (auto simp: distinct_keys_def map_of_eq_None_iff)
    then show ?thesis using True Cons.prems(2) by (simp add: remove_key_Cons remove_absent_key)
  next
    case False
    then show ?thesis using Cons by (simp add: remove_key_Cons distinct_keys_def)
  qed
qed simp

lemma sum_values_update:
  "distinct_keys m \<Longrightarrow> map_of m k = Some v \<Longrightarrow>
     sum_values g (update_key k f m) + g v = sum_values g m + g (f v)"
proof (induction m)
  case (Cons kv m)
  obtain k' v' where [simp]: "kv = (k', v')" by (cases kv)
  show ?case
  proof (cases "k' = k")
    case True
    then have "map_of m k = None" using Cons.prems(1) by (auto simp: distinct_keys_def map_of_eq_None_iff)
    then show ?thesis using True Cons.prems(2) update_absent_key [of m k f] by (simp add: update_key_def)
  next
    case False
    then show ?thesis using Cons by (simp add: update_key_def distinct_keys_def)
  qed
qed simp

lemma list_all_remove_key: "list_all P (map snd m) \<Longrightarrow> list_all P (map snd (remove_key k m))"
  by (auto simp: list_all_iff remove_key_def)

lemma list_all_filter_values: "list_all P (map snd m) \<Longrightarrow> list_all P (map snd (filter Q m))"
  by (auto simp: list_all_iff)

lemma list_all_btree_insert:
  "P v \<Longrightarrow> list_all P (map snd m) \<Longrightarrow> list_all P (map snd (btree_insert k v m))"
  by (induction k v m rule: btree_insert.induct) auto

lemma list_all_update_key:
  "list_all P (map snd m) \<Longrightarrow> (\<And>v. map_of m k = Some v \<Longrightarrow> P v \<Longrightarrow> P (f v)) \<Longrightarrow> distinct_keys m \<Longrightarrow>
     list_all P (map snd (update_key k f m))"
proof (induction m)
  case (Cons kv m)
  obtain k' v' where [simp]: "kv = (k', v')" by (cases kv)
  show ?case
  proof (cases "k' = k")
    case True
    then have "map_of m k = None" using Cons.prems(3) by (auto simp: distinct_keys_def map_of_eq_None_iff)
    then show ?thesis using True Cons.prems update_absent_key [of m k f] by (simp add: update_key_def)
  next
    case False
    then show ?thesis using Cons by (simp add: update_key_def distinct_keys_def)
  qed
qed (simp add: update_key_def)

lemma length_remove_le: "length (remove_key k m) \<le> length m"
  by (simp add: remove_key_def)

end
