(* ===== verification/H2_Stream.thy ===== *)
theory H2_Stream
  imports Http1
begin

text \<open>
  One HTTP/2 stream matched to a provider (agent, http/h2/stream.rs): its response body read for usage,
  chosen by content type and coding. An instant is a natural number, \<open>now\<close> a reading of the clock.
\<close>

section \<open>Bodies\<close>

text \<open>\<open>Buffered coding sse buf too_large\<close>.\<close>

datatype h2_body = Streaming sse_cursor | Buffered bytes bool bytes bool

definition plain_json :: h2_body where
  "plain_json = Buffered [] False [] False"

definition dropped :: h2_body where
  "dropped = Buffered [] False [] True"

record h2_stream =
  hs_start :: nat
  hs_last :: nat
  hs_body :: h2_body
  hs_got_data :: bool
  hs_speculative :: bool

definition stream_open :: "nat \<Rightarrow> h2_stream" where
  "stream_open start =
     \<lparr>hs_start = start, hs_last = start, hs_body = plain_json, hs_got_data = False, hs_speculative = False\<rparr>"

definition open_speculative :: "nat \<Rightarrow> h2_stream" where
  "open_speculative start = (stream_open start)\<lparr>hs_speculative := True\<rparr>"

definition over_limit :: "h2_stream \<Rightarrow> bool" where
  "over_limit s = (case hs_body s of Buffered _ _ _ too_large \<Rightarrow> too_large | Streaming _ \<Rightarrow> False)"

definition held :: "h2_stream \<Rightarrow> nat" where
  "held s = (case hs_body s of Buffered _ _ buf _ \<Rightarrow> length buf | Streaming _ \<Rightarrow> 0)"

section \<open>Operations\<close>

definition response_headers :: "nat \<Rightarrow> bytes option \<Rightarrow> bytes \<Rightarrow> h2_stream \<Rightarrow> h2_stream" where
  "response_headers now content_type coding s =
     (let s = s\<lparr>hs_last := now\<rparr> in
      if hs_got_data s then s
      else
        (let sse = (case content_type of
                      None \<Rightarrow> False
                    | Some c \<Rightarrow> contains_pattern c (as_bytes ''text/event-stream''))
         in s\<lparr>hs_body :=
                (if coding \<noteq> [] then Buffered coding sse [] False
                 else if sse then Streaming sse_cursor_default
                 else plain_json)\<rparr>))"

text \<open>The change in bytes held is an \<open>isize\<close>.\<close>

definition stream_data :: "serde \<Rightarrow> nat \<Rightarrow> bytes \<Rightarrow> nat \<Rightarrow> h2_stream \<Rightarrow> h2_stream \<times> int" where
  "stream_data sd now bs room s =
     (let s = s\<lparr>hs_last := now, hs_got_data := True\<rparr> in
      case hs_body s of
        Streaming cursor \<Rightarrow>
          (let cursor = sse_feed sd cursor bs in
           if partial_len cursor \<le> MAX_RESPONSE_BUFFER_SIZE then (s\<lparr>hs_body := Streaming cursor\<rparr>, 0)
           else (s\<lparr>hs_body := dropped\<rparr>, 0))
      | Buffered coding sse buf too_large \<Rightarrow>
          (if too_large then (s, 0)
           else if length bs > room \<or> length buf + length bs > MAX_RESPONSE_BUFFER_SIZE
           then (s\<lparr>hs_body := Buffered coding sse [] True\<rparr>, - int (length buf))
           else (s\<lparr>hs_body := Buffered coding sse (buf @ bs) too_large\<rparr>, int (length bs))))"

definition stream_finish :: "libs \<Rightarrow> registry \<Rightarrow> h2_stream \<Rightarrow> usage_info option" where
  "stream_finish lib reg s =
     (case hs_body s of
        Streaming cursor \<Rightarrow> sse_usage reg cursor
      | Buffered coding sse buf too_large \<Rightarrow>
          (if too_large then None
           else case (if coding = [] then Some buf
                      else decode (libs_decoders lib) buf [(''content-encoding'', coding)]) of
             None \<Rightarrow> None
           | Some body \<Rightarrow>
               (if sse then parse_sse_body (libs_serde lib) reg body
                else
                  (let json = trim_start (from_utf8_lossy body) in
                   if starts_with json ''{'' then fst (parse_response_json (libs_serde lib) reg json None)
                   else None))))"

section \<open>Lemmas\<close>

text \<open>
  A stream holds no body byte before its first DATA and never more than the response cap, also of an
  event line that has not ended.
\<close>

definition stream_ok :: "h2_stream \<Rightarrow> bool" where
  "stream_ok s \<longleftrightarrow>
     (if hs_got_data s then True else held s = 0) \<and>
     (case hs_body s of
        Streaming cursor \<Rightarrow> partial_len cursor \<le> MAX_RESPONSE_BUFFER_SIZE
      | Buffered _ _ buf too_large \<Rightarrow> length buf \<le> MAX_RESPONSE_BUFFER_SIZE \<and> (too_large \<longrightarrow> buf = []))"

lemma stream_ok_open [simp]: "stream_ok (stream_open now)" "stream_ok (open_speculative now)"
  by (simp_all add: stream_ok_def stream_open_def open_speculative_def plain_json_def held_def)

lemma held_open [simp]: "held (stream_open now) = 0" "held (open_speculative now) = 0"
  by (simp_all add: stream_open_def open_speculative_def plain_json_def held_def)

lemma stream_ok_headers: "stream_ok s \<Longrightarrow> stream_ok (response_headers now ct coding s)"
  by (auto simp: stream_ok_def response_headers_def Let_def held_def plain_json_def partial_len_def
      sse_cursor_default_def split: h2_body.splits)

lemma held_headers: "stream_ok s \<Longrightarrow> held (response_headers now ct coding s) = held s"
  by (auto simp: stream_ok_def response_headers_def Let_def held_def plain_json_def split: h2_body.splits if_splits)

lemma stream_ok_data: "stream_ok s \<Longrightarrow> stream_ok (fst (stream_data sd now bs room s))"
  by (auto simp: stream_ok_def stream_data_def Let_def held_def dropped_def split: h2_body.splits)

lemma held_data:
  "int (held (fst (stream_data sd now bs room s))) = int (held s) + snd (stream_data sd now bs room s)"
  by (auto simp: stream_data_def Let_def held_def dropped_def split: h2_body.splits)

lemma data_within_room: "snd (stream_data sd now bs room s) \<le> int room"
  by (auto simp: stream_data_def Let_def split: h2_body.splits)

end
