(* ===== verification/H2_Conn.thy ===== *)
theory H2_Conn
  imports Btree H2_Stream Frame Hpack Common
begin

text \<open>
  One HTTP/2 connection (agent, http/h2/conn.rs): its frames demultiplexed into streams, each direction
  with its own frame reader and HPACK table. The counter \<open>MIDJOIN_NODE_BYTES\<close>, shared by every connection
  of the node, is a 64-bit word passed through the operations; one operation takes one reading of the
  clock.
\<close>

section \<open>Data\<close>

definition MAX_STREAMS :: nat where
  "MAX_STREAMS = 128"

definition CONN_BUFFER_CAP :: nat where
  "CONN_BUFFER_CAP = 32 * 1024 * 1024"

definition STREAM_IDLE :: nat where
  "STREAM_IDLE = 300 * 1000000000"

definition MIDJOIN_CONN_CAP :: nat where
  "MIDJOIN_CONN_CAP = 1024 * 1024"

definition MIDJOIN_NODE_CAP :: nat where
  "MIDJOIN_NODE_CAP = 64 * 1024 * 1024"

datatype unparsed_reason =
    CaptureLost | NextRequest | ConnectionClosed | RequestTooLarge | ResponseTooLarge
  | BackgroundUnfinished | HeadersLost

datatype h2_gap = Gap_None | Gap_Skip nat | Gap_Resync

datatype h2_event =
    Detected str
  | Recorded usage_info nat bool
  | Unparsed unparsed_reason
  | Resynced

record dir =
  dir_reader :: frame_reader
  dir_decoder :: decoder

type_synonym h2_streams = "(u32 \<times> h2_stream) list"

record h2_conn =
  hc_client :: dir
  hc_server :: dir
  hc_streams :: h2_streams
  hc_buffered :: nat
  hc_midjoin :: bool

definition h2_conn_new :: h2_conn where
  "h2_conn_new =
     \<lparr>hc_client = \<lparr>dir_reader = client, dir_decoder = decoder_new\<rparr>,
      hc_server = \<lparr>dir_reader = server, dir_decoder = decoder_new\<rparr>,
      hc_streams = [], hc_buffered = 0, hc_midjoin = False\<rparr>"

definition h2_conn_new_midjoin :: h2_conn where
  "h2_conn_new_midjoin =
     h2_conn_new\<lparr>hc_client := (hc_client h2_conn_new)\<lparr>dir_reader := server\<rparr>, hc_midjoin := True\<rparr>"

definition open_streams :: "h2_conn \<Rightarrow> nat" where
  "open_streams c = length (hc_streams c)"

section \<open>Header blocks\<close>

text \<open>
  The callbacks of the decoder as folds over the fields it emits: the last of each pseudo header counts,
  a content coding is joined to those before it while they are short.
\<close>

record request_fields =
  rf_is_post :: bool
  rf_authority :: "bytes option"
  rf_path :: "bytes option"

definition request_field :: "header_field \<Rightarrow> request_fields \<Rightarrow> request_fields" where
  "request_field f r =
     (case (field_name f, field_value f) of
        (Known name, Known value) \<Rightarrow>
          (if name = as_bytes '':method'' then r\<lparr>rf_is_post := (value = as_bytes ''POST'')\<rparr>
           else if name = as_bytes '':authority'' then r\<lparr>rf_authority := Some value\<rparr>
           else if name = as_bytes '':path'' then r\<lparr>rf_path := Some value\<rparr>
           else r)
      | _ \<Rightarrow> r)"

definition match_request :: "registry \<Rightarrow> decoder \<Rightarrow> bytes \<Rightarrow> decoder \<times> str option" where
  "match_request reg d block =
     (let (d, fs, r) = decode_block d block;
          req = fold request_field fs \<lparr>rf_is_post = False, rf_authority = None, rf_path = None\<rparr>
      in (d,
          (if r \<noteq> None \<or> \<not> rf_is_post req then None
           else case (Option.bind (rf_authority req) from_utf8, Option.bind (rf_path req) from_utf8) of
             (Some authority, Some path) \<Rightarrow>
               (case find_provider reg authority path of
                  None \<Rightarrow> None
                | Some _ \<Rightarrow> Some (before (CHR ''?'') path))
           | _ \<Rightarrow> None)))"

definition MAX_CODING :: nat where
  "MAX_CODING = 256"

definition response_field :: "header_field \<Rightarrow> bytes option \<times> bytes \<Rightarrow> bytes option \<times> bytes" where
  "response_field f r =
     (let (content_type, coding) = r in
      case (field_name f, field_value f) of
        (Known name, Known value) \<Rightarrow>
          (if name = as_bytes ''content-type'' then (Some value, coding)
           else if name = as_bytes ''content-encoding'' \<and> length coding < MAX_CODING
           then (content_type, (if coding \<noteq> [] then coding @ [0x2C] else coding) @ value)
           else r)
      | _ \<Rightarrow> r)"

definition collect_response :: "decoder \<Rightarrow> bytes \<Rightarrow> decoder \<times> bytes option \<times> bytes" where
  "collect_response d block =
     (let (d, fs, r) = decode_block d block
      in (d, if r \<noteq> None then (None, []) else fold response_field fs (None, [])))"

section \<open>Frames\<close>

text \<open>Whether a first DATA could begin a usage object or an event stream body.\<close>

definition looks_recordable :: "bytes \<Rightarrow> bool" where
  "looks_recordable bs =
     (let start = dropWhile is_ascii_whitespace bs in
      starts_with start (as_bytes ''{'') \<or> starts_with start (as_bytes ''data:'')
      \<or> starts_with start (as_bytes ''event:''))"

definition saturating_add_signed :: "nat \<Rightarrow> int \<Rightarrow> nat" where
  "saturating_add_signed n i = nat (min (2 ^ 64 - 1) (int n + i))"

text \<open>What the frame callback borrows of the connection: one direction's decoder, the streams and the bytes
  they buffer.\<close>

record work =
  w_decoder :: decoder
  w_streams :: h2_streams
  w_buffered :: nat

definition drop_stream :: "u32 \<Rightarrow> work \<Rightarrow> work \<times> h2_event list" where
  "drop_stream stream w =
     (case map_of (w_streams w) stream of
        None \<Rightarrow> (w, [])
      | Some s \<Rightarrow>
          (w\<lparr>w_streams := remove_key stream (w_streams w), w_buffered := w_buffered w - held s\<rparr>,
           [Unparsed ConnectionClosed]))"

fun drop_streams :: "u32 list \<Rightarrow> work \<Rightarrow> work \<times> h2_event list" where
  "drop_streams [] w = (w, [])"
| "drop_streams (stream # streams) w =
     (let (w, es) = drop_stream stream w; (w, es') = drop_streams streams w in (w, es @ es'))"

text \<open>The outcome of a stream whose response ended.\<close>

definition end_events :: "libs \<Rightarrow> registry \<Rightarrow> h2_stream \<Rightarrow> h2_event list" where
  "end_events lib reg s =
     (case stream_finish lib reg s of
        Some usage \<Rightarrow> [Recorded usage (hs_start s) (hs_speculative s)]
      | None \<Rightarrow>
          (if over_limit s then [Unparsed ResponseTooLarge]
           else if hs_speculative s then [Unparsed HeadersLost]
           else []))"

definition on_frame ::
  "libs \<Rightarrow> registry \<Rightarrow> nat \<Rightarrow> bool \<Rightarrow> bool \<Rightarrow> nat \<Rightarrow> frame \<Rightarrow> work \<Rightarrow> work \<times> h2_event list" where
  "on_frame lib reg now request midjoin cap f w =
     (case f of
        Headers stream block \<Rightarrow>
          (if request
           then (let (d, matched) = match_request reg (w_decoder w) block; w = w\<lparr>w_decoder := d\<rparr> in
                 case matched of
                   None \<Rightarrow> (w, [])
                 | Some path \<Rightarrow>
                     (if \<not> has_key stream (w_streams w) \<and> length (w_streams w) < MAX_STREAMS
                      then (w\<lparr>w_streams := btree_insert stream (stream_open now) (w_streams w)\<rparr>, [Detected path])
                      else (w, [])))
           else if has_key stream (w_streams w)
           then (let (d, content_type, coding) = collect_response (w_decoder w) block in
                 (w\<lparr>w_decoder := d,
                    w_streams := update_key stream (response_headers now content_type coding) (w_streams w)\<rparr>, []))
           else (w\<lparr>w_decoder := fst (decode_block (w_decoder w) block)\<rparr>, []))
      | HeadersTooLarge stream \<Rightarrow>
          (w\<lparr>w_decoder := forget (w_decoder w),
             w_streams := remove_key stream (w_streams w),
             w_buffered := w_buffered w -
               (case map_of (w_streams w) stream of None \<Rightarrow> 0 | Some s \<Rightarrow> held s)\<rparr>, [])
      | Frame.Data stream bs \<Rightarrow>
          (if request then (w, [])
           else
             (let w =
                (if midjoin \<and> \<not> has_key stream (w_streams w) \<and> length (w_streams w) < MAX_STREAMS
                    \<and> looks_recordable bs
                 then w\<lparr>w_streams := btree_insert stream (open_speculative now) (w_streams w)\<rparr>
                 else w)
              in case map_of (w_streams w) stream of
                   None \<Rightarrow> (w, [])
                 | Some s \<Rightarrow>
                     (let (s, change) = stream_data (libs_serde lib) now bs (cap - w_buffered w) s in
                      (w\<lparr>w_streams := update_key stream (\<lambda>_. s) (w_streams w),
                         w_buffered := saturating_add_signed (w_buffered w) change\<rparr>, []))))
      | StreamEnd stream \<Rightarrow>
          (if request then (w, [])
           else case map_of (w_streams w) stream of
             None \<Rightarrow> (w, [])
           | Some s \<Rightarrow>
               (w\<lparr>w_streams := remove_key stream (w_streams w), w_buffered := w_buffered w - held s\<rparr>,
                end_events lib reg s))
      | Reset stream \<Rightarrow> if request then (w, []) else drop_stream stream w
      | Goaway last_stream \<Rightarrow>
          (if request then (w, [])
           else drop_streams (filter (\<lambda>k. last_stream + 1 \<le> k) (map fst (w_streams w))) w))"

fun on_frames ::
  "libs \<Rightarrow> registry \<Rightarrow> nat \<Rightarrow> bool \<Rightarrow> bool \<Rightarrow> nat \<Rightarrow> frame list \<Rightarrow> work \<Rightarrow> work \<times> h2_event list" where
  "on_frames lib reg now request midjoin cap [] w = (w, [])"
| "on_frames lib reg now request midjoin cap (f # fs) w =
     (let (w, es) = on_frame lib reg now request midjoin cap f w;
          (w, es') = on_frames lib reg now request midjoin cap fs w
      in (w, es @ es'))"

text \<open>A stream whose response began but saw no frame for \<open>STREAM_IDLE\<close> is dropped and counted.\<close>

definition is_idle :: "nat \<Rightarrow> h2_stream \<Rightarrow> bool" where
  "is_idle now s \<longleftrightarrow> hs_got_data s \<and> now - hs_last s \<ge> STREAM_IDLE"

definition sweep_idle :: "nat \<Rightarrow> work \<Rightarrow> work \<times> h2_event list" where
  "sweep_idle now w =
     (let idle = filter (\<lambda>(_, s). is_idle now s) (w_streams w) in
      (w\<lparr>w_streams := filter (\<lambda>(_, s). \<not> is_idle now s) (w_streams w),
         w_buffered := fold (\<lambda>(_, s) n. n - held s) idle (w_buffered w)\<rparr>,
       map (\<lambda>_. Unparsed ConnectionClosed) idle))"

section \<open>Feeding\<close>

text \<open>Whether the gap forces a re-anchor, after skipping it when it fits the current frame.\<close>

definition apply_gap :: "h2_gap \<Rightarrow> frame_reader \<Rightarrow> frame_reader \<times> bool" where
  "apply_gap gap r =
     (case gap of
        Gap_None \<Rightarrow> (r, False)
      | Gap_Skip n \<Rightarrow> (let (r, skipped) = skip_gap r n in (r, \<not> skipped))
      | Gap_Resync \<Rightarrow> (r, True))"

text \<open>\<open>fetch_add\<close> and \<open>fetch_sub\<close> wrap.\<close>

definition reconcile_node_bytes :: "nat \<Rightarrow> nat \<Rightarrow> u64 \<Rightarrow> u64" where
  "reconcile_node_bytes was after node =
     (if after > was then node + of_nat (after - was)
      else if was > after then node - of_nat (was - after)
      else node)"

definition node_room :: "u64 \<Rightarrow> nat" where
  "node_room node = MIDJOIN_NODE_CAP - unat node"

definition buffer_cap :: "bool \<Rightarrow> nat \<Rightarrow> u64 \<Rightarrow> nat" where
  "buffer_cap midjoin was node =
     (if midjoin then min MIDJOIN_CONN_CAP (was + node_room node) else CONN_BUFFER_CAP)"

definition h2_feed ::
  "libs \<Rightarrow> registry \<Rightarrow> nat \<Rightarrow> llm_direction \<Rightarrow> bytes \<Rightarrow> h2_gap \<Rightarrow> h2_conn \<times> u64 \<Rightarrow>
     (h2_conn \<times> u64) \<times> h2_event list" where
  "h2_feed lib reg now direction bs gap cn =
     (let (c, node) = cn;
          request = (direction = Write);
          dir = (if request then hc_client c else hc_server c);
          (reader, lost) = apply_gap gap (dir_reader dir);
          (reader, decoder, resynced) =
            (if lost then (resync reader, forget (dir_decoder dir), [Resynced])
             else (reader, dir_decoder dir, []));
          midjoin = (hc_midjoin c \<or> lost \<and> request);
          was = hc_buffered c;
          cap = buffer_cap midjoin was node;
          (reader, frames) = read reader bs;
          (w, es) = on_frames lib reg now request midjoin cap frames
            \<lparr>w_decoder = decoder, w_streams = hc_streams c, w_buffered = was\<rparr>;
          (w, swept) = (if w_streams w \<noteq> [] then sweep_idle now w else (w, []));
          dir = \<lparr>dir_reader = reader, dir_decoder = w_decoder w\<rparr>;
          c = c\<lparr>hc_streams := w_streams w, hc_buffered := w_buffered w, hc_midjoin := midjoin\<rparr>
      in ((if request then c\<lparr>hc_client := dir\<rparr> else c\<lparr>hc_server := dir\<rparr>,
           if midjoin then reconcile_node_bytes was (w_buffered w) node else node),
          resynced @ es @ swept))"

definition h2_drop :: "h2_conn \<Rightarrow> u64 \<Rightarrow> u64" where
  "h2_drop c node = (if hc_midjoin c \<and> hc_buffered c > 0 then node - of_nat (hc_buffered c) else node)"

definition starts_preface :: "bytes \<Rightarrow> bool" where
  "starts_preface bs = starts_with bs PREFACE"

end
