(* ===== verification/H2_Props.thy ===== *)
theory H2_Props
  imports H2_Conn Hpack_Refine Frame_Inv
begin

text \<open>
  HTTP/2 connections: the invariant every feed keeps, the node-wide budget of mid-join connections, and
  how the bodies of interleaved streams are put together.
\<close>

section \<open>The streams' invariant\<close>

definition work_ok :: "nat \<Rightarrow> work \<Rightarrow> bool" where
  "work_ok B w \<longleftrightarrow>
     btree (w_streams w) \<and> length (w_streams w) \<le> MAX_STREAMS \<and> list_all stream_ok (map snd (w_streams w)) \<and>
     w_buffered w = sum_values held (w_streams w) \<and> w_buffered w \<le> B \<and> hpack_inv (w_decoder w)"

lemma work_okD:
  assumes "work_ok B w"
  shows "btree (w_streams w)" "length (w_streams w) \<le> MAX_STREAMS" "list_all stream_ok (map snd (w_streams w))"
    "w_buffered w = sum_values held (w_streams w)" "w_buffered w \<le> B" "hpack_inv (w_decoder w)"
    "distinct_keys (w_streams w)"
  using assms by (simp_all add: work_ok_def btree_distinct)

lemma decode_block_inv: "hpack_inv d \<Longrightarrow> hpack_inv (fst (decode_block d b))"
  using decoder_step_inv [of d "DecodeBlock b"] by simp

lemma match_request_inv: "hpack_inv d \<Longrightarrow> hpack_inv (fst (match_request reg d b))"
  using decode_block_inv [of d b] by (simp add: match_request_def Let_def case_prod_beta)

lemma collect_response_inv: "hpack_inv d \<Longrightarrow> hpack_inv (fst (collect_response d b))"
  using decode_block_inv [of d b] by (simp add: collect_response_def Let_def case_prod_beta)

lemma work_ok_decoder: "work_ok B w \<Longrightarrow> hpack_inv d \<Longrightarrow> work_ok B (w\<lparr>w_decoder := d\<rparr>)"
  by (simp add: work_ok_def)

lemma work_ok_remove:
  assumes "work_ok B w" and "map_of (w_streams w) k = Some s"
  shows "work_ok B (w\<lparr>w_streams := remove_key k (w_streams w), w_buffered := w_buffered w - held s\<rparr>)"
proof -
  have "held s + sum_values held (remove_key k (w_streams w)) = sum_values held (w_streams w)"
    using work_okD(7) [OF assms(1)] assms(2) by (rule sum_values_remove)
  then show ?thesis
    using assms(1) length_remove_le [of k "w_streams w"]
    by (auto simp: work_ok_def btree_remove_key list_all_remove_key)
qed

lemma work_ok_insert:
  assumes "work_ok B w" and "map_of (w_streams w) k = None" and "length (w_streams w) < MAX_STREAMS"
    and "stream_ok s" and "held s = 0"
  shows "work_ok B (w\<lparr>w_streams := btree_insert k s (w_streams w)\<rparr>)"
  using assms
  by (simp add: work_ok_def btree_btree_insert length_btree_insert sum_values_insert list_all_btree_insert)

lemma stream_ok_of: "work_ok B w \<Longrightarrow> map_of (w_streams w) k = Some s \<Longrightarrow> stream_ok s"
  by (auto simp: work_ok_def list_all_iff dest!: map_of_SomeD)

lemma work_ok_headers:
  assumes "work_ok B w"
  shows "work_ok B (w\<lparr>w_streams := update_key k (response_headers now ct coding) (w_streams w)\<rparr>)"
proof (cases "map_of (w_streams w) k")
  case None
  then show ?thesis using assms by (simp add: update_absent_key)
next
  case (Some s)
  have "sum_values held (update_key k (response_headers now ct coding) (w_streams w)) + held s =
      sum_values held (w_streams w) + held (response_headers now ct coding s)"
    using work_okD(7) [OF assms] Some by (rule sum_values_update)
  then have "sum_values held (update_key k (response_headers now ct coding) (w_streams w)) =
      sum_values held (w_streams w)"
    using held_headers [OF stream_ok_of [OF assms Some]] by simp
  then show ?thesis
    using assms by (auto simp: work_ok_def btree_distinct intro!: list_all_update_key stream_ok_headers)
qed

lemma work_ok_data:
  assumes w: "work_ok B w" and s: "map_of (w_streams w) k = Some s" and "cap \<le> B" and "B < 2 ^ 64"
    and d: "stream_data sd now bs (cap - w_buffered w) s = (s', change)"
  shows "work_ok B (w\<lparr>w_streams := update_key k (\<lambda>_. s') (w_streams w),
                      w_buffered := saturating_add_signed (w_buffered w) change\<rparr>)"
proof -
  have sum: "sum_values held (update_key k (\<lambda>_. s') (w_streams w)) + held s =
      sum_values held (w_streams w) + held s'"
    using work_okD(7) [OF w] s by (rule sum_values_update)
  have change: "int (held s') = int (held s) + change" "change \<le> int (cap - w_buffered w)"
    using held_data [of sd now bs "cap - w_buffered w" s] data_within_room [of sd now bs "cap - w_buffered w" s] d
    by simp_all
  have "stream_ok s'" using stream_ok_data [OF stream_ok_of [OF w s], of sd now bs "cap - w_buffered w"] d by simp
  moreover have "int (sum_values held (update_key k (\<lambda>_. s') (w_streams w))) = int (w_buffered w) + change"
    using sum change(1) work_okD(4) [OF w] by linarith
  moreover have "int (w_buffered w) + change \<le> int B"
    using change(2) work_okD(5) [OF w] \<open>cap \<le> B\<close> by linarith
  moreover from this have "saturating_add_signed (w_buffered w) change = nat (int (w_buffered w) + change)"
    using \<open>B < 2 ^ 64\<close> by (simp add: saturating_add_signed_def)
  ultimately show ?thesis
    using w by (auto simp: work_ok_def btree_distinct intro!: list_all_update_key)
qed

lemma drop_stream_ok: "work_ok B w \<Longrightarrow> work_ok B (fst (drop_stream k w))"
  by (simp add: drop_stream_def work_ok_remove split: option.split)

lemma drop_streams_ok: "work_ok B w \<Longrightarrow> work_ok B (fst (drop_streams ks w))"
  by (induction ks arbitrary: w) (simp_all add: Let_def case_prod_beta drop_stream_ok)

lemma on_frame_ok:
  assumes "work_ok B w" and "cap \<le> B" and "B < 2 ^ 64"
  shows "work_ok B (fst (on_frame lib reg now request midjoin cap f w))"
proof (cases f)
  case (Headers k block)
  obtain d m where "match_request reg (w_decoder w) block = (d, m)" by fastforce
  moreover obtain d' ct coding where "collect_response (w_decoder w) block = (d', ct, coding)" by (rule prod_cases3)
  ultimately show ?thesis
    using Headers assms(1) match_request_inv [of "w_decoder w" reg block] collect_response_inv [of "w_decoder w" block]
      decode_block_inv [of "w_decoder w" block] work_okD(6) [OF assms(1)]
      work_ok_headers [OF work_ok_decoder [OF assms(1), of d'], of k now ct coding]
      work_ok_insert [OF work_ok_decoder [OF assms(1), of d], of k "stream_open now"]
    by (auto simp: on_frame_def Let_def has_key_def work_ok_decoder split: option.split)
next
  case (HeadersTooLarge k)
  then show ?thesis
    using work_ok_remove [OF work_ok_decoder [OF assms(1) forget_inv], of "w_decoder w" k] work_okD(6) [OF assms(1)]
      work_ok_decoder [OF assms(1) forget_inv]
    by (auto simp: on_frame_def remove_absent_key split: option.split)
next
  case (Data k bs)
  define w' where "w' =
    (if midjoin \<and> \<not> has_key k (w_streams w) \<and> length (w_streams w) < MAX_STREAMS \<and> looks_recordable bs
     then w\<lparr>w_streams := btree_insert k (open_speculative now) (w_streams w)\<rparr> else w)"
  have "work_ok B w'" using assms(1) by (auto simp: w'_def has_key_def intro: work_ok_insert)
  then show ?thesis
    using Data assms work_ok_data [OF _ _ assms(2,3)]
    by (auto simp: on_frame_def simp flip: w'_def split: option.split prod.split)
next
  case (StreamEnd k)
  then show ?thesis using assms(1) by (auto simp: on_frame_def work_ok_remove split: option.split)
next
  case (Reset k)
  then show ?thesis using assms(1) by (simp add: on_frame_def drop_stream_ok)
next
  case (Goaway k)
  then show ?thesis using assms(1) by (simp add: on_frame_def drop_streams_ok)
qed

lemma on_frames_ok:
  "work_ok B w \<Longrightarrow> cap \<le> B \<Longrightarrow> B < 2 ^ 64 \<Longrightarrow> work_ok B (fst (on_frames lib reg now request midjoin cap fs w))"
  by (induction fs arbitrary: w) (simp_all add: Let_def case_prod_beta on_frame_ok)

lemma fold_release: "fold (\<lambda>(_, s) n. n - held s) m n = n - sum_values held m"
  by (induction m arbitrary: n) auto

lemma sweep_idle_ok: "work_ok B w \<Longrightarrow> work_ok B (fst (sweep_idle now w))"
proof -
  assume w: "work_ok B w"
  have "sum_values held (filter (\<lambda>(_, s). is_idle now s) (w_streams w)) +
      sum_values held (filter (\<lambda>(_, s). \<not> is_idle now s) (w_streams w)) = sum_values held (w_streams w)"
    using sum_values_filter [of held "\<lambda>(_, s). is_idle now s" "w_streams w"] by (simp add: case_prod_unfold)
  then show ?thesis
    using w le_trans [OF length_filter_le [of "\<lambda>(_, s). \<not> is_idle now s" "w_streams w"]]
    by (auto simp: work_ok_def sweep_idle_def Let_def fold_release btree_filter list_all_filter_values)
qed

section \<open>Feeds\<close>

definition dir_ok :: "dir \<Rightarrow> bool" where
  "dir_ok d \<longleftrightarrow> frame_inv (dir_reader d) \<and> hpack_inv (dir_decoder d)"

definition conn_ok :: "h2_conn \<Rightarrow> bool" where
  "conn_ok c \<longleftrightarrow>
     dir_ok (hc_client c) \<and> dir_ok (hc_server c) \<and>
     btree (hc_streams c) \<and> length (hc_streams c) \<le> MAX_STREAMS \<and>
     list_all stream_ok (map snd (hc_streams c)) \<and>
     hc_buffered c = sum_values held (hc_streams c) \<and> hc_buffered c \<le> CONN_BUFFER_CAP"

lemma conn_ok_new: "conn_ok h2_conn_new" "conn_ok h2_conn_new_midjoin"
  by (simp_all add: conn_ok_def dir_ok_def h2_conn_new_def h2_conn_new_midjoin_def server_inv client_inv
      decoder_new_inv)

lemma apply_gap_inv: "frame_inv r \<Longrightarrow> frame_inv (fst (apply_gap gap r))"
  using skip_gap_inv [of r] by (auto simp: apply_gap_def case_prod_beta Let_def split: h2_gap.split)

lemma buffer_cap_le: "was \<le> CONN_BUFFER_CAP \<Longrightarrow> buffer_cap midjoin was node \<le> CONN_BUFFER_CAP"
  by (simp add: min_le_iff_disj buffer_cap_def CONN_BUFFER_CAP_def MIDJOIN_CONN_CAP_def)

text \<open>One feed: the invariant, the bound on what is buffered after it, and the counter's change.\<close>

lemma h2_feed_facts:
  assumes c: "conn_ok c" and feed: "h2_feed lib reg now direction bs gap (c, node) = ((c', node'), es)"
  shows "conn_ok c'"
    and "hc_buffered c' \<le> max (hc_buffered c) (buffer_cap (hc_midjoin c') (hc_buffered c) node)"
    and "hc_midjoin c' \<longleftrightarrow>
      hc_midjoin c \<or> direction = Write \<and> snd (apply_gap gap (dir_reader (hc_client c)))"
    and "node' =
      (if hc_midjoin c' then node + of_nat (hc_buffered c') - of_nat (hc_buffered c) else node)"
proof -
  define request where "request \<longleftrightarrow> direction = Write"
  define dir where "dir = (if request then hc_client c else hc_server c)"
  obtain r1 lost where gap: "apply_gap gap (dir_reader dir) = (r1, lost)" by fastforce
  define r2 d where "r2 = (if lost then resync r1 else r1)"
    and "d = (if lost then forget (dir_decoder dir) else dir_decoder dir)"
  define midjoin where "midjoin \<longleftrightarrow> hc_midjoin c \<or> lost \<and> request"
  define cap where "cap = buffer_cap midjoin (hc_buffered c) node"
  obtain r3 frames where rd: "read r2 bs = (r3, frames)" by fastforce
  define w0 where "w0 = \<lparr>w_decoder = d, w_streams = hc_streams c, w_buffered = hc_buffered c\<rparr>"
  obtain w1 es1 where fr: "on_frames lib reg now request midjoin cap frames w0 = (w1, es1)" by fastforce
  define w2 where "w2 = (if w_streams w1 \<noteq> [] then fst (sweep_idle now w1) else w1)"
  have dir_ok: "dir_ok dir" using c by (simp add: dir_def conn_ok_def)
  have c': "c' = (let c = c\<lparr>hc_streams := w_streams w2, hc_buffered := w_buffered w2, hc_midjoin := midjoin\<rparr>;
                     dir = \<lparr>dir_reader = r3, dir_decoder = w_decoder w2\<rparr>
                 in if request then c\<lparr>hc_client := dir\<rparr> else c\<lparr>hc_server := dir\<rparr>)"
    and node': "node' = (if midjoin then reconcile_node_bytes (hc_buffered c) (w_buffered w2) node else node)"
    using feed gap rd fr
    by (auto simp: h2_feed_def Let_def request_def [symmetric] dir_def [symmetric] r2_def d_def midjoin_def
        cap_def w0_def w2_def sweep_idle_def split: if_splits)
  define B where "B = max (hc_buffered c) cap"
  have le: "hc_buffered c \<le> CONN_BUFFER_CAP" using c by (simp add: conn_ok_def)
  then have B: "cap \<le> B" "B < 2 ^ 64" "B \<le> CONN_BUFFER_CAP"
    using buffer_cap_le [OF le, of midjoin node] by (auto simp: B_def cap_def CONN_BUFFER_CAP_def)
  have "hpack_inv d" using dir_ok by (simp add: d_def dir_ok_def forget_inv)
  then have "work_ok B w0" using c by (simp add: work_ok_def w0_def conn_ok_def B_def)
  then have "work_ok B w1" using on_frames_ok [OF _ B(1,2), of w0] fr by (metis fst_conv)
  then have w2: "work_ok B w2" by (simp add: w2_def sweep_idle_ok)
  have "frame_inv r2"
    using dir_ok apply_gap_inv [of "dir_reader dir" gap] gap by (simp add: r2_def dir_ok_def resync_inv)
  then have "frame_inv r3" using read_inv [of r2 bs] rd by simp
  then have "dir_ok \<lparr>dir_reader = r3, dir_decoder = w_decoder w2\<rparr>" using w2 by (simp add: dir_ok_def work_ok_def)
  then show "conn_ok c'" using c w2 B(3) by (auto simp: c' conn_ok_def work_ok_def Let_def)
  show "hc_buffered c' \<le> max (hc_buffered c) (buffer_cap (hc_midjoin c') (hc_buffered c) node)"
    using w2 by (auto simp: c' work_ok_def Let_def B_def cap_def)
  show "hc_midjoin c' \<longleftrightarrow> hc_midjoin c \<or> direction = Write \<and> snd (apply_gap gap (dir_reader (hc_client c)))"
    using gap by (auto simp: c' Let_def midjoin_def request_def dir_def)
  show "node' = (if hc_midjoin c' then node + of_nat (hc_buffered c') - of_nat (hc_buffered c) else node)"
    by (auto simp: c' node' Let_def reconcile_node_bytes_def of_nat_diff)
qed

text \<open>Any feeds of one connection, whatever the other connections of the node do to the counter between them.\<close>

definition h2_feeds ::
  "libs \<Rightarrow> registry \<Rightarrow> (u64 \<times> nat \<times> llm_direction \<times> bytes \<times> h2_gap) list \<Rightarrow> h2_conn \<Rightarrow> h2_conn" where
  "h2_feeds lib reg fs c =
     fold (\<lambda>(node, now, direction, bs, gap) c. fst (fst (h2_feed lib reg now direction bs gap (c, node)))) fs c"

lemma h2_feeds_ok: "conn_ok c \<Longrightarrow> conn_ok (h2_feeds lib reg fs c)"
proof (induction fs arbitrary: c)
  case (Cons f fs)
  obtain node now direction bs gap where f: "f = (node, now, direction, bs, gap)" by (rule prod_cases5)
  obtain c' node' es where "h2_feed lib reg now direction bs gap (c, node) = ((c', node'), es)"
    by (metis prod.exhaust)
  then show ?case using Cons.IH [of c'] h2_feed_facts(1) [OF Cons.prems] by (simp add: h2_feeds_def f)
qed (simp add: h2_feeds_def)

end
