(* ===== verification/H2_Claims.thy ===== *)
theory H2_Claims
  imports H2_Props
begin

text \<open>
  What the HTTP/2 model promises: every connection stays well formed and bounded, the node-wide budget of
  mid-join connections is exact as long as every connection was born mid-join (and wraps below zero when
  one switches with bytes buffered), and a response body is put together whole from interleaved frames.
\<close>

section \<open>Well-formedness\<close>

text \<open>C22: After any feeds, gaps and losses in either direction, and whatever other connections do to the
  shared counter, an HTTP/2 connection is well formed: at most 128 streams in key order, each holding at most
  16 MiB, the recorded buffered bytes exactly theirs and at most 32 MiB; both frame readers and both HPACK
  tables keep their invariants, each table within 64 KiB and 2048 entries.\<close>

theorem h2_connection_well_formed:
  "let c = h2_feeds lib reg fs (if joined then h2_conn_new_midjoin else h2_conn_new)
   in btree (hc_streams c) \<and> length (hc_streams c) \<le> 128 \<and>
      list_all (\<lambda>(_, s). stream_ok s \<and> held s \<le> MAX_RESPONSE_BUFFER_SIZE) (hc_streams c) \<and>
      hc_buffered c = sum_values held (hc_streams c) \<and> hc_buffered c \<le> 32 * 1024 * 1024 \<and>
      list_all (\<lambda>dir. frame_inv (dir_reader dir) \<and> hpack_inv (dir_decoder dir) \<and>
          d_size (dir_decoder dir) \<le> MAX_TABLE_SIZE \<and> length (d_entries (dir_decoder dir)) \<le> 2048)
        [hc_client c, hc_server c]"
proof -
  define c where "c = h2_feeds lib reg fs (if joined then h2_conn_new_midjoin else h2_conn_new)"
  have ok: "conn_ok c" unfolding c_def by (rule h2_feeds_ok) (simp add: conn_ok_new)
  have table: "d_size d \<le> MAX_TABLE_SIZE \<and> length (d_entries d) \<le> 2048" if "hpack_inv d" for d
    using inv_entries [OF that] that by (simp add: hpack_inv_def MAX_TABLE_SIZE_def)
  have "held s \<le> MAX_RESPONSE_BUFFER_SIZE" if "stream_ok s" for s
    using that by (auto simp: stream_ok_def held_def split: h2_body.splits)
  then show ?thesis
    using ok table
    by (auto simp: conn_ok_def dir_ok_def list_all_iff MAX_STREAMS_def CONN_BUFFER_CAP_def simp flip: c_def)
qed

section \<open>The node-wide budget\<close>

text \<open>The connections of a node and the counter they share, under joins, feeds and drops in any order.\<close>

type_synonym h2_node = "h2_conn list \<times> u64"

datatype node_op =
    Join
  | Feed nat nat llm_direction bytes h2_gap
  | Close nat

fun node_step :: "libs \<Rightarrow> registry \<Rightarrow> node_op \<Rightarrow> h2_node \<Rightarrow> h2_node" where
  "node_step lib reg Join (cs, node) = (h2_conn_new_midjoin # cs, node)"
| "node_step lib reg (Feed i now direction bs gap) (cs, node) =
     (if i < length cs
      then (let ((c, node), es) = h2_feed lib reg now direction bs gap (cs ! i, node) in (cs[i := c], node))
      else (cs, node))"
| "node_step lib reg (Close i) (cs, node) =
     (if i < length cs then (take i cs @ drop (Suc i) cs, h2_drop (cs ! i) node) else (cs, node))"

definition buffered_sum :: "h2_conn list \<Rightarrow> nat" where
  "buffered_sum cs = sum_list (map hc_buffered cs)"

definition node_ok :: "h2_node \<Rightarrow> bool" where
  "node_ok n \<longleftrightarrow>
     (case n of (cs, node) \<Rightarrow>
        list_all (\<lambda>c. conn_ok c \<and> hc_midjoin c \<and> hc_buffered c \<le> MIDJOIN_CONN_CAP) cs \<and>
        unat node = buffered_sum cs \<and> buffered_sum cs \<le> MIDJOIN_NODE_CAP)"

lemma buffered_sum_split:
  assumes "i < length cs"
  shows "buffered_sum cs = hc_buffered (cs ! i) + buffered_sum (take i cs @ drop (Suc i) cs)"
proof -
  have "buffered_sum cs = buffered_sum (take i cs @ cs ! i # drop (Suc i) cs)"
    by (rule arg_cong [OF id_take_nth_drop [OF assms]])
  then show ?thesis by (simp add: buffered_sum_def)
qed

lemma buffered_sum_update:
  assumes "i < length cs"
  shows "buffered_sum (cs[i := c]) = hc_buffered c + buffered_sum (take i cs @ drop (Suc i) cs)"
  using buffered_sum_split [of i "cs[i := c]"] assms by simp

lemma unat_of_nat_small: "n < 2 ^ 64 \<Longrightarrow> unat (of_nat n :: u64) = n"
  by (simp add: unat_of_nat)

lemma node_counter:
  fixes node :: u64
  assumes "unat node = b + rest" and "a + rest < 2 ^ 64"
  shows "unat (node + of_nat a - of_nat b) = a + rest"
proof -
  have "node = of_nat (unat node)" by simp
  then have "node = of_nat (b + rest)" by (simp only: assms(1))
  then have "node + of_nat a - of_nat b = of_nat (a + rest)" by simp
  then show ?thesis using assms(2) by (simp add: unat_of_nat_small del: of_nat_add)
qed

lemma node_step_pair_ok: "node_ok (cs, node) \<Longrightarrow> node_ok (node_step lib reg op (cs, node))"
proof (cases op)
  case Join
  assume "node_ok (cs, node)"
  then show ?thesis using Join by (simp add: node_ok_def buffered_sum_def conn_ok_new)
      (simp add: h2_conn_new_midjoin_def h2_conn_new_def)
next
  case (Feed i now direction bs gap)
  assume ok: "node_ok (cs, node)"
  show ?thesis
  proof (cases "i < length cs")
    case True
    obtain c' node' es where feed: "h2_feed lib reg now direction bs gap (cs ! i, node) = ((c', node'), es)"
      by (metis prod.exhaust)
    have c: "conn_ok (cs ! i)" "hc_midjoin (cs ! i)" "hc_buffered (cs ! i) \<le> MIDJOIN_CONN_CAP"
      using ok True by (auto simp: node_ok_def list_all_length)
    note facts = h2_feed_facts [OF c(1) feed]
    define rest where "rest = buffered_sum (take i cs @ drop (Suc i) cs)"
    have sums: "buffered_sum cs = hc_buffered (cs ! i) + rest" "buffered_sum (cs[i := c']) = hc_buffered c' + rest"
      using buffered_sum_split [OF True] buffered_sum_update [OF True, of c'] by (simp_all add: rest_def)
    have "unat node = buffered_sum cs" "buffered_sum cs \<le> MIDJOIN_NODE_CAP" using ok by (simp_all add: node_ok_def)
    moreover have "hc_midjoin c'" using facts(3) c(2) by simp
    then have "hc_buffered c' \<le> MIDJOIN_CONN_CAP"
      "hc_buffered c' \<le> hc_buffered (cs ! i) + (MIDJOIN_NODE_CAP - unat node)"
      using facts(2) c(3) by (auto simp: buffer_cap_def node_room_def)
    ultimately have "hc_buffered c' + rest \<le> MIDJOIN_NODE_CAP" "unat node' = hc_buffered c' + rest"
      using facts(4) \<open>hc_midjoin c'\<close> sums node_counter [of node "hc_buffered (cs ! i)" rest "hc_buffered c'"]
      by (auto simp: MIDJOIN_NODE_CAP_def)
    then show ?thesis
      using ok True feed facts(1) \<open>hc_midjoin c'\<close> \<open>hc_buffered c' \<le> MIDJOIN_CONN_CAP\<close> sums Feed
      by (auto simp: node_ok_def list_all_length nth_list_update)
  qed (use ok Feed in simp)
next
  case (Close i)
  assume ok: "node_ok (cs, node)"
  show ?thesis
  proof (cases "i < length cs")
    case True
    define rest where "rest = buffered_sum (take i cs @ drop (Suc i) cs)"
    have sum: "buffered_sum cs = hc_buffered (cs ! i) + rest"
      using buffered_sum_split [OF True] by (simp add: rest_def)
    have "hc_midjoin (cs ! i)" using ok True by (auto simp: node_ok_def list_all_length)
    then have "h2_drop (cs ! i) node = node + of_nat 0 - of_nat (hc_buffered (cs ! i))"
      by (simp add: h2_drop_def)
    moreover have "unat (node + of_nat 0 - of_nat (hc_buffered (cs ! i))) = 0 + rest"
      using ok sum by (intro node_counter) (auto simp: node_ok_def MIDJOIN_NODE_CAP_def)
    ultimately have "unat (h2_drop (cs ! i) node) = rest" by simp
    then show ?thesis
      using ok True sum Close
      by (auto simp: node_ok_def rest_def list_all_iff dest: in_set_takeD in_set_dropD)
  qed (use ok Close in simp)
qed

lemma node_step_ok: "node_ok n \<Longrightarrow> node_ok (node_step lib reg op n)"
  by (cases n) (simp only: node_step_pair_ok)

text \<open>While every HTTP/2 connection of the node was joined mid-stream, the shared counter of their
  speculative bytes is exact: after any joins, feeds and closes in any order it is the sum of the bytes the
  connections buffer, at most 64 MiB, and each buffers at most 1 MiB.\<close>

lemma midjoin_bytes_are_counted:
  "case fold (node_step lib reg) ops ([], 0) of (cs, node) \<Rightarrow>
     unat node = sum_list (map hc_buffered cs) \<and> unat node \<le> 64 * 1024 * 1024 \<and>
     list_all (\<lambda>c. hc_buffered c \<le> 1024 * 1024) cs"
proof -
  have "node_ok n \<Longrightarrow> node_ok (fold (node_step lib reg) ops n)" for n
    by (induction ops arbitrary: n) (auto simp: node_step_ok)
  moreover have "node_ok ([], 0)" by (simp add: node_ok_def buffered_sum_def)
  ultimately have "node_ok (fold (node_step lib reg) ops ([], 0))" by blast
  then show ?thesis
    by (auto simp: node_ok_def buffered_sum_def MIDJOIN_NODE_CAP_def MIDJOIN_CONN_CAP_def list_all_iff)
qed

text \<open>C23: A connection that started with its preface and switches to mid-join on a client gap never adds
  the bytes it already buffers to the shared counter, yet gives them back: if the counter held less than
  that, it wraps below zero and no mid-join connection of the node may buffer a byte any more.\<close>

theorem midjoin_switch_wraps_counter:
  assumes "conn_ok c" and "\<not> hc_midjoin c" and "unat node < hc_buffered c"
  shows "case h2_feed lib reg now Write bs Gap_Resync (c, node) of ((c', node'), _) \<Rightarrow>
     buffer_cap True 0 (h2_drop c' node') = 0"
proof -
  obtain c' node' es where feed: "h2_feed lib reg now Write bs Gap_Resync (c, node) = ((c', node'), es)"
    by (metis prod.exhaust)
  note facts = h2_feed_facts [OF assms(1) feed]
  define left where "left = hc_buffered c - unat node"
  have mid: "hc_midjoin c'" using facts(3) by (simp add: apply_gap_def)
  have "node' = node + of_nat (hc_buffered c') - of_nat (hc_buffered c)" using facts(4) mid by simp
  then have "h2_drop c' node' = node - of_nat (hc_buffered c)" using mid by (auto simp: h2_drop_def)
  also have "\<dots> = - of_nat left"
  proof -
    have "of_nat (hc_buffered c) = node + (of_nat left :: u64)"
      using assms(3) by (simp add: left_def of_nat_diff)
    then show ?thesis by simp
  qed
  finally have "h2_drop c' node' = - of_nat left" .
  have "0 < left" "left \<le> CONN_BUFFER_CAP"
    using assms(1,3) by (auto simp: left_def conn_ok_def)
  then have "of_nat left + (of_nat (2 ^ 64 - left) :: u64) = of_nat (2 ^ 64)"
    unfolding of_nat_add [symmetric] by (intro arg_cong [where f = of_nat]) (simp add: CONN_BUFFER_CAP_def)
  then have "(- of_nat left :: u64) = of_nat (2 ^ 64 - left)"
    by (simp add: neg_eq_iff_add_eq_0)
  then have "unat (- of_nat left :: u64) = 2 ^ 64 - left"
    using \<open>0 < left\<close> by (simp only:) (rule unat_of_nat_small, simp)
  then have "MIDJOIN_NODE_CAP \<le> unat (h2_drop c' node')"
    using \<open>h2_drop c' node' = - of_nat left\<close> \<open>left \<le> CONN_BUFFER_CAP\<close> by (simp add: MIDJOIN_NODE_CAP_def CONN_BUFFER_CAP_def)
  then show ?thesis using feed by (simp add: buffer_cap_def node_room_def)
qed

text \<open>
  A serde that reads any text as an object with an error, and a preface connection with one stream holding
  one byte of its response.
\<close>

definition sample_error_libs :: libs where
  "sample_error_libs =
     \<lparr>httparse_request = (\<lambda>_. \<lparr>rq_status = Parse_Error, rq_method = None, rq_path = None, rq_headers = []\<rparr>),
      httparse_response = (\<lambda>_. \<lparr>rs_status = Parse_Error, rs_code = None, rs_headers = []\<rparr>),
      libs_serde = \<lparr>from_str = (\<lambda>_. Some (Object [(''error'', Bool True)])), delta_from_str = (\<lambda>_. None),
        chunk_from_str = (\<lambda>_. None)\<rparr>,
      crc32 = (\<lambda>_. 0),
      libs_decoders = \<lparr>gunzip = (\<lambda>_. ([], True)), zlib = (\<lambda>_. ([], True)), raw_deflate = (\<lambda>_. ([], True)),
        brotli = (\<lambda>_. ([], True)), zstd_frame = (\<lambda>_. None)\<rparr>\<rparr>"

definition sample_conn :: h2_conn where
  "sample_conn = h2_conn_new\<lparr>hc_streams := [(1, (stream_open 0)\<lparr>hs_body := Buffered [] False [0x7B] False,
     hs_got_data := True\<rparr>)], hc_buffered := 1\<rparr>"

theorem midjoin_switch_wraps_counter_witness:
  "case h2_feed sample_error_libs [] 5 Write [] Gap_Resync (sample_conn, 0) of ((c', node'), _) \<Rightarrow>
     buffer_cap True 0 (h2_drop c' node') = 0"
proof (rule midjoin_switch_wraps_counter)
  show "conn_ok sample_conn"
    using conn_ok_new(1)
    by (simp add: conn_ok_def sample_conn_def stream_ok_def held_def MAX_STREAMS_def MAX_RESPONSE_BUFFER_SIZE_def
        CONN_BUFFER_CAP_def)
qed (simp_all add: sample_conn_def h2_conn_new_def)

section \<open>Interleaved responses\<close>

definition data_of :: "u32 \<Rightarrow> frame list \<Rightarrow> bytes" where
  "data_of k fs =
     concat (map (\<lambda>f. case f of Frame.Data j bs \<Rightarrow> if j = k then bs else [] | _ \<Rightarrow> []) fs)"

definition data_len :: "frame \<Rightarrow> nat" where
  "data_len f = (case f of Frame.Data _ bs \<Rightarrow> length bs | _ \<Rightarrow> 0)"

text \<open>A frame that is DATA, or leaves stream \<open>k\<close> alone.\<close>

definition spares :: "u32 \<Rightarrow> frame \<Rightarrow> bool" where
  "spares k f \<longleftrightarrow>
     (case f of
        Headers j _ \<Rightarrow> j \<noteq> k
      | HeadersTooLarge j \<Rightarrow> j \<noteq> k
      | Frame.Data _ _ \<Rightarrow> True
      | StreamEnd j \<Rightarrow> j \<noteq> k
      | Reset j \<Rightarrow> j \<noteq> k
      | Goaway last_stream \<Rightarrow> \<not> last_stream + 1 \<le> k)"

text \<open>Stream \<open>k\<close> gathers: its body so far is \<open>buf\<close>, opened as \<open>s\<close> was.\<close>

definition gathers :: "u32 \<Rightarrow> h2_stream \<Rightarrow> bytes \<Rightarrow> bool \<Rightarrow> bytes \<Rightarrow> work \<Rightarrow> bool" where
  "gathers k s coding sse buf w \<longleftrightarrow>
     (case map_of (w_streams w) k of
        None \<Rightarrow> False
      | Some s' \<Rightarrow>
          hs_body s' = Buffered coding sse buf False \<and> hs_start s' = hs_start s \<and>
          hs_speculative s' = hs_speculative s)"

lemma gathers_cong: "map_of (w_streams w') k = map_of (w_streams w) k \<Longrightarrow> gathers k s c e b w' = gathers k s c e b w"
  by (simp add: gathers_def)

lemma drop_stream_other:
  "j \<noteq> k \<Longrightarrow> map_of (w_streams (fst (drop_stream j w))) k = map_of (w_streams w) k"
  "w_buffered (fst (drop_stream j w)) \<le> w_buffered w"
  by (simp_all add: drop_stream_def map_of_remove_key split: option.split)

lemma drop_streams_other:
  "k \<notin> set js \<Longrightarrow> map_of (w_streams (fst (drop_streams js w))) k = map_of (w_streams w) k \<and>
     w_buffered (fst (drop_streams js w)) \<le> w_buffered w"
proof (induction js arbitrary: w)
  case (Cons j js)
  define w1 where "w1 = fst (drop_stream j w)"
  have "drop_streams (j # js) w = (fst (drop_streams js w1), snd (drop_stream j w) @ snd (drop_streams js w1))"
    by (simp add: w1_def Let_def case_prod_beta)
  moreover have "map_of (w_streams w1) k = map_of (w_streams w) k" "w_buffered w1 \<le> w_buffered w"
    using Cons.prems drop_stream_other [of j] by (auto simp: w1_def)
  ultimately show ?case using Cons.prems Cons.IH [of w1] by auto
qed simp

lemma on_frame_gathers:
  assumes g: "gathers k s coding sse buf w" and "spares k f" and "cap \<le> CONN_BUFFER_CAP"
    and room: "w_buffered w + data_len f \<le> cap"
    and size: "length buf + length (data_of k [f]) \<le> MAX_RESPONSE_BUFFER_SIZE"
    and step: "on_frame lib reg now False midjoin cap f w = (w', es)"
  shows "gathers k s coding sse (buf @ data_of k [f]) w' \<and> w_buffered w' \<le> w_buffered w + data_len f"
proof (cases f)
  case (Data j bs)
  define w0 where "w0 =
    (if midjoin \<and> \<not> has_key j (w_streams w) \<and> length (w_streams w) < MAX_STREAMS \<and> looks_recordable bs
     then w\<lparr>w_streams := btree_insert j (open_speculative now) (w_streams w)\<rparr> else w)"
  have w0: "gathers k s coding sse buf w0" "w_buffered w0 = w_buffered w"
    using g by (auto simp: w0_def gathers_def has_key_def map_of_btree_insert split: option.splits)
  show ?thesis
  proof (cases "map_of (w_streams w0) j")
    case None
    moreover from this w0(1) have "j \<noteq> k" by (auto simp: gathers_def)
    ultimately show ?thesis
      using step w0 Data by (auto simp: on_frame_def data_of_def data_len_def simp flip: w0_def)
  next
    case (Some t)
    obtain t' change where d: "stream_data (libs_serde lib) now bs (cap - w_buffered w0) t = (t', change)"
      by fastforce
    have w': "w' = w0\<lparr>w_streams := update_key j (\<lambda>_. t') (w_streams w0),
        w_buffered := saturating_add_signed (w_buffered w0) change\<rparr>"
      using step Data Some d by (auto simp: on_frame_def simp flip: w0_def)
    have "change \<le> int (length bs)" using d by (auto simp: stream_data_def Let_def split: h2_body.splits if_splits)
    then have "w_buffered w' \<le> w_buffered w + data_len f"
      using w0(2) Data by (simp add: w' saturating_add_signed_def data_len_def)
    moreover have "gathers k s coding sse (buf @ data_of k [f]) w'"
    proof (cases "j = k")
      case True
      then have "hs_body t = Buffered coding sse buf False" "hs_start t = hs_start s" "hs_speculative t = hs_speculative s"
        using w0(1) Some by (simp_all add: gathers_def)
      then have "hs_body t' = Buffered coding sse (buf @ bs) False" "hs_start t' = hs_start s"
        "hs_speculative t' = hs_speculative s"
        using d room size True Data w0(2)
        by (auto simp: stream_data_def Let_def data_of_def data_len_def split: if_splits)
      then show ?thesis using True Some Data by (simp add: gathers_def w' map_of_update_key data_of_def)
    next
      case False
      then show ?thesis using w0(1) Data by (simp add: gathers_def w' map_of_update_key data_of_def)
    qed
    ultimately show ?thesis by simp
  qed
next
  case (Goaway g)
  then have "k \<notin> set (filter (\<lambda>j. g + 1 \<le> j) (map fst (w_streams w)))"
    using assms(2) by (auto simp: spares_def)
  then show ?thesis
    using Goaway step g drop_streams_other [of k "filter (\<lambda>j. g + 1 \<le> j) (map fst (w_streams w))" w]
      gathers_cong [of w' k w]
    by (auto simp: on_frame_def data_of_def data_len_def)
next
  case (Reset j)
  then show ?thesis
    using step g assms(2) drop_stream_other(1) [of j k w] drop_stream_other(2) [of j w] gathers_cong [of w' k w]
    by (auto simp: on_frame_def spares_def data_of_def data_len_def)
next
  case (Headers j block)
  then show ?thesis
    using step g assms(2)
    by (auto simp: on_frame_def spares_def data_of_def data_len_def gathers_def map_of_update_key Let_def
        split: if_splits prod.splits)
next
  case (HeadersTooLarge j)
  then show ?thesis
    using step g assms(2)
    by (auto simp: on_frame_def spares_def data_of_def data_len_def gathers_def map_of_remove_key)
next
  case (StreamEnd j)
  then show ?thesis
    using step g assms(2)
    by (auto simp: on_frame_def spares_def data_of_def data_len_def gathers_def map_of_remove_key split: option.splits)
qed

lemma data_of_Cons: "data_of k (f # fs) = data_of k [f] @ data_of k fs"
  by (simp add: data_of_def)

lemma on_frames_gathers:
  assumes "gathers k s coding sse buf w" and "list_all (spares k) fs" and "cap \<le> CONN_BUFFER_CAP"
    and "w_buffered w + sum_list (map data_len fs) \<le> cap"
    and "length buf + length (data_of k fs) \<le> MAX_RESPONSE_BUFFER_SIZE"
    and "on_frames lib reg now False midjoin cap fs w = (w', es)"
  shows "gathers k s coding sse (buf @ data_of k fs) w'"
  using assms
proof (induction fs arbitrary: w buf w' es)
  case Nil
  then show ?case by (simp add: data_of_def)
next
  case (Cons f fs)
  obtain w1 es1 where 1: "on_frame lib reg now False midjoin cap f w = (w1, es1)" by fastforce
  obtain w2 es2 where 2: "on_frames lib reg now False midjoin cap fs w1 = (w2, es2)" by fastforce
  have "gathers k s coding sse (buf @ data_of k [f]) w1 \<and> w_buffered w1 \<le> w_buffered w + data_len f"
    using Cons.prems(2,4,5) data_of_Cons [of k f fs]
    by (intro on_frame_gathers [OF Cons.prems(1) _ Cons.prems(3) _ _ 1]) auto
  then have "gathers k s coding sse ((buf @ data_of k [f]) @ data_of k fs) w2"
    using Cons.prems(2,4,5) data_of_Cons [of k f fs] by (intro Cons.IH [OF _ _ Cons.prems(3) _ _ 2]) auto
  then show ?case using Cons.prems(6) 1 2 data_of_Cons [of k f fs] by simp
qed



end
