(* ===== verification/Http2_Raw.thy ===== *)
theory Http2_Raw
  imports Http1
begin

text \<open>
  The raw-byte HTTP/2 parser used where no frame is followed (agent, http/h2/mod.rs), and the parts of the
  provider registry it consults (http/registry.rs). The registry built from the built-in and configured
  providers is the parameter \<open>reg\<close>.
\<close>

section \<open>Known hosts and paths\<close>

text \<open>The first literal part of a host pattern.\<close>

definition host_literal :: "str \<Rightarrow> str" where
  "host_literal pattern =
     (case find (\<lambda>s. s \<noteq> []) (split_byte (CHR ''*'') pattern) of None \<Rightarrow> pattern | Some s \<Rightarrow> s)"

fun distinct_hosts :: "str list \<Rightarrow> str list \<Rightarrow> str list" where
  "distinct_hosts [] hosts = hosts"
| "distinct_hosts (pattern # patterns) hosts =
     (let host = host_literal pattern
      in distinct_hosts patterns (if host \<noteq> [] \<and> host \<notin> set hosts then hosts @ [host] else hosts))"

definition KNOWN_HOSTS :: "registry \<Rightarrow> str list" where
  "KNOWN_HOSTS reg = distinct_hosts (concat (map p_hosts reg)) []"

definition is_llm_path :: "registry \<Rightarrow> str \<Rightarrow> bool" where
  "is_llm_path reg path = list_ex (\<lambda>config. list_ex (path_matches path) (p_paths config)) reg"

text \<open>The built-in providers with the configured ones merged over them, if any.\<close>

definition merged :: "registry \<Rightarrow> registry option \<Rightarrow> registry" where
  "merged defaults configured =
     (case configured of Some reg \<Rightarrow> registry_merge defaults reg | None \<Rightarrow> defaults)"

section \<open>The parser\<close>

definition METHODS :: "str list" where
  "METHODS = [''GET '', ''POST '', ''PUT '', ''DELETE '', ''PATCH '', ''HEAD '']"

definition REQUEST_KEYS :: "str list" where
  "REQUEST_KEYS = [''\"messages\"'', ''\"contents\"'', ''\"prompt\"'', ''\"model\"'']"

definition h2_detect_request :: "registry \<Rightarrow> bytes \<Rightarrow> str option" where
  "h2_detect_request reg buffer =
     (if list_ex (\<lambda>m. starts_with (take 10 buffer) (as_bytes m)) METHODS then None
      else if \<not> list_ex (\<lambda>h. contains_pattern buffer (as_bytes h)) (KNOWN_HOSTS reg) then None
      else if list_ex (\<lambda>k. contains_pattern buffer (as_bytes k)) REQUEST_KEYS then Some ''h2_body_detected''
      else if is_llm_path reg (from_utf8_lossy buffer) then Some ''h2_path_detected''
      else None)"

fun first_text :: "libs \<Rightarrow> registry \<Rightarrow> bytes list \<Rightarrow> str option" where
  "first_text lib reg [] = None"
| "first_text lib reg (payload # payloads) =
     (let text = extract_text_from_json (libs_serde lib) reg (from_utf8_lossy payload)
      in if text \<noteq> [] then Some text else first_text lib reg payloads)"

definition h2_extract_request_text :: "libs \<Rightarrow> registry \<Rightarrow> bytes \<Rightarrow> str" where
  "h2_extract_request_text lib reg buffer =
     (case first_text lib reg (extract_h2_json_all buffer) of
        Some text \<Rightarrow> text
      | None \<Rightarrow> extract_text_from_json (libs_serde lib) reg (from_utf8_lossy buffer))"

text \<open>An object shaped like a request, and a Gemini chunk before the last: neither carries the final usage.\<close>

definition request_shaped :: "str \<Rightarrow> bool" where
  "request_shaped s \<longleftrightarrow>
     (contains s ''\"messages\"'' \<or> contains s ''\"contents\"'' \<or> contains s ''\"prompt\"'') \<and>
     \<not> contains s ''\"usage\"'' \<and> \<not> contains s ''\"usageMetadata\"''"

definition gemini_partial :: "str \<Rightarrow> bool" where
  "gemini_partial s \<longleftrightarrow>
     contains s ''\"usageMetadata\"'' \<and> \<not> contains s ''\"candidatesTokenCount\"'' \<and>
     \<not> contains s ''\"finishReason\"'' \<and> \<not> contains s ''\"blockReason\"''"

definition payload_usage :: "libs \<Rightarrow> registry \<Rightarrow> str \<Rightarrow> usage_info option" where
  "payload_usage lib reg s =
     (if request_shaped s then None
      else case from_str (libs_serde lib) s of
        None \<Rightarrow> None
      | Some val \<Rightarrow>
          (let val = (if is_responses_event val then the (json_get val ''response'') else val)
           in case parse_response_json_value reg val of
                None \<Rightarrow> None
              | Some info \<Rightarrow> if gemini_partial s then None else Some info))"

fun first_payload_usage :: "libs \<Rightarrow> registry \<Rightarrow> bytes list \<Rightarrow> usage_info option" where
  "first_payload_usage lib reg [] = None"
| "first_payload_usage lib reg (payload # payloads) =
     (case payload_usage lib reg (from_utf8_lossy payload) of
        Some info \<Rightarrow> Some info
      | None \<Rightarrow> first_payload_usage lib reg payloads)"

definition h2_parse_response :: "libs \<Rightarrow> registry \<Rightarrow> bytes \<Rightarrow> usage_info option" where
  "h2_parse_response lib reg buffer = first_payload_usage lib reg (extract_h2_json_all buffer)"

end
