(* ===== verification/Processor.thy ===== *)
theory Processor
  imports Http2_Raw H2_Conn Past_Limit Background
begin

text \<open>
  The stream processor of one connection (agent, processor.rs): fragments of SSL calls in, finished calls
  out. What the code exports is the ledger: a recorded call with its usage, start and process, a call
  counted as unparsed, and the two HTTP/2 counters. The pod of a process, which only labels these, is left
  out; so are the log lines. One fragment takes one reading \<open>now\<close> of the clock.
\<close>

section \<open>Data\<close>

definition MAX_REQUEST_BUFFER_SIZE :: nat where
  "MAX_REQUEST_BUFFER_SIZE = 8 * 1024 * 1024"

definition DETECTION_BUFFER_THRESHOLD :: nat where
  "DETECTION_BUFFER_THRESHOLD = 4096"

datatype parser = Http11_Parser | Http2_Parser

datatype processor_state =
    Detecting
  | Processing_Request nat parser
  | Processing_Response nat parser
  | Http2 h2_conn
  | Finished

datatype past_limit = Json_Ends json_ends | Sse_Stream sse_stream

datatype outcome =
    Outcome_Pending
  | Outcome_Recorded
  | Outcome_Deferred
  | Outcome_Unparsed unparsed_reason

record processor =
  sp_state :: processor_state
  sp_write_buf :: bytes
  sp_read_buf :: bytes
  sp_read_progress :: response_progress
  sp_past_limit :: "past_limit option"
  sp_last_activity :: nat
  sp_frag_next :: u32
  sp_frag_dir :: llm_direction
  sp_next_request :: "(nat \<times> nat) option"
  sp_continuation :: "str option"
  sp_gap_client :: h2_gap
  sp_gap_server :: h2_gap

text \<open>What the processors of a node share, and the ledger of everything exported, oldest first.\<close>

datatype ledger_entry =
    Call_Recorded usage_info nat u32
  | Call_Unparsed u32 unparsed_reason
  | Midjoin_Recorded
  | Direction_Resynced

record world =
  wd_background :: background_calls
  wd_node :: u64
  wd_ledger :: "ledger_entry list"

definition processor_new :: "nat \<Rightarrow> processor" where
  "processor_new now =
     \<lparr>sp_state = Detecting, sp_write_buf = [], sp_read_buf = [], sp_read_progress = response_progress_default,
      sp_past_limit = None, sp_last_activity = now, sp_frag_next = 0, sp_frag_dir = Unknown_Dir,
      sp_next_request = None, sp_continuation = None, sp_gap_client = Gap_None, sp_gap_server = Gap_None\<rparr>"

definition is_llm :: "processor \<Rightarrow> bool" where
  "is_llm sp = (case sp_state sp of Detecting \<Rightarrow> False | Finished \<Rightarrow> False | _ \<Rightarrow> True)"

section \<open>Exports\<close>

definition export :: "ledger_entry \<Rightarrow> world \<Rightarrow> world" where
  "export e w = w\<lparr>wd_ledger := wd_ledger w @ [e]\<rparr>"

definition count_unparsed :: "u32 \<Rightarrow> unparsed_reason \<Rightarrow> world \<Rightarrow> outcome \<times> world" where
  "count_unparsed pid reason w = (Outcome_Unparsed reason, export (Call_Unparsed pid reason) w)"

definition give_up :: "pending_call \<Rightarrow> world \<Rightarrow> outcome \<times> world" where
  "give_up call w = count_unparsed (call_pid call) BackgroundUnfinished w"

section \<open>Past the buffer limit\<close>

definition pl_start :: "libs \<Rightarrow> registry \<Rightarrow> bytes \<Rightarrow> past_limit option" where
  "pl_start lib reg buffer =
     (case je_start lib reg buffer of
        Some ends \<Rightarrow> Some (Json_Ends ends)
      | None \<Rightarrow> map_option Sse_Stream (ss_start lib buffer))"

definition pl_feed :: "libs \<Rightarrow> registry \<Rightarrow> past_limit \<Rightarrow> bytes \<Rightarrow> past_limit \<times> bool" where
  "pl_feed lib reg pl bs =
     (case pl of
        Json_Ends ends \<Rightarrow> (let (ends, ok) = je_feed (libs_serde lib) reg ends bs in (Json_Ends ends, ok))
      | Sse_Stream stream \<Rightarrow> (let (stream, ok) = ss_feed (libs_serde lib) stream bs in (Sse_Stream stream, ok)))"

definition pl_take_usage :: "registry \<Rightarrow> past_limit \<Rightarrow> usage_info option \<times> past_limit" where
  "pl_take_usage reg pl =
     (case pl of
        Json_Ends ends \<Rightarrow> (je_usage ends, Json_Ends (ends\<lparr>je_usage := None\<rparr>))
      | Sse_Stream stream \<Rightarrow> (ss_usage reg stream, pl))"

section \<open>HTTP/2\<close>

definition set_h2_gap :: "llm_direction \<Rightarrow> h2_gap \<Rightarrow> processor \<Rightarrow> processor" where
  "set_h2_gap direction gap sp =
     (case direction of
        Write \<Rightarrow> sp\<lparr>sp_gap_client := gap\<rparr>
      | Read \<Rightarrow> sp\<lparr>sp_gap_server := gap\<rparr>
      | _ \<Rightarrow> sp)"

definition take_h2_gap :: "llm_direction \<Rightarrow> processor \<Rightarrow> h2_gap \<times> processor" where
  "take_h2_gap direction sp =
     (case direction of
        Write \<Rightarrow> (sp_gap_client sp, sp\<lparr>sp_gap_client := Gap_None\<rparr>)
      | Read \<Rightarrow> (sp_gap_server sp, sp\<lparr>sp_gap_server := Gap_None\<rparr>)
      | _ \<Rightarrow> (Gap_None, sp))"

definition h2_loss :: "llm_direction \<Rightarrow> u32 \<Rightarrow> u32 \<Rightarrow> nat \<Rightarrow> bool \<Rightarrow> processor \<Rightarrow> h2_gap \<times> processor" where
  "h2_loss direction offset len data_len truncated sp =
     (let sp = (if offset = 0 \<and> sp_frag_next sp \<noteq> 0 then set_h2_gap (sp_frag_dir sp) Gap_Resync sp else sp);
          (gap, sp) =
            (if offset \<noteq> 0 \<and> offset > sp_frag_next sp
             then (Gap_Skip (unat (offset - sp_frag_next sp)), sp)
             else take_h2_gap direction sp);
          lost = unat len - (unat offset + data_len)
      in (gap, if truncated \<and> lost > 0 then set_h2_gap direction (Gap_Skip lost) sp else sp))"

text \<open>The event callback: what is exported, and the last outcome.\<close>

definition h2_event_step :: "u32 \<Rightarrow> h2_event \<Rightarrow> outcome \<times> world \<Rightarrow> outcome \<times> world" where
  "h2_event_step pid event ow =
     (let (out, w) = ow in
      case event of
        Detected _ \<Rightarrow> (out, w)
      | Recorded usage start midjoin \<Rightarrow>
          (let w = export (Call_Recorded usage start pid) w
           in (Outcome_Recorded, if midjoin then export Midjoin_Recorded w else w))
      | Unparsed reason \<Rightarrow> count_unparsed pid reason w
      | Resynced \<Rightarrow> (out, export Direction_Resynced w))"

definition feed_http2 ::
  "libs \<Rightarrow> registry \<Rightarrow> nat \<Rightarrow> u32 \<Rightarrow> llm_direction \<Rightarrow> bytes \<Rightarrow> h2_gap \<Rightarrow> processor \<times> world \<Rightarrow>
     outcome \<times> processor \<times> world" where
  "feed_http2 lib reg now pid direction bs gap pw =
     (let (sp, w) = pw; sp = sp\<lparr>sp_last_activity := now\<rparr> in
      case sp_state sp of
        Http2 conn \<Rightarrow>
          (let ((conn, node), es) = h2_feed lib reg now direction bs gap (conn, wd_node w);
               (out, w) = fold (h2_event_step pid) es (Outcome_Pending, w\<lparr>wd_node := node\<rparr>)
           in (out, sp\<lparr>sp_state := Http2 conn\<rparr>, w))
      | _ \<Rightarrow> (Outcome_Pending, sp, w))"

definition starts_ascii_upper :: "bytes \<Rightarrow> bytes \<Rightarrow> bool" where
  "starts_ascii_upper buffered bs =
     (case buffered @ bs of [] \<Rightarrow> False | b # _ \<Rightarrow> 0x41 \<le> b \<and> b \<le> 0x5A)"

definition detect_h2_midjoin ::
  "libs \<Rightarrow> registry \<Rightarrow> nat \<Rightarrow> u32 \<Rightarrow> bytes \<Rightarrow> bool \<Rightarrow> u32 \<Rightarrow> llm_direction \<Rightarrow> processor \<times> world \<Rightarrow>
     (outcome \<times> processor \<times> world) option" where
  "detect_h2_midjoin lib reg now pid bs complete frag_end direction pw =
     (let (sp, w) = pw; client = sp_write_buf sp @ bs in
      if starts_ascii_upper (sp_write_buf sp) bs then None
      else if \<not> looks_like_http2 client then None
      else
        (let sp = sp\<lparr>sp_write_buf := [], sp_state := Http2 h2_conn_new_midjoin,
                    sp_gap_client := Gap_Resync, sp_gap_server := Gap_Resync,
                    sp_frag_next := (if complete then 0 else frag_end), sp_frag_dir := direction\<rparr>;
             (gap, sp) = take_h2_gap direction sp
         in Some (feed_http2 lib reg now pid direction client gap (sp, w))))"

section \<open>Losses on HTTP/1.1\<close>

definition STATUS :: bytes where
  "STATUS = as_bytes ''HTTP/1.''"

definition skip_empty_lines :: "bytes \<Rightarrow> bytes" where
  "skip_empty_lines buf = dropWhile (\<lambda>b. b = 0x0D \<or> b = 0x0A) buf"

text \<open>Only the raw-byte HTTP/2 parser's client writes while a response arrives.\<close>

definition writes_during_response :: "parser \<Rightarrow> bool" where
  "writes_during_response p = (p = Http2_Parser)"

definition awaits_http11_response :: "libs \<Rightarrow> processor \<Rightarrow> bool" where
  "awaits_http11_response lib sp =
     (case sp_state sp of
        Processing_Response _ p \<Rightarrow>
          sp_past_limit sp \<noteq> None \<or> \<not> writes_during_response p \<and> is_complete_response lib (sp_read_buf sp)
      | _ \<Rightarrow> False)"

definition mid_http11_response :: "processor \<Rightarrow> bool" where
  "mid_http11_response sp =
     (case sp_state sp of
        Processing_Response _ p \<Rightarrow> \<not> writes_during_response p \<and> sp_past_limit sp = None
      | _ \<Rightarrow> False)"

definition lost_http11_tail :: "libs \<Rightarrow> llm_direction \<Rightarrow> bytes \<Rightarrow> processor \<Rightarrow> bool" where
  "lost_http11_tail lib direction bs sp \<longleftrightarrow>
     direction = Read \<and> sp_next_request sp \<noteq> None \<and> mid_http11_response sp \<and>
     starts_with_response_head lib (skip_empty_lines bs)"

definition lost_http11_head :: "libs \<Rightarrow> llm_direction \<Rightarrow> bytes \<Rightarrow> processor \<Rightarrow> bool" where
  "lost_http11_head lib direction bs sp =
     (case (sp_state sp, direction) of
        (Processing_Request _ p, Read) \<Rightarrow>
          (let head = skip_empty_lines bs
           in \<not> writes_during_response p \<and>
              \<not> starts_with STATUS (take (min (length head) (length STATUS)) head))
      | (Processing_Request _ p, Write) \<Rightarrow> \<not> writes_during_response p \<and> is_request_head lib bs
      | (Processing_Response _ p, Write) \<Rightarrow>
          \<not> writes_during_response p \<and> \<not> starts_with (skip_empty_lines (sp_read_buf sp)) STATUS \<and>
          is_request_head lib bs
      | _ \<Rightarrow> False)"

text \<open>Assigning a new state drops an HTTP/2 connection held by the old one.\<close>

definition release_conn :: "processor_state \<Rightarrow> world \<Rightarrow> world" where
  "release_conn st w = (case st of Http2 conn \<Rightarrow> w\<lparr>wd_node := h2_drop conn (wd_node w)\<rparr> | _ \<Rightarrow> w)"

definition drop_response ::
  "u32 \<Rightarrow> unparsed_reason \<Rightarrow> processor \<times> world \<Rightarrow> outcome \<times> processor \<times> world" where
  "drop_response pid reason pw =
     (let (sp, w) = pw in
      if \<not> is_llm sp then (Outcome_Pending, sp, w)
      else
        (let w = release_conn (sp_state sp) w;
             polled = sp_continuation sp;
             sp = sp\<lparr>sp_state := Finished, sp_continuation := None\<rparr>
         in if polled \<noteq> None then (Outcome_Pending, sp, w)
            else (let (out, w) = count_unparsed pid reason w in (out, sp, w))))"

definition note_next_request ::
  "libs \<Rightarrow> nat \<Rightarrow> u32 \<Rightarrow> bytes \<Rightarrow> processor \<times> world \<Rightarrow> outcome \<times> processor \<times> world" where
  "note_next_request lib now pid bs pw =
     (let (sp, w) = pw in
      if \<not> mid_http11_response sp \<or> \<not> is_request_head lib bs then (Outcome_Pending, sp, w)
      else
        (let skipped = sp_next_request sp;
             sp = sp\<lparr>sp_next_request := Some (length (sp_write_buf sp), now)\<rparr>
         in if skipped = None then (Outcome_Pending, sp, w)
            else (let (out, w) = count_unparsed pid CaptureLost w in (out, sp, w))))"

section \<open>Detection\<close>

text \<open>The next state for the request bytes buffered so far; a poll also sets the continuation.\<close>

definition detect ::
  "libs \<Rightarrow> registry \<Rightarrow> nat \<Rightarrow> background_calls \<Rightarrow> processor \<Rightarrow> processor_state \<times> processor" where
  "detect lib reg now background sp =
     (if h1_detect_request lib reg (sp_write_buf sp) \<noteq> None
      then (Processing_Request now Http11_Parser, sp)
      else
        (let polled = (case retrieved_response_id lib reg (sp_write_buf sp) of
                         None \<Rightarrow> None
                       | Some rid \<Rightarrow> if calls_contains rid background then Some rid else None)
         in case polled of
              Some rid \<Rightarrow> (Processing_Request now Http11_Parser, sp\<lparr>sp_continuation := Some rid\<rparr>)
            | None \<Rightarrow>
                (if h2_detect_request reg (sp_write_buf sp) \<noteq> None
                 then (Processing_Request now Http2_Parser, sp)
                 else if length (sp_write_buf sp) > DETECTION_BUFFER_THRESHOLD then (Finished, sp)
                 else (Detecting, sp))))"

definition reset :: "processor \<Rightarrow> processor" where
  "reset sp =
     sp\<lparr>sp_state := Detecting, sp_write_buf := [], sp_read_buf := [],
        sp_read_progress := response_progress_default, sp_past_limit := None, sp_next_request := None,
        sp_continuation := None, sp_gap_client := Gap_None, sp_gap_server := Gap_None\<rparr>"

text \<open>Start over from the request written mid-response.\<close>

definition resume_next_request ::
  "libs \<Rightarrow> registry \<Rightarrow> nat \<Rightarrow> background_calls \<Rightarrow> processor \<Rightarrow> processor" where
  "resume_next_request lib reg now background sp =
     (case sp_next_request sp of
        None \<Rightarrow> sp
      | Some (at, start_time) \<Rightarrow>
          (let sp = sp\<lparr>sp_next_request := None, sp_write_buf := drop at (sp_write_buf sp),
                      sp_read_buf := [], sp_read_progress := response_progress_default\<rparr>;
               (st, sp) = detect lib reg now background sp
           in sp\<lparr>sp_state :=
                  (case st of Processing_Request _ p \<Rightarrow> Processing_Request start_time p | _ \<Rightarrow> st)\<rparr>))"

section \<open>Buffering\<close>

definition buffer_write :: "bytes \<Rightarrow> processor \<Rightarrow> (unparsed_reason + bool) \<times> processor" where
  "buffer_write bs sp =
     (let sp = (if sp_state sp = Finished then reset sp else sp) in
      if length (sp_write_buf sp) + length bs > MAX_REQUEST_BUFFER_SIZE then (Inl RequestTooLarge, sp)
      else (Inr True, sp\<lparr>sp_write_buf := sp_write_buf sp @ bs\<rparr>))"

definition buffer_read ::
  "libs \<Rightarrow> registry \<Rightarrow> bytes \<Rightarrow> processor \<Rightarrow> (unparsed_reason + bool) \<times> processor" where
  "buffer_read lib reg bs sp =
     (case sp_state sp of
        Finished \<Rightarrow> (Inr False, sp)
      | Detecting \<Rightarrow>
          (Inr False,
           if sp_write_buf sp \<noteq> [] \<and> (starts_with bs STATUS \<or> is_request_head lib (sp_write_buf sp))
           then sp\<lparr>sp_write_buf := []\<rparr> else sp)
      | _ \<Rightarrow>
          (let started =
             (if sp_past_limit sp = None \<and> length (sp_read_buf sp) + length bs > MAX_RESPONSE_BUFFER_SIZE
              then map_option
                (\<lambda>followed. sp\<lparr>sp_past_limit := Some followed, sp_read_buf := [],
                               sp_read_progress := response_progress_default\<rparr>)
                (pl_start lib reg (sp_read_buf sp))
              else Some sp)
           in case started of
                None \<Rightarrow> (Inl ResponseTooLarge, sp)
              | Some sp \<Rightarrow>
                  (case sp_past_limit sp of
                     Some followed \<Rightarrow>
                       (let (followed, ok) = pl_feed lib reg followed bs
                        in (if ok then Inr True else Inl ResponseTooLarge, sp\<lparr>sp_past_limit := Some followed\<rparr>))
                   | None \<Rightarrow> (Inr True, sp\<lparr>sp_read_buf := sp_read_buf sp @ bs\<rparr>))))"

section \<open>Settling a call\<close>

definition defer_call :: "str \<Rightarrow> pending_call \<Rightarrow> world \<Rightarrow> outcome \<times> world" where
  "defer_call rid call w =
     (let (evicted, calls) = calls_insert rid call (wd_background w);
          w = w\<lparr>wd_background := calls\<rparr>
      in (Outcome_Deferred, case evicted of None \<Rightarrow> w | Some e \<Rightarrow> snd (give_up e w)))"

definition settle_create ::
  "nat \<Rightarrow> usage_info option \<Rightarrow> background_state option \<Rightarrow> nat \<Rightarrow> u32 \<Rightarrow> world \<Rightarrow> outcome option \<times> world" where
  "settle_create now usage bstate start_time pid w =
     (case (usage, bstate) of
        (Some usage, _) \<Rightarrow> (Some Outcome_Recorded, export (Call_Recorded usage start_time pid) w)
      | (None, Some (Running rid)) \<Rightarrow>
          (let (out, w) = defer_call rid (pending_call_new now start_time pid) w in (Some out, w))
      | (None, _) \<Rightarrow> (None, w))"

text \<open>The state of a poll whose body was followed past the limit: usage with tokens ends the call.\<close>

definition poll_state :: "usage_info option \<Rightarrow> background_state option \<Rightarrow> background_state option" where
  "poll_state usage bstate =
     (case bstate of
        Some st \<Rightarrow> Some st
      | None \<Rightarrow>
          (case usage of
             None \<Rightarrow> None
           | Some u \<Rightarrow> if prompt_tokens u > 0 \<or> completion_tokens u > 0 then Some Finished_Call else None))"

definition record_poll ::
  "str \<Rightarrow> usage_info option \<Rightarrow> background_state \<Rightarrow> world \<Rightarrow> outcome \<times> world" where
  "record_poll rid usage ended w =
     (let (call, calls) = calls_take rid (wd_background w); w = w\<lparr>wd_background := calls\<rparr> in
      case call of
        None \<Rightarrow> (Outcome_Pending, w)
      | Some call \<Rightarrow>
          (case (usage, ended) of
             (Some u, _) \<Rightarrow> (Outcome_Recorded, export (Call_Recorded u (call_start call) (call_pid call)) w)
           | (None, Cancelled) \<Rightarrow>
               (Outcome_Recorded, export (Call_Recorded usage_default (call_start call) (call_pid call)) w)
           | (None, _) \<Rightarrow> give_up call w))"

definition settle_poll ::
  "nat \<Rightarrow> str \<Rightarrow> usage_info option \<Rightarrow> background_state option \<Rightarrow> processor \<times> world \<Rightarrow>
     outcome option \<times> processor \<times> world" where
  "settle_poll now rid usage bstate pw =
     (let (sp, w) = pw; touched = w\<lparr>wd_background := calls_touch now rid (wd_background w)\<rparr> in
      case poll_state usage bstate of
        Some (Running _) \<Rightarrow> (Some Outcome_Pending, sp, touched)
      | Some ended \<Rightarrow> (let (out, w) = record_poll rid usage ended w in (Some out, sp, w))
      | None \<Rightarrow>
          (if usage \<noteq> None then (Some Outcome_Pending, sp, w)
           else (None, sp\<lparr>sp_continuation := Some rid\<rparr>, touched)))"

definition settle ::
  "nat \<Rightarrow> usage_info option \<Rightarrow> background_state option \<Rightarrow> nat \<Rightarrow> u32 \<Rightarrow> processor \<times> world \<Rightarrow>
     outcome option \<times> processor \<times> world" where
  "settle now usage bstate start_time pid pw =
     (let (sp, w) = pw in
      case sp_continuation sp of
        Some rid \<Rightarrow> settle_poll now rid usage bstate (sp\<lparr>sp_continuation := None\<rparr>, w)
      | None \<Rightarrow> (let (out, w) = settle_create now usage bstate start_time pid w in (out, sp, w)))"

section \<open>Events\<close>

text \<open>The usage and the background state of the response read so far.\<close>

definition parse_progress ::
  "libs \<Rightarrow> registry \<Rightarrow> parser \<Rightarrow> processor \<Rightarrow> usage_info option \<times> background_state option \<times> processor" where
  "parse_progress lib reg p sp =
     (let (usage, sp) =
        (case sp_past_limit sp of
           Some followed \<Rightarrow>
             (let (usage, followed) = pl_take_usage reg followed in (usage, sp\<lparr>sp_past_limit := Some followed\<rparr>))
         | None \<Rightarrow>
             (case p of
                Http11_Parser \<Rightarrow>
                  (let (usage, rp) = parse_response_from lib reg (sp_read_buf sp) (sp_read_progress sp)
                   in (usage, sp\<lparr>sp_read_progress := rp\<rparr>))
              | Http2_Parser \<Rightarrow> (h2_parse_response lib reg (sp_read_buf sp), sp)));
          (bstate, rp) = take_background (sp_read_progress sp)
      in (usage, bstate, sp\<lparr>sp_read_progress := rp\<rparr>))"

definition handle_response ::
  "libs \<Rightarrow> registry \<Rightarrow> nat \<Rightarrow> u32 \<Rightarrow> bool \<Rightarrow> nat \<Rightarrow> parser \<Rightarrow> processor \<times> world \<Rightarrow> outcome \<times> processor \<times> world" where
  "handle_response lib reg now pid complete start_time p pw =
     (let (sp, w) = pw; sp = sp\<lparr>sp_state := Finished\<rparr> in
      if complete
      then
        (let (usage, bstate, sp) = parse_progress lib reg p sp;
             (out, sp, w) = settle now usage bstate start_time pid (sp, w)
         in case out of
              Some out \<Rightarrow> (out, sp, w)
            | None \<Rightarrow> (Outcome_Pending, sp\<lparr>sp_state := Processing_Response start_time p\<rparr>, w))
      else (Outcome_Pending, sp\<lparr>sp_state := Processing_Response start_time p\<rparr>, w))"

definition buffer_event ::
  "libs \<Rightarrow> registry \<Rightarrow> llm_direction \<Rightarrow> bytes \<Rightarrow> processor \<Rightarrow> (unparsed_reason + bool) \<times> processor" where
  "buffer_event lib reg direction bs sp =
     (case direction of
        Write \<Rightarrow> buffer_write bs sp
      | Read \<Rightarrow> buffer_read lib reg bs sp
      | _ \<Rightarrow> (Inr False, sp))"

definition handle_event ::
  "libs \<Rightarrow> registry \<Rightarrow> nat \<Rightarrow> u32 \<Rightarrow> llm_direction \<Rightarrow> bytes \<Rightarrow> bool \<Rightarrow> processor \<times> world \<Rightarrow>
     outcome \<times> processor \<times> world" where
  "handle_event lib reg now pid direction bs complete pw =
     (let (sp, w) = pw; (buffered, sp) = buffer_event lib reg direction bs (sp\<lparr>sp_last_activity := now\<rparr>) in
      case buffered of
        Inl reason \<Rightarrow> (let (out, sp, w) = drop_response pid reason (sp, w) in (out, reset sp, w))
      | Inr False \<Rightarrow> (Outcome_Pending, sp, w)
      | Inr True \<Rightarrow>
          (case sp_state sp of
             Detecting \<Rightarrow>
               (let (st, sp) = detect lib reg now (wd_background w) (sp\<lparr>sp_state := Finished\<rparr>)
                in (Outcome_Pending, sp\<lparr>sp_state := st\<rparr>, w))
           | Processing_Request start_time p \<Rightarrow>
               (if direction \<noteq> Read then (Outcome_Pending, sp, w)
                else handle_response lib reg now pid complete start_time p (sp, w))
           | Processing_Response start_time p \<Rightarrow>
               handle_response lib reg now pid complete start_time p (sp, w)
           | Http2 conn \<Rightarrow> (Outcome_Pending, sp, w)
           | Finished \<Rightarrow> (Outcome_Pending, sp, w)))"

section \<open>Fragments\<close>

text \<open>\<open>offset.saturating_add(data.len() as u32)\<close>.\<close>

definition fragment_end :: "u32 \<Rightarrow> bytes \<Rightarrow> u32" where
  "fragment_end offset bs =
     (let n = of_nat (length bs) :: u32
      in if unat offset + unat n < 2 ^ 32 then offset + n else - 1)"

definition fragment_complete :: "llm_direction \<Rightarrow> u32 \<Rightarrow> bytes \<Rightarrow> u32 \<Rightarrow> bool" where
  "fragment_complete direction offset bs len \<longleftrightarrow>
     min (unat len) (capture_limit direction) \<le> unat (fragment_end offset bs)"

definition opens_http2 :: "llm_direction \<Rightarrow> u32 \<Rightarrow> bytes \<Rightarrow> processor \<Rightarrow> bool" where
  "opens_http2 direction offset bs sp \<longleftrightarrow>
     sp_state sp = Detecting \<and> direction = Write \<and> offset = 0 \<and> sp_write_buf sp = [] \<and> starts_preface bs"

text \<open>Why the response in progress is given up before the fragment is read, if it is.\<close>

definition drop_reason ::
  "libs \<Rightarrow> llm_direction \<Rightarrow> bytes \<Rightarrow> u32 \<Rightarrow> bool \<Rightarrow> bool \<Rightarrow> processor \<Rightarrow> unparsed_reason option" where
  "drop_reason lib direction bs offset gap resumes sp =
     (if gap then Some CaptureLost
      else if direction = Write \<and> awaits_http11_response lib sp then Some NextRequest
      else if resumes \<or> offset = 0 \<and> lost_http11_head lib direction bs sp then Some CaptureLost
      else None)"

text \<open>Whether response bytes were lost before or in this fragment.\<close>

definition fragment_gap :: "llm_direction \<Rightarrow> u32 \<Rightarrow> bool \<Rightarrow> processor \<Rightarrow> bool" where
  "fragment_gap direction offset truncated sp =
     (let out_of_order = (offset \<noteq> sp_frag_next sp);
          lost_tail = (out_of_order \<and> offset = 0 \<and> sp_frag_dir sp = Read);
          lost_here = ((out_of_order \<and> offset \<noteq> 0 \<or> truncated) \<and> direction = Read)
      in lost_tail \<or> lost_here)"

definition drop_lost :: "u32 \<Rightarrow> unparsed_reason option \<Rightarrow> processor \<times> world \<Rightarrow> outcome \<times> processor \<times> world" where
  "drop_lost pid reason pw =
     (case reason of None \<Rightarrow> (Outcome_Pending, pw) | Some reason \<Rightarrow> drop_response pid reason pw)"

definition follow_request ::
  "libs \<Rightarrow> registry \<Rightarrow> nat \<Rightarrow> u32 \<Rightarrow> llm_direction \<Rightarrow> bytes \<Rightarrow> u32 \<Rightarrow> bool \<Rightarrow> outcome \<times> processor \<times> world \<Rightarrow>
     outcome \<times> processor \<times> world" where
  "follow_request lib reg now pid direction bs offset resumes opw =
     (let (dropped, sp, w) = opw in
      if resumes then (dropped, resume_next_request lib reg now (wd_background w) sp, w)
      else if offset = 0 \<and> direction = Write
      then (let (noted, sp, w) = note_next_request lib now pid bs (sp, w)
            in (case noted of Outcome_Unparsed _ \<Rightarrow> noted | _ \<Rightarrow> dropped, sp, w))
      else (dropped, sp, w))"

definition handle_http11 ::
  "libs \<Rightarrow> registry \<Rightarrow> nat \<Rightarrow> u32 \<Rightarrow> llm_direction \<Rightarrow> bytes \<Rightarrow> u32 \<Rightarrow> bool \<Rightarrow> bool \<Rightarrow> processor \<times> world \<Rightarrow>
     outcome \<times> processor \<times> world" where
  "handle_http11 lib reg now pid direction bs offset complete truncated pw =
     (let (sp, w) = pw;
          out_of_order = (offset \<noteq> sp_frag_next sp);
          gap = fragment_gap direction offset truncated sp;
          sp = sp\<lparr>sp_frag_next := (if complete then 0 else fragment_end offset bs), sp_frag_dir := direction\<rparr>;
          resumes = (offset = 0 \<and> \<not> gap \<and> lost_http11_tail lib direction bs sp);
          reason = drop_reason lib direction bs offset gap resumes sp;
          (dropped, sp, w) =
            follow_request lib reg now pid direction bs offset resumes (drop_lost pid reason (sp, w))
      in if out_of_order \<and> offset \<noteq> 0 then (dropped, sp, w)
         else
           (let (fed, sp, w) = handle_event lib reg now pid direction bs complete (sp, w)
            in (case dropped of Outcome_Unparsed _ \<Rightarrow> dropped | _ \<Rightarrow> fed, sp, w)))"

definition handle_fragment ::
  "libs \<Rightarrow> registry \<Rightarrow> nat \<Rightarrow> u32 \<Rightarrow> llm_direction \<Rightarrow> bytes \<Rightarrow> u32 \<Rightarrow> u32 \<Rightarrow> bool \<Rightarrow> processor \<times> world \<Rightarrow>
     outcome \<times> processor \<times> world" where
  "handle_fragment lib reg now pid direction bs offset len truncated pw =
     (let (sp, w) = pw; frag_end = fragment_end offset bs; complete = fragment_complete direction offset bs len in
      if (case sp_state sp of Http2 _ \<Rightarrow> True | _ \<Rightarrow> False) \<or> opens_http2 direction offset bs sp
      then
        (let sp = (if sp_state sp = Detecting then sp\<lparr>sp_state := Http2 h2_conn_new\<rparr> else sp);
             (gap, sp) = h2_loss direction offset len (length bs) truncated sp;
             sp = sp\<lparr>sp_frag_next := (if complete then 0 else frag_end), sp_frag_dir := direction\<rparr>
         in feed_http2 lib reg now pid direction bs gap (sp, w))
      else
        (case (if sp_state sp = Detecting \<and> direction = Write
               then detect_h2_midjoin lib reg now pid bs complete frag_end direction (sp, w) else None) of
           Some res \<Rightarrow> res
         | None \<Rightarrow> handle_http11 lib reg now pid direction bs offset complete truncated (sp, w)))"

section \<open>Close\<close>

fun count_open :: "nat \<Rightarrow> u32 \<Rightarrow> outcome \<times> world \<Rightarrow> outcome \<times> world" where
  "count_open 0 pid ow = ow"
| "count_open (Suc n) pid ow = count_open n pid (count_unparsed pid ConnectionClosed (snd ow))"

definition close_processor :: "u32 \<Rightarrow> processor \<times> world \<Rightarrow> outcome \<times> processor \<times> world" where
  "close_processor pid pw =
     (let (sp, w) = pw in
      case sp_state sp of
        Http2 conn \<Rightarrow>
          (let w = release_conn (sp_state sp) w;
               (out, w) = count_open (open_streams conn) pid (Outcome_Pending, w)
           in (out, sp\<lparr>sp_state := Finished\<rparr>, w))
      | _ \<Rightarrow> drop_response pid ConnectionClosed pw)"

text \<open>A dropped processor drops its HTTP/2 connection with it.\<close>

definition processor_drop :: "processor \<Rightarrow> world \<Rightarrow> world" where
  "processor_drop sp w = release_conn (sp_state sp) w"

end
