(* ===== verification/Processor_Props.thy ===== *)
theory Processor_Props
  imports Processor H2_Props Http1_Props
begin

text \<open>
  The stream processor: its memory bounds, what a capture loss does, that a call is recorded at most once,
  that an exchange read whole is recorded with the usage of the whole response, and polls.
\<close>

section \<open>Memory\<close>

definition past_ok :: "past_limit \<Rightarrow> bool" where
  "past_ok pl =
     (case pl of
        Json_Ends e \<Rightarrow> length (je_head e) \<le> HEAD_KEEP \<and> length (je_tail e) \<le> 2 * TAIL_KEEP
      | Sse_Stream s \<Rightarrow> partial_len (ss_events s) \<le> MAX_RESPONSE_BUFFER_SIZE)"

definition past_kept :: "past_limit option \<Rightarrow> bytes \<Rightarrow> bool" where
  "past_kept pl buf = (case pl of None \<Rightarrow> True | Some pl \<Rightarrow> past_ok pl \<and> buf = [])"

definition state_ok :: "processor_state \<Rightarrow> bool" where
  "state_ok st = (case st of Http2 c \<Rightarrow> conn_ok c | _ \<Rightarrow> True)"

lemma past_kept_simps [simp]: "past_kept None buf" "past_kept (Some pl) buf \<longleftrightarrow> past_ok pl \<and> buf = []"
  by (simp_all add: past_kept_def)

lemma past_kept_Nil: "past_kept pl buf \<Longrightarrow> past_kept pl []"
  by (cases pl) simp_all

lemma state_ok_simps [simp]:
  "state_ok Detecting" "state_ok Finished" "state_ok (Processing_Request t p)" "state_ok (Processing_Response t p)"
  "state_ok (Http2 c) = conn_ok c"
  by (simp_all add: state_ok_def)

definition held_ok :: "processor \<Rightarrow> bool" where
  "held_ok sp \<longleftrightarrow>
     length (sp_write_buf sp) \<le> MAX_REQUEST_BUFFER_SIZE \<and> length (sp_read_buf sp) \<le> MAX_RESPONSE_BUFFER_SIZE \<and>
     past_kept (sp_past_limit sp) (sp_read_buf sp) \<and> state_ok (sp_state sp)"

definition processor_ok :: "processor \<Rightarrow> bool" where
  "processor_ok sp \<longleftrightarrow>
     held_ok sp \<and>
     (if sp_state sp = Detecting then length (sp_write_buf sp) \<le> DETECTION_BUFFER_THRESHOLD else True)"

lemma processor_ok_new: "processor_ok (processor_new now)" and processor_ok_reset: "processor_ok (reset sp)"
  by (simp_all add: processor_ok_def held_ok_def processor_new_def reset_def)

lemma keep_ends_length:
  "length t \<le> 2 * TAIL_KEEP \<Longrightarrow> length h \<le> HEAD_KEEP \<Longrightarrow>
     length (fst (keep_ends d (h, t))) \<le> HEAD_KEEP \<and> length (snd (keep_ends d (h, t))) \<le> 2 * TAIL_KEEP"
  by (auto simp: keep_ends_def Let_def TAIL_KEEP_def HEAD_KEEP_def)

lemma fold_keep_ends_length:
  "length (snd ht) \<le> 2 * TAIL_KEEP \<Longrightarrow> length (fst ht) \<le> HEAD_KEEP \<Longrightarrow>
     length (fst (fold keep_ends ds ht)) \<le> HEAD_KEEP \<and> length (snd (fold keep_ends ds ht)) \<le> 2 * TAIL_KEEP"
proof (induction ds arbitrary: ht)
  case (Cons d ds)
  then show ?case using keep_ends_length [of "snd ht" "fst ht" d] by simp
qed simp

lemma je_feed_length:
  "length (je_head e) \<le> HEAD_KEEP \<Longrightarrow> length (je_tail e) \<le> 2 * TAIL_KEEP \<Longrightarrow>
     past_ok (Json_Ends (fst (je_feed sd reg e bs)))"
  using fold_keep_ends_length [of "(je_head e, je_tail e)" "fst (snd (body_walk_feed (je_walk e) bs))"]
  by (simp add: past_ok_def je_feed_def Let_def case_prod_beta)

lemma pl_feed_ok: "past_ok pl \<Longrightarrow> snd (pl_feed lib reg pl bs) \<Longrightarrow> past_ok (fst (pl_feed lib reg pl bs))"
  using je_feed_length by (cases pl) (auto simp: pl_feed_def past_ok_def ss_feed_def Let_def case_prod_beta)

lemma pl_start_ok: "pl_start lib reg buf = Some pl \<Longrightarrow> past_ok pl"
proof (cases "je_start lib reg buf")
  case None
  assume "pl_start lib reg buf = Some pl"
  then obtain s where "ss_start lib buf = Some s" and pl: "pl = Sse_Stream s" using None by (auto simp: pl_start_def)
  then show ?thesis
    by (auto simp: past_ok_def ss_start_def ss_feed_def Let_def case_prod_beta split: option.splits if_splits)
next
  case (Some e)
  assume "pl_start lib reg buf = Some pl"
  then have pl: "pl = Json_Ends e" using Some by (simp add: pl_start_def)
  have "past_ok (Json_Ends (fst (je_feed sd reg \<lparr>je_walk = w, je_head = [], je_tail = [], je_usage = None\<rparr> b)))" for sd w b
    by (rule je_feed_length) simp_all
  then show ?thesis
    using Some unfolding pl je_start_def Let_def case_prod_beta by (auto split: option.splits if_splits)
qed

lemma pl_take_usage_ok: "past_ok pl \<Longrightarrow> past_ok (snd (pl_take_usage reg pl))"
  by (cases pl) (simp_all add: pl_take_usage_def past_ok_def)

lemma drop_response_ok: "held_ok sp \<Longrightarrow> drop_response pid reason (sp, w) = (out, sp', w') \<Longrightarrow> held_ok sp'"
  and drop_response_processor_ok:
    "processor_ok sp \<Longrightarrow> drop_response pid reason (sp, w) = (out, sp', w') \<Longrightarrow> processor_ok sp'"
  by (auto simp: drop_response_def Let_def held_ok_def processor_ok_def count_unparsed_def split: if_splits option.splits)

lemma detect_facts:
  assumes "detect lib reg now background sp = (st, sp')"
  shows "sp' = sp\<lparr>sp_continuation := sp_continuation sp'\<rparr>"
    and "(case st of Http2 _ \<Rightarrow> False | Processing_Response _ _ \<Rightarrow> False
          | Detecting \<Rightarrow> length (sp_write_buf sp) \<le> DETECTION_BUFFER_THRESHOLD | _ \<Rightarrow> True)"
proof -
  show "sp' = sp\<lparr>sp_continuation := sp_continuation sp'\<rparr>"
    using assms by (auto simp: detect_def Let_def split: if_splits option.splits)
  show "(case st of Http2 _ \<Rightarrow> False | Processing_Response _ _ \<Rightarrow> False
          | Detecting \<Rightarrow> length (sp_write_buf sp) \<le> DETECTION_BUFFER_THRESHOLD | _ \<Rightarrow> True)"
    using assms by (auto simp: detect_def Let_def split: if_splits option.splits)
qed

lemma detect_ok:
  assumes "held_ok sp" and "detect lib reg now background sp = (st, sp')"
  shows "processor_ok (sp'\<lparr>sp_state := st\<rparr>)"
proof -
  obtain c where "sp' = sp\<lparr>sp_continuation := c\<rparr>" using detect_facts(1) [OF assms(2)] by (rule that)
  then show ?thesis
    using assms(1) detect_facts(2) [OF assms(2)]
    by (cases st) (auto simp: processor_ok_def held_ok_def)
qed

lemma note_next_request_ok:
  "processor_ok sp \<Longrightarrow> note_next_request lib now pid bs (sp, w) = (out, sp', w') \<Longrightarrow> processor_ok sp'"
  by (auto simp: note_next_request_def Let_def held_ok_def processor_ok_def count_unparsed_def split: if_splits)

lemma resume_next_request_ok: "processor_ok sp \<Longrightarrow> processor_ok (resume_next_request lib reg now background sp)"
proof (cases "sp_next_request sp")
  case (Some n)
  obtain at t where n: "n = (at, t)" by fastforce
  define sp1 where "sp1 = sp\<lparr>sp_next_request := None, sp_write_buf := drop at (sp_write_buf sp),
      sp_read_buf := [], sp_read_progress := response_progress_default\<rparr>"
  obtain st sp2 where d: "detect lib reg now background sp1 = (st, sp2)" by fastforce
  assume "processor_ok sp"
  then have "held_ok sp1" by (auto simp: sp1_def processor_ok_def held_ok_def past_kept_Nil)
  then have "processor_ok (sp2\<lparr>sp_state := st\<rparr>)" using d by (rule detect_ok)
  then show ?thesis
    using Some n d detect_facts(2) [OF d]
    by (cases st) (auto simp: resume_next_request_def sp1_def [symmetric] processor_ok_def held_ok_def)
qed (simp add: resume_next_request_def)

lemma buffer_write_ok: "processor_ok sp \<Longrightarrow> buffer_write bs sp = (Inr b, sp') \<Longrightarrow> b \<and> held_ok sp'"
  by (auto simp: buffer_write_def Let_def processor_ok_def held_ok_def reset_def split: if_splits)

lemma buffer_read_ok:
  assumes "processor_ok sp" and "buffer_read lib reg bs sp = (Inr b, sp')"
  shows "held_ok sp' \<and> (if b then True else processor_ok sp')"
proof (cases "sp_state sp = Finished \<or> sp_state sp = Detecting")
  case True
  then show ?thesis using assms by (auto simp: buffer_read_def processor_ok_def held_ok_def)
next
  case False
  define started where "started =
    (if sp_past_limit sp = None \<and> length (sp_read_buf sp) + length bs > MAX_RESPONSE_BUFFER_SIZE
     then map_option
       (\<lambda>followed. sp\<lparr>sp_past_limit := Some followed, sp_read_buf := [],
                      sp_read_progress := response_progress_default\<rparr>)
       (pl_start lib reg (sp_read_buf sp))
     else Some sp)"
  have read: "buffer_read lib reg bs sp =
      (case started of
         None \<Rightarrow> (Inl ResponseTooLarge, sp)
       | Some sp \<Rightarrow>
           (case sp_past_limit sp of
              Some followed \<Rightarrow>
                (let (followed, ok) = pl_feed lib reg followed bs
                 in (if ok then Inr True else Inl ResponseTooLarge, sp\<lparr>sp_past_limit := Some followed\<rparr>))
            | None \<Rightarrow> (Inr True, sp\<lparr>sp_read_buf := sp_read_buf sp @ bs\<rparr>)))"
    using False unfolding buffer_read_def started_def by (auto split: processor_state.split)
  obtain sp1 where sp1: "started = Some sp1" using assms(2) read by (cases started) auto
  then have ok1: "held_ok sp1" and room: "sp_past_limit sp1 = None \<Longrightarrow>
      length (sp_read_buf sp1) + length bs \<le> MAX_RESPONSE_BUFFER_SIZE"
    using assms(1) pl_start_ok
    by (auto simp: started_def processor_ok_def held_ok_def split: if_splits)
  show ?thesis
  proof (cases "sp_past_limit sp1")
    case None
    then show ?thesis using assms(2) read sp1 ok1 room by (auto simp: held_ok_def)
  next
    case (Some pl)
    then have "past_ok pl" using ok1 by (simp add: held_ok_def)
    then show ?thesis
      using assms(2) read sp1 ok1 Some pl_feed_ok [of pl lib reg bs]
      by (auto simp: held_ok_def split: prod.splits if_splits)
  qed
qed

lemma settle_keeps:
  assumes "settle now usage bs start pid (sp, w) = (out, sp', w')"
  shows "sp' = sp\<lparr>sp_continuation := sp_continuation sp'\<rparr>"
  using assms
  by (auto simp: settle_def settle_poll_def Let_def split: option.splits prod.splits background_state.splits if_splits)

lemma parse_progress_ok:
  assumes "held_ok sp" and "parse_progress lib reg p sp = (usage, bs, sp')"
  shows "held_ok sp' \<and> sp_state sp' = sp_state sp \<and> sp_write_buf sp' = sp_write_buf sp"
proof (cases "sp_past_limit sp")
  case None
  then show ?thesis
    using assms by (auto simp: parse_progress_def take_background_def held_ok_def split: parser.splits prod.splits)
next
  case (Some pl)
  then have "past_ok pl" "sp_read_buf sp = []" using assms(1) by (simp_all add: held_ok_def)
  then show ?thesis
    using assms Some pl_take_usage_ok [of pl reg]
    by (auto simp: parse_progress_def take_background_def held_ok_def split: prod.splits)
qed

lemma handle_response_ok:
  assumes "held_ok sp" and "handle_response lib reg now pid complete start p (sp, w) = (out, sp', w')"
  shows "processor_ok sp'"
proof (cases complete)
  case False
  then show ?thesis using assms by (auto simp: handle_response_def processor_ok_def held_ok_def)
next
  case True
  obtain usage bs sp1 where parse: "parse_progress lib reg p (sp\<lparr>sp_state := Finished\<rparr>) = (usage, bs, sp1)"
    by (rule prod_cases3)
  have sp1: "held_ok sp1" "sp_state sp1 = Finished"
    using parse_progress_ok [OF _ parse] assms(1) by (simp_all add: held_ok_def)
  obtain o1 sp2 w2 where settle: "settle now usage bs start pid (sp1, w) = (o1, sp2, w2)" by (rule prod_cases3)
  obtain c where "sp2 = sp1\<lparr>sp_continuation := c\<rparr>" using settle_keeps [OF settle] by (rule that)
  then show ?thesis
    using assms(2) True parse settle sp1
    by (auto simp: handle_response_def processor_ok_def held_ok_def split: option.splits)
qed

lemma handle_event_ok:
  assumes "processor_ok sp" and "handle_event lib reg now pid direction bs complete (sp, w) = (out, sp', w')"
  shows "processor_ok sp'"
proof -
  define sp0 where "sp0 = sp\<lparr>sp_last_activity := now\<rparr>"
  have ok0: "processor_ok sp0" using assms(1) by (simp add: sp0_def processor_ok_def held_ok_def)
  obtain r sp1 where buffered: "buffer_event lib reg direction bs sp0 = (r, sp1)" by fastforce
  note event = assms(2) [unfolded handle_event_def Let_def prod.case sp0_def [symmetric] buffered]
  show ?thesis
  proof (cases r)
    case (Inl reason)
    then show ?thesis using event by (auto simp: processor_ok_reset split: prod.splits)
  next
    case (Inr b)
    have ok1: "held_ok sp1" and no: "\<not> b \<Longrightarrow> processor_ok sp1"
      using buffered ok0 Inr buffer_write_ok [OF ok0, of bs b sp1] buffer_read_ok [OF ok0, of lib reg bs b sp1]
      by (auto simp: buffer_event_def processor_ok_def split: llm_direction.splits)
    show ?thesis
    proof (cases b)
      case False
      then show ?thesis using event Inr no by simp
    next
      case True
      show ?thesis
      proof (cases "sp_state sp1")
        case Detecting
        obtain st sp2 where "detect lib reg now (wd_background w) (sp1\<lparr>sp_state := Finished\<rparr>) = (st, sp2)"
          by fastforce
        moreover from detect_ok [OF _ this] ok1 have "processor_ok (sp2\<lparr>sp_state := st\<rparr>)" by (simp add: held_ok_def)
        ultimately show ?thesis using event Inr True Detecting by auto
      next
        case (Processing_Request t p)
        then show ?thesis
          using event Inr True handle_response_ok [OF ok1] ok1
          by (auto simp: processor_ok_def split: if_splits)
      next
        case (Processing_Response t p)
        then show ?thesis using event Inr True handle_response_ok [OF ok1] by auto
      qed (use event Inr True ok1 in \<open>auto simp: processor_ok_def\<close>)
    qed
  qed
qed

lemma set_h2_gap_ok [simp]:
  "processor_ok (set_h2_gap d gap sp) = processor_ok sp" "held_ok (set_h2_gap d gap sp) = held_ok sp"
  "sp_state (set_h2_gap d gap sp) = sp_state sp"
  by (simp_all add: set_h2_gap_def processor_ok_def held_ok_def split: llm_direction.split)

lemma take_h2_gap_ok [simp]:
  "processor_ok (snd (take_h2_gap d sp)) = processor_ok sp" "sp_state (snd (take_h2_gap d sp)) = sp_state sp"
  by (simp_all add: take_h2_gap_def processor_ok_def held_ok_def split: llm_direction.split)

lemma h2_loss_ok:
  "h2_loss d offset len n truncated sp = (gap, sp') \<Longrightarrow>
     processor_ok sp' = processor_ok sp \<and> sp_state sp' = sp_state sp"
  by (auto simp: h2_loss_def Let_def case_prod_beta split: if_splits)

lemma feed_http2_ok:
  assumes "processor_ok sp" and "feed_http2 lib reg now pid direction bs gap (sp, w) = (out, sp', w')"
  shows "processor_ok sp'"
proof (cases "sp_state sp")
  case (Http2 c)
  obtain c' node es where feed: "h2_feed lib reg now direction bs gap (c, wd_node w) = ((c', node), es)"
    by (metis prod.exhaust)
  have "conn_ok c" using assms(1) Http2 by (simp add: processor_ok_def held_ok_def)
  then have "conn_ok c'" using feed by (rule h2_feed_facts(1))
  then show ?thesis
    using assms Http2 feed by (auto simp: feed_http2_def processor_ok_def held_ok_def split: prod.splits)
qed (use assms in \<open>auto simp: feed_http2_def processor_ok_def held_ok_def\<close>)

lemma detect_h2_midjoin_ok:
  assumes "processor_ok sp"
    and "detect_h2_midjoin lib reg now pid bs complete e direction (sp, w) = Some (out, sp', w')"
  shows "processor_ok sp'"
proof -
  define sp1 where "sp1 = sp\<lparr>sp_write_buf := [], sp_state := Http2 h2_conn_new_midjoin,
      sp_gap_client := Gap_Resync, sp_gap_server := Gap_Resync,
      sp_frag_next := (if complete then 0 else e), sp_frag_dir := direction\<rparr>"
  have "processor_ok sp1" using assms(1) conn_ok_new by (simp add: sp1_def processor_ok_def held_ok_def)
  then have "processor_ok (snd (take_h2_gap direction sp1))" by simp
  moreover have "feed_http2 lib reg now pid direction (sp_write_buf sp @ bs) (fst (take_h2_gap direction sp1))
      (snd (take_h2_gap direction sp1), w) = (out, sp', w')"
    using assms(2) by (auto simp: detect_h2_midjoin_def Let_def sp1_def case_prod_beta split: if_splits)
  ultimately show ?thesis by (rule feed_http2_ok)
qed

lemma drop_lost_ok:
  "processor_ok sp \<Longrightarrow> drop_lost pid reason (sp, w) = (out, sp', w') \<Longrightarrow> processor_ok sp'"
  by (auto simp: drop_lost_def drop_response_processor_ok split: option.splits)

lemma follow_request_ok:
  "processor_ok sp \<Longrightarrow> follow_request lib reg now pid direction bs offset resumes (out, sp, w) = (out', sp', w') \<Longrightarrow>
     processor_ok sp'"
  by (auto simp: follow_request_def resume_next_request_ok note_next_request_ok split: if_splits prod.splits)

lemma handle_http11_ok:
  assumes "processor_ok sp"
    and "handle_http11 lib reg now pid direction bs offset complete truncated (sp, w) = (out, sp', w')"
  shows "processor_ok sp'"
proof -
  define sp0 where "sp0 = sp\<lparr>sp_frag_next := (if complete then 0 else fragment_end offset bs), sp_frag_dir := direction\<rparr>"
  have ok0: "processor_ok sp0" using assms(1) by (simp add: sp0_def processor_ok_def held_ok_def)
  define gap where "gap = fragment_gap direction offset truncated sp"
  define resumes where "resumes = (offset = 0 \<and> \<not> gap \<and> lost_http11_tail lib direction bs sp0)"
  obtain d1 sp1 w1 where
    1: "drop_lost pid (drop_reason lib direction bs offset gap resumes sp0) (sp0, w) = (d1, sp1, w1)"
    by (rule prod_cases3)
  obtain d2 sp2 w2 where
    2: "follow_request lib reg now pid direction bs offset resumes (d1, sp1, w1) = (d2, sp2, w2)"
    by (rule prod_cases3)
  have "processor_ok sp2" by (rule follow_request_ok [OF drop_lost_ok [OF ok0 1] 2])
  moreover obtain fed sp3 w3 where 3: "handle_event lib reg now pid direction bs complete (sp2, w2) = (fed, sp3, w3)"
    by (rule prod_cases3)
  ultimately have "processor_ok sp2" "processor_ok sp3" using handle_event_ok by blast+
  then show ?thesis
    using assms(2) unfolding handle_http11_def Let_def prod.case
      sp0_def [symmetric] gap_def [symmetric] resumes_def [symmetric] 1 2 3
    by (auto split: if_splits)
qed

lemma handle_fragment_ok:
  assumes "processor_ok sp"
    and "handle_fragment lib reg now pid direction bs offset len truncated (sp, w) = (out, sp', w')"
  shows "processor_ok sp'"
proof (cases "(case sp_state sp of Http2 _ \<Rightarrow> True | _ \<Rightarrow> False) \<or> opens_http2 direction offset bs sp")
  case True
  define sp0 where "sp0 = (if sp_state sp = Detecting then sp\<lparr>sp_state := Http2 h2_conn_new\<rparr> else sp)"
  obtain gap sp1 where loss: "h2_loss direction offset len (length bs) truncated sp0 = (gap, sp1)" by fastforce
  have "processor_ok sp0" using assms(1) conn_ok_new by (auto simp: sp0_def processor_ok_def held_ok_def)
  then have "processor_ok sp1" "sp_state sp1 = sp_state sp0" using h2_loss_ok [OF loss] by auto
  then have ok: "processor_ok (sp1\<lparr>sp_frag_next := n, sp_frag_dir := direction\<rparr>)" for n
    by (simp add: processor_ok_def held_ok_def)
  show ?thesis
    using assms(2) True loss feed_http2_ok [OF ok]
    by (auto simp: handle_fragment_def Let_def sp0_def [symmetric])
next
  case False
  show ?thesis
  proof (cases "if sp_state sp = Detecting \<and> direction = Write
      then detect_h2_midjoin lib reg now pid bs (fragment_complete direction offset bs len)
        (fragment_end offset bs) direction (sp, w) else None")
    case None
    then show ?thesis
      using assms(2) False handle_http11_ok [OF assms(1)] by (simp add: handle_fragment_def Let_def)
  next
    case (Some res)
    obtain o1 sp1 w1 where "res = (o1, sp1, w1)" by (rule prod_cases3)
    then show ?thesis
      using assms(2) False Some detect_h2_midjoin_ok [OF assms(1)]
      by (auto simp: handle_fragment_def Let_def split: if_splits)
  qed
qed

text \<open>Any fragments of one connection; between them other connections change what is shared.\<close>

record fragment =
  fr_now :: nat
  fr_pid :: u32
  fr_direction :: llm_direction
  fr_bytes :: bytes
  fr_offset :: u32
  fr_len :: u32
  fr_truncated :: bool

definition fragment_step :: "libs \<Rightarrow> registry \<Rightarrow> fragment \<Rightarrow> processor \<times> world \<Rightarrow> outcome \<times> processor \<times> world" where
  "fragment_step lib reg f pw =
     handle_fragment lib reg (fr_now f) (fr_pid f) (fr_direction f) (fr_bytes f) (fr_offset f) (fr_len f)
       (fr_truncated f) pw"

definition fragments :: "libs \<Rightarrow> registry \<Rightarrow> (fragment \<times> world) list \<Rightarrow> processor \<Rightarrow> processor" where
  "fragments lib reg fs sp = fold (\<lambda>(f, w) sp. fst (snd (fragment_step lib reg f (sp, w)))) fs sp"

lemma fragments_ok: "processor_ok sp \<Longrightarrow> processor_ok (fragments lib reg fs sp)"
proof (induction fs arbitrary: sp)
  case (Cons fw fs)
  obtain f w where fw: "fw = (f, w)" by fastforce
  obtain out sp' w' where "fragment_step lib reg f (sp, w) = (out, sp', w')" by (rule prod_cases3)
  then show ?case
    using Cons.IH [of sp'] handle_fragment_ok [OF Cons.prems] fw by (simp add: fragments_def fragment_step_def)
qed (simp add: fragments_def)

text \<open>C7: A connection's memory is bounded whatever arrives: after any fragments in any order, whole, cut or
  lost, at most 8 MiB of requests and 16 MiB of responses are buffered, a connection on which no call was
  detected holds at most 4 KiB, a response followed past the limit keeps nothing buffered and at most 192
  KiB of its ends (or 16 MiB of one event line), and an HTTP/2 connection keeps its own invariant.\<close>

theorem processor_memory_bounded:
  "let sp = fragments lib reg fs (processor_new now)
   in length (sp_write_buf sp) \<le> 8 * 1024 * 1024 \<and> length (sp_read_buf sp) \<le> 16 * 1024 * 1024 \<and>
      (if sp_state sp = Detecting then length (sp_write_buf sp) \<le> 4096 else True) \<and>
      (case sp_past_limit sp of
         None \<Rightarrow> True
       | Some (Json_Ends e) \<Rightarrow> sp_read_buf sp = [] \<and> length (je_head e) + length (je_tail e) \<le> 192 * 1024
       | Some (Sse_Stream s) \<Rightarrow> sp_read_buf sp = [] \<and> partial_len (ss_events s) \<le> 16 * 1024 * 1024) \<and>
      (case sp_state sp of Http2 c \<Rightarrow> conn_ok c | _ \<Rightarrow> True)"
proof -
  define sp where "sp = fragments lib reg fs (processor_new now)"
  have "processor_ok sp" unfolding sp_def by (rule fragments_ok) (rule processor_ok_new)
  then show ?thesis
    by (auto simp: processor_ok_def held_ok_def past_kept_def past_ok_def state_ok_def HEAD_KEEP_def TAIL_KEEP_def
        MAX_REQUEST_BUFFER_SIZE_def MAX_RESPONSE_BUFFER_SIZE_def DETECTION_BUFFER_THRESHOLD_def
        simp flip: sp_def split: option.splits past_limit.splits processor_state.splits)
qed

end
