(* ===== verification/Exchange.thy ===== *)
theory Exchange
  imports Processor_Props
begin

text \<open>
  Exchanges of the stream processor: what a capture loss does, how often a call is recorded, a response
  read whole, and the polls of background calls.
\<close>

text \<open>Samples: a processor that waits for the response of a request, and a world nothing was exported to.\<close>

definition waiting :: processor where
  "waiting = (processor_new 3)\<lparr>sp_state := Processing_Request 2 Http11_Parser\<rparr>"

definition sample_world :: world where
  "sample_world = \<lparr>wd_background = [], wd_node = 0, wd_ledger = []\<rparr>"

section \<open>Lost bytes\<close>

lemma is_llm_cases:
  assumes "is_llm sp" and "case sp_state sp of Http2 _ \<Rightarrow> False | _ \<Rightarrow> True"
  obtains t p where "sp_state sp = Processing_Request t p \<or> sp_state sp = Processing_Response t p"
  using assms by (cases "sp_state sp") (auto simp: is_llm_def)

lemma fragment_http11:
  assumes "is_llm sp" and "case sp_state sp of Http2 _ \<Rightarrow> False | _ \<Rightarrow> True"
  shows "handle_fragment lib reg now pid direction bs offset len truncated (sp, w) =
     handle_http11 lib reg now pid direction bs offset (fragment_complete direction offset bs len) truncated (sp, w)"
  using assms by (auto simp: handle_fragment_def Let_def opens_http2_def is_llm_def split: processor_state.splits)

text \<open>A call in progress given up: one count, or none for a poll.\<close>

lemma drop_response_call:
  assumes "is_llm sp" and "case sp_state sp of Http2 _ \<Rightarrow> False | _ \<Rightarrow> True"
  shows "drop_response pid reason (sp, w) =
     (if sp_continuation sp = None
      then (Outcome_Unparsed reason, sp\<lparr>sp_state := Finished, sp_continuation := None\<rparr>,
            export (Call_Unparsed pid reason) w)
      else (Outcome_Pending, sp\<lparr>sp_state := Finished, sp_continuation := None\<rparr>, w))"
  using assms
  by (auto simp: drop_response_def Let_def release_conn_def count_unparsed_def split: processor_state.splits)

lemma read_finished:
  "sp_state sp = Finished \<Longrightarrow>
     handle_event lib reg now pid Read bs complete (sp, w) = (Outcome_Pending, sp\<lparr>sp_last_activity := now\<rparr>, w)"
  by (simp add: handle_event_def buffer_event_def buffer_read_def)



section \<open>A call is recorded once\<close>

definition is_record :: "ledger_entry \<Rightarrow> bool" where
  "is_record e = (case e of Call_Recorded _ _ _ \<Rightarrow> True | _ \<Rightarrow> False)"

definition records :: "world \<Rightarrow> nat" where
  "records w = length (filter is_record (wd_ledger w))"

lemma records_export [simp]:
  "records (export e w) = (if is_record e then Suc (records w) else records w)"
  by (simp add: records_def export_def)

lemma records_other [simp]:
  "records (w\<lparr>wd_background := b\<rparr>) = records w" "records (w\<lparr>wd_node := n\<rparr>) = records w"
  by (simp_all add: records_def)

lemma is_record_simps [simp]:
  "is_record (Call_Recorded u t pid)" "\<not> is_record (Call_Unparsed pid r)"
  "\<not> is_record Midjoin_Recorded" "\<not> is_record Direction_Resynced"
  by (simp_all add: is_record_def)

lemma records_give_up [simp]: "records (snd (give_up call w)) = records w"
  by (simp add: give_up_def count_unparsed_def)

lemma settle_create_records:
  "settle_create now usage bs t pid w = (out, w') \<Longrightarrow>
     records w' = (if usage = None then records w else Suc (records w)) \<and> (out = None \<longrightarrow> records w' = records w)"
  by (auto simp: settle_create_def defer_call_def Let_def case_prod_beta split: option.splits background_state.splits)

lemma record_poll_records: "records (snd (record_poll rid usage ended w)) \<le> Suc (records w)"
  "records w \<le> records (snd (record_poll rid usage ended w))"
  by (auto simp: record_poll_def Let_def case_prod_beta split: option.splits background_state.splits)

lemma settle_records:
  assumes "settle now usage bs t pid (sp, w) = (out, sp', w')"
  shows "records w \<le> records w'" "records w' \<le> Suc (records w)" "out = None \<Longrightarrow> records w' = records w"
proof -
  have "records w \<le> records w' \<and> records w' \<le> Suc (records w) \<and> (out = None \<longrightarrow> records w' = records w)"
  proof (cases "sp_continuation sp")
    case None
    then show ?thesis
      using assms settle_create_records [of now usage bs t pid w out w'] by (auto simp: settle_def split: prod.splits)
  next
    case (Some rid)
    then show ?thesis
      using assms record_poll_records [where rid = rid and usage = usage and w = w]
      by (auto simp: settle_def settle_poll_def Let_def case_prod_beta split: option.splits background_state.splits
          if_splits)
  qed
  then show "records w \<le> records w'" "records w' \<le> Suc (records w)" "out = None \<Longrightarrow> records w' = records w"
    by simp_all
qed

lemma handle_response_records:
  assumes "handle_response lib reg now pid complete t p (sp, w) = (out, sp', w')"
  shows "records w' = records w \<or> records w' = Suc (records w) \<and> sp_state sp' = Finished"
proof (cases complete)
  case True
  obtain usage bs sp1 where parse: "parse_progress lib reg p (sp\<lparr>sp_state := Finished\<rparr>) = (usage, bs, sp1)"
    by (rule prod_cases3)
  have "sp_state sp1 = Finished"
    using parse by (auto simp: parse_progress_def take_background_def split: option.splits parser.splits prod.splits)
  moreover obtain o1 sp2 w2 where settle: "settle now usage bs t pid (sp1, w) = (o1, sp2, w2)" by (rule prod_cases3)
  moreover have "sp_state sp2 = sp_state sp1" by (subst settle_keeps [OF settle]) simp
  ultimately show ?thesis
    using assms True parse settle_records [OF settle]
    by (auto simp: handle_response_def le_Suc_eq split: option.splits)
qed (use assms in \<open>auto simp: handle_response_def\<close>)

lemma drop_response_records:
  "drop_response pid reason (sp, w) = (out, sp', w') \<Longrightarrow>
     records w' = records w \<and> (sp_state sp' = sp_state sp \<or> sp_state sp' = Finished)"
  by (auto simp: drop_response_def Let_def count_unparsed_def release_conn_def
      split: if_splits processor_state.splits)

lemma resume_not_http2:
  assumes "case sp_state sp of Http2 _ \<Rightarrow> False | _ \<Rightarrow> True"
  shows "case sp_state (resume_next_request lib reg now b sp) of Http2 _ \<Rightarrow> False | _ \<Rightarrow> True"
proof (cases "sp_next_request sp")
  case (Some n)
  obtain at t where n: "n = (at, t)" by fastforce
  define sp1 where "sp1 = sp\<lparr>sp_next_request := None, sp_write_buf := drop at (sp_write_buf sp),
      sp_read_buf := [], sp_read_progress := response_progress_default\<rparr>"
  obtain st sp2 where d: "detect lib reg now b sp1 = (st, sp2)" by fastforce
  then have "resume_next_request lib reg now b sp =
      sp2\<lparr>sp_state := (case st of Processing_Request _ p \<Rightarrow> Processing_Request t p | _ \<Rightarrow> st)\<rparr>"
    by (simp add: resume_next_request_def Some n sp1_def)
  then show ?thesis using detect_facts(2) [OF d] by (cases st) simp_all
qed (use assms in \<open>simp add: resume_next_request_def\<close>)

lemma follow_request_records:
  assumes "follow_request lib reg now pid direction bs offset resumes (out, sp, w) = (out', sp', w')"
  shows "records w' = records w" and "\<not> resumes \<Longrightarrow> sp_state sp' = sp_state sp"
    and "case sp_state sp of Http2 _ \<Rightarrow> False | _ \<Rightarrow> True \<Longrightarrow> case sp_state sp' of Http2 _ \<Rightarrow> False | _ \<Rightarrow> True"
proof -
  show "records w' = records w" and "\<not> resumes \<Longrightarrow> sp_state sp' = sp_state sp"
    using assms
    by (auto simp: follow_request_def note_next_request_def count_unparsed_def Let_def split: if_splits prod.splits)
  show "case sp_state sp of Http2 _ \<Rightarrow> False | _ \<Rightarrow> True \<Longrightarrow> case sp_state sp' of Http2 _ \<Rightarrow> False | _ \<Rightarrow> True"
    using assms resume_not_http2
    by (auto simp: follow_request_def note_next_request_def count_unparsed_def Let_def split: if_splits prod.splits)
qed

lemma handle_event_records:
  assumes "handle_event lib reg now pid direction bs complete (sp, w) = (out, sp', w')"
    and "case sp_state sp of Http2 _ \<Rightarrow> False | _ \<Rightarrow> True"
  shows "records w' = records w \<or> records w' = Suc (records w) \<and> sp_state sp' = Finished \<and> is_llm sp"
proof -
  define sp0 where "sp0 = sp\<lparr>sp_last_activity := now\<rparr>"
  obtain r sp1 where buffered: "buffer_event lib reg direction bs sp0 = (r, sp1)" by fastforce
  note event = assms(1) [unfolded handle_event_def Let_def prod.case sp0_def [symmetric] buffered]
  have st: "sp_state sp1 = sp_state sp \<or> sp_state sp1 = Detecting"
    using buffered
    by (auto simp: buffer_event_def buffer_write_def buffer_read_def sp0_def Let_def reset_def
        split: llm_direction.splits processor_state.splits option.splits if_splits prod.splits)
  show ?thesis
  proof (cases r)
    case (Inl reason)
    then show ?thesis using event by (auto dest: drop_response_records split: prod.splits)
  next
    case (Inr b)
    show ?thesis
    proof (cases b)
      case False
      then show ?thesis using event Inr by simp
    next
      case True
      then show ?thesis
        using event Inr st assms(2) handle_response_records [of lib reg now pid complete _ _ sp1 w out sp' w']
        by (cases "sp_state sp1"; cases "sp_state sp") (auto simp: is_llm_def split: prod.splits if_splits)
    qed
  qed
qed

text \<open>An HTTP/1.1 call is recorded at most once: a fragment records at most one call, only on a connection
  that had a call in progress, and the connection is then finished, so the next record needs another
  request to be detected.\<close>

lemma call_is_recorded_once:
  assumes "case sp_state sp of Http2 _ \<Rightarrow> False | _ \<Rightarrow> True"
  shows "case handle_http11 lib reg now pid direction bs offset complete truncated (sp, w) of (out, sp', w') \<Rightarrow>
     records w' = records w \<or> records w' = Suc (records w) \<and> is_llm sp \<and> sp_state sp' = Finished"
proof -
  define sp0 where "sp0 = sp\<lparr>sp_frag_next := (if complete then 0 else fragment_end offset bs), sp_frag_dir := direction\<rparr>"
  define gap where "gap = fragment_gap direction offset truncated sp"
  define resumes where "resumes = (offset = 0 \<and> \<not> gap \<and> lost_http11_tail lib direction bs sp0)"
  obtain d1 sp1 w1 where
    1: "drop_lost pid (drop_reason lib direction bs offset gap resumes sp0) (sp0, w) = (d1, sp1, w1)"
    by (rule prod_cases3)
  have step1: "records w1 = records w" "sp_state sp1 = sp_state sp \<or> sp_state sp1 = Finished"
    using 1 drop_response_records [of pid _ sp0 w d1 sp1 w1] by (auto simp: drop_lost_def sp0_def split: option.splits)
  obtain d2 sp2 w2 where
    2: "follow_request lib reg now pid direction bs offset resumes (d1, sp1, w1) = (d2, sp2, w2)"
    by (rule prod_cases3)
  obtain fed sp3 w3 where
    3: "handle_event lib reg now pid direction bs complete (sp2, w2) = (fed, sp3, w3)"
    by (rule prod_cases3)
  note follow = follow_request_records [OF 2]
  have "case sp_state sp1 of Http2 _ \<Rightarrow> False | _ \<Rightarrow> True" using step1(2) assms by auto
  then have state2: "case sp_state sp2 of Http2 _ \<Rightarrow> False | _ \<Rightarrow> True" by (rule follow(3))
  have "is_llm sp" if "resumes"
    using that by (auto simp: resumes_def lost_http11_tail_def mid_http11_response_def sp0_def is_llm_def
        split: processor_state.splits)
  moreover have "is_llm sp" if "is_llm sp2" "\<not> resumes"
    using that step1(2) follow(2) by (auto simp: is_llm_def split: processor_state.splits)
  ultimately show ?thesis
    using handle_event_records [OF 3 state2] follow(1) step1(1)
    unfolding handle_http11_def Let_def prod.case sp0_def [symmetric] gap_def [symmetric] resumes_def [symmetric] 1 2 3
    by auto
qed

theorem call_is_recorded_once_witness:
  "case handle_http11 sample_libs [] 5 9 Read [] 0 True False (waiting, sample_world) of (out, sp', w') \<Rightarrow>
     records w' \<le> 1"
  using call_is_recorded_once [where sp = waiting and lib = sample_libs and reg = "[]" and now = 5 and pid = 9
    and direction = Read and bs = "[]" and offset = 0 and complete = True and truncated = False and w = sample_world]
  by (auto simp: waiting_def processor_new_def sample_world_def records_def)

end
