(* ===== verification/Exchange_Whole.thy ===== *)
theory Exchange_Whole
  imports Exchange
begin

text \<open>
  An HTTP/1.1 exchange read whole: the processor, fed the Reads of one response, is the specification that
  parses each prefix of the response afresh and settles the call at the first one that allows it.
\<close>

section \<open>Parsing resumed and afresh\<close>

lemma feed_progress_background: "rp_background (feed_progress lib h rp) = rp_background rp"
  by (simp add: feed_progress_def Let_def case_prod_beta)

lemma read_response_background:
  assumes "rp_sse rp = rp_sse rp'" "rp_events rp = rp_events rp'"
    "dc_stopped (rp_chunks rp) = dc_stopped (rp_chunks rp')" "rp_background rp = rp_background rp'"
  shows "rp_background (snd (read_response lib reg h rp)) = rp_background (snd (read_response lib reg h rp'))"
proof -
  have "body_ended f (rp_chunks rp) b = body_ended f (rp_chunks rp') b" for f b
    using assms(3) by (cases f) (simp_all add: body_ended_def)
  then show ?thesis
    by (simp add: read_response_def Let_def case_prod_beta stream_end_def assms(1,2,4) split: option.split)
qed

lemma parse_background_same:
  assumes "heads_stable lib" and "progress_inv lib buf rp" and "rp_background rp = None"
  shows "rp_background (snd (parse_response_from lib reg (buf @ x) rp)) =
     rp_background (snd (parse_response_from lib reg (buf @ x) response_progress_default))"
proof (cases "final_head lib (buf @ x)")
  case None
  then show ?thesis using assms(3) by (simp add: parse_response_from_def response_progress_default_def)
next
  case (Some h)
  have start: "progress_inv lib [] response_progress_default" by (rule progress_inv_start [OF assms(1)])
  have a: "progress_inv lib (buf @ x) (feed_progress lib h rp)"
    "dc_stopped (rp_chunks (feed_progress lib h rp)) =
      (if hd_framing h = Chunked then stop_state (fst (walk BASIC Size (hd_body h))) else True)"
    using feed_progress_inv [OF assms(1,2) Some] by simp_all
  have b: "progress_inv lib (buf @ x) (feed_progress lib h response_progress_default)"
    "dc_stopped (rp_chunks (feed_progress lib h response_progress_default)) =
      (if hd_framing h = Chunked then stop_state (fst (walk BASIC Size (hd_body h))) else True)"
    using feed_progress_inv [OF assms(1) start, of "buf @ x" h] Some by simp_all
  from a(1) b(1) Some have "rp_sse (feed_progress lib h rp) = rp_sse (feed_progress lib h response_progress_default)"
    "rp_events (feed_progress lib h rp) = rp_events (feed_progress lib h response_progress_default)"
    by (simp_all add: progress_inv_def)
  then show ?thesis
    unfolding parse_response_from_def Some option.case
    by (rule read_response_background)
       (simp_all only: a(2) b(2) feed_progress_background assms(3), simp add: response_progress_default_def)
qed

section \<open>The specification\<close>

definition settles :: "usage_info option \<Rightarrow> background_state option \<Rightarrow> bool" where
  "settles usage bs \<longleftrightarrow> usage \<noteq> None \<or> (case bs of Some (Running _) \<Rightarrow> True | _ \<Rightarrow> False)"

text \<open>The time, usage and background state at which the first prefix settles the call, if one does.\<close>

fun exchange ::
  "libs \<Rightarrow> registry \<Rightarrow> bytes \<Rightarrow> (nat \<times> bytes) list \<Rightarrow>
     (nat \<times> usage_info option \<times> background_state option) option" where
  "exchange lib reg seen [] = None"
| "exchange lib reg seen ((now, r) # reads) =
     (let (usage, rp) = parse_response_from lib reg (seen @ r) response_progress_default in
      if settles usage (rp_background rp) then Some (now, usage, rp_background rp)
      else exchange lib reg (seen @ r) reads)"

text \<open>Whole SSL reads, each one fragment.\<close>

definition read_call :: "libs \<Rightarrow> registry \<Rightarrow> nat \<Rightarrow> u32 \<Rightarrow> bytes \<Rightarrow> processor \<times> world \<Rightarrow> processor \<times> world" where
  "read_call lib reg now pid bs pw = snd (handle_fragment lib reg now pid Read bs 0 (of_nat (length bs)) False pw)"

definition awaits :: "libs \<Rightarrow> nat \<Rightarrow> bytes \<Rightarrow> processor \<Rightarrow> bool" where
  "awaits lib t seen sp \<longleftrightarrow>
     (sp_state sp = Processing_Response t Http11_Parser \<or> sp_state sp = Processing_Request t Http11_Parser \<and> seen = []) \<and>
     sp_continuation sp = None \<and> sp_next_request sp = None \<and> sp_past_limit sp = None \<and> sp_frag_next sp = 0 \<and>
     sp_read_buf sp = seen \<and> progress_inv lib seen (sp_read_progress sp) \<and>
     rp_background (sp_read_progress sp) = None"

definition opens_status :: "bytes \<Rightarrow> bool" where
  "opens_status bs \<longleftrightarrow> starts_with STATUS (take (length STATUS) (skip_empty_lines bs))"

lemma whole_read_complete: "length bs < 2 ^ 32 \<Longrightarrow> fragment_complete Read 0 bs (of_nat (length bs))"
  by (simp add: fragment_complete_def fragment_end_def Let_def unat_of_nat)

lemma take_min_length: "take (min (length xs) n) xs = take n xs"
  by (simp add: min_def)

text \<open>One Read of a call in progress: only the parse of the grown response matters.\<close>

lemma read_call_awaits:
  assumes a: "awaits lib t seen sp" and "length r < 2 ^ 32" and "seen = [] \<Longrightarrow> opens_status r"
    and "length seen + length r \<le> MAX_RESPONSE_BUFFER_SIZE"
    and parse: "parse_response_from lib reg (seen @ r) (sp_read_progress sp) = (usage, rp)"
    and create: "settle_create now usage (rp_background rp) t pid w = (out, w1)"
  obtains sp' where "read_call lib reg now pid r (sp, w) = (sp', w1)"
    and "out \<noteq> None \<Longrightarrow> sp_state sp' = Finished"
    and "out = None \<Longrightarrow> sp_state sp' = Processing_Response t Http11_Parser \<and> sp_continuation sp' = None \<and>
      sp_next_request sp' = None \<and> sp_past_limit sp' = None \<and> sp_frag_next sp' = 0 \<and>
      sp_read_buf sp' = seen @ r \<and> sp_read_progress sp' = snd (take_background rp)"
proof -
  define sp0 where "sp0 = sp\<lparr>sp_frag_next := 0, sp_frag_dir := Read\<rparr>"
  define sp1 where "sp1 = sp0\<lparr>sp_last_activity := now, sp_read_buf := seen @ r\<rparr>"
  have llm: "is_llm sp" "case sp_state sp of Http2 _ \<Rightarrow> False | _ \<Rightarrow> True"
    using a by (auto simp: awaits_def is_llm_def)
  have "\<not> fragment_gap Read 0 False sp" using a by (simp add: fragment_gap_def awaits_def)
  moreover have "\<not> lost_http11_tail lib Read r sp0" using a by (simp add: lost_http11_tail_def sp0_def awaits_def)
  moreover have "drop_reason lib Read r 0 False False sp0 = None"
    using a assms(3)
    by (auto simp: drop_reason_def lost_http11_head_def sp0_def awaits_def opens_status_def Let_def take_min_length
        simp del: take_take)
  ultimately have step: "handle_fragment lib reg now pid Read r 0 (of_nat (length r)) False (sp, w) =
      (let (fed, sp, w) = handle_event lib reg now pid Read r True (sp0, w) in (fed, sp, w))"
    unfolding fragment_http11 [OF llm] using a whole_read_complete [OF assms(2)]
    by (simp add: handle_http11_def sp0_def [symmetric] drop_lost_def follow_request_def awaits_def)
  have buffered: "buffer_event lib reg Read r (sp0\<lparr>sp_last_activity := now\<rparr>) = (Inr True, sp1)"
    using a assms(4)
    by (auto simp: buffer_event_def buffer_read_def sp0_def sp1_def awaits_def Let_def)
  have event: "handle_event lib reg now pid Read r True (sp0, w) =
      handle_response lib reg now pid True t Http11_Parser (sp1, w)"
    using a buffered by (auto simp: handle_event_def sp1_def sp0_def awaits_def)
  define sp2 where "sp2 = sp1\<lparr>sp_state := Finished, sp_read_progress := snd (take_background rp)\<rparr>"
  have progress: "parse_progress lib reg Http11_Parser (sp1\<lparr>sp_state := Finished\<rparr>) = (usage, rp_background rp, sp2)"
    using a parse by (simp add: parse_progress_def sp2_def sp1_def sp0_def awaits_def take_background_def)
  have "settle now usage (rp_background rp) t pid (sp2, w) = (out, sp2, w1)"
    using a create by (simp add: settle_def sp2_def sp1_def sp0_def awaits_def)
  then have response: "handle_response lib reg now pid True t Http11_Parser (sp1, w) =
      (case out of Some out \<Rightarrow> (out, sp2, w1)
       | None \<Rightarrow> (Outcome_Pending, sp2\<lparr>sp_state := Processing_Response t Http11_Parser\<rparr>, w1))"
    using progress by (simp add: handle_response_def)
  show ?thesis
  proof (cases out)
    case None
    show ?thesis
      by (rule that [of "sp2\<lparr>sp_state := Processing_Response t Http11_Parser\<rparr>"])
        (use None step event response a in \<open>auto simp: read_call_def sp2_def sp1_def sp0_def awaits_def\<close>)
  next
    case (Some out')
    show ?thesis
      by (rule that [of sp2]) (use Some step event response in \<open>auto simp: read_call_def sp2_def\<close>)
  qed
qed

lemma settle_create_None: "\<not> settles usage bs \<Longrightarrow> settle_create now usage bs t pid w = (None, w)"
  by (auto simp: settles_def settle_create_def split: option.splits background_state.splits)

lemma settle_create_Some: "settles usage bs \<Longrightarrow> fst (settle_create now usage bs t pid w) \<noteq> None"
  by (auto simp: settles_def settle_create_def Let_def case_prod_beta split: option.splits background_state.splits)

lemma read_call_finished:
  assumes "sp_state sp = Finished"
  shows "snd (read_call lib reg now pid r (sp, w)) = w \<and> sp_state (fst (read_call lib reg now pid r (sp, w))) = Finished"
proof -
  have "\<not> is_llm sp" using assms by (simp add: is_llm_def)
  then show ?thesis
    using assms
    by (auto simp: read_call_def handle_fragment_def opens_http2_def handle_http11_def Let_def drop_lost_def
        drop_response_def follow_request_def lost_http11_tail_def mid_http11_response_def is_llm_def read_finished
        split: option.splits prod.splits)
qed

definition read_calls ::
  "libs \<Rightarrow> registry \<Rightarrow> u32 \<Rightarrow> (nat \<times> bytes) list \<Rightarrow> processor \<times> world \<Rightarrow> processor \<times> world" where
  "read_calls lib reg pid reads pw = fold (\<lambda>(now, r). read_call lib reg now pid r) reads pw"

lemma read_calls_finished:
  "sp_state sp = Finished \<Longrightarrow>
     snd (read_calls lib reg pid reads (sp, w)) = w \<and> sp_state (fst (read_calls lib reg pid reads (sp, w))) = Finished"
proof (induction reads arbitrary: sp)
  case (Cons nr reads)
  obtain now r where nr: "nr = (now, r)" by fastforce
  obtain sp1 where "read_call lib reg now pid r (sp, w) = (sp1, w)" "sp_state sp1 = Finished"
    using read_call_finished [OF Cons.prems, of lib reg now pid r w] by (metis prod.collapse)
  then show ?case using Cons.IH [of sp1] by (simp add: read_calls_def nr)
qed (simp add: read_calls_def)

lemma exchange_run:
  assumes "heads_stable lib" and "awaits lib t seen sp"
    and "list_all (\<lambda>(_, r). length r < 2 ^ 32) reads"
    and "seen = [] \<Longrightarrow> case reads of [] \<Rightarrow> True | (_, r) # _ \<Rightarrow> opens_status r \<and> r \<noteq> []"
    and "length seen + length (concat (map snd reads)) \<le> MAX_RESPONSE_BUFFER_SIZE"
  shows "case exchange lib reg seen reads of
      None \<Rightarrow> snd (read_calls lib reg pid reads (sp, w)) = w
    | Some (now, usage, bs) \<Rightarrow>
        snd (read_calls lib reg pid reads (sp, w)) = snd (settle_create now usage bs t pid w) \<and>
        sp_state (fst (read_calls lib reg pid reads (sp, w))) = Finished"
  using assms(2-)
proof (induction reads arbitrary: seen sp)
  case Nil
  then show ?case by (simp add: read_calls_def)
next
  case (Cons nr reads)
  obtain now r where nr: "nr = (now, r)" by fastforce
  have inv: "progress_inv lib seen (sp_read_progress sp)" "rp_background (sp_read_progress sp) = None"
    using Cons.prems(1) by (simp_all add: awaits_def)
  obtain usage rp where parse: "parse_response_from lib reg (seen @ r) (sp_read_progress sp) = (usage, rp)" by fastforce
  obtain usage' rp' where fresh: "parse_response_from lib reg (seen @ r) response_progress_default = (usage', rp')"
    by fastforce
  have same: "usage' = usage" "rp_background rp' = rp_background rp"
    using parse_usage_same [OF assms(1) inv(1) progress_inv_start [OF assms(1)], of r "seen @ r" reg]
      parse_background_same [OF assms(1) inv, of reg r] parse fresh by simp_all
  obtain out w1 where create: "settle_create now usage (rp_background rp) t pid w = (out, w1)" by fastforce
  obtain sp1 where step: "read_call lib reg now pid r (sp, w) = (sp1, w1)"
    and Some': "out \<noteq> None \<Longrightarrow> sp_state sp1 = Finished"
    and None': "out = None \<Longrightarrow> sp_state sp1 = Processing_Response t Http11_Parser \<and> sp_continuation sp1 = None \<and>
      sp_next_request sp1 = None \<and> sp_past_limit sp1 = None \<and> sp_frag_next sp1 = 0 \<and>
      sp_read_buf sp1 = seen @ r \<and> sp_read_progress sp1 = snd (take_background rp)"
    by (rule read_call_awaits [OF Cons.prems(1) _ _ _ parse create]) (use Cons.prems(2-4) nr in auto)
  have run: "read_calls lib reg pid ((now, r) # reads) (sp, w) = read_calls lib reg pid reads (sp1, w1)"
    by (simp add: read_calls_def step)
  show ?case
  proof (cases "settles usage (rp_background rp)")
    case True
    then have "sp_state sp1 = Finished" using Some' settle_create_Some [OF True, of now t pid w] create by simp
    then show ?thesis
      unfolding nr using read_calls_finished [of sp1 lib reg pid reads w1] True fresh same create run by simp
  next
    case False
    then have "out = None" "w1 = w" using settle_create_None [OF False, of now t pid w] create by simp_all
    have "progress_inv lib (seen @ r) (snd (take_background rp))"
      using parse_step_inv [OF assms(1) inv(1), of r reg] parse by simp
    then have a: "awaits lib t (seen @ r) sp1"
      using None' \<open>out = None\<close> by (auto simp: awaits_def take_background_def)
    have "seen @ r \<noteq> []" using Cons.prems(3) nr by auto
    then have b: "seen @ r = [] \<Longrightarrow> case reads of [] \<Rightarrow> True | (_, r) # _ \<Rightarrow> opens_status r \<and> r \<noteq> []" by simp
    have "list_all (\<lambda>(_, r). length r < 2 ^ 32) reads"
      "length (seen @ r) + length (concat (map snd reads)) \<le> MAX_RESPONSE_BUFFER_SIZE"
      using Cons.prems(2,4) nr by simp_all
    from Cons.IH [OF a this(1) b this(2)] show ?thesis
      unfolding nr run \<open>w1 = w\<close> using False fresh same by simp
  qed
qed

text \<open>C3: An HTTP/1.1 exchange read whole is recorded, with the usage of the whole response: fed the Reads of
  one response however the server cut it, the processor exports nothing until the first prefix whose parse
  from scratch gives usage, then records exactly that usage under the request's start and process and is
  finished, whatever Reads follow; a call queued in background mode is deferred there instead.\<close>

theorem exchange_is_recorded:
  assumes "heads_stable lib" and "awaits lib t [] sp"
    and "list_all (\<lambda>(_, r). length r < 2 ^ 32 \<and> r \<noteq> []) reads" and "opens_status (snd (hd reads))"
    and "length (concat (map snd reads)) \<le> MAX_RESPONSE_BUFFER_SIZE" and "reads \<noteq> []"
  shows "case exchange lib reg [] reads of
      None \<Rightarrow> snd (read_calls lib reg pid reads (sp, w)) = w
    | Some (now, Some usage, _) \<Rightarrow>
        snd (read_calls lib reg pid reads (sp, w)) = export (Call_Recorded usage t pid) w \<and>
        sp_state (fst (read_calls lib reg pid reads (sp, w))) = Finished
    | Some (now, None, bs) \<Rightarrow>
        snd (read_calls lib reg pid reads (sp, w)) = snd (settle_create now None bs t pid w)"
proof -
  have "case reads of [] \<Rightarrow> True | (_, r) # _ \<Rightarrow> opens_status r \<and> r \<noteq> []"
    using assms(3,4,6) by (cases reads) auto
  moreover have "list_all (\<lambda>(_, r). length r < 2 ^ 32) reads" using assms(3) by (auto simp: list_all_iff)
  ultimately show ?thesis
    using exchange_run [OF assms(1,2), of reads reg pid w] assms(5)
    by (auto simp: settle_create_def split: option.splits)
qed

text \<open>A parser that takes any nonempty buffer for a whole head with an empty list of headers and a serde that
  reads any object as an error: the first Read that ends in a brace is a response with an error body.\<close>

definition plain_libs :: libs where
  "plain_libs =
     sample_libs\<lparr>httparse_response :=
        (\<lambda>buf. \<lparr>rs_status = (if length buf < 7 then Parse_Partial else Parse_Complete 7), rs_code = Some 500,
           rs_headers = []\<rparr>),
      libs_serde := (libs_serde sample_libs)\<lparr>from_str := (\<lambda>_. Some (Object [(''error'', Bool True)]))\<rparr>\<rparr>"

lemma plain_libs_stable: "heads_stable plain_libs"
  by (auto simp: heads_stable_def plain_libs_def split: if_splits)

definition sample_reads :: "(nat \<times> bytes) list" where
  "sample_reads = [(5, as_bytes ''HTTP/1.''), (6, as_bytes ''{''), (7, as_bytes ''}'')]"

lemma plain_head: "length buf \<ge> 7 \<Longrightarrow> final_head plain_libs buf =
   Some \<lparr>hd_headers = [], hd_body = drop 7 buf, hd_framing = UntilClose, hd_is_sse = False, hd_is_eventstream = False\<rparr>"
  by (subst final_head.simps)
     (simp add: plain_libs_def Let_def header_contains_def content_length_def find_header_def)

lemma plain_parse:
  assumes "length buf \<ge> 7" and "drop 7 buf = body"
  shows "parse_response_from plain_libs [] buf response_progress_default =
    (let rp = feed_progress plain_libs
       \<lparr>hd_headers = [], hd_body = body, hd_framing = UntilClose, hd_is_sse = False, hd_is_eventstream = False\<rparr>
       response_progress_default;
       (usage, bg) = parse_json_body plain_libs [] body None
     in (usage, rp\<lparr>rp_background := bg\<rparr>))"
  using assms plain_head [OF assms(1)]
  by (simp add: parse_response_from_def read_response_def Let_def is_encoded_def codings_def decode_def
      MAX_CODINGS_def body_ended_def feed_progress_background response_progress_default_def case_prod_beta)

theorem exchange_is_recorded_witness:
  "snd (read_calls plain_libs [] 9 sample_reads (waiting, sample_world)) =
     export (Call_Recorded usage_default 2 9) sample_world"
proof -
  have json: "parse_json_body plain_libs [] [] None = (None, None)" "parse_json_body plain_libs [] [0x7B] None = (None, None)"
    "parse_json_body plain_libs [] [0x7B, 0x7D] None = (Some usage_default, None)"
    by code_simp+
  have "exchange plain_libs [] [] sample_reads = Some (7, Some usage_default, None)"
    using json by (simp add: sample_reads_def as_bytes_def plain_parse settles_def Let_def)
  moreover have "awaits plain_libs 2 [] waiting"
    using progress_inv_start [OF plain_libs_stable]
    by (simp add: awaits_def waiting_def processor_new_def response_progress_default_def)
  moreover have "opens_status (snd (hd sample_reads))"
    by (simp add: opens_status_def sample_reads_def STATUS_def as_bytes_def skip_empty_lines_def starts_with_def)
  ultimately show ?thesis
    using exchange_is_recorded [OF plain_libs_stable, of 2 waiting sample_reads "[]" 9 sample_world]
    by (simp add: sample_reads_def as_bytes_def MAX_RESPONSE_BUFFER_SIZE_def)
qed

end
