(* ===== verification/Agent.thy ===== *)
theory Agent
  imports Processor Ssl_Class
begin

text \<open>
  The agent around the processors (llm/mod.rs and conn_filter.rs): ring buffer events routed to the stream of
  their connection, the host half of the kernel filter, the periodic cleanup, and the bookkeeping of files
  to probe. One handler runs at a time, as under the agent's locks; the kernel's class map is shared.
\<close>

section \<open>Streams\<close>

type_synonym stream_key = "u32 \<times> u64"

record agent =
  ag_streams :: "(stream_key \<times> processor) list"
  ag_world :: world
  ag_class :: "u64 \<times> u64 \<rightharpoonup> u64"

definition CONNECTION_RETENTION_SECS :: nat where
  "CONNECTION_RETENTION_SECS = 300"

definition stream_key :: "event_header \<Rightarrow> stream_key" where
  "stream_key h = (m_pid (h_metadata h), h_ssl h)"

text \<open>Feed one ring buffer event to its connection's stream, or end the stream on SSL_free.\<close>

definition route_event ::
  "libs \<Rightarrow> registry \<Rightarrow> nat \<Rightarrow> event_header \<Rightarrow> bytes \<Rightarrow> agent \<Rightarrow> outcome \<times> agent" where
  "route_event lib reg now h bs ag =
     (let key = stream_key h; pid = m_pid (h_metadata h) in
      if h_closed h \<noteq> 0
      then
        (case map_of (ag_streams ag) key of
           None \<Rightarrow> (Outcome_Pending, ag)
         | Some sp \<Rightarrow>
             (let ag = ag\<lparr>ag_streams := remove_key key (ag_streams ag)\<rparr> in
              if is_llm sp
              then (let (out, sp, w) = close_processor pid (sp, ag_world ag)
                    in (out, ag\<lparr>ag_world := processor_drop sp w\<rparr>))
              else (Outcome_Pending, ag\<lparr>ag_world := processor_drop sp (ag_world ag)\<rparr>)))
      else if bs = [] then (Outcome_Pending, ag)
      else
        (let sp = (case map_of (ag_streams ag) key of None \<Rightarrow> processor_new now | Some sp \<Rightarrow> sp);
             (out, sp, w) = handle_fragment lib reg now pid (dir_from (h_rw h)) bs (h_offset h) (h_len h)
               (h_truncated h \<noteq> 0) (sp, ag_world ag)
         in (out, ag\<lparr>ag_streams := put_key key sp (ag_streams ag), ag_world := w\<rparr>)))"

section \<open>The host half of the kernel filter\<close>

definition opens_foreign_request :: "libs \<Rightarrow> registry \<Rightarrow> event_header \<Rightarrow> bytes \<Rightarrow> bool" where
  "opens_foreign_request lib reg h bs \<longleftrightarrow>
     dir_from (h_rw h) = Write \<and> h_offset h = 0 \<and> has_foreign_host lib reg bs"

text \<open>\<open>BPF_EXIST\<close>: an entry that is gone is not brought back.\<close>

definition host_skip_connection :: "event_header \<Rightarrow> agent \<Rightarrow> agent" where
  "host_skip_connection h ag =
     (let key = (ucast (m_pid (h_metadata h)), h_ssl h) in
      case Option.bind (ag_class ag key) (\<lambda>e. skip_connection e (m_timestamp (h_metadata h))) of
        None \<Rightarrow> ag
      | Some e \<Rightarrow> ag\<lparr>ag_class := (ag_class ag)(key \<mapsto> e)\<rparr>)"

definition skip_if_foreign :: "libs \<Rightarrow> registry \<Rightarrow> event_header \<Rightarrow> bytes \<Rightarrow> agent \<Rightarrow> bool \<times> agent" where
  "skip_if_foreign lib reg h bs ag =
     (if \<not> opens_foreign_request lib reg h bs then (False, ag)
      else case map_of (ag_streams ag) (stream_key h) of
        Some sp \<Rightarrow>
          (if is_llm sp then (False, ag)
           else (True, host_skip_connection h
             (ag\<lparr>ag_streams := remove_key (stream_key h) (ag_streams ag),
                 ag_world := processor_drop sp (ag_world ag)\<rparr>)))
      | None \<Rightarrow> (True, host_skip_connection h ag))"

text \<open>The handler of the SSL ring; plaintext records are routed without the filter.\<close>

definition on_ssl_event :: "libs \<Rightarrow> registry \<Rightarrow> nat \<Rightarrow> event_header \<Rightarrow> bytes \<Rightarrow> agent \<Rightarrow> agent" where
  "on_ssl_event lib reg now h bs ag =
     (if h_handshake h = 1 then ag
      else (let (skipped, ag) = skip_if_foreign lib reg h bs ag
            in if skipped then ag else snd (route_event lib reg now h bs ag)))"

section \<open>Cleanup\<close>

definition kept_stream :: "nat \<Rightarrow> processor \<Rightarrow> bool" where
  "kept_stream now sp \<longleftrightarrow> (now - sp_last_activity sp) div 1000000000 < CONNECTION_RETENTION_SECS"

definition cleanup :: "nat \<Rightarrow> agent \<Rightarrow> agent" where
  "cleanup now ag =
     (let gone = filter (\<lambda>(_, sp). \<not> kept_stream now sp) (ag_streams ag);
          w = fold (\<lambda>(_, sp) w. processor_drop sp w) gone (ag_world ag);
          (expired, calls) = calls_expire now (wd_background w);
          w = fold (\<lambda>call w. snd (give_up call w)) expired (w\<lparr>wd_background := calls\<rparr>)
      in ag\<lparr>ag_streams := filter (\<lambda>(_, sp). kept_stream now sp) (ag_streams ag), ag_world := w\<rparr>)"

section \<open>Files to probe\<close>

text \<open>
  A file's identity and whether its path still exists are the host's answers of one round, \<open>identity\<close> and
  \<open>exists\<close>; what attaching a path gives is \<open>attach\<close>.
\<close>

record ('f, 'r) file_round =
  file_identity :: "str \<Rightarrow> 'f option"
  path_exists :: "str \<Rightarrow> bool"
  attach_path :: "str \<Rightarrow> 'r option"

text \<open>Host paths before those under \<open>/proc\<close>, otherwise in the order given (a stable sort by a flag).\<close>

definition host_paths_first :: "str list \<Rightarrow> str list" where
  "host_paths_first paths =
     filter (\<lambda>p. \<not> starts_with p ''/proc/'') paths @ filter (\<lambda>p. starts_with p ''/proc/'') paths"

fun new_files :: "(str \<Rightarrow> 'f option) \<Rightarrow> str list \<Rightarrow> 'f set \<Rightarrow> (str \<times> 'f) list \<Rightarrow> (str \<times> 'f) list" where
  "new_files identify [] known out = out"
| "new_files identify (path # paths) known out =
     (case identify path of
        None \<Rightarrow> new_files identify paths known out
      | Some f \<Rightarrow>
          new_files identify paths known
            (if f \<notin> known \<and> f \<notin> snd ` set out then out @ [(path, f)] else out))"

definition unique_new_files :: "(str \<Rightarrow> 'f option) \<Rightarrow> str list \<Rightarrow> 'f set \<Rightarrow> (str \<times> 'f) list" where
  "unique_new_files identify paths known = new_files identify (host_paths_first paths) known []"

text \<open>One round over its candidates: what was recorded, and whether a path vanished.\<close>

fun attach_round ::
  "('f, 'r) file_round \<Rightarrow> (str \<times> 'f) list \<Rightarrow> 'f set \<times> (str \<times> 'f \<times> 'r option) list \<times> bool \<Rightarrow>
     'f set \<times> (str \<times> 'f \<times> 'r option) list \<times> bool" where
  "attach_round r [] acc = acc"
| "attach_round r ((path, f) # files) (known, out, vanished) =
     (if attach_path r path = None \<and> \<not> path_exists r path then attach_round r files (known, out, True)
      else attach_round r files (insert f known, out @ [(path, f, attach_path r path)], vanished))"

fun attach_new_files ::
  "('f, 'r) file_round list \<Rightarrow> str list \<Rightarrow> 'f set \<Rightarrow> (str \<times> 'f \<times> 'r option) list \<Rightarrow>
     'f set \<times> (str \<times> 'f \<times> 'r option) list" where
  "attach_new_files [] paths known out = (known, out)"
| "attach_new_files (r # rounds) paths known out =
     (let (known, out, vanished) =
        attach_round r (unique_new_files (file_identity r) paths known) (known, out, False)
      in if vanished then attach_new_files rounds paths known out else (known, out))"

definition ATTACH_ROUNDS :: nat where
  "ATTACH_ROUNDS = 3"

text \<open>Files already tried are known; the answers of at most \<open>ATTACH_ROUNDS\<close> rounds count.\<close>

definition attach_files ::
  "('f, 'r) file_round list \<Rightarrow> str list \<Rightarrow> 'f set \<Rightarrow> 'f set \<times> (str \<times> 'f \<times> 'r option) list" where
  "attach_files rounds paths known = attach_new_files (take ATTACH_ROUNDS rounds) paths known []"

end
