(* ===== verification/Call_Accounting.thy ===== *)
theory Call_Accounting
  imports Exchange "HOL-Library.Sublist"
begin

text \<open>
  Accounting of calls across the processors: what is exported is never taken back, the background calls stay
  within their bound, an HTTP/1.1 call in progress never vanishes, and the polls of a background call record
  it once.
\<close>

section \<open>The shared world only grows\<close>

definition grows :: "world \<Rightarrow> world \<Rightarrow> bool" where
  "grows w w' \<longleftrightarrow> prefix (wd_ledger w) (wd_ledger w') \<and> (calls_ok (wd_background w) \<longrightarrow> calls_ok (wd_background w'))"

lemma grows_refl [simp, intro]: "grows w w"
  by (simp add: grows_def)

lemma grows_trans [trans]: "grows w w' \<Longrightarrow> grows w' w'' \<Longrightarrow> grows w w''"
  by (auto simp: grows_def)

lemma grows_export [simp]: "grows w (export e w)"
  by (simp add: grows_def export_def)

lemma grows_exports: "grows w w' \<Longrightarrow> grows w (export e w')"
  by (erule grows_trans) simp

lemma grows_node [simp]: "grows w (w\<lparr>wd_node := n\<rparr>)" "grows w (release_conn st w)"
  by (auto simp: grows_def release_conn_def split: processor_state.splits)

lemma grows_background: "(calls_ok (wd_background w) \<Longrightarrow> calls_ok calls) \<Longrightarrow> grows w (w\<lparr>wd_background := calls\<rparr>)"
  by (simp add: grows_def)

lemma grows_length: "grows w w' \<Longrightarrow> length (wd_ledger w) \<le> length (wd_ledger w')"
  by (auto simp: grows_def dest: prefix_length_le)

lemma grows_count: "count_unparsed pid reason w = (out, w') \<Longrightarrow> grows w w'"
  by (auto simp: count_unparsed_def)

lemma calls_ok_step:
  "calls_ok calls \<Longrightarrow> calls_ok (snd (calls_insert k c calls))"
  "calls_ok calls \<Longrightarrow> calls_ok (calls_touch now k calls)"
  "calls_ok calls \<Longrightarrow> calls_ok (snd (calls_take k calls))"
  "calls_ok calls \<Longrightarrow> calls_ok (snd (calls_expire now calls))"
  using call_step_ok [of calls "Insert k c"] call_step_ok [of calls "Touch now k"]
    call_step_ok [of calls "Take k"] call_step_ok [of calls "Expire now"]
  by (simp_all add: call_step_def case_prod_beta Let_def)

lemma grows_drop: "drop_response pid reason (sp, w) = (out, sp', w') \<Longrightarrow> grows w w'"
  by (auto simp: drop_response_def Let_def count_unparsed_def intro: grows_exports split: if_splits)

lemma grows_follow:
  "follow_request lib reg now pid direction bs offset resumes (out, sp, w) = (out', sp', w') \<Longrightarrow> grows w w'"
  by (auto simp: follow_request_def note_next_request_def count_unparsed_def Let_def split: if_splits)

lemma grows_settle_create:
  "settle_create now usage bs t pid w = (out, w') \<Longrightarrow> grows w w'"
  by (auto simp: settle_create_def defer_call_def give_up_def count_unparsed_def Let_def case_prod_beta
      split: option.splits background_state.splits prod.splits
      intro!: grows_exports grows_background calls_ok_step)

lemma grows_record_poll: "grows w (snd (record_poll rid usage ended w))"
  by (auto simp: record_poll_def give_up_def count_unparsed_def Let_def case_prod_beta
      split: option.splits background_state.splits
      intro!: grows_exports grows_background calls_ok_step)

lemma grows_settle: "settle now usage bs t pid (sp, w) = (out, sp', w') \<Longrightarrow> grows w w'"
proof (cases "sp_continuation sp")
  case None
  assume "settle now usage bs t pid (sp, w) = (out, sp', w')"
  then show ?thesis using None grows_settle_create [of now usage bs t pid w out w'] by (auto simp: settle_def split: prod.splits)
next
  case (Some rid)
  assume "settle now usage bs t pid (sp, w) = (out, sp', w')"
  moreover have "grows w (w\<lparr>wd_background := calls_touch now rid (wd_background w)\<rparr>)"
    by (intro grows_background calls_ok_step)
  ultimately show ?thesis
    using Some grows_record_poll [of w rid usage]
    by (auto simp: settle_def settle_poll_def Let_def case_prod_beta split: option.splits background_state.splits
        if_splits)
qed

lemma grows_response:
  assumes "handle_response lib reg now pid complete t p (sp, w) = (out, sp', w')"
  shows "grows w w'"
proof (cases complete)
  case True
  obtain usage bs sp1 where parse: "parse_progress lib reg p (sp\<lparr>sp_state := Finished\<rparr>) = (usage, bs, sp1)"
    by (rule prod_cases3)
  obtain o1 sp2 w2 where settle: "settle now usage bs t pid (sp1, w) = (o1, sp2, w2)" by (rule prod_cases3)
  show ?thesis
    using assms True parse settle grows_settle [OF settle] by (auto simp: handle_response_def split: option.splits)
qed (use assms in \<open>auto simp: handle_response_def\<close>)

lemma grows_event:
  assumes "handle_event lib reg now pid direction bs complete (sp, w) = (out, sp', w')"
  shows "grows w w'"
proof -
  obtain r sp1 where b: "buffer_event lib reg direction bs (sp\<lparr>sp_last_activity := now\<rparr>) = (r, sp1)" by fastforce
  show ?thesis
    using assms b
    by (auto simp: handle_event_def Let_def split: sum.splits bool.splits processor_state.splits if_splits prod.splits
        dest: grows_drop grows_response)
qed

lemma grows_http11:
  assumes "handle_http11 lib reg now pid direction bs offset complete truncated (sp, w) = (out, sp', w')"
  shows "grows w w'"
proof -
  define sp0 where "sp0 = sp\<lparr>sp_frag_next := (if complete then 0 else fragment_end offset bs), sp_frag_dir := direction\<rparr>"
  define gap where "gap = fragment_gap direction offset truncated sp"
  define resumes where "resumes = (offset = 0 \<and> \<not> gap \<and> lost_http11_tail lib direction bs sp0)"
  obtain d1 sp1 w1 where
    1: "drop_lost pid (drop_reason lib direction bs offset gap resumes sp0) (sp0, w) = (d1, sp1, w1)"
    by (rule prod_cases3)
  obtain d2 sp2 w2 where
    2: "follow_request lib reg now pid direction bs offset resumes (d1, sp1, w1) = (d2, sp2, w2)"
    by (rule prod_cases3)
  obtain fed sp3 w3 where
    3: "handle_event lib reg now pid direction bs complete (sp2, w2) = (fed, sp3, w3)"
    by (rule prod_cases3)
  have "grows w w1" using 1 grows_drop by (auto simp: drop_lost_def split: option.splits)
  also have "grows w1 w2" by (rule grows_follow [OF 2])
  finally have g2: "grows w w2" .
  also have "grows w2 w3" by (rule grows_event [OF 3])
  finally have "grows w w3" .
  with g2 show ?thesis
    using assms
    unfolding handle_http11_def Let_def prod.case sp0_def [symmetric] gap_def [symmetric] resumes_def [symmetric] 1 2 3
    by (auto split: if_splits)
qed

lemma grows_h2_events: "grows w w1 \<Longrightarrow> grows w (snd (fold (h2_event_step pid) es (out, w1)))"
proof (induction es arbitrary: out w1)
  case (Cons e es)
  obtain o2 w2 where step: "h2_event_step pid e (out, w1) = (o2, w2)" by fastforce
  then have "grows w1 w2" by (auto simp: h2_event_step_def count_unparsed_def Let_def intro: grows_exports split: h2_event.splits if_splits)
  then show ?case using Cons step by (simp add: grows_trans)
qed simp

lemma grows_feed: "feed_http2 lib reg now pid direction bs gap (sp, w) = (out, sp', w') \<Longrightarrow> grows w w'"
  using grows_h2_events [of w _ pid _ Outcome_Pending]
  by (auto simp: feed_http2_def Let_def split: processor_state.splits prod.splits) (metis grows_node(1) snd_conv)

lemma grows_fragment:
  assumes "handle_fragment lib reg now pid direction bs offset len truncated (sp, w) = (out, sp', w')"
  shows "grows w w'"
  using assms
  by (auto simp: handle_fragment_def Let_def detect_h2_midjoin_def case_prod_beta
      split: if_splits option.splits prod.splits dest: grows_feed grows_http11)

section \<open>A call in progress never vanishes\<close>

definition in_progress :: "nat \<Rightarrow> processor \<Rightarrow> bool" where
  "in_progress t sp \<longleftrightarrow>
     (case sp_state sp of
        Processing_Request t' _ \<Rightarrow> t' = t
      | Processing_Response t' _ \<Rightarrow> t' = t
      | _ \<Rightarrow> False) \<and> sp_continuation sp = None"

text \<open>Still in progress, exported since, or waiting for its poll.\<close>

definition traced :: "nat \<Rightarrow> u32 \<Rightarrow> world \<Rightarrow> processor \<Rightarrow> world \<Rightarrow> bool" where
  "traced t pid w sp' w' \<longleftrightarrow>
     in_progress t sp' \<or> length (wd_ledger w) < length (wd_ledger w') \<or> (t, pid) \<in># idents (wd_background w')"

lemma in_progress_llm:
  "in_progress t sp \<Longrightarrow> is_llm sp \<and> (case sp_state sp of Http2 _ \<Rightarrow> False | _ \<Rightarrow> True) \<and> sp_continuation sp = None"
  by (auto simp: in_progress_def is_llm_def split: processor_state.splits)

lemma traced_drop:
  assumes "in_progress t sp" and "drop_response pid reason (sp, w) = (out, sp', w')"
  shows "length (wd_ledger w) < length (wd_ledger w')"
  using in_progress_llm [OF assms(1)] assms(2) drop_response_call [of sp pid reason w] by (auto simp: export_def)

lemma deferred_is_pending:
  "(t, pid) \<in># idents (snd (calls_insert rid (pending_call_new now t pid) calls))"
proof -
  have "(t, pid) \<in># idents (put_key rid (pending_call_new now t pid) m)" for m
  proof -
    have "(rid, pending_call_new now t pid) \<in> set (put_key rid (pending_call_new now t pid) m)"
      by (rule map_of_SomeD) simp
    then show ?thesis
      by (auto simp: idents_def image_iff ident_def pending_call_new_def intro!: bexI)
  qed
  then show ?thesis by (simp add: calls_insert_def Let_def case_prod_beta)
qed

lemma traced_create:
  assumes "settle_create now usage bs t pid w = (out, w')"
  shows "if out = None then w' = w
    else length (wd_ledger w) < length (wd_ledger w') \<or> (t, pid) \<in># idents (wd_background w')"
  using assms deferred_is_pending [of t pid _ now "wd_background w"]
  by (auto simp: settle_create_def defer_call_def give_up_def count_unparsed_def export_def Let_def case_prod_beta
      split: option.splits background_state.splits prod.splits)

lemma traced_response:
  assumes "sp_continuation sp = None" and "handle_response lib reg now pid complete t p (sp, w) = (out, sp', w')"
  shows "traced t pid w sp' w'"
proof (cases complete)
  case True
  obtain usage bs sp1 where parse: "parse_progress lib reg p (sp\<lparr>sp_state := Finished\<rparr>) = (usage, bs, sp1)"
    by (rule prod_cases3)
  have cont: "sp_continuation sp1 = None"
    using parse assms(1)
    by (auto simp: parse_progress_def take_background_def split: option.splits parser.splits prod.splits)
  obtain o1 w1 where create: "settle_create now usage bs t pid w = (o1, w1)" by fastforce
  have "settle now usage bs t pid (sp1, w) = (o1, sp1, w1)" using cont create by (simp add: settle_def)
  then show ?thesis
    using assms(2) True parse traced_create [OF create] cont
    by (auto simp: handle_response_def traced_def in_progress_def split: option.splits if_splits)
qed (use assms in \<open>auto simp: handle_response_def traced_def in_progress_def\<close>)

lemma traced_event:
  assumes "in_progress t sp" and "handle_event lib reg now pid direction bs complete (sp, w) = (out, sp', w')"
  shows "traced t pid w sp' w'"
proof -
  obtain r sp1 where b: "buffer_event lib reg direction bs (sp\<lparr>sp_last_activity := now\<rparr>) = (r, sp1)" by fastforce
  have "sp_state sp1 = sp_state sp \<and> sp_continuation sp1 = sp_continuation sp"
    using b assms(1)
    by (auto simp: buffer_event_def buffer_write_def buffer_read_def Let_def in_progress_def
        split: llm_direction.splits processor_state.splits option.splits if_splits prod.splits)
  then have "in_progress t sp1" using assms(1) by (simp add: in_progress_def)
  show ?thesis
  proof (cases r)
    case (Inl reason)
    obtain o2 sp2 w2 where d: "drop_response pid reason (sp1, w) = (o2, sp2, w2)" by (rule prod_cases3)
    show ?thesis
      using traced_drop [OF \<open>in_progress t sp1\<close> d] assms(2) b Inl d by (simp add: handle_event_def traced_def)
  next
    case (Inr ready)
    have cont: "sp_continuation sp1 = None" using \<open>in_progress t sp1\<close> by (simp add: in_progress_def)
    have unread: "traced t pid w sp1 w" using \<open>in_progress t sp1\<close> by (simp add: traced_def)
    obtain p where "sp_state sp1 = Processing_Request t p \<or> sp_state sp1 = Processing_Response t p"
      using \<open>in_progress t sp1\<close> by (auto simp: in_progress_def split: processor_state.splits)
    then have "(out, sp', w') = (Outcome_Pending, sp1, w) \<or>
        handle_response lib reg now pid complete t p (sp1, w) = (out, sp', w')"
      using assms(2) b Inr by (auto simp: handle_event_def split: bool.splits if_splits)
    then show ?thesis using unread traced_response [OF cont] by blast
  qed
qed



section \<open>Polls\<close>

text \<open>The polls of one background call, and what is exported at the first one that ends it.\<close>

type_synonym poll = "nat \<times> usage_info option \<times> background_state option"

definition poll_ends :: "poll \<Rightarrow> background_state option" where
  "poll_ends p =
     (case p of (_, usage, bs) \<Rightarrow>
        (case poll_state usage bs of Some (Running _) \<Rightarrow> None | st \<Rightarrow> st))"

definition poll_entry :: "pending_call \<Rightarrow> poll \<Rightarrow> ledger_entry" where
  "poll_entry c p =
     (case p of
        (_, Some u, _) \<Rightarrow> Call_Recorded u (call_start c) (call_pid c)
      | _ \<Rightarrow>
          (if poll_ends p = Some Cancelled then Call_Recorded usage_default (call_start c) (call_pid c)
           else Call_Unparsed (call_pid c) BackgroundUnfinished))"

definition poll_settle :: "str \<Rightarrow> poll \<Rightarrow> processor \<times> world \<Rightarrow> processor \<times> world" where
  "poll_settle rid p pw = (case p of (now, usage, bs) \<Rightarrow> snd (settle_poll now rid usage bs pw))"

lemma map_of_touch: "map_of (calls_touch now rid calls) k =
    map_option (\<lambda>c. if k = rid then c\<lparr>last_seen := now\<rparr> else c) (map_of calls k)"
  by (induction calls) (auto simp: calls_touch_def)

lemma poll_settle_ends:
  "poll_ends p \<noteq> None \<Longrightarrow>
     wd_ledger (snd (poll_settle rid p (sp, w))) =
       wd_ledger w @ (case map_of (wd_background w) rid of None \<Rightarrow> [] | Some c \<Rightarrow> [poll_entry c p]) \<and>
     map_of (wd_background (snd (poll_settle rid p (sp, w)))) = (map_of (wd_background w))(rid := None)"
proof -
  assume ends: "poll_ends p \<noteq> None"
  obtain now usage bs where p: "p = (now, usage, bs)" by (rule prod_cases3)
  show ?thesis
    using ends unfolding p
    by (cases usage)
      (auto simp: poll_ends_def poll_settle_def settle_poll_def record_poll_def calls_take_def give_up_def
        count_unparsed_def export_def poll_entry_def map_of_remove_key Let_def
        split: option.splits background_state.splits)
qed

lemma poll_settle_waits:
  "poll_ends p = None \<Longrightarrow>
     wd_ledger (snd (poll_settle rid p (sp, w))) = wd_ledger w \<and>
     (snd (poll_settle rid p (sp, w)) = w \<or>
      wd_background (snd (poll_settle rid p (sp, w))) = calls_touch (fst p) rid (wd_background w))"
  by (auto simp: poll_ends_def poll_settle_def settle_poll_def Let_def
      split: prod.splits option.splits background_state.splits)

definition poll_calls :: "str \<Rightarrow> poll list \<Rightarrow> processor \<times> world \<Rightarrow> processor \<times> world" where
  "poll_calls rid ps pw = fold (poll_settle rid) ps pw"

text \<open>C5: However many polls of a background call arrive, from whatever connections, the call is exported once:
  by the first poll that ends it, with that poll's usage (or none when cancelled) under the create's start
  and process, and later polls export nothing; a poll of a call no longer kept exports nothing at all.\<close>

theorem polls_record_once:
  "wd_ledger (snd (poll_calls rid ps (sp, w))) =
     wd_ledger w @
     (case map_of (wd_background w) rid of
        None \<Rightarrow> []
      | Some c \<Rightarrow> (case find (\<lambda>p. poll_ends p \<noteq> None) ps of None \<Rightarrow> [] | Some p \<Rightarrow> [poll_entry c p]))"
proof (induction ps arbitrary: sp w)
  case (Cons p ps)
  obtain sp1 w1 where step: "poll_settle rid p (sp, w) = (sp1, w1)" by fastforce
  have run: "poll_calls rid (p # ps) (sp, w) = poll_calls rid ps (sp1, w1)" by (simp add: poll_calls_def step)
  show ?case
  proof (cases "poll_ends p")
    case None
    have entry: "poll_entry (c\<lparr>last_seen := n\<rparr>) q = poll_entry c q" for c n q
      by (simp add: poll_entry_def split: prod.splits option.splits)
    have "wd_ledger w1 = wd_ledger w" "w1 = w \<or> wd_background w1 = calls_touch (fst p) rid (wd_background w)"
      using poll_settle_waits [OF None, of rid sp w] step by simp_all
    then show ?thesis
      unfolding run using Cons.IH [of sp1 w1] None
      by (auto simp: map_of_touch entry split: option.splits)
  next
    case (Some st)
    then show ?thesis
      unfolding run using Cons.IH [of sp1 w1] poll_settle_ends [of p rid sp w] step
      by (auto split: option.splits)
  qed
qed (simp add: poll_calls_def split: option.split)

end
