(* ===== verification/Agent_Props.thy ===== *)
theory Agent_Props
  imports Agent Call_Accounting
begin

text \<open>
  The agent keeps connections apart, never lets the kernel filter lose a call, counts what a closed connection
  or the cleanup ends, and tries each file once.
\<close>

section \<open>Runs of the agent\<close>

datatype agent_op =
    Ssl_Event nat event_header bytes
  | Plain_Event nat event_header bytes
  | Clean nat

definition agent_step :: "libs \<Rightarrow> registry \<Rightarrow> agent_op \<Rightarrow> agent \<Rightarrow> agent" where
  "agent_step lib reg op ag =
     (case op of
        Ssl_Event now h bs \<Rightarrow> on_ssl_event lib reg now h bs ag
      | Plain_Event now h bs \<Rightarrow> snd (route_event lib reg now h bs ag)
      | Clean now \<Rightarrow> cleanup now ag)"

definition agent_run :: "libs \<Rightarrow> registry \<Rightarrow> agent_op list \<Rightarrow> agent \<Rightarrow> agent" where
  "agent_run lib reg ops ag = fold (agent_step lib reg) ops ag"

definition agent_new :: agent where
  "agent_new = \<lparr>ag_streams = [], ag_world = \<lparr>wd_background = [], wd_node = 0, wd_ledger = []\<rparr>, ag_class = Map.empty\<rparr>"

definition agent_ok :: "agent \<Rightarrow> bool" where
  "agent_ok ag \<longleftrightarrow>
     distinct_keys (ag_streams ag) \<and> list_all (\<lambda>(_, sp). processor_ok sp) (ag_streams ag) \<and>
     calls_ok (wd_background (ag_world ag))"

lemma put_key_all: "list_all (\<lambda>(_, v). P v) m \<Longrightarrow> P v \<Longrightarrow> list_all (\<lambda>(_, v). P v) (put_key k v m)"
  by (induction k v m rule: put_key.induct) auto

lemma filter_all: "list_all P m \<Longrightarrow> list_all P (filter Q m)"
  by (auto simp: list_all_iff)

lemma map_of_all: "list_all (\<lambda>(_, v). P v) m \<Longrightarrow> map_of m k = Some v \<Longrightarrow> P v"
  by (auto simp: list_all_iff dest!: map_of_SomeD)

lemma grows_processor_drop [simp]: "grows w (processor_drop sp w)"
  by (simp add: processor_drop_def)

lemma drop_keeps [simp]:
  "wd_background (processor_drop sp w) = wd_background w" "wd_ledger (processor_drop sp w) = wd_ledger w"
  by (simp_all add: processor_drop_def release_conn_def split: processor_state.split)

lemma grows_count_open: "grows w (snd (count_open n pid (out, w)))"
proof (induction n arbitrary: w out)
  case (Suc n)
  have "grows w (export (Call_Unparsed pid ConnectionClosed) w)" by simp
  also have "grows \<dots> (snd (count_open n pid (Outcome_Unparsed ConnectionClosed, \<dots>)))" by (rule Suc.IH)
  finally show ?case by (simp add: count_unparsed_def)
qed simp

lemma grows_close: "close_processor pid (sp, w) = (out, sp', w') \<Longrightarrow> grows w w'"
proof (cases "sp_state sp")
  case (Http2 conn)
  assume "close_processor pid (sp, w) = (out, sp', w')"
  then have "w' = snd (count_open (open_streams conn) pid (Outcome_Pending, release_conn (sp_state sp) w))"
    by (auto simp: close_processor_def Http2 Let_def split: prod.splits)
  moreover have "grows w (release_conn (sp_state sp) w)" by simp
  ultimately show ?thesis using grows_count_open grows_trans by metis
qed (auto simp: close_processor_def dest: grows_drop)

lemma route_event_ok:
  assumes "agent_ok ag"
  shows "agent_ok (snd (route_event lib reg now h bs ag)) \<and>
    prefix (wd_ledger (ag_world ag)) (wd_ledger (ag_world (snd (route_event lib reg now h bs ag))))"
proof (cases "h_closed h = 0 \<and> bs \<noteq> []")
  case True
  define key where "key = stream_key h"
  define sp where "sp = (case map_of (ag_streams ag) key of None \<Rightarrow> processor_new now | Some sp \<Rightarrow> sp)"
  obtain out sp' w' where step: "handle_fragment lib reg now (m_pid (h_metadata h)) (dir_from (h_rw h)) bs
      (h_offset h) (h_len h) (h_truncated h \<noteq> 0) (sp, ag_world ag) = (out, sp', w')"
    by (rule prod_cases3)
  have "processor_ok sp"
    using assms processor_ok_new map_of_all by (auto simp: sp_def agent_ok_def split: option.splits)
  then have "processor_ok sp'" by (rule handle_fragment_ok [OF _ step])
  moreover have "grows (ag_world ag) w'" by (rule grows_fragment [OF step])
  ultimately show ?thesis
    using assms True step
    by (auto simp: route_event_def Let_def key_def [symmetric] sp_def [symmetric] agent_ok_def grows_def
        intro: distinct_put_key put_key_all)
next
  case False
  show ?thesis
  proof (cases "h_closed h \<noteq> 0 \<and> map_of (ag_streams ag) (stream_key h) \<noteq> None")
    case True
    then obtain sp where sp: "map_of (ag_streams ag) (stream_key h) = Some sp" by blast
    obtain out sp' w' where close: "close_processor (m_pid (h_metadata h)) (sp, ag_world ag) = (out, sp', w')"
      by (rule prod_cases3)
    show ?thesis
      using assms True sp close grows_close [OF close]
      by (auto simp: route_event_def Let_def agent_ok_def grows_def remove_key_def intro: distinct_filter_keys filter_all)
  qed (use assms False in \<open>auto simp: route_event_def Let_def split: option.splits\<close>)
qed

lemma skip_if_foreign_ok:
  assumes "skip_if_foreign lib reg h bs ag = (skipped, ag')" and "agent_ok ag"
  shows "agent_ok ag' \<and> wd_ledger (ag_world ag') = wd_ledger (ag_world ag)"
proof -
  have "ag_streams (host_skip_connection h a) = ag_streams a" "ag_world (host_skip_connection h a) = ag_world a" for a
    by (simp_all add: host_skip_connection_def Let_def split: option.split)
  then show ?thesis
    using assms
    by (auto simp: skip_if_foreign_def agent_ok_def remove_key_def split: if_splits option.splits
        intro: distinct_filter_keys filter_all)
qed

lemma fold_drop_keeps: "wd_background (fold (\<lambda>(_, sp) w. processor_drop sp w) gone w) = wd_background w \<and>
    wd_ledger (fold (\<lambda>(_, sp) w. processor_drop sp w) gone w) = wd_ledger w"
  by (induction gone arbitrary: w) auto

lemma fold_give_up:
  "wd_ledger (fold (\<lambda>call w. snd (give_up call w)) cs w) =
     wd_ledger w @ map (\<lambda>c. Call_Unparsed (call_pid c) BackgroundUnfinished) cs \<and>
   wd_background (fold (\<lambda>call w. snd (give_up call w)) cs w) = wd_background w"
  by (induction cs arbitrary: w) (auto simp: give_up_def count_unparsed_def export_def)

lemma cleanup_facts:
  "ag_streams (cleanup now ag) = filter (\<lambda>(_, sp). kept_stream now sp) (ag_streams ag)"
  "wd_background (ag_world (cleanup now ag)) = snd (calls_expire now (wd_background (ag_world ag)))"
  "wd_ledger (ag_world (cleanup now ag)) = wd_ledger (ag_world ag) @
     map (\<lambda>c. Call_Unparsed (call_pid c) BackgroundUnfinished) (fst (calls_expire now (wd_background (ag_world ag))))"
  by (simp_all add: cleanup_def Let_def fold_drop_keeps fold_give_up split: prod.split)

lemma agent_step_ok:
  assumes "agent_ok ag"
  shows "agent_ok (agent_step lib reg op ag) \<and>
    prefix (wd_ledger (ag_world ag)) (wd_ledger (ag_world (agent_step lib reg op ag)))"
proof (cases op)
  case (Ssl_Event now h bs)
  obtain skipped ag' where skip: "skip_if_foreign lib reg h bs ag = (skipped, ag')" by fastforce
  note ok = skip_if_foreign_ok [OF skip assms]
  then show ?thesis
    using Ssl_Event skip assms route_event_ok [of ag' lib reg now h bs]
    by (auto simp: agent_step_def on_ssl_event_def)
next
  case (Clean now)
  then show ?thesis
    using assms calls_ok_step(4)
    by (auto simp: agent_step_def agent_ok_def cleanup_facts intro: distinct_filter_keys filter_all)
qed (use assms route_event_ok in \<open>simp add: agent_step_def\<close>)

lemma agent_run_ok:
  "agent_ok ag \<Longrightarrow> agent_ok (agent_run lib reg ops ag) \<and>
     prefix (wd_ledger (ag_world ag)) (wd_ledger (ag_world (agent_run lib reg ops ag)))"
proof (induction ops arbitrary: ag)
  case (Cons op ops)
  note step = agent_step_ok [OF Cons.prems, of lib reg op]
  with Cons.IH [of "agent_step lib reg op ag"] show ?case
    by (auto simp: agent_run_def intro: prefix_order.trans)
qed (simp add: agent_run_def)

lemma agent_new_ok: "agent_ok agent_new"
  by (simp add: agent_ok_def agent_new_def distinct_keys_def calls_ok_def)


section \<open>Connections are kept apart\<close>

text \<open>An event belongs to its connection alone: it leaves the stream of every other connection and the
  kernel's verdict on it as they were, and a connection's closing removes its stream.\<close>

lemma event_touches_its_connection:
  "let ag' = on_ssl_event lib reg now h bs ag; key = stream_key h in
   map_of (ag_streams ag') = (map_of (ag_streams ag))(key := map_of (ag_streams ag') key) \<and>
   ag_class ag' = (ag_class ag)((ucast (fst key), snd key) := ag_class ag' (ucast (fst key), snd key)) \<and>
   (if h_closed h \<noteq> 0 \<and> h_handshake h \<noteq> 1 then map_of (ag_streams ag') key = None else True)"
proof -
  have streams: "ag_streams (host_skip_connection h a) = ag_streams a" for a
    by (simp add: host_skip_connection_def Let_def split: option.split)
  have route: "map_of (ag_streams (snd (route_event lib reg now h bs a))) =
        (map_of (ag_streams a))(stream_key h := map_of (ag_streams (snd (route_event lib reg now h bs a))) (stream_key h))"
    "ag_class (snd (route_event lib reg now h bs a)) = ag_class a"
    "h_closed h \<noteq> 0 \<Longrightarrow> map_of (ag_streams (snd (route_event lib reg now h bs a))) (stream_key h) = None" for a
    by (auto simp: route_event_def Let_def map_of_remove_key split: option.splits prod.splits)
  obtain skipped ag1 where skip: "skip_if_foreign lib reg h bs ag = (skipped, ag1)" by fastforce
  then have skipped: "\<not> skipped \<Longrightarrow> ag1 = ag"
    "skipped \<Longrightarrow> map_of (ag_streams ag1) = (map_of (ag_streams ag))(stream_key h := None)"
    "skipped \<Longrightarrow> ag_class ag1 = (ag_class ag)((ucast (m_pid (h_metadata h)), h_ssl h) :=
        ag_class ag1 (ucast (m_pid (h_metadata h)), h_ssl h))"
    by (auto simp: skip_if_foreign_def streams map_of_remove_key host_skip_connection_def Let_def fun_eq_iff
        split: if_splits option.splits)
  show ?thesis
  proof (cases skipped)
    case True
    then show ?thesis
      using skip skipped(2,3) by (auto simp: on_ssl_event_def stream_key_def Let_def)
  next
    case False
    then show ?thesis
      using skip skipped(1) route [of ag] by (auto simp: on_ssl_event_def stream_key_def Let_def)
  qed
qed

section \<open>The filter, the close and the cleanup\<close>

text \<open>C11: The host's filter never costs a call: it consumes only a Write that opens a request to a host no
  provider serves, on a connection without a call in progress, and exports nothing and keeps every
  background call; the connection's stream is dropped and the kernel's entry, when it is still the same
  connection's, becomes one whose traffic is dropped in the kernel, while an entry that is gone or belongs to
  a younger connection is left alone. An event it does not consume it leaves everything as it was.\<close>

theorem foreign_skip_keeps_calls:
  "case skip_if_foreign lib reg h bs ag of (skipped, ag') \<Rightarrow>
     let key = stream_key h; ckey = (ucast (m_pid (h_metadata h)), h_ssl h) in
     wd_ledger (ag_world ag') = wd_ledger (ag_world ag) \<and>
     wd_background (ag_world ag') = wd_background (ag_world ag) \<and>
     (if skipped
      then opens_foreign_request lib reg h bs \<and> (case map_of (ag_streams ag) key of None \<Rightarrow> True | Some sp \<Rightarrow> \<not> is_llm sp) \<and>
        map_of (ag_streams ag') key = None \<and>
        (case ag_class ag ckey of
           None \<Rightarrow> ag_class ag' ckey = None
         | Some e \<Rightarrow>
             if born e \<le> m_timestamp (h_metadata h)
             then (case ag_class ag' ckey of None \<Rightarrow> False | Some e' \<Rightarrow> class_drops e' \<and> born e' = born e)
             else ag_class ag' ckey = Some e)
      else ag' = ag)"
  by (auto simp: skip_if_foreign_def host_skip_connection_def skip_connection_def class_drops_def map_of_remove_key Let_def
      split: option.splits if_splits)

lemma count_open_ledger:
  "wd_ledger (snd (count_open n pid (out, w))) = wd_ledger w @ replicate n (Call_Unparsed pid ConnectionClosed)"
  by (induction n arbitrary: out w)
     (auto simp: count_unparsed_def export_def replicate_append_same)

text \<open>The calls a stream still waits for: an HTTP/2 connection's open streams, or the call in progress unless it
  polls a background call, which stays pending.\<close>

definition open_calls :: "processor \<Rightarrow> nat" where
  "open_calls sp =
     (case sp_state sp of
        Http2 conn \<Rightarrow> open_streams conn
      | _ \<Rightarrow> if is_llm sp \<and> sp_continuation sp = None then 1 else 0)"

lemma close_counts:
  assumes "close_processor pid (sp, w) = (out, sp', w')"
  shows "wd_ledger w' = wd_ledger w @ replicate (open_calls sp) (Call_Unparsed pid ConnectionClosed)"
proof (cases "sp_state sp")
  case (Http2 conn)
  have "w' = snd (count_open (open_streams conn) pid (Outcome_Pending, release_conn (sp_state sp) w))"
    using assms by (auto simp: close_processor_def Http2 Let_def split: prod.splits)
  then show ?thesis by (simp add: count_open_ledger Http2 open_calls_def release_conn_def)
qed (use assms in \<open>auto simp: close_processor_def drop_response_def open_calls_def is_llm_def count_unparsed_def
      export_def release_conn_def Let_def split: if_splits\<close>)

text \<open>C10: SSL_free ends a connection's stream and counts every call it still waited for as closed, each exactly
  once: one for an HTTP/1.1 call, none for a poll, one per open stream on HTTP/2. Another SSL_free of the
  same connection counts nothing more.\<close>

theorem closed_connection_counts_calls:
  "if h_closed h = 0 then True
   else let ag' = snd (route_event lib reg now h bs ag); ag'' = snd (route_event lib reg now' h bs' ag') in
     map_of (ag_streams ag') (stream_key h) = None \<and> ag'' = ag' \<and>
     wd_ledger (ag_world ag') = wd_ledger (ag_world ag) @
       (case map_of (ag_streams ag) (stream_key h) of
          None \<Rightarrow> []
        | Some sp \<Rightarrow> replicate (open_calls sp) (Call_Unparsed (m_pid (h_metadata h)) ConnectionClosed))"
proof (cases "h_closed h = 0")
  case False
  define pid where "pid = m_pid (h_metadata h)"
  define ag' where "ag' = snd (route_event lib reg now h bs ag)"
  show ?thesis
  proof (cases "map_of (ag_streams ag) (stream_key h)")
    case None
    then show ?thesis using False by (simp add: route_event_def Let_def)
  next
    case (Some sp)
    obtain out sp' w' where close: "close_processor pid (sp, ag_world ag) = (out, sp', w')" by (rule prod_cases3)
    have "\<not> is_llm sp \<Longrightarrow> open_calls sp = 0"
      by (auto simp: open_calls_def is_llm_def split: processor_state.splits)
    then have "map_of (ag_streams ag') (stream_key h) = None"
      "wd_ledger (ag_world ag') = wd_ledger (ag_world ag) @ replicate (open_calls sp) (Call_Unparsed pid ConnectionClosed)"
      using False Some close close_counts [OF close]
      by (auto simp: ag'_def route_event_def Let_def map_of_remove_key pid_def [symmetric])
    moreover from this(1) have "snd (route_event lib reg now' h bs' ag') = ag'"
      using False by (simp add: route_event_def Let_def)
    ultimately show ?thesis using False Some by (simp add: ag'_def [symmetric] pid_def [symmetric] Let_def)
  qed
qed simp

text \<open>The periodic cleanup loses no background call: it drops exactly the streams idle for five minutes,
  keeps every background call polled within the hour, and counts each of the others as unfinished once.\<close>

lemma cleanup_accounts_for_calls:
  "let ag' = cleanup now ag; expired = fst (calls_expire now (wd_background (ag_world ag))) in
   wd_ledger (ag_world ag') =
     wd_ledger (ag_world ag) @ map (\<lambda>c. Call_Unparsed (call_pid c) BackgroundUnfinished) expired \<and>
   idents (wd_background (ag_world ag)) = mset (map ident expired) + idents (wd_background (ag_world ag')) \<and>
   list_all (\<lambda>(_, c). now - last_seen c < 3600 * 10 ^ 9) (wd_background (ag_world ag')) \<and>
   list_all (\<lambda>c. now - last_seen c \<ge> 3600 * 10 ^ 9) expired \<and>
   filter (\<lambda>(_, sp). now - sp_last_activity sp < 300 * 10 ^ 9) (ag_streams ag) = ag_streams ag'"
proof -
  have "kept_stream now sp \<longleftrightarrow> now - sp_last_activity sp < 300 * 10 ^ 9" for sp
    by (simp add: kept_stream_def CONNECTION_RETENTION_SECS_def div_less_iff_less_mult)
  then show ?thesis
    using idents_partition [of "\<lambda>(_, c). now - last_seen c \<ge> IDLE_TTL" "wd_background (ag_world ag)"]
    by (auto simp: Let_def cleanup_facts calls_expire_def IDLE_TTL_def list_all_iff case_prod_beta
        multiset.map_comp)
qed

section \<open>Files\<close>

lemma new_files_facts:
  assumes "distinct (map snd out)" and "set (map snd out) \<inter> known = {}"
  shows "distinct (map snd (new_files identify paths known out)) \<and>
    set (map snd (new_files identify paths known out)) \<inter> known = {}"
  using assms by (induction identify paths known out rule: new_files.induct) (auto split: option.split)

lemma attach_round_facts:
  assumes "attach_round r files (known, out, v) = (known', out', v')"
    and "distinct (map snd files)" and "set (map snd files) \<inter> known = {}"
    and "distinct (map (fst \<circ> snd) out)" and "known = K \<union> (fst \<circ> snd) ` set out" and "(fst \<circ> snd) ` set out \<inter> K = {}"
  shows "distinct (map (fst \<circ> snd) out') \<and> known' = K \<union> (fst \<circ> snd) ` set out' \<and> (fst \<circ> snd) ` set out' \<inter> K = {}"
  using assms
proof (induction r files "(known, out, v)" arbitrary: known out v rule: attach_round.induct)
  case (2 r path f files known out vanished)
  show ?case
  proof (cases "attach_path r path = None \<and> \<not> path_exists r path")
    case True
    then show ?thesis using 2 by simp
  next
    case False
    define tried where "tried = out @ [(path, f, attach_path r path)]"
    have new: "f \<notin> known" and keys: "(fst \<circ> snd) ` set tried = insert f ((fst \<circ> snd) ` set out)"
      using "2.prems"(3) by (simp_all add: tried_def)
    have step: "attach_round r files (insert f known, tried, vanished) = (known', out', v')"
      using "2.prems"(1) False by (simp add: tried_def)
    have files: "distinct (map snd files)" "set (map snd files) \<inter> insert f known = {}"
      using "2.prems"(2,3) by auto
    have old: "f \<notin> (fst \<circ> snd) ` set out" "f \<notin> K" using new "2.prems"(5) by blast+
    have "distinct (map (fst \<circ> snd) tried)" using old(1) "2.prems"(4) by (auto simp: tried_def)
    moreover have "insert f known = K \<union> (fst \<circ> snd) ` set tried" using "2.prems"(5) by (simp only: keys) blast
    moreover have "(fst \<circ> snd) ` set tried \<inter> K = {}" using "2.prems"(6) old(2) by (simp only: keys) blast
    ultimately show ?thesis by (rule "2.hyps"(2) [OF False, folded tried_def, OF step files])
  qed
qed simp

lemma attach_new_files_facts:
  assumes "attach_new_files rounds paths known out = (known', out')"
    and "distinct (map (fst \<circ> snd) out)" and "known = K \<union> (fst \<circ> snd) ` set out" and "(fst \<circ> snd) ` set out \<inter> K = {}"
  shows "distinct (map (fst \<circ> snd) out') \<and> known' = K \<union> (fst \<circ> snd) ` set out' \<and> (fst \<circ> snd) ` set out' \<inter> K = {}"
  using assms
proof (induction rounds paths known out arbitrary: known' out' rule: attach_new_files.induct)
  case (2 r rounds paths known out)
  obtain k o1 v where round: "attach_round r (unique_new_files (file_identity r) paths known) (known, out, False) = (k, o1, v)"
    by (rule prod_cases3)
  have "distinct (map snd (unique_new_files (file_identity r) paths known))"
    "set (map snd (unique_new_files (file_identity r) paths known)) \<inter> known = {}"
    using new_files_facts [of "[]" known "file_identity r" "host_paths_first paths"]
    by (simp_all add: unique_new_files_def)
  note facts = attach_round_facts [OF round this "2.prems"(2-4), THEN conjunct1]
    attach_round_facts [OF round this "2.prems"(2-4), THEN conjunct2, THEN conjunct1]
    attach_round_facts [OF round this "2.prems"(2-4), THEN conjunct2, THEN conjunct2]
  show ?case
  proof (cases v)
    case True
    then have "attach_new_files rounds paths k o1 = (known', out')" using "2.prems"(1) round by simp
    from "2.IH" [OF round [symmetric] refl refl True this facts(1-3)] show ?thesis .
  next
    case False
    then have "known' = k" "out' = o1" using "2.prems"(1) round by simp_all
    then show ?thesis using facts by (simp only: simp_thms)
  qed
qed simp

text \<open>However paths vanish and files change under them between the rounds, each file is tried for probes at
  most once, never one already known, and exactly the files tried become known.\<close>

lemma files_are_tried_once:
  "case attach_files rounds paths known of (known', tried) \<Rightarrow>
     distinct (map (fst \<circ> snd) tried) \<and> (fst \<circ> snd) ` set tried \<inter> known = {} \<and>
     known' = known \<union> (fst \<circ> snd) ` set tried"
proof -
  obtain known' tried where run: "attach_files rounds paths known = (known', tried)" by fastforce
  then show ?thesis
    using attach_new_files_facts [of "take ATTACH_ROUNDS rounds" paths known "[]" known' tried known]
    by (auto simp: attach_files_def)
qed

end
