(* ===== verification/Captured_Call.thy ===== *)
theory Captured_Call
  imports Exchange_Whole Ssl_Probe_Props Agent
begin

text \<open>
  From the probed call to the parser: the records the kernel cuts a captured SSL read into, delivered through
  the ring to the agent, leave the connection's stream as the uncut read would.
\<close>

section \<open>A read cut into records\<close>

fun records_cut :: "nat \<Rightarrow> u32 \<Rightarrow> (event_header \<times> bytes) list \<Rightarrow> bool" where
  "records_cut at len [] = (at = unat len)"
| "records_cut at len ((h, bs) # rs) =
     (h_offset h = of_nat at \<and> h_len h = len \<and> h_truncated h = 0 \<and> dir_from (h_rw h) = Read \<and> bs \<noteq> [] \<and>
      records_cut (at + length bs) len rs)"

lemma records_cut_total: "records_cut at len rs \<Longrightarrow> at + length (concat (map snd rs)) = unat len"
  by (induction at len rs rule: records_cut.induct) (simp_all add: add.assoc)

text \<open>A response being read, \<open>at\<close> bytes into the call of the moment.\<close>

definition reads_at :: "nat \<Rightarrow> bytes \<Rightarrow> nat \<Rightarrow> processor \<Rightarrow> bool" where
  "reads_at t buf at sp \<longleftrightarrow>
     (sp_state sp = Processing_Response t Http11_Parser \<or> sp_state sp = Processing_Request t Http11_Parser) \<and>
     sp_continuation sp = None \<and> sp_next_request sp = None \<and> sp_past_limit sp = None \<and>
     sp_frag_next sp = of_nat at \<and> sp_read_buf sp = buf"

definition appended :: "nat \<Rightarrow> nat \<Rightarrow> bytes \<Rightarrow> processor \<Rightarrow> processor" where
  "appended now at bs sp =
     sp\<lparr>sp_frag_next := of_nat at, sp_frag_dir := Read, sp_last_activity := now, sp_read_buf := sp_read_buf sp @ bs\<rparr>"

lemma handle_response_state:
  "handle_response lib reg now pid complete t p (sp\<lparr>sp_state := st\<rparr>, w) =
     handle_response lib reg now pid complete t p (sp, w)"
  by (simp add: handle_response_def)

lemma fragment_read:
  assumes a: "reads_at t buf at sp" and "at + length bs < 2 ^ 32"
    and "at = 0 \<Longrightarrow> (case sp_state sp of Processing_Request _ _ \<Rightarrow> opens_status bs | _ \<Rightarrow> True)"
    and "length buf + length bs \<le> MAX_RESPONSE_BUFFER_SIZE"
  shows "snd (handle_fragment lib reg now pid Read bs (of_nat at) len False (sp, w)) =
     snd (handle_response lib reg now pid (fragment_complete Read (of_nat at) bs len) t Http11_Parser
       (appended now (if fragment_complete Read (of_nat at) bs len then 0 else at + length bs) bs sp, w))"
proof -
  define complete where "complete = fragment_complete Read (of_nat at) bs len"
  have small: "unat (of_nat at :: u32) = at" "unat (of_nat (length bs) :: u32) = length bs"
    using assms(2) by (simp_all add: unat_of_nat)
  have zero: "(of_nat at :: u32) = 0 \<longleftrightarrow> at = 0" by (simp only: unat_eq_0 [symmetric] small)
  have ends: "fragment_end (of_nat at) bs = of_nat (at + length bs)"
    using assms(2) by (simp add: fragment_end_def Let_def small)
  define sp0 where "sp0 = sp\<lparr>sp_frag_next := (if complete then 0 else of_nat (at + length bs)), sp_frag_dir := Read\<rparr>"
  define sp1 where "sp1 = appended now (if complete then 0 else at + length bs) bs sp"
  have llm: "is_llm sp" "case sp_state sp of Http2 _ \<Rightarrow> False | _ \<Rightarrow> True"
    using a by (auto simp: reads_at_def is_llm_def)
  have gap: "fragment_gap Read (of_nat at) False sp = False" and order: "sp_frag_next sp = of_nat at"
    using a by (simp_all add: fragment_gap_def reads_at_def)
  have tail: "lost_http11_tail lib Read bs sp0 = False" using a by (simp add: lost_http11_tail_def sp0_def reads_at_def)
  have reason: "drop_reason lib Read bs (of_nat at) False False sp0 = None"
    using a assms(3)
    by (auto simp: drop_reason_def lost_http11_head_def sp0_def reads_at_def opens_status_def Let_def take_min_length
        zero simp del: take_take)
  have step: "snd (handle_fragment lib reg now pid Read bs (of_nat at) len False (sp, w)) =
      snd (handle_event lib reg now pid Read bs complete (sp0, w))"
    unfolding fragment_http11 [OF llm] handle_http11_def Let_def prod.case ends complete_def [symmetric]
      sp0_def [symmetric] gap tail
    by (simp add: order reason drop_lost_def follow_request_def split: prod.split)
  have buffered: "buffer_event lib reg Read bs (sp0\<lparr>sp_last_activity := now\<rparr>) = (Inr True, sp1)"
    using a assms(4)
    by (auto simp: buffer_event_def buffer_read_def sp0_def sp1_def appended_def reads_at_def Let_def)
  have "handle_event lib reg now pid Read bs complete (sp0, w) =
      handle_response lib reg now pid complete t Http11_Parser (sp1, w)"
    using a buffered by (auto simp: handle_event_def sp1_def sp0_def appended_def reads_at_def)
  then show ?thesis by (simp add: step sp1_def complete_def)
qed

lemma opens_status_prefix: "opens_status (bs @ rest) \<Longrightarrow> opens_status bs"
proof (cases "\<exists>b \<in> set bs. b \<noteq> 0x0D \<and> b \<noteq> 0x0A")
  case True
  assume "opens_status (bs @ rest)"
  moreover from True obtain b where "b \<in> set bs" "\<not> (b = 0x0D \<or> b = 0x0A)" by blast
  then have "skip_empty_lines (bs @ rest) = skip_empty_lines bs @ rest"
    unfolding skip_empty_lines_def by (rule dropWhile_append1)
  ultimately show ?thesis
    by (auto simp: opens_status_def starts_with_iff take_append dest!: append_eq_conv_conj [THEN iffD1] intro: exI)
next
  case False
  then have "skip_empty_lines bs = []" by (auto simp: skip_empty_lines_def)
  then show ?thesis by (simp add: opens_status_def starts_with_def)
qed

definition deliver ::
  "libs \<Rightarrow> registry \<Rightarrow> nat \<Rightarrow> u32 \<Rightarrow> (event_header \<times> bytes) list \<Rightarrow> processor \<times> world \<Rightarrow> processor \<times> world" where
  "deliver lib reg now pid rs pw =
     fold (\<lambda>(h, bs) pw. snd (handle_fragment lib reg now pid (dir_from (h_rw h)) bs (h_offset h) (h_len h)
       (h_truncated h \<noteq> 0) pw)) rs pw"

lemma deliver_records:
  assumes "records_cut at len rs" and "reads_at t buf at sp" and "rs \<noteq> []" and "unat len \<le> capture_limit Read"
    and "at = 0 \<Longrightarrow> (case sp_state sp of Processing_Request _ _ \<Rightarrow> opens_status (concat (map snd rs)) | _ \<Rightarrow> True)"
    and "length buf + length (concat (map snd rs)) \<le> MAX_RESPONSE_BUFFER_SIZE"
  shows "deliver lib reg now pid rs (sp, w) =
    snd (handle_response lib reg now pid True t Http11_Parser (appended now 0 (concat (map snd rs)) sp, w))"
  using assms
proof (induction rs arbitrary: at buf sp)
  case (Cons r rs)
  obtain h bs where r: "r = (h, bs)" by fastforce
  have h: "h_offset h = of_nat at" "h_len h = len" "h_truncated h = 0" "dir_from (h_rw h) = Read"
    and cut: "records_cut (at + length bs) len rs"
    using Cons.prems(1) r by simp_all
  have total: "at + length bs + length (concat (map snd rs)) = unat len" using records_cut_total [OF cut] .
  have size: "at + length bs < 2 ^ 32" proof -
    have "unat len < 2 ^ 32" using unsigned_less [of len] by simp
    then show ?thesis using total by simp
  qed
  have opens: "at = 0 \<Longrightarrow> (case sp_state sp of Processing_Request _ _ \<Rightarrow> opens_status bs | _ \<Rightarrow> True)"
    using Cons.prems(5) r opens_status_prefix by (auto split: processor_state.splits)
  have fits: "length buf + length bs \<le> MAX_RESPONSE_BUFFER_SIZE" using Cons.prems(6) r by simp
  note step = fragment_read [OF Cons.prems(2) size opens fits, of lib reg now pid len w]
  have "fragment_end (of_nat at) bs = of_nat (at + length bs)"
    using size by (simp add: fragment_end_def Let_def unat_of_nat)
  then have complete: "fragment_complete Read (of_nat at) bs len \<longleftrightarrow> unat len \<le> at + length bs"
    using Cons.prems(4) size by (simp add: fragment_complete_def unat_of_nat del: of_nat_add)
  show ?case
  proof (cases rs)
    case Nil
    then show ?thesis using step complete total r h by (simp add: deliver_def)
  next
    case (Cons r' rs')
    then have "concat (map snd rs) \<noteq> []" using cut by (cases r') auto
    then have "0 < length (concat (map snd rs))" by (simp only: length_greater_0_conv not_False_eq_True)
    then have "\<not> unat len \<le> at + length bs" using total by linarith
    define sp1 where "sp1 = (appended now (at + length bs) bs sp)\<lparr>sp_state := Processing_Response t Http11_Parser\<rparr>"
    have "snd (handle_fragment lib reg now pid Read bs (of_nat at) len False (sp, w)) = (sp1, w)"
      using step complete \<open>\<not> unat len \<le> at + length bs\<close> by (simp add: handle_response_def sp1_def)
    then have run: "deliver lib reg now pid (r # rs) (sp, w) = deliver lib reg now pid rs (sp1, w)"
      using r h by (simp add: deliver_def)
    have "reads_at t (buf @ bs) (at + length bs) sp1"
      using Cons.prems(2) by (simp add: reads_at_def sp1_def appended_def)
    from Cons.IH [OF cut this _ Cons.prems(4)]
    have "deliver lib reg now pid rs (sp1, w) =
        snd (handle_response lib reg now pid True t Http11_Parser (appended now 0 (concat (map snd rs)) sp1, w))"
      using Cons Cons.prems(6) r by (simp add: sp1_def)
    also have "appended now 0 (concat (map snd rs)) sp1 =
        (appended now 0 (concat (map snd (r # rs))) sp)\<lparr>sp_state := Processing_Response t Http11_Parser\<rparr>"
      using r by (simp add: sp1_def appended_def)
    finally show ?thesis unfolding run handle_response_state .
  qed
qed simp

section \<open>From the probe to the stream\<close>

lemma records_due_covers:
  assumes "unat (c_len call) \<le> capture_limit Read" and "i < records_due call (capture_limit Read)"
  shows "i < MAX_SSL_FRAGMENTS \<and> (i = 0 \<or> i * 4096 < unat (c_len call))"
proof -
  have "i < length (takeWhile (fragment_due call (capture_limit Read)) [0..<MAX_SSL_FRAGMENTS])"
    using assms(2) by (simp add: records_due_def)
  moreover from this have "fragment_due call (capture_limit Read) (takeWhile (fragment_due call (capture_limit Read)) [0..<MAX_SSL_FRAGMENTS] ! i)"
    by (meson nth_mem set_takeWhileD)
  moreover have "takeWhile (fragment_due call (capture_limit Read)) [0..<MAX_SSL_FRAGMENTS] ! i = [0..<MAX_SSL_FRAGMENTS] ! i"
    using calculation(1) by (rule takeWhile_nth)
  moreover have "i < MAX_SSL_FRAGMENTS"
    using calculation(1) length_takeWhile_le [of "fragment_due call (capture_limit Read)" "[0..<MAX_SSL_FRAGMENTS]"] by simp
  ultimately show ?thesis by (auto simp: fragment_due_def MAX_SSL_BUF_SIZE_def)
qed

lemma records_due_enough:
  assumes "unat (c_len call) \<le> capture_limit Read"
  shows "unat (c_len call) \<le> records_due call (capture_limit Read) * 4096"
proof -
  have four: "[0..<MAX_SSL_FRAGMENTS] = [0, 1, 2, 3]" by (simp add: MAX_SSL_FRAGMENTS_def upt_rec)
  show ?thesis
    using assms unfolding records_due_def four
    by (auto simp: fragment_due_def capture_limit_def MAX_SSL_CAPTURE_def MAX_SSL_FRAGMENTS_def MAX_SSL_BUF_SIZE_def)
qed

lemma captured_records:
  assumes "call_reads env call data" and "unat (c_len call) \<le> capture_limit Read" and "data \<noteq> []"
    and "\<And>ring n. e_room env ring n"
  defines "rs \<equiv> map (fragment_record env call (dir_u8 Read) False 0) [0..<records_due call (capture_limit Read)]"
  shows "k_ring (emit_fragments env call (dir_u8 Read) False k) = k_ring k @ rs"
    and "concat (map snd rs) = data" and "records_cut 0 (c_len call) rs"
proof -
  define due where "due = records_due call (capture_limit Read)"
  have len: "length data = unat (c_len call)" using assms(1) by (auto simp: call_reads_def dest: read_user_length)
  have le: "due \<le> MAX_SSL_FRAGMENTS"
    using length_takeWhile_le [of "fragment_due call (capture_limit Read)" "[0..<MAX_SSL_FRAGMENTS]"]
    by (simp add: due_def records_due_def)
  have payload: "fragment_payload env call i = Some (take 4096 (drop (i * 4096) data))" if "i < MAX_SSL_FRAGMENTS" for i
    by (rule fragment_payload_slice [OF assms(1) that])
  obtain n where n: "n \<le> due"
    "k_ring (emit_loop env call (dir_u8 Read) False 0 (capture_limit Read) [0..<MAX_SSL_FRAGMENTS] k) =
       k_ring k @ map (fragment_record env call (dir_u8 Read) False 0) (take n [0..<MAX_SSL_FRAGMENTS])"
    "n = due \<or> fragment_sendable env call ([0..<MAX_SSL_FRAGMENTS] ! n)
        (k_ring k @ map (fragment_record env call (dir_u8 Read) False 0) (take n [0..<MAX_SSL_FRAGMENTS])) = False"
    using emit_loop_ring [of call "capture_limit Read" "[0..<MAX_SSL_FRAGMENTS]" env "dir_u8 Read" False 0 k]
    unfolding due_def records_due_def by blast
  have "n = due"
  proof (rule ccontr)
    assume "n \<noteq> due"
    then have "n < MAX_SSL_FRAGMENTS" using n(1) le by linarith
    then show False using n(3) \<open>n \<noteq> due\<close> assms(4) payload [of n] by (simp add: fragment_sendable_def)
  qed
  then show "k_ring (emit_fragments env call (dir_u8 Read) False k) = k_ring k @ rs"
    using n(2) le assms(2) by (simp add: emit_fragments_def Let_def rs_def due_def take_fragments)
  have snds: "map snd rs = map (\<lambda>i. take 4096 (drop (i * 4096) data)) [0..<due]"
    using le by (auto simp: rs_def due_def fragment_record_def payload Let_def)
  show "concat (map snd rs) = data"
    unfolding snds concat_slices using records_due_enough [OF assms(2)] len by (simp add: due_def)
  have some: "0 < due" using records_due_enough [OF assms(2)] len assms(3) by (cases "due = 0") (simp_all add: due_def)
  have "records_cut (i * 4096) (c_len call) (map (fragment_record env call (dir_u8 Read) False 0) [i..<due])"
    if "i < due" for i
    using that
  proof (induction "due - i" arbitrary: i)
    case (Suc m)
    have i: "i < MAX_SSL_FRAGMENTS" "i * 4096 < length data"
      using records_due_covers [OF assms(2), of i] Suc.prems length_greater_0_conv [of data] assms(3) len
      by (auto simp: due_def)
    define r where "r = fragment_record env call (dir_u8 Read) False 0 i"
    have r: "h_offset (fst r) = of_nat (i * 4096)" "h_len (fst r) = c_len call" "h_truncated (fst r) = 0"
      "dir_from (h_rw (fst r)) = Read" "snd r = take 4096 (drop (i * 4096) data)"
      using payload [OF i(1)]
      by (simp_all add: r_def fragment_record_def fill_header_def frag_off_def MAX_SSL_BUF_SIZE_def Let_def)
    have "[i..<due] = i # [Suc i..<due]" using Suc.prems by (rule upt_conv_Cons)
    then have split: "map (fragment_record env call (dir_u8 Read) False 0) [i..<due] =
        (fst r, snd r) # map (fragment_record env call (dir_u8 Read) False 0) [Suc i..<due]"
      by (simp add: r_def)
    show ?case
    proof (cases "Suc i < due")
      case True
      then have "Suc i * 4096 < length data"
        using records_due_covers [OF assms(2), of "Suc i"] len by (simp add: due_def)
      then have at: "i * 4096 + length (snd r) = Suc i * 4096" using r(5) by simp
      have "m = due - Suc i" using Suc.hyps(2) by simp
      from Suc.hyps(1) [OF this True]
      have "records_cut (i * 4096 + length (snd r)) (c_len call)
          (map (fragment_record env call (dir_u8 Read) False 0) [Suc i..<due])" by (simp only: at)
      moreover have "snd r \<noteq> []" using r(5) i(2) by simp
      ultimately show ?thesis unfolding split records_cut.simps using r(1-4) by (intro conjI)
    next
      case False
      then have "Suc i = due" using Suc.prems by simp
      then have "length data \<le> Suc i * 4096" using records_due_enough [OF assms(2)] len by (simp add: due_def)
      then have "i * 4096 + length (snd r) = unat (c_len call)" using i(2) r(5) len by simp
      moreover have "snd r \<noteq> []" using r(5) i(2) by simp
      ultimately show ?thesis unfolding split records_cut.simps using r(1-4) \<open>Suc i = due\<close> by (intro conjI) simp_all
    qed
  qed simp
  from this [OF some] show "records_cut 0 (c_len call) rs" by (simp add: rs_def due_def)
qed

definition call_key :: "ssl_call \<Rightarrow> stream_key" where
  "call_key call = (m_pid (c_metadata call), c_ssl call)"

text \<open>Each record of a read goes through the filter unread and to the stream of its connection.\<close>

lemma read_event:
  assumes "h_handshake h = 0" and "h_closed h = 0" and "dir_from (h_rw h) = Read" and "bs \<noteq> []"
    and "map_of (ag_streams ag) (stream_key h) = Some sp"
  shows "on_ssl_event lib reg now h bs ag =
    (case snd (handle_fragment lib reg now (fst (stream_key h)) Read bs (h_offset h) (h_len h) (h_truncated h \<noteq> 0)
        (sp, ag_world ag)) of
       (sp', w') \<Rightarrow> ag\<lparr>ag_streams := put_key (stream_key h) sp' (ag_streams ag), ag_world := w'\<rparr>)"
  using assms
  by (simp add: on_ssl_event_def skip_if_foreign_def opens_foreign_request_def route_event_def stream_key_def Let_def
      split: prod.split)

lemma put_key_put_key: "put_key k a (put_key k b m) = put_key k a m"
  by (induction k b m rule: put_key.induct) auto

lemma put_key_same: "map_of m k = Some v \<Longrightarrow> put_key k v m = m"
  by (induction k v m rule: put_key.induct) (auto split: if_splits)

lemma deliver_events:
  assumes "list_all (\<lambda>(h, bs). h_handshake h = 0 \<and> h_closed h = 0 \<and> dir_from (h_rw h) = Read \<and> bs \<noteq> [] \<and>
      stream_key h = key) rs"
    and "map_of (ag_streams ag) key = Some sp"
  shows "fold (\<lambda>(h, bs). on_ssl_event lib reg now h bs) rs ag =
    (case deliver lib reg now (fst key) rs (sp, ag_world ag) of
       (sp', w') \<Rightarrow> ag\<lparr>ag_streams := put_key key sp' (ag_streams ag), ag_world := w'\<rparr>)"
  using assms
proof (induction rs arbitrary: ag sp)
  case Nil
  then show ?case by (simp add: deliver_def put_key_same)
next
  case (Cons r rs)
  obtain h bs where r: "r = (h, bs)" by fastforce
  have h: "h_handshake h = 0" "h_closed h = 0" "dir_from (h_rw h) = Read" "bs \<noteq> []" "stream_key h = key"
    using Cons.prems(1) r by simp_all
  obtain sp' w' where step: "snd (handle_fragment lib reg now (fst key) Read bs (h_offset h) (h_len h) (h_truncated h \<noteq> 0)
      (sp, ag_world ag)) = (sp', w')"
    by fastforce
  define ag' where "ag' = ag\<lparr>ag_streams := put_key key sp' (ag_streams ag), ag_world := w'\<rparr>"
  have "on_ssl_event lib reg now h bs ag = ag'"
    using read_event [OF h(1-4), of ag sp] Cons.prems(2) h(5) step by (simp add: ag'_def)
  moreover have "map_of (ag_streams ag') key = Some sp'" by (simp add: ag'_def)
  ultimately show ?case
    using Cons.IH [of ag' sp'] Cons.prems(1) r h step
    by (simp add: deliver_def ag'_def put_key_put_key split: prod.split)
qed



end
