(* ===== verification/Attach.thy ===== *)
theory Attach
  imports Rust_Text "HOL-Library.Sublist"
begin

text \<open>
  Attaching the SSL probes to one file (agent, llm/mod.rs). Whether the kernel takes the \<open>n\<close>-th attempt to
  attach a uprobe and whether it lets a link go are parameters; a link is named by the number of the attempt
  that made it.
\<close>

section \<open>Links\<close>

record uprobes =
  up_tries :: nat
  up_links :: "(nat \<times> str \<times> u64) list"

definition try_attach :: "(nat \<Rightarrow> bool) \<Rightarrow> str \<Rightarrow> u64 \<Rightarrow> uprobes \<Rightarrow> nat option \<times> uprobes" where
  "try_attach takes prog off st =
     (let n = up_tries st; st = st\<lparr>up_tries := Suc n\<rparr> in
      if takes n then (Some n, st\<lparr>up_links := up_links st @ [(n, prog, off)]\<rparr>) else (None, st))"

definition detach_link :: "(nat \<Rightarrow> bool) \<Rightarrow> nat \<Rightarrow> uprobes \<Rightarrow> uprobes" where
  "detach_link frees link st =
     (if frees link then st\<lparr>up_links := filter (\<lambda>(l, _). l \<noteq> link) (up_links st)\<rparr> else st)"

section \<open>Probe tables\<close>

definition REQUIRED_PROBES :: "(str \<times> str \<times> str) list" where
  "REQUIRED_PROBES =
     [(''probe_ssl_rw_enter'', ''probe_ssl_read_exit'', ''SSL_read''),
      (''probe_ssl_rw_enter'', ''probe_ssl_write_exit'', ''SSL_write'')]"

definition OPTIONAL_PROBES :: "(str \<times> str \<times> str) list" where
  "OPTIONAL_PROBES =
     [(''probe_ssl_do_handshake_enter'', ''probe_ssl_do_handshake_exit'', ''SSL_do_handshake''),
      (''probe_ssl_rw_ex_enter'', ''probe_ssl_write_ex_exit'', ''SSL_write_ex''),
      (''probe_ssl_rw_ex_enter'', ''probe_ssl_read_ex_exit'', ''SSL_read_ex'')]"

definition CLOSE_PROBE :: "str \<times> str" where
  "CLOSE_PROBE = (''probe_ssl_free'', ''SSL_free'')"

section \<open>Attaching\<close>

fun roll_back :: "(nat \<Rightarrow> bool) \<Rightarrow> nat list \<Rightarrow> uprobes \<Rightarrow> uprobes" where
  "roll_back frees [] st = st"
| "roll_back frees (link # links) st = roll_back frees links (detach_link frees link st)"

text \<open>The required programs still to attach, after the links \<open>attached\<close>; any failure rolls them all back.\<close>

fun attach_required :: "(nat \<Rightarrow> bool) \<Rightarrow> (nat \<Rightarrow> bool) \<Rightarrow> (str \<times> u64) list \<Rightarrow> nat list \<Rightarrow> uprobes \<Rightarrow> bool \<times> uprobes" where
  "attach_required takes frees [] attached st = (True, st)"
| "attach_required takes frees ((prog, off) # progs) attached st =
     (case try_attach takes prog off st of
        (Some link, st) \<Rightarrow> attach_required takes frees progs (attached @ [link]) st
      | (None, st) \<Rightarrow> (False, roll_back frees attached st))"

fun attach_optional :: "(nat \<Rightarrow> bool) \<Rightarrow> (nat \<Rightarrow> bool) \<Rightarrow> (str \<rightharpoonup> u64) \<Rightarrow> (str \<times> str \<times> str) list \<Rightarrow> uprobes \<Rightarrow> uprobes" where
  "attach_optional takes frees offsets [] st = st"
| "attach_optional takes frees offsets ((enter, exit, func) # probes) st =
     attach_optional takes frees offsets probes
       (case offsets func of
          None \<Rightarrow> st
        | Some off \<Rightarrow>
            (case try_attach takes enter off st of
               (None, st) \<Rightarrow> st
             | (Some link, st) \<Rightarrow>
                 (case try_attach takes exit off st of
                    (Some _, st) \<Rightarrow> st
                  | (None, st) \<Rightarrow> detach_link frees link st)))"

definition attach_close :: "(nat \<Rightarrow> bool) \<Rightarrow> (str \<rightharpoonup> u64) \<Rightarrow> uprobes \<Rightarrow> uprobes" where
  "attach_close takes offsets st =
     (case CLOSE_PROBE of (prog, func) \<Rightarrow>
        (case offsets func of None \<Rightarrow> st | Some off \<Rightarrow> snd (try_attach takes prog off st)))"

definition required_programs :: "(str \<rightharpoonup> u64) \<Rightarrow> (str \<times> u64) list option" where
  "required_programs offsets =
     (if list_all (\<lambda>(_, _, func). offsets func \<noteq> None) REQUIRED_PROBES
      then Some (concat (map (\<lambda>(enter, exit, func). [(enter, the (offsets func)), (exit, the (offsets func))])
        REQUIRED_PROBES))
      else None)"

text \<open>\<open>offsets\<close> is what reading the file's symbols gave: nothing when it failed. The result is nothing for
  an error, else whether the file was probed.\<close>

definition attach_probes_to_path ::
  "(nat \<Rightarrow> bool) \<Rightarrow> (nat \<Rightarrow> bool) \<Rightarrow> (str \<rightharpoonup> u64) option \<Rightarrow> uprobes \<Rightarrow> bool option \<times> uprobes" where
  "attach_probes_to_path takes frees symbols st =
     (case symbols of
        None \<Rightarrow> (None, st)
      | Some offsets \<Rightarrow>
          (case required_programs offsets of
             None \<Rightarrow> (Some False, st)
           | Some progs \<Rightarrow>
               (case attach_required takes frees progs [] st of
                  (False, st) \<Rightarrow> (None, st)
                | (True, st) \<Rightarrow>
                    (Some True, attach_close takes offsets (attach_optional takes frees offsets OPTIONAL_PROBES st)))))"

section \<open>All or nothing\<close>

definition links_known :: "uprobes \<Rightarrow> bool" where
  "links_known st \<longleftrightarrow> list_all (\<lambda>(l, _). l < up_tries st) (up_links st)"

text \<open>What the links added since \<open>st\<close> probe.\<close>

definition probed :: "uprobes \<Rightarrow> uprobes \<Rightarrow> (str \<times> u64) list \<Rightarrow> bool" where
  "probed st st' ps \<longleftrightarrow>
     (\<exists>new. up_links st' = up_links st @ new \<and> map snd new = ps \<and> list_all (\<lambda>(l, _). up_tries st \<le> l \<and> l < up_tries st') new) \<and>
     up_tries st \<le> up_tries st' \<and> links_known st'"

lemma probed_refl: "links_known st \<Longrightarrow> probed st st []"
  by (simp add: probed_def)

lemma probed_trans:
  assumes "probed st st' ps" and "probed st' st'' qs"
  shows "probed st st'' (ps @ qs)"
proof -
  from assms(1) obtain xs where xs: "up_links st' = up_links st @ xs" "map snd xs = ps"
    "list_all (\<lambda>(l, _). up_tries st \<le> l \<and> l < up_tries st') xs" "up_tries st \<le> up_tries st'"
    by (auto simp: probed_def)
  from assms(2) obtain ys where ys: "up_links st'' = up_links st' @ ys" "map snd ys = qs"
    "list_all (\<lambda>(l, _). up_tries st' \<le> l \<and> l < up_tries st'') ys" "up_tries st' \<le> up_tries st''" "links_known st''"
    by (auto simp: probed_def)
  have "list_all (\<lambda>(l, _). up_tries st \<le> l \<and> l < up_tries st'') (xs @ ys)"
    using xs(3,4) ys(3,4) by (fastforce simp: list_all_iff)
  then show ?thesis using xs ys by (auto simp: probed_def intro!: exI [of _ "xs @ ys"])
qed

lemma probed_none: "probed st st' ps \<Longrightarrow> probed st' st'' [] \<Longrightarrow> probed st st'' ps"
  using probed_trans [of st st' ps st'' "[]"] by simp

lemma probed_known: "probed st st' ps \<Longrightarrow> links_known st'"
  by (simp add: probed_def)

lemma try_attach_probed:
  assumes "links_known st"
  shows "case try_attach takes prog off st of
     (None, st') \<Rightarrow> probed st st' []
   | (Some l, st') \<Rightarrow> l = up_tries st \<and> probed st st' [(prog, off)]"
  using assms by (auto simp: try_attach_def probed_def links_known_def list_all_iff Let_def)

text \<open>Undoing what was attached since \<open>st\<close>, when detaching works.\<close>

lemma roll_back_links:
  "(\<forall>n. frees n) \<Longrightarrow>
     up_links (roll_back frees links st) = filter (\<lambda>(l, _). l \<notin> set links) (up_links st) \<and>
     up_tries (roll_back frees links st) = up_tries st"
proof (induction links arbitrary: st)
  case (Cons link links)
  then show ?case by (auto simp: detach_link_def case_prod_beta intro: filter_cong)
qed (simp add: case_prod_beta)

lemma filter_since:
  assumes "probed st st' ps" and "links_known st"
    and "set (map fst (drop (length (up_links st)) (up_links st'))) \<subseteq> set links" and "\<forall>l \<in> set links. up_tries st \<le> l"
  shows "filter (\<lambda>(l, _). l \<notin> set links) (up_links st') = up_links st"
proof -
  from assms(1) obtain xs where xs: "up_links st' = up_links st @ xs" by (auto simp: probed_def)
  have "filter (\<lambda>(l, _). l \<notin> set links) xs = []" using assms(3) xs by (auto simp: filter_empty_conv)
  moreover have "filter (\<lambda>(l, _). l \<notin> set links) (up_links st) = up_links st"
    using assms(2,4) by (force simp: links_known_def list_all_iff intro!: filter_True)
  ultimately show ?thesis by (simp add: xs)
qed

lemma attach_required_facts:
  assumes "\<forall>n. frees n" and "links_known st0" and "probed st0 st ps"
    and "set (map fst (drop (length (up_links st0)) (up_links st))) \<subseteq> set attached" and "\<forall>l \<in> set attached. up_tries st0 \<le> l"
  shows "case attach_required takes frees progs attached st of
     (True, st') \<Rightarrow> probed st0 st' (ps @ progs)
   | (False, st') \<Rightarrow> up_links st' = up_links st0 \<and> links_known st'"
  using assms(3-)
proof (induction progs arbitrary: attached st ps)
  case (Cons po progs)
  obtain prog off where po: "po = (prog, off)" by fastforce
  note step = try_attach_probed [OF probed_known [OF Cons.prems(1)], where takes = takes and prog = prog and off = off]
  show ?case
  proof (cases "try_attach takes prog off st")
    case (Pair l st1)
    show ?thesis
    proof (cases l)
      case None
      then have p: "probed st0 st1 ps" using step Pair probed_none [OF Cons.prems(1)] by simp
      have "up_links st1 = up_links st"
        using Pair None by (auto simp: try_attach_def Let_def split: if_splits)
      then have "filter (\<lambda>(l, _). l \<notin> set attached) (up_links st1) = up_links st0"
        using filter_since [OF p assms(2), where links = attached] Cons.prems(2,3) by simp
      moreover have "up_tries st0 \<le> up_tries st1" using p by (simp add: probed_def)
      ultimately show ?thesis
        using Pair None po roll_back_links [OF assms(1), where links = attached and st = st1] assms(2)
        by (auto simp: links_known_def list_all_iff)
    next
      case (Some link)
      then have p: "probed st0 st1 (ps @ [(prog, off)])" and "link = up_tries st"
        using step Pair probed_trans [OF Cons.prems(1)] by simp_all
      moreover have "up_links st1 = up_links st @ [(link, prog, off)]"
        using Pair Some by (auto simp: try_attach_def Let_def split: if_splits)
      moreover obtain xs where "up_links st = up_links st0 @ xs" "up_tries st0 \<le> up_tries st"
        using Cons.prems(1) by (auto simp: probed_def)
      ultimately have "set (map fst (drop (length (up_links st0)) (up_links st1))) \<subseteq> set (attached @ [link])"
        "\<forall>l \<in> set (attached @ [link]). up_tries st0 \<le> l"
        using Cons.prems(2,3) by auto
      from Cons.IH [OF p this, unfolded append_assoc append_Cons append_Nil] Pair Some show ?thesis unfolding po by simp
    qed
  qed
qed simp

text \<open>The programs of the probes chosen, entry and return together.\<close>

definition pairs :: "(str \<rightharpoonup> u64) \<Rightarrow> (str \<times> str \<times> str) list \<Rightarrow> (str \<times> u64) list" where
  "pairs offsets probes =
     concat (map (\<lambda>(enter, exit, func). [(enter, the (offsets func)), (exit, the (offsets func))]) probes)"

lemma pairs_simps [simp]:
  "pairs offsets [] = []"
  "pairs offsets ((enter, exit, func) # probes) =
     (enter, the (offsets func)) # (exit, the (offsets func)) # pairs offsets probes"
  "pairs offsets (ps @ qs) = pairs offsets ps @ pairs offsets qs"
  by (simp_all add: pairs_def)

lemma attach_pair:
  assumes "\<forall>n. frees n" and "links_known st"
    and "st' = (case try_attach takes enter off st of
      (None, st) \<Rightarrow> st
    | (Some link, st) \<Rightarrow>
        (case try_attach takes exit off st of (Some _, st) \<Rightarrow> st | (None, st) \<Rightarrow> detach_link frees link st))"
  shows "probed st st' [] \<or> probed st st' [(enter, off), (exit, off)]"
  using assms(1,2) unfolding assms(3)
  by (auto simp: try_attach_def detach_link_def probed_def links_known_def list_all_iff Let_def intro!: filter_True)

lemma attach_optional_facts:
  assumes "\<forall>n. frees n" and "probed st0 st ps"
  shows "\<exists>chosen. subseq chosen probes \<and>
    probed st0 (attach_optional takes frees offsets probes st) (ps @ pairs offsets chosen)"
  using assms(2)
proof (induction probes arbitrary: st ps)
  case (Cons eef probes)
  obtain enter exit func where eef: "eef = (enter, exit, func)" by (rule prod_cases3)
  show ?case
  proof (cases "offsets func")
    case None
    then show ?thesis using Cons.IH [OF Cons.prems] by (auto simp: eef)
  next
    case (Some off)
    define st1 where "st1 = (case try_attach takes enter off st of
        (None, st) \<Rightarrow> st
      | (Some link, st) \<Rightarrow>
          (case try_attach takes exit off st of (Some _, st) \<Rightarrow> st | (None, st) \<Rightarrow> detach_link frees link st))"
    have run: "attach_optional takes frees offsets (eef # probes) st = attach_optional takes frees offsets probes st1"
      by (simp add: eef Some st1_def)
    have "probed st st1 [] \<or> probed st st1 [(enter, off), (exit, off)]"
      by (rule attach_pair [OF assms(1) probed_known [OF Cons.prems] st1_def])
    then consider "probed st0 st1 ps" | "probed st0 st1 (ps @ [(enter, off), (exit, off)])"
      using probed_trans [OF Cons.prems] by fastforce
    then show ?thesis
    proof cases
      case 1
      from Cons.IH [OF this] show ?thesis unfolding run by (auto simp: eef)
    next
      case 2
      from Cons.IH [OF this] obtain chosen where "subseq chosen probes"
        "probed st0 (attach_optional takes frees offsets probes st1) ((ps @ [(enter, off), (exit, off)]) @ pairs offsets chosen)"
        by blast
      then show ?thesis unfolding run by (intro exI [of _ "eef # chosen"]) (simp add: eef Some)
    qed
  qed
qed auto

lemma attach_close_facts:
  assumes "probed st0 st ps"
  shows "\<exists>close. probed st0 (attach_close takes offsets st) (ps @ close) \<and>
    (close = [] \<or> close = [(fst CLOSE_PROBE, the (offsets (snd CLOSE_PROBE)))])"
proof (cases "offsets ''SSL_free''")
  case None
  then show ?thesis using assms by (intro exI [of _ "[]"]) (simp add: attach_close_def CLOSE_PROBE_def)
next
  case (Some off)
  obtain l st1 where step: "try_attach takes ''probe_ssl_free'' off st = (l, st1)" by fastforce
  have "case l of None \<Rightarrow> probed st st1 [] | Some _ \<Rightarrow> probed st st1 [(''probe_ssl_free'', off)]"
    using try_attach_probed [OF probed_known [OF assms], where takes = takes and prog = "''probe_ssl_free''" and off = off] step
    by (auto split: option.splits)
  then have "probed st0 st1 ps \<or> probed st0 st1 (ps @ [(''probe_ssl_free'', off)])"
    using probed_trans [OF assms] probed_none [OF assms] by (cases l) auto
  then have "\<exists>close. probed st0 st1 (ps @ close) \<and> (close = [] \<or> close = [(''probe_ssl_free'', off)])"
    by (metis append_Nil2)
  then show ?thesis using Some step by (simp add: attach_close_def CLOSE_PROBE_def)
qed



end
