(* ===== verification/Split_Text.thy ===== *)
theory Split_Text
  imports Rust_Text
begin

text \<open>Rust's splitting of text at characters, on both sides, as the prices, endpoints and pods use it.\<close>

section \<open>Pieces\<close>

text \<open>\<open>str::split\<close> at a character.\<close>

fun split_on :: "char \<Rightarrow> str \<Rightarrow> str list" where
  "split_on sep [] = [[]]"
| "split_on sep (c # cs) =
     (if c = sep then [] # split_on sep cs
      else (case split_on sep cs of [] \<Rightarrow> [[c]] | l # ls \<Rightarrow> (c # l) # ls))"

text \<open>\<open>rsplit(c).next()\<close>: what follows the last \<open>c\<close>.\<close>

definition last_piece :: "char \<Rightarrow> str \<Rightarrow> str" where
  "last_piece c s = rev (takeWhile (\<lambda>x. x \<noteq> c) (rev s))"

text \<open>What follows the first \<open>c\<close>; twice is \<open>splitn(3, c).nth(2)\<close>.\<close>

definition after_char :: "char \<Rightarrow> str \<Rightarrow> str option" where
  "after_char c s = map_option snd (split_once c s)"

text \<open>\<open>rsplit(p).next()\<close> for a pattern of several characters.\<close>

fun after_last :: "str \<Rightarrow> str \<Rightarrow> str option" where
  "after_last p [] = None"
| "after_last p (c # cs) =
     (case after_last p cs of
        Some rest \<Rightarrow> Some rest
      | None \<Rightarrow> if starts_with (c # cs) p then Some (drop (length p) (c # cs)) else None)"

definition last_piece_of :: "str \<Rightarrow> str \<Rightarrow> str" where
  "last_piece_of p s = (case after_last p s of None \<Rightarrow> s | Some rest \<Rightarrow> rest)"

text \<open>\<open>str::rsplit_once\<close> at the last of the given characters.\<close>

definition rsplit_once_of :: "char set \<Rightarrow> str \<Rightarrow> (str \<times> str) option" where
  "rsplit_once_of seps s =
     (case dropWhile (\<lambda>c. c \<notin> seps) (rev s) of
        [] \<Rightarrow> None
      | _ # base \<Rightarrow> Some (rev base, rev (takeWhile (\<lambda>c. c \<notin> seps) (rev s))))"

text \<open>\<open>str::trim_end_matches\<close> and \<open>str::lines\<close>.\<close>

function trim_end_matches :: "str \<Rightarrow> str \<Rightarrow> str" where
  "trim_end_matches p s =
     (if p \<noteq> [] \<and> ends_with s p \<and> s \<noteq> [] then trim_end_matches p (take (length s - length p) s) else s)"
  by auto
termination
  by (relation "measure (length \<circ> snd)") auto

definition text_lines :: "str \<Rightarrow> str list" where
  "text_lines s =
     (let ls = split_on (CHR 0x0A) s in
      map (\<lambda>l. if l \<noteq> [] \<and> last l = CHR 0x0D then butlast l else l) (butlast ls) @
      (if last ls = [] then [] else [last ls]))"

lemma white_space_found: "find P white_space = Some w \<Longrightarrow> 0 < length w"
  using white_space_nonempty by (auto simp: find_Some_iff)

text \<open>\<open>str::split_whitespace\<close>: \<open>word\<close> is what was read of the current word.\<close>

function words_from :: "str \<Rightarrow> str \<Rightarrow> str list" where
  "words_from word [] = (if word = [] then [] else [word])"
| "words_from word (c # cs) =
     (case find (starts_with (c # cs)) white_space of
        None \<Rightarrow> words_from (word @ [c]) cs
      | Some w \<Rightarrow> (if word = [] then [] else [word]) @ words_from [] (drop (length w) (c # cs)))"
  by pat_completeness auto
termination
  by (relation "measure (length \<circ> snd)")
    (auto dest: white_space_found)

definition split_whitespace :: "str \<Rightarrow> str list" where
  "split_whitespace s = words_from [] s"

section \<open>Character classes\<close>

definition is_digit :: "char \<Rightarrow> bool" where
  "is_digit c \<longleftrightarrow> (of_char c :: nat) \<in> {48..57}"

definition is_alnum :: "char \<Rightarrow> bool" where
  "is_alnum c \<longleftrightarrow> is_digit c \<or> (of_char c :: nat) \<in> {65..90} \<or> (of_char c :: nat) \<in> {97..122}"

definition is_hex :: "char \<Rightarrow> bool" where
  "is_hex c \<longleftrightarrow> hex_digit c \<noteq> None"

text \<open>A byte that continues a character: text is its UTF-8 bytes.\<close>

definition continues :: "char \<Rightarrow> bool" where
  "continues c \<longleftrightarrow> (of_char c :: nat) \<in> {128..191}"

section \<open>Lemmas\<close>

lemma split_on_nonempty [simp]: "split_on c s \<noteq> []"
  by (induction s) (auto split: list.split)

lemma last_piece_simple: "c \<notin> set s \<Longrightarrow> last_piece c (p @ c # s) = s"
  by (simp add: last_piece_def takeWhile_append)

end
