(* ===== verification/Prices.thy ===== *)
theory Prices
  imports Providers Rust_Map Split_Text "HOL-Library.List_Lexorder" "HOL-Library.Char_ord"
begin

text \<open>
  Prices and the cost of one call (core, pricing/). Amounts are a type of their own with the machine
  operations the code applies to them as the record \<open>float_ops\<close>, so no rounding is assumed away; dates are
  days since 1970. Reading the table's JSON and a calendar date are the libraries', so a table starts from
  the fields they give.
\<close>

unbundle bit_operations_syntax

section \<open>Rates\<close>

record 'f float_ops =
  fo_of_nat :: "nat \<Rightarrow> 'f"
  fo_times :: "'f \<Rightarrow> 'f \<Rightarrow> 'f"
  fo_divide :: "'f \<Rightarrow> 'f \<Rightarrow> 'f"
  fo_plus :: "'f \<Rightarrow> 'f \<Rightarrow> 'f"
  fo_minus :: "'f \<Rightarrow> 'f \<Rightarrow> 'f"
  fo_max :: "'f \<Rightarrow> 'f \<Rightarrow> 'f"
  fo_le :: "'f \<Rightarrow> 'f \<Rightarrow> bool"
  fo_less :: "'f \<Rightarrow> 'f \<Rightarrow> bool"
  fo_positive_sign :: "'f \<Rightarrow> bool"

text \<open>Prices in USD per million tokens.\<close>

datatype 'f rates = Rates
  (r_input: "'f option") (r_output: "'f option") (r_cache_read: "'f option") (r_cache_write: "'f option")
  (r_cache_write_long: "'f option") (r_above_tokens: "nat option") (r_above: "'f rates option")
  (r_until: "nat option") (r_then: "'f rates option")

datatype unpriced = UnknownModel | MissingPrice | UnsupportedModifier | InconsistentUsage

fun rates_on :: "nat \<Rightarrow> 'f rates \<Rightarrow> unpriced + 'f rates" where
  "rates_on day (Rates i out cr cw cwl at ab (Some until) then_rates) =
     (if day > until
      then (case then_rates of None \<Rightarrow> Inl MissingPrice | Some r \<Rightarrow> rates_on day r)
      else Inr (Rates i out cr cw cwl at ab (Some until) then_rates))"
| "rates_on day (Rates i out cr cw cwl at ab None then_rates) = Inr (Rates i out cr cw cwl at ab None then_rates)"

definition price_fields :: "'f rates \<Rightarrow> 'f option list" where
  "price_fields r = [r_input r, r_output r, r_cache_read r, r_cache_write r, r_cache_write_long r]"

text \<open>Why a table's prices cannot be applied as written, if so.\<close>

fun rates_check :: "'f float_ops \<Rightarrow> 'f rates \<Rightarrow> str option" where
  "rates_check ops (Rates i out cr cw cwl at ab until th) =
     (if \<not> list_all (\<lambda>p. fo_positive_sign ops p \<and> fo_le ops p (fo_of_nat ops 1000000))
            (List.map_filter id [i, out, cr, cw, cwl])
      then Some ''prices must be between 0 and 1e6''
      else
        (case (case ab of
             None \<Rightarrow> None
           | Some over \<Rightarrow>
               if at = None then Some ''above needs above_tokens''
               else if r_above_tokens over \<noteq> None \<or> r_above over \<noteq> None \<or> r_until over \<noteq> None \<or> r_then over \<noteq> None
                 then Some ''above cannot have its own threshold or dates''
               else rates_check ops over) of
           Some why \<Rightarrow> Some why
         | None \<Rightarrow>
             (case th of
                None \<Rightarrow> None
              | Some next_rates \<Rightarrow>
                  (case until of
                     None \<Rightarrow> Some ''then needs until''
                   | Some u \<Rightarrow>
                       (case r_until next_rates of
                          Some next_until \<Rightarrow>
                            if next_until \<le> u then Some ''until dates must increase'' else rates_check ops next_rates
                        | None \<Rightarrow> rates_check ops next_rates)))))"

section \<open>Tables\<close>

record 'f model_prices =
  mp_provider :: str
  mp_standard :: "'f rates"
  mp_tiers :: "(str \<times> 'f rates) list"
  mp_speed :: "(str \<times> 'f) list"
  mp_geo :: "(str \<times> 'f) list"
  mp_multiplier :: 'f

record overrides =
  ov_replaced :: "str list"
  ov_added :: "str list"

type_synonym price_source = "str \<times> str \<times> str"

record 'f price_table =
  tb_version :: str
  tb_sources :: "price_source list"
  tb_models :: "(str \<times> 'f model_prices) list"
  tb_multipliers :: "(str \<times> 'f) list"

record 'f raw_provider =
  rp_name :: str
  rp_source :: str
  rp_checked :: str
  rp_models :: "(str \<times> 'f rates) list"
  rp_tiers :: "(str \<times> (str \<times> 'f rates) list) list"
  rp_speeds :: "(str \<times> (str \<times> 'f) list) list"
  rp_geos :: "(str \<times> (str \<times> 'f) list) list"
  rp_multiplier :: "'f option"

record 'f raw_table =
  rt_version :: str
  rt_providers :: "'f raw_provider list"

text \<open>What the libraries read: a table out of JSON, and the days since 1970 of a date.\<close>

record 'f price_libs =
  pl_ops :: "'f float_ops"
  pl_table :: "str \<Rightarrow> 'f raw_table option"
  pl_epoch_days :: "str \<Rightarrow> int option"

definition parse_day :: "'f price_libs \<Rightarrow> str \<Rightarrow> nat option" where
  "parse_day lib s =
     (if \<not> (list_all (\<lambda>c. c = CHR ''-'' \<or> is_digit c) s \<and> map length (split_on (CHR ''-'') s) = [4, 2, 2]) then None
      else case pl_epoch_days lib s of
        None \<Rightarrow> None
      | Some d \<Rightarrow> if 0 \<le> d \<and> d < 2 ^ 32 then Some (nat d) else None)"

definition unknown_model :: "'f raw_provider \<Rightarrow> str option" where
  "unknown_model p =
     find (\<lambda>name. map_of (rp_models p) name = None)
       (concat (map (map fst \<circ> snd) (rp_tiers p)) @ map fst (rp_speeds p) @ map fst (rp_geos p))"

definition dead_key :: "'f raw_provider \<Rightarrow> str option" where
  "dead_key p =
     (case find (\<lambda>t. t \<in> {''default'', ''auto'', ''standard'', ''fast''}) (map fst (rp_tiers p)) of
        Some t \<Rightarrow> Some t
      | None \<Rightarrow>
          (case find (\<lambda>s. s = ''standard'') (concat (map (map fst \<circ> snd) (rp_speeds p))) of
             Some s \<Rightarrow> Some s
           | None \<Rightarrow> find (\<lambda>g. g = ''global'') (concat (map (map fst \<circ> snd) (rp_geos p)))))"

fun first_some :: "('a \<Rightarrow> 'b option) \<Rightarrow> 'a list \<Rightarrow> 'b option" where
  "first_some f [] = None"
| "first_some f (x # xs) = (case f x of None \<Rightarrow> first_some f xs | Some y \<Rightarrow> Some y)"

definition provider_check :: "'f price_libs \<Rightarrow> 'f raw_provider \<Rightarrow> str option" where
  "provider_check lib p =
     (let ops = pl_ops lib in
      if parse_day lib (rp_checked p) = None then Some ''checked is not a YYYY-MM-DD date from 1970 on''
      else case unknown_model p of
        Some name \<Rightarrow> Some (name @ '' has no standard prices'')
      | None \<Rightarrow>
          (case dead_key p of
             Some key \<Rightarrow> Some (key @ '' is never looked up'')
           | None \<Rightarrow>
               (if \<not> list_all (\<lambda>f. fo_less ops (fo_of_nat ops 0) f \<and> fo_le ops f (fo_of_nat ops 100))
                     (concat (map (map snd \<circ> snd) (rp_speeds p @ rp_geos p)) @
                      (case rp_multiplier p of None \<Rightarrow> [] | Some f \<Rightarrow> [f]))
                then Some ''multipliers must be above 0 and at most 100''
                else first_some
                  (\<lambda>(name, standard).
                     map_option (\<lambda>why. name @ '': '' @ why)
                       (first_some (rates_check ops)
                          (standard # List.map_filter (\<lambda>(_, m). map_of m name) (rp_tiers p))))
                  (rp_models p))))"

datatype price_error = Bad_Json | Invalid str str

definition model_of_provider :: "'f float_ops \<Rightarrow> 'f raw_provider \<Rightarrow> str \<Rightarrow> 'f rates \<Rightarrow> 'f model_prices" where
  "model_of_provider ops p name standard =
     \<lparr>mp_provider = rp_name p, mp_standard = standard,
      mp_tiers = List.map_filter (\<lambda>(tier, m). map_option (Pair tier) (map_of m name)) (rp_tiers p),
      mp_speed = (case map_of (rp_speeds p) name of None \<Rightarrow> [] | Some m \<Rightarrow> m),
      mp_geo = (case map_of (rp_geos p) name of None \<Rightarrow> [] | Some m \<Rightarrow> m),
      mp_multiplier = fo_of_nat ops 1\<rparr>"

fun load_models ::
  "'f float_ops \<Rightarrow> 'f raw_provider \<Rightarrow> (str \<times> 'f rates) list \<Rightarrow> (str \<times> 'f model_prices) list \<Rightarrow>
     price_error + (str \<times> 'f model_prices) list" where
  "load_models ops p [] models = Inr models"
| "load_models ops p ((name, standard) # rest) models =
     (if has_key name models then Inl (Invalid (rp_name p) (name @ '' is listed twice''))
      else load_models ops p rest (put_key name (model_of_provider ops p name standard) models))"

fun load_providers ::
  "'f price_libs \<Rightarrow> 'f raw_provider list \<Rightarrow> 'f price_table \<Rightarrow> price_error + 'f price_table" where
  "load_providers lib [] tb = Inr tb"
| "load_providers lib (p # ps) tb =
     (case provider_check lib p of
        Some why \<Rightarrow> Inl (Invalid (rp_name p) why)
      | None \<Rightarrow>
          (if rp_multiplier p \<noteq> None \<and> has_key (rp_name p) (tb_multipliers tb)
           then Inl (Invalid (rp_name p) ''price_multiplier is listed twice'')
           else
             (case load_models (pl_ops lib) p (rp_models p) (tb_models tb) of
                Inl e \<Rightarrow> Inl e
              | Inr models \<Rightarrow>
                  load_providers lib ps
                    (tb\<lparr>tb_models := models, tb_sources := tb_sources tb @ [(rp_name p, rp_source p, rp_checked p)],
                       tb_multipliers := (case rp_multiplier p of
                         None \<Rightarrow> tb_multipliers tb | Some m \<Rightarrow> put_key (rp_name p) m (tb_multipliers tb))\<rparr>))))"

definition table_from_json :: "'f price_libs \<Rightarrow> str \<Rightarrow> price_error + 'f price_table" where
  "table_from_json lib json =
     (case pl_table lib json of
        None \<Rightarrow> Inl Bad_Json
      | Some raw \<Rightarrow>
          load_providers lib (rt_providers raw)
            \<lparr>tb_version = rt_version raw, tb_sources = [], tb_models = [], tb_multipliers = []\<rparr>)"

definition fnv1a :: "str \<Rightarrow> u32" where
  "fnv1a s = fold (\<lambda>b h. (h XOR ucast b) * 0x01000193) (as_bytes s) 0x811C9DC5"

definition hex8 :: "u32 \<Rightarrow> str" where
  "hex8 w = map (\<lambda>i. ''0123456789abcdef'' ! unat (drop_bit (4 * (7 - i)) w AND 0xF)) [0..<8]"

definition insert_model :: "str \<times> 'f model_prices \<Rightarrow> (str \<times> 'f model_prices) list \<times> overrides \<Rightarrow>
    (str \<times> 'f model_prices) list \<times> overrides" where
  "insert_model nm mo =
     (case (nm, mo) of ((name, prices), (models, ov)) \<Rightarrow>
        (put_key name prices models,
         if has_key name models then ov\<lparr>ov_replaced := ov_replaced ov @ [name]\<rparr>
         else ov\<lparr>ov_added := ov_added ov @ [name]\<rparr>))"

text \<open>The user's file over the table: the error, with the table as it was, or the table and what changed.\<close>

definition merge_custom ::
  "'f price_libs \<Rightarrow> str \<Rightarrow> 'f price_table \<Rightarrow> (price_error + overrides) \<times> 'f price_table" where
  "merge_custom lib json tb =
     (case table_from_json lib json of
        Inl e \<Rightarrow> (Inl e, tb)
      | Inr custom \<Rightarrow>
          (case find (\<lambda>p. p \<notin> fst ` set (tb_sources tb)) (map fst (tb_multipliers custom)) of
             Some p \<Rightarrow> (Inl (Invalid p ''price_multiplier matches no built-in provider''), tb)
           | None \<Rightarrow>
               (let models = map (\<lambda>(name, m). (name, m\<lparr>mp_multiplier :=
                      (case map_of (tb_multipliers custom) (mp_provider m) of
                         None \<Rightarrow> fo_of_nat (pl_ops lib) 1 | Some f \<Rightarrow> f)\<rparr>)) (tb_models tb);
                    (models, ov) = fold insert_model (tb_models custom) (models, \<lparr>ov_replaced = [], ov_added = []\<rparr>)
                in (Inr \<lparr>ov_replaced = sort (ov_replaced ov), ov_added = sort (ov_added ov)\<rparr>,
                    tb\<lparr>tb_models := models, tb_sources := tb_sources tb @ tb_sources custom,
                       tb_version := tb_version tb @ ''+custom-'' @ hex8 (fnv1a json)\<rparr>))))"

section \<open>Model names\<close>

definition digits_value :: "nat \<Rightarrow> str \<Rightarrow> nat option" where
  "digits_value n s =
     (if length s = n \<and> list_all is_digit s then Some (foldl (\<lambda>acc c. acc * 10 + (of_char c - 48)) 0 s) else None)"

definition is_date :: "str \<Rightarrow> str \<Rightarrow> str \<Rightarrow> bool" where
  "is_date y m d \<longleftrightarrow>
     digits_value 4 y \<noteq> None \<and>
     (case digits_value 2 m of None \<Rightarrow> False | Some m \<Rightarrow> 1 \<le> m \<and> m \<le> 12) \<and>
     (case digits_value 2 d of None \<Rightarrow> False | Some d \<Rightarrow> 1 \<le> d \<and> d \<le> 31)"

definition without_date :: "str \<Rightarrow> str option" where
  "without_date name =
     (case (case rsplit_once_of {CHR ''-'', CHR ''@''} name of
              None \<Rightarrow> None
            | Some (base, date) \<Rightarrow>
                if length date \<ge> 6 \<and> is_date (take 4 date) (take 2 (drop 4 date)) (drop 6 date) then Some base
                else None) of
        Some base \<Rightarrow> Some base
      | None \<Rightarrow>
          (case rsplit_once_of {CHR ''-''} name of
             None \<Rightarrow> None
           | Some (rest, dd) \<Rightarrow>
               (case rsplit_once_of {CHR ''-''} rest of
                  None \<Rightarrow> None
                | Some (rest, mm) \<Rightarrow>
                    (case rsplit_once_of {CHR ''-''} rest of
                       None \<Rightarrow> None
                     | Some (base, yyyy) \<Rightarrow> if is_date yyyy mm dd then Some base else None))))"

section \<open>Cost\<close>

record 'f cost =
  co_input :: 'f
  co_cache_read :: 'f
  co_cache_write :: 'f
  co_output :: 'f

definition uncached_input :: "usage_info \<Rightarrow> unpriced + nat" where
  "uncached_input u =
     (let cached = or_zero (cache_read_tokens u) + or_zero (cache_write_tokens u) in
      if cached > u64_max \<or> cached > prompt_tokens u then Inl InconsistentUsage
      else Inr (prompt_tokens u - cached))"

definition multiplier :: "'f float_ops \<Rightarrow> (str \<times> 'f) list \<Rightarrow> str option \<Rightarrow> str \<Rightarrow> unpriced + 'f" where
  "multiplier ops m v neutral =
     (case v of
        None \<Rightarrow> Inr (fo_of_nat ops 1)
      | Some v \<Rightarrow>
          (if v = neutral then Inr (fo_of_nat ops 1)
           else case map_of m v of None \<Rightarrow> Inl UnsupportedModifier | Some f \<Rightarrow> Inr f))"

definition find_model :: "'f price_table \<Rightarrow> str \<Rightarrow> 'f model_prices option" where
  "find_model tb name =
     (case map_of (tb_models tb) name of
        Some m \<Rightarrow> Some m
      | None \<Rightarrow> Option.bind (without_date name) (map_of (tb_models tb)))"

definition tier_rates :: "'f model_prices \<Rightarrow> str option \<Rightarrow> 'f rates option" where
  "tier_rates m tier =
     (case tier of
        None \<Rightarrow> Some (mp_standard m)
      | Some t \<Rightarrow>
          (if t \<in> {''default'', ''auto'', ''standard''} then Some (mp_standard m)
           else if t = ''fast'' then map_of (mp_tiers m) ''priority''
           else map_of (mp_tiers m) t))"

text \<open>The rates of a prompt of that size: past the limit, the ones above it.\<close>

definition size_rates :: "nat \<Rightarrow> 'f model_prices \<Rightarrow> nat \<Rightarrow> 'f rates \<Rightarrow> unpriced + 'f rates" where
  "size_rates day m prompt r =
     (case (case r_above_tokens r of
              Some limit \<Rightarrow> Inr (Some limit)
            | None \<Rightarrow> (case rates_on day (mp_standard m) of Inl e \<Rightarrow> Inl e | Inr st \<Rightarrow> Inr (r_above_tokens st))) of
        Inl e \<Rightarrow> Inl e
      | Inr None \<Rightarrow> Inr r
      | Inr (Some limit) \<Rightarrow>
          (if prompt > limit then (case r_above r of None \<Rightarrow> Inl MissingPrice | Some over \<Rightarrow> Inr over) else Inr r))"

definition resolve_price :: "'f float_ops \<Rightarrow> 'f price_table \<Rightarrow> usage_info \<Rightarrow> nat \<Rightarrow> unpriced + 'f rates \<times> 'f" where
  "resolve_price ops tb u day =
     (case Option.bind (model u) (find_model tb) of
        None \<Rightarrow> Inl UnknownModel
      | Some m \<Rightarrow>
          (case tier_rates m (service_tier u) of
             None \<Rightarrow> Inl UnsupportedModifier
           | Some r \<Rightarrow>
               (case rates_on day r of
                  Inl e \<Rightarrow> Inl e
                | Inr r \<Rightarrow>
                    (case size_rates day m (prompt_tokens u) r of
                       Inl e \<Rightarrow> Inl e
                     | Inr r \<Rightarrow>
                         (case multiplier ops (mp_speed m) (speed u) ''standard'' of
                            Inl e \<Rightarrow> Inl e
                          | Inr sp \<Rightarrow>
                              (case multiplier ops (mp_geo m) (inference_geo u) ''global'' of
                                 Inl e \<Rightarrow> Inl e
                               | Inr geo \<Rightarrow>
                                   Inr (r, fo_times ops (fo_times ops (mp_multiplier m) sp) geo)))))))"

definition token_price :: "'f float_ops \<Rightarrow> 'f \<Rightarrow> nat \<Rightarrow> 'f option \<Rightarrow> unpriced + 'f" where
  "token_price ops factor count rate =
     (if count = 0 then Inr (fo_of_nat ops 0)
      else case rate of
        None \<Rightarrow> Inl MissingPrice
      | Some rate \<Rightarrow>
          Inr (fo_divide ops (fo_times ops (fo_times ops (fo_of_nat ops count) rate) factor) (fo_of_nat ops 1000000)))"

definition cost_on :: "'f float_ops \<Rightarrow> 'f price_table \<Rightarrow> usage_info \<Rightarrow> nat \<Rightarrow> unpriced + 'f cost" where
  "cost_on ops tb u day =
     (case resolve_price ops tb u day of
        Inl e \<Rightarrow> Inl e
      | Inr (r, factor) \<Rightarrow>
          (let read = or_zero (cache_read_tokens u); write = or_zero (cache_write_tokens u);
               long = min (or_zero (cache_write_long_ttl_tokens u)) write;
               price = token_price ops factor
           in case uncached_input u of
                Inl e \<Rightarrow> Inl e
              | Inr uncached \<Rightarrow>
                  (case (price uncached (r_input r), price read (r_cache_read r), price (write - long) (r_cache_write r),
                         price long (r_cache_write_long r), price (completion_tokens u) (r_output r)) of
                     (Inr i, Inr cr, Inr cw, Inr cwl, Inr out) \<Rightarrow>
                       Inr \<lparr>co_input = i, co_cache_read = cr, co_cache_write = fo_plus ops cw cwl, co_output = out\<rparr>
                   | _ \<Rightarrow> Inl MissingPrice)))"

definition cache_savings_ceiling_on ::
  "'f float_ops \<Rightarrow> 'f price_table \<Rightarrow> usage_info \<Rightarrow> nat \<Rightarrow> unpriced + 'f \<times> bool" where
  "cache_savings_ceiling_on ops tb u day =
     (case resolve_price ops tb u day of
        Inl e \<Rightarrow> Inl e
      | Inr (r, factor) \<Rightarrow>
          (case uncached_input u of
             Inl e \<Rightarrow> Inl e
           | Inr uncached \<Rightarrow>
               (case r_input r of
                  None \<Rightarrow> Inl MissingPrice
                | Some input \<Rightarrow>
                    (let usd = (\<lambda>rate. fo_divide ops (fo_times ops (fo_times ops (fo_of_nat ops uncached) rate) factor)
                                 (fo_of_nat ops 1000000))
                     in case r_cache_read r of
                          Some cr \<Rightarrow> Inr (fo_max ops (fo_minus ops (usd input) (usd cr)) (fo_of_nat ops 0), True)
                        | None \<Rightarrow> Inr (usd input, False)))))"

end
