(* ===== verification/Price_Props.thy ===== *)
theory Price_Props
  imports Prices Complex_Main
begin

text \<open>
  What a price means: every token of a priced call is billed once, at the rate of its kind and of its day, and
  a call that cannot be priced says why. Amounts here are real numbers.
\<close>

section \<open>The period of a day\<close>

fun periods :: "'f rates \<Rightarrow> 'f rates list" where
  "periods (Rates i out cr cw cwl lm ab (Some until) (Some r)) =
     Rates i out cr cw cwl lm ab (Some until) (Some r) # periods r"
| "periods r = [r]"

definition covers :: "nat \<Rightarrow> 'f rates \<Rightarrow> bool" where
  "covers day r = (case r_until r of None \<Rightarrow> True | Some until \<Rightarrow> day \<le> until)"

lemma rates_on_find:
  "rates_on day r = (case find (covers day) (periods r) of None \<Rightarrow> Inl MissingPrice | Some r \<Rightarrow> Inr r)"
  by (induction r rule: periods.induct) (auto simp: covers_def split: option.split)

lemma rates_check_then:
  assumes "rates_check ops (Rates i out cr cw cwl lm ab until (Some r)) = None"
  obtains u where "until = Some u" and "case r_until r of None \<Rightarrow> True | Some n \<Rightarrow> u < n" and "rates_check ops r = None"
  using assms that
  by (cases until) (auto simp del: rates_check.simps simp add: rates_check.simps [of _ _ _ _ _ _ _ _ _ "Some r"]
      split: if_splits option.splits)

text \<open>In a table that passed its checks the periods' last days increase, so a day has one period.\<close>

lemma periods_increase:
  "rates_check ops r = None \<Longrightarrow>
     sorted_wrt (\<lambda>a b. case (r_until a, r_until b) of (Some x, Some y) \<Rightarrow> x < y | (None, _) \<Rightarrow> False | _ \<Rightarrow> True) (periods r)"
proof (induction r rule: periods.induct)
  case (1 i out cr cw cwl lm ab until r)
  obtain u where u: "Some until = Some u" "case r_until r of None \<Rightarrow> True | Some n \<Rightarrow> u < n" "rates_check ops r = None"
    by (rule rates_check_then [OF "1.prems"])
  have "case r_until b of None \<Rightarrow> True | Some y \<Rightarrow> u < y" if "b \<in> set (periods r)" for b
  proof -
    have "b = r \<or> (case (r_until r, r_until b) of (Some x, Some y) \<Rightarrow> x < y | (None, _) \<Rightarrow> False | _ \<Rightarrow> True)"
      using that "1.IH" [OF u(3)] by (cases r rule: periods.cases) auto
    then show ?thesis using u(2) by (auto split: option.splits)
  qed
  then show ?case using u "1.IH" [OF u(3)] by (auto split: option.splits)
qed simp_all

section \<open>The cost of a call\<close>

definition real_ops :: "real float_ops" where
  "real_ops = \<lparr>fo_of_nat = real, fo_times = (*), fo_divide = (/), fo_plus = (+), fo_minus = (-), fo_max = max,
     fo_le = (\<le>), fo_less = (<), fo_positive_sign = (\<lambda>x. 0 \<le> x)\<rparr>"

definition rate_known :: "nat \<Rightarrow> 'f option \<Rightarrow> bool" where
  "rate_known n rate \<longleftrightarrow> n = 0 \<or> rate \<noteq> None"

definition amount :: "nat \<Rightarrow> real option \<Rightarrow> real" where
  "amount n rate = (case rate of None \<Rightarrow> 0 | Some p \<Rightarrow> real n * p)"

text \<open>The tokens of a call by what they are billed as: uncached, read, short and long cache writes, output.\<close>

definition billed :: "usage_info \<Rightarrow> nat list" where
  "billed u =
     (let read = or_zero (cache_read_tokens u); write = or_zero (cache_write_tokens u);
          long = min (or_zero (cache_write_long_ttl_tokens u)) write
      in [prompt_tokens u - (read + write), read, write - long, long, completion_tokens u])"

definition rate_kinds :: "'f rates \<Rightarrow> 'f option list" where
  "rate_kinds r = [r_input r, r_cache_read r, r_cache_write r, r_cache_write_long r, r_output r]"

definition total_cost :: "real cost \<Rightarrow> real" where
  "total_cost c = co_input c + co_cache_read c + co_cache_write c + co_output c"

lemma token_price_real:
  "token_price real_ops f n rate = (if rate_known n rate then Inr (amount n rate * f / 1000000) else Inl MissingPrice)"
  by (cases rate) (auto simp: token_price_def real_ops_def rate_known_def amount_def)

lemma fo_plus_real: "fo_plus real_ops = (+)"
  by (simp add: real_ops_def)

text \<open>Every token of a priced call is billed exactly once: the prompt is the sum of its uncached, cache read,
  and short and long cache write tokens, and the call costs, in exact arithmetic, each kind's count at its own
  rate, times the call's factor. A call that cannot be priced says why: no such price, cache counts larger
  than the prompt, or a rate its tokens need that the table lacks.\<close>

lemma every_token_is_billed_once:
  "case resolve_price real_ops tb u day of
     Inl e \<Rightarrow> cost_on real_ops tb u day = Inl e
   | Inr (r, f) \<Rightarrow>
       let cached = or_zero (cache_read_tokens u) + or_zero (cache_write_tokens u) in
       if cached > u64_max \<or> cached > prompt_tokens u then cost_on real_ops tb u day = Inl InconsistentUsage
       else if \<not> list_all2 rate_known (billed u) (rate_kinds r) then cost_on real_ops tb u day = Inl MissingPrice
       else sum_list (billed u) = prompt_tokens u + completion_tokens u \<and>
         (case cost_on real_ops tb u day of
            Inl _ \<Rightarrow> False
          | Inr c \<Rightarrow> total_cost c = sum_list (map2 amount (billed u) (rate_kinds r)) * f / 1000000)"
proof (cases "resolve_price real_ops tb u day")
  case (Inr rf)
  obtain r f where rf: "rf = (r, f)" by fastforce
  show ?thesis
  proof (cases "or_zero (cache_read_tokens u) + or_zero (cache_write_tokens u) > u64_max \<or>
      or_zero (cache_read_tokens u) + or_zero (cache_write_tokens u) > prompt_tokens u")
    case True
    then show ?thesis using Inr rf by (simp add: cost_on_def uncached_input_def Let_def)
  next
    case False
    then have "uncached_input u = Inr (prompt_tokens u - (or_zero (cache_read_tokens u) + or_zero (cache_write_tokens u)))"
      by (simp add: uncached_input_def Let_def)
    then show ?thesis
      using Inr rf False
      by (auto simp: cost_on_def token_price_real billed_def rate_kinds_def total_cost_def Let_def fo_plus_real
          add_divide_distrib distrib_right)
  qed
qed (simp add: cost_on_def)

end
