(* ===== verification/Price_Range.thy ===== *)
theory Price_Range
  imports Price_Props
begin

text \<open>
  The checks a price table passes when it is loaded bound every rate and multiplier a lookup can reach,
  through any user files merged over it, and so the cost of a call.
\<close>

section \<open>Tables that loaded\<close>

text \<open>What a table's checks leave of its prices and multipliers.\<close>

definition price_in_range :: "real \<Rightarrow> bool" where
  "price_in_range p \<longleftrightarrow> 0 \<le> p \<and> p \<le> 1000000"

definition factor_in_range :: "real \<Rightarrow> bool" where
  "factor_in_range f \<longleftrightarrow> 0 < f \<and> f \<le> 100"

definition model_in_range :: "real model_prices \<Rightarrow> bool" where
  "model_in_range m \<longleftrightarrow>
     (\<forall>r \<in> insert (mp_standard m) (snd ` set (mp_tiers m)). \<forall>p \<in> set_rates r. price_in_range p) \<and>
     (\<forall>f \<in> insert (mp_multiplier m) (snd ` set (mp_speed m) \<union> snd ` set (mp_geo m)). factor_in_range f)"

definition table_in_range :: "real price_table \<Rightarrow> bool" where
  "table_in_range tb \<longleftrightarrow>
     (\<forall>m \<in> snd ` set (tb_models tb). model_in_range m) \<and> (\<forall>f \<in> snd ` set (tb_multipliers tb). factor_in_range f)"

lemma real_range:
  "(\<lambda>p. fo_positive_sign real_ops p \<and> fo_le real_ops p (fo_of_nat real_ops 1000000)) = price_in_range"
  by (simp add: fun_eq_iff price_in_range_def real_ops_def)

lemma rates_check_range: "rates_check real_ops r = None \<Longrightarrow> \<forall>p \<in> set_rates r. price_in_range p"
proof (induction r)
  case (Rates i out cr cw cwl lm ab until th)
  have "list_all price_in_range (List.map_filter id [i, out, cr, cw, cwl])"
    using Rates.prems unfolding rates_check.simps real_range
    by (simp only: option.simps split: if_split_asm)
  then have "price_in_range p" if "p \<in> set_option i \<union> set_option out \<union> set_option cr \<union> set_option cw \<union> set_option cwl" for p
    using that by (auto simp: map_filter_simps split: option.splits)
  moreover have "rates_check real_ops r = None" if "r \<in> set_option ab" for r
    using Rates.prems that by (auto split: if_splits option.splits)
  moreover have "rates_check real_ops r = None" if "r \<in> set_option th" for r
    using Rates.prems that by (auto split: if_splits option.splits)
  ultimately show ?case using Rates.IH by fastforce
qed

lemma first_some_None: "first_some f xs = None \<longleftrightarrow> (\<forall>x \<in> set xs. f x = None)"
  by (induction xs) (auto split: option.split)

lemma provider_factors:
  assumes "pl_ops lib = real_ops" and "provider_check lib p = None"
  shows "list_all factor_in_range (concat (map (map snd \<circ> snd) (rp_speeds p @ rp_geos p)) @
    (case rp_multiplier p of None \<Rightarrow> [] | Some f \<Rightarrow> [f]))"
proof -
  have "(\<lambda>f. fo_less real_ops (fo_of_nat real_ops 0) f \<and> fo_le real_ops f (fo_of_nat real_ops 100)) = factor_in_range"
    by (simp add: fun_eq_iff factor_in_range_def real_ops_def)
  note range = this
  define fs where "fs = concat (map (map snd \<circ> snd) (rp_speeds p @ rp_geos p)) @
    (case rp_multiplier p of None \<Rightarrow> [] | Some f \<Rightarrow> [f])"
  have "list_all factor_in_range fs"
    using assms(2) unfolding provider_check_def Let_def assms(1) range fs_def [symmetric]
    by (simp only: option.simps split: if_split_asm option.split_asm)
  then show ?thesis by (simp only: fs_def)
qed

lemma provider_rates:
  assumes "provider_check lib p = None"
  shows "\<forall>(name, standard) \<in> set (rp_models p).
    first_some (rates_check (pl_ops lib)) (standard # List.map_filter (\<lambda>(_, m). map_of m name) (rp_tiers p)) = None"
proof -
  define why where "why = first_some (\<lambda>(name, standard). map_option (\<lambda>why. name @ '': '' @ why)
    (first_some (rates_check (pl_ops lib)) (standard # List.map_filter (\<lambda>(_, m). map_of m name) (rp_tiers p)))) (rp_models p)"
  have "why = None"
    using assms unfolding provider_check_def Let_def why_def [symmetric]
    by (simp only: option.simps split: if_split_asm option.split_asm)
  then show ?thesis by (auto simp: why_def first_some_None simp del: first_some.simps)
qed

lemma set_map_filter: "y \<in> set (List.map_filter f xs) \<longleftrightarrow> (\<exists>x \<in> set xs. f x = Some y)"
  by (force simp: map_filter_def)

lemma model_of_provider_range:
  assumes "pl_ops lib = real_ops" and "provider_check lib p = None" and "(name, standard) \<in> set (rp_models p)"
  shows "model_in_range (model_of_provider real_ops p name standard)"
proof -
  have factors: "list_all factor_in_range (concat (map (map snd \<circ> snd) (rp_speeds p @ rp_geos p)))"
    using provider_factors [OF assms(1,2)] by simp
  have rates: "first_some (rates_check real_ops) (standard # List.map_filter (\<lambda>(_, m). map_of m name) (rp_tiers p)) = None"
    using provider_rates [OF assms(2)] assms(1,3) by fastforce
  have factor: "\<forall>f \<in> snd ` set m. factor_in_range f"
    if "map_of table name = Some m" "table \<in> {rp_speeds p, rp_geos p}" for table m
  proof
    fix f assume f: "f \<in> snd ` set m"
    have "(name, m) \<in> set (rp_speeds p @ rp_geos p)" using that by (auto dest: map_of_SomeD)
    then have "f \<in> set (concat (map (map snd \<circ> snd) (rp_speeds p @ rp_geos p)))"
      using f unfolding set_concat set_map by (intro UN_I [of "map snd m"]) force+
    then show "factor_in_range f" using factors unfolding list_all_iff by blast
  qed
  have tier: "rates_check real_ops r = None" if "(tier, m) \<in> set (rp_tiers p)" "map_of m name = Some r" for tier m r
  proof -
    have "r \<in> set (List.map_filter (\<lambda>(_, m). map_of m name) (rp_tiers p))"
      using that by (force simp: set_map_filter)
    then show ?thesis using rates unfolding first_some_None by simp
  qed
  have "rates_check real_ops standard = None" using rates unfolding first_some_None by simp
  then have "\<forall>p \<in> set_rates standard. price_in_range p" by (rule rates_check_range)
  moreover have "\<forall>p \<in> set_rates r. price_in_range p"
    if "r \<in> snd ` set (mp_tiers (model_of_provider real_ops p name standard))" for r
    using that tier by (intro rates_check_range) (auto simp: model_of_provider_def set_map_filter)
  moreover have "\<forall>f \<in> snd ` set (mp_speed (model_of_provider real_ops p name standard)). factor_in_range f"
    using factor [where table = "rp_speeds p"] by (cases "map_of (rp_speeds p) name") (simp_all add: model_of_provider_def)
  moreover have "\<forall>f \<in> snd ` set (mp_geo (model_of_provider real_ops p name standard)). factor_in_range f"
    using factor [where table = "rp_geos p"] by (cases "map_of (rp_geos p) name") (simp_all add: model_of_provider_def)
  moreover have "factor_in_range 1" by (simp add: factor_in_range_def)
  moreover have eq: "mp_standard (model_of_provider real_ops p name standard) = standard"
    "mp_multiplier (model_of_provider real_ops p name standard) = 1"
    by (simp_all add: model_of_provider_def real_ops_def)
  ultimately show ?thesis unfolding model_in_range_def eq by blast
qed

lemma put_key_entries: "P v \<Longrightarrow> \<forall>x \<in> snd ` set m. P x \<Longrightarrow> \<forall>x \<in> snd ` set (put_key k v m). P x"
  by (induction k v m rule: put_key.induct) auto

lemma load_models_range:
  "load_models real_ops p ms models = Inr models' \<Longrightarrow>
     \<forall>(name, standard) \<in> set ms. model_in_range (model_of_provider real_ops p name standard) \<Longrightarrow>
     \<forall>m \<in> snd ` set models. model_in_range m \<Longrightarrow> \<forall>m \<in> snd ` set models'. model_in_range m"
proof (induction ms arbitrary: models)
  case (Cons entry rest)
  obtain name standard where entry: "entry = (name, standard)" by fastforce
  let ?m = "model_of_provider real_ops p name standard"
  have rest: "load_models real_ops p rest (put_key name ?m models) = Inr models'"
    using Cons.prems(1) by (simp add: entry split: if_splits)
  have "\<forall>m \<in> snd ` set (put_key name ?m models). model_in_range m"
    using Cons.prems(2,3) entry by (intro put_key_entries) auto
  moreover have "\<forall>(name, standard) \<in> set rest. model_in_range (model_of_provider real_ops p name standard)"
    using Cons.prems(2) by (intro ballI) (meson list.set_intros(2))
  ultimately show ?case using Cons.IH [OF rest] by blast
qed simp

lemma load_providers_range:
  assumes "pl_ops lib = real_ops"
  shows "load_providers lib ps tb = Inr tb' \<Longrightarrow> table_in_range tb \<Longrightarrow> table_in_range tb'"
proof (induction ps arbitrary: tb)
  case (Cons p ps)
  from Cons.prems obtain models where none: "provider_check lib p = None"
    and models: "load_models real_ops p (rp_models p) (tb_models tb) = Inr models"
    and rest: "load_providers lib ps
      (tb\<lparr>tb_models := models, tb_sources := tb_sources tb @ [(rp_name p, rp_source p, rp_checked p)],
         tb_multipliers := (case rp_multiplier p of
           None \<Rightarrow> tb_multipliers tb | Some m \<Rightarrow> put_key (rp_name p) m (tb_multipliers tb))\<rparr>) = Inr tb'"
    by (auto simp: assms split: option.splits if_splits sum.splits)
  have "\<forall>m \<in> snd ` set models. model_in_range m"
    using load_models_range [OF models] model_of_provider_range [OF assms none] Cons.prems(2)
    by (auto simp: table_in_range_def)
  moreover have "\<forall>f \<in> snd ` set (case rp_multiplier p of
      None \<Rightarrow> tb_multipliers tb | Some m \<Rightarrow> put_key (rp_name p) m (tb_multipliers tb)). factor_in_range f"
  proof (cases "rp_multiplier p")
    case (Some f)
    then have "\<forall>x \<in> snd ` set (put_key (rp_name p) f (tb_multipliers tb)). factor_in_range x"
      using provider_factors [OF assms none] Cons.prems(2)
      by (intro put_key_entries) (simp_all add: table_in_range_def)
    then show ?thesis using Some by simp
  qed (use Cons.prems(2) in \<open>simp add: table_in_range_def\<close>)
  ultimately show ?case
    by (intro Cons.IH [OF rest]) (auto simp: table_in_range_def)
qed simp

lemma table_from_json_range:
  assumes "pl_ops lib = real_ops" and "table_from_json lib json = Inr tb"
  shows "table_in_range tb"
proof -
  have "table_in_range \<lparr>tb_version = v, tb_sources = [], tb_models = [], tb_multipliers = []\<rparr>" for v
    by (simp add: table_in_range_def)
  note empty = this
  obtain raw :: "real raw_table" where "load_providers lib (rt_providers raw)
      \<lparr>tb_version = rt_version raw, tb_sources = [], tb_models = [], tb_multipliers = []\<rparr> = Inr tb"
    using assms(2) unfolding table_from_json_def by (auto simp only: option.case sum.distinct split: option.split_asm)
  from load_providers_range [OF assms(1) this empty] show ?thesis .
qed

lemma insert_models_range:
  "\<forall>m \<in> snd ` set ms. model_in_range m \<Longrightarrow> \<forall>m \<in> snd ` set models. model_in_range m \<Longrightarrow>
     \<forall>m \<in> snd ` set (fst (fold insert_model ms (models, ov))). model_in_range m"
proof (induction ms arbitrary: models ov)
  case (Cons nm ms)
  obtain name m where nm: "nm = (name, m)" by fastforce
  have "\<forall>m \<in> snd ` set (put_key name m models). model_in_range m"
    using Cons.prems nm by (intro put_key_entries) auto
  note put = this
  have "\<forall>m \<in> snd ` set ms. model_in_range m" using Cons.prems(1) by auto
  from Cons.IH [OF this put] show ?case by (simp add: insert_model_def nm)
qed simp

lemma merge_custom_range:
  assumes lib: "pl_ops lib = real_ops" and tb: "table_in_range tb"
  shows "table_in_range (snd (merge_custom lib json tb))"
proof (cases "table_from_json lib json")
  case (Inr custom)
  have custom: "table_in_range custom" by (rule table_from_json_range [OF lib Inr])
  define factor where "factor p = (case map_of (tb_multipliers custom) p of
    None \<Rightarrow> fo_of_nat (pl_ops lib) 1 | Some f \<Rightarrow> f)" for p
  define models where "models = map (\<lambda>(name, m). (name, m\<lparr>mp_multiplier := factor (mp_provider m)\<rparr>)) (tb_models tb)"
  have "factor_in_range 1" by (simp add: factor_in_range_def)
  then have factor: "factor_in_range (factor p)" for p
    using custom lib unfolding factor_def table_in_range_def
    by (auto simp: real_ops_def dest!: map_of_SomeD split: option.split)
  have update: "model_in_range m \<Longrightarrow> factor_in_range f \<Longrightarrow> model_in_range (m\<lparr>mp_multiplier := f\<rparr>)" for m f
    by (simp add: model_in_range_def)
  have "\<forall>m \<in> snd ` set (tb_models tb). model_in_range m" using tb by (simp add: table_in_range_def)
  then have models: "\<forall>m \<in> snd ` set models. model_in_range m"
    by (auto simp: models_def intro!: update factor)
  have "\<forall>m \<in> snd ` set (tb_models custom). model_in_range m" using custom by (simp add: table_in_range_def)
  note merged = insert_models_range [OF this models]
  show ?thesis
  proof (cases "find (\<lambda>p. p \<notin> fst ` set (tb_sources tb)) (map fst (tb_multipliers custom))")
    case None
    then have "tb_models (snd (merge_custom lib json tb)) =
        fst (fold insert_model (tb_models custom) (models, \<lparr>ov_replaced = [], ov_added = []\<rparr>))"
      and "tb_multipliers (snd (merge_custom lib json tb)) = tb_multipliers tb"
      by (simp_all add: merge_custom_def Inr Let_def case_prod_beta models_def factor_def)
    then show ?thesis using merged tb by (simp add: table_in_range_def)
  qed (use tb Inr in \<open>simp add: merge_custom_def\<close>)
qed (use tb in \<open>simp add: merge_custom_def\<close>)

lemma rates_on_subset: "rates_on day r = Inr r' \<Longrightarrow> set_rates r' \<subseteq> set_rates r"
proof (induction day r rule: rates_on.induct)
  case (1 day i out cr cw cwl lm ab until th)
  show ?case
  proof (cases "day > until")
    case True
    then obtain r where r: "th = Some r" "rates_on day r = Inr r'" using "1.prems" by (auto split: option.splits)
    then have "set_rates r' \<subseteq> set_rates r" using 1(1) True by simp
    then show ?thesis using r(1) by auto
  qed (use "1.prems" in simp)
qed simp

lemma size_rates_subset: "size_rates day m prompt r = Inr r' \<Longrightarrow> set_rates r' \<subseteq> set_rates r"
  by (cases r) (auto simp: size_rates_def split: if_splits option.splits sum.splits)

lemma multiplier_range:
  "multiplier real_ops m v neutral = Inr f \<Longrightarrow> \<forall>f \<in> snd ` set m. factor_in_range f \<Longrightarrow> factor_in_range f"
  by (force simp: multiplier_def real_ops_def factor_in_range_def split: option.splits if_splits dest: map_of_SomeD)

lemma find_model_entry: "find_model tb name = Some m \<Longrightarrow> m \<in> snd ` set (tb_models tb)"
  by (force simp: find_model_def bind_eq_Some_conv split: option.splits dest: map_of_SomeD)

lemma tier_rates_entry: "tier_rates m tier = Some r \<Longrightarrow> r \<in> insert (mp_standard m) (snd ` set (mp_tiers m))"
  by (force simp: tier_rates_def split: option.splits if_splits dest: map_of_SomeD)

lemma resolve_range:
  assumes "table_in_range tb" and "resolve_price real_ops tb u day = Inr (r, f)"
  shows "(\<forall>p \<in> set_rates r. price_in_range p) \<and> 0 < f \<and> f \<le> 1000000"
proof -
  from assms(2) obtain name m r1 r2 sp geo where "model u = Some name" and m: "find_model tb name = Some m"
    and r: "tier_rates m (service_tier u) = Some r1" "rates_on day r1 = Inr r2" "size_rates day m (prompt_tokens u) r2 = Inr r"
    and sp: "multiplier real_ops (mp_speed m) (speed u) ''standard'' = Inr sp"
    and geo: "multiplier real_ops (mp_geo m) (inference_geo u) ''global'' = Inr geo"
    and f: "f = mp_multiplier m * sp * geo"
    by (auto simp: resolve_price_def bind_eq_Some_conv real_ops_def split: option.splits sum.splits)
  have m: "model_in_range m" using assms(1) find_model_entry [OF m] unfolding table_in_range_def by blast
  have "set_rates r \<subseteq> set_rates r1" using size_rates_subset [OF r(3)] rates_on_subset [OF r(2)] by simp
  then have "\<forall>p \<in> set_rates r. price_in_range p"
    using m tier_rates_entry [OF r(1)] by (auto simp: model_in_range_def)
  moreover have "factor_in_range (mp_multiplier m)" "factor_in_range sp" "factor_in_range geo"
    using m multiplier_range [OF sp] multiplier_range [OF geo] by (auto simp: model_in_range_def)
  then have "0 < f" "f \<le> 100 * 100 * 100"
    unfolding f factor_in_range_def by (simp, intro mult_mono, simp_all)
  ultimately show ?thesis by simp
qed

lemma token_price_range:
  assumes "token_price real_ops f n rate = Inr x" and "\<forall>p \<in> set_option rate. price_in_range p" and "0 < f" and "f \<le> 1000000"
  shows "0 \<le> x \<and> x \<le> real n * 1000000"
proof (cases rate)
  case (Some p)
  then have p: "0 \<le> p" "p \<le> 1000000" using assms(2) by (simp_all add: price_in_range_def)
  have "real n * p * f \<le> real n * 1000000 * 1000000" using p assms(3,4) by (intro mult_mono) auto
  moreover have "0 \<le> real n * p * f" using p assms(3) by (intro mult_nonneg_nonneg) simp_all
  moreover have "x = real n * p * f / 1000000"
    using assms(1) Some by (simp add: token_price_real amount_def split: if_splits)
  ultimately show ?thesis by simp
qed (use assms(1) in \<open>auto simp: token_price_real amount_def split: if_splits\<close>)

lemma cost_range:
  assumes "table_in_range tb" and "cost_on real_ops tb u day = Inr c"
  shows "list_all (\<lambda>(x, n). 0 \<le> x \<and> x \<le> real n * 1000000)
    [(co_input c, prompt_tokens u), (co_cache_read c, or_zero (cache_read_tokens u)),
     (co_cache_write c, or_zero (cache_write_tokens u)), (co_output c, completion_tokens u)]"
proof -
  let ?written = "or_zero (cache_write_tokens u)"
  define long where "long = min (or_zero (cache_write_long_ttl_tokens u)) ?written"
  from assms(2) obtain r f uncached cw cwl where r: "resolve_price real_ops tb u day = Inr (r, f)"
    and uncached: "uncached_input u = Inr uncached"
    and i: "token_price real_ops f uncached (r_input r) = Inr (co_input c)"
    and cr: "token_price real_ops f (or_zero (cache_read_tokens u)) (r_cache_read r) = Inr (co_cache_read c)"
    and cw: "token_price real_ops f (?written - long) (r_cache_write r) = Inr cw"
    and cwl: "token_price real_ops f long (r_cache_write_long r) = Inr cwl"
    and out: "token_price real_ops f (completion_tokens u) (r_output r) = Inr (co_output c)"
    and sum: "co_cache_write c = cw + cwl"
    by (auto simp: cost_on_def Let_def fo_plus_real long_def split: sum.splits)
  note range = resolve_range [OF assms(1) r]
  have rate: "0 \<le> x \<and> x \<le> real n * 1000000"
    if "token_price real_ops f n rate = Inr x" "set_option rate \<subseteq> set_rates r" for n rate x
    using that range by (intro token_price_range) auto
  have kinds: "set_option (r_input r) \<subseteq> set_rates r" "set_option (r_cache_read r) \<subseteq> set_rates r"
    "set_option (r_cache_write r) \<subseteq> set_rates r" "set_option (r_cache_write_long r) \<subseteq> set_rates r"
    "set_option (r_output r) \<subseteq> set_rates r"
    by (cases r; auto)+
  have "uncached \<le> prompt_tokens u" using uncached by (auto simp: uncached_input_def Let_def split: if_splits)
  then have "0 \<le> co_input c \<and> co_input c \<le> real (prompt_tokens u) * 1000000" using rate [OF i kinds(1)] by simp
  moreover have "long \<le> ?written" by (simp add: long_def)
  then have "real ?written * 1000000 = real (?written - long) * 1000000 + real long * 1000000" by (simp add: of_nat_diff)
  then have "0 \<le> co_cache_write c \<and> co_cache_write c \<le> real ?written * 1000000"
    using rate [OF cw kinds(3)] rate [OF cwl kinds(4)] sum by linarith
  ultimately show ?thesis using rate [OF cr kinds(2)] rate [OF out kinds(5)] by simp
qed

text \<open>C16: However prices are loaded, by the built-in table and any user files over it, a file that is refused
  changing nothing, a call is never given a negative cost, and in exact arithmetic no kind of token costs more
  than a million dollars each: the table's checks bound every rate and multiplier that a lookup can reach.\<close>

theorem loaded_prices_bound_costs:
  "case table_from_json (lib\<lparr>pl_ops := real_ops\<rparr>) json of
     Inl _ \<Rightarrow> True
   | Inr tb \<Rightarrow>
       (case cost_on real_ops (fold (\<lambda>file tb. snd (merge_custom (lib\<lparr>pl_ops := real_ops\<rparr>) file tb)) files tb) u day of
          Inl _ \<Rightarrow> True
        | Inr c \<Rightarrow>
            list_all (\<lambda>(x, n). 0 \<le> x \<and> x \<le> real n * 1000000)
              [(co_input c, prompt_tokens u), (co_cache_read c, or_zero (cache_read_tokens u)),
               (co_cache_write c, or_zero (cache_write_tokens u)), (co_output c, completion_tokens u)])"
proof (cases "table_from_json (lib\<lparr>pl_ops := real_ops\<rparr>) json")
  case (Inr tb)
  let ?lib = "lib\<lparr>pl_ops := real_ops\<rparr>"
  define tb' where "tb' = fold (\<lambda>file tb. snd (merge_custom ?lib file tb)) files tb"
  have "table_in_range (fold (\<lambda>file tb. snd (merge_custom ?lib file tb)) files tb)" if "table_in_range tb" for files tb
    using that by (induction files arbitrary: tb) (simp_all add: merge_custom_range)
  then have tb': "table_in_range tb'" using table_from_json_range [OF _ Inr] by (simp add: tb'_def)
  show ?thesis
  proof (cases "cost_on real_ops tb' u day")
    case cost: (Inr c)
    have "list_all (\<lambda>(x, n). 0 \<le> x \<and> x \<le> real n * 1000000)
        [(co_input c, prompt_tokens u), (co_cache_read c, or_zero (cache_read_tokens u)),
         (co_cache_write c, or_zero (cache_write_tokens u)), (co_output c, completion_tokens u)]"
      by (rule cost_range [OF tb' cost])
    then show ?thesis using Inr cost by (simp add: tb'_def)
  qed (use Inr in \<open>simp add: tb'_def\<close>)
qed simp

end
