(* ===== verification/Pods.thy ===== *)
theory Pods
  imports Split_Text Rust_Map
begin

text \<open>
  The pods of a node (agent, k8s.rs): which container a process runs in, the store of pods by container that
  the watcher's events keep, the workload a pod belongs to, and the cache of cgroups. What the Kubernetes API
  and the file systems answer is a parameter.
\<close>

section \<open>What the API reports\<close>

record owner_ref =
  or_kind :: str
  or_name :: str
  or_api_version :: str
  or_controller :: "bool option"

record object_meta =
  om_name :: "str option"
  om_namespace :: "str option"
  om_labels :: "(str \<times> str) list option"
  om_owners :: "owner_ref list option"

text \<open>The container IDs of a pod's containers and of its init containers, where its status has them.\<close>

type_synonym statuses = "str option list option"

record pod =
  pd_meta :: object_meta
  pd_status :: "(statuses \<times> statuses) option"

type_synonym labels = "(str \<times> str) list"

record pod_info =
  pod_name :: str
  pod_namespace :: str
  pod_workload_kind :: "str option"
  pod_workload_name :: "str option"
  pod_labels :: labels

definition service_name :: "pod_info \<Rightarrow> str" where
  "service_name p = (case pod_workload_name p of None \<Rightarrow> pod_name p | Some s \<Rightarrow> s)"

definition short_id :: "str option \<Rightarrow> str option" where
  "short_id cid =
     (case cid of
        None \<Rightarrow> None
      | Some cid \<Rightarrow> (let hex_id = last_piece_of ''://'' cid in if 12 \<le> length hex_id then Some (take 12 hex_id) else None))"

definition container_ids :: "pod \<Rightarrow> str list" where
  "container_ids p =
     (case pd_status p of
        None \<Rightarrow> []
      | Some (containers, inits) \<Rightarrow>
          concat (map (\<lambda>cs. List.map_filter short_id (case cs of None \<Rightarrow> [] | Some cs \<Rightarrow> cs)) [containers, inits]))"

section \<open>Containers of processes\<close>

definition is_container_id :: "str \<Rightarrow> bool" where
  "is_container_id s \<longleftrightarrow> length s = 64 \<and> list_all is_hex s"

definition cgroup_line_id :: "str \<Rightarrow> str option" where
  "cgroup_line_id ln =
     (case Option.bind (after_char (CHR '':'') ln) (after_char (CHR '':'')) of
        None \<Rightarrow> None
      | Some path \<Rightarrow>
          (if \<not> contains path ''kubepods'' \<and> \<not> contains path ''docker'' \<and> \<not> contains path ''containerd'' then None
           else
             (let last_segment = last_piece (CHR ''/'') path;
                  hex_id = last_piece (CHR ''-'') (trim_end_matches ''.scope'' last_segment)
              in if ends_with last_segment ''.scope'' \<and> is_container_id hex_id then Some (take 12 hex_id)
                 else if is_container_id last_segment then Some (take 12 last_segment) else None)))"

text \<open>The first line of \<open>/proc/<pid>/cgroup\<close> with a container ID, if the file could be read.\<close>

fun first_id :: "str list \<Rightarrow> str option" where
  "first_id [] = None"
| "first_id (l # ls) = (case cgroup_line_id l of None \<Rightarrow> first_id ls | Some cid \<Rightarrow> Some cid)"

definition extract_container_id :: "str option \<Rightarrow> str option" where
  "extract_container_id file = (case file of None \<Rightarrow> None | Some content \<Rightarrow> first_id (text_lines content))"

section \<open>Workloads\<close>

definition controller_owner :: "object_meta \<Rightarrow> owner_ref option" where
  "controller_owner m =
     (case om_owners m of
        None \<Rightarrow> None
      | Some refs \<Rightarrow>
          (case find (\<lambda>r. or_controller r = Some True) refs of
             Some r \<Rightarrow> Some r
           | None \<Rightarrow> (case refs of [] \<Rightarrow> None | r # _ \<Rightarrow> Some r)))"

definition RS_OWNERS :: "(str \<times> str) list" where
  "RS_OWNERS = [(''Deployment'', ''pod-template-hash''), (''Rollout'', ''rollouts-pod-template-hash'')]"

text \<open>A ReplicaSet's owner, when its name is the owner's with the value of the hash label after a dash.\<close>

definition replica_set_owner :: "object_meta \<Rightarrow> str \<Rightarrow> str \<times> str \<Rightarrow> (str \<times> str) option" where
  "replica_set_owner m rs kl =
     (case Option.bind (om_labels m) (\<lambda>ls. map_of ls (snd kl)) of
        None \<Rightarrow> None
      | Some hash \<Rightarrow>
          (case Option.bind (strip_suffix rs hash) (\<lambda>s. strip_suffix s ''-'') of
             None \<Rightarrow> None
           | Some name \<Rightarrow> if name = [] then None else Some (fst kl, name)))"

fun find_first :: "('a \<Rightarrow> 'b option) \<Rightarrow> 'a list \<Rightarrow> 'b option" where
  "find_first f [] = None"
| "find_first f (x # xs) = (case f x of None \<Rightarrow> find_first f xs | Some y \<Rightarrow> Some y)"

definition workload_of :: "object_meta \<Rightarrow> str option \<Rightarrow> (str \<times> str) option" where
  "workload_of m cronjob =
     (case controller_owner m of
        None \<Rightarrow> map_option (Pair ''Pod'') (om_name m)
      | Some owner \<Rightarrow>
          (if or_kind owner = [] \<or> or_name owner = [] then None
           else if or_kind owner = ''ReplicaSet'' then
             (case find_first (replica_set_owner m (or_name owner)) RS_OWNERS of
                Some w \<Rightarrow> Some w
              | None \<Rightarrow> Some (or_kind owner, or_name owner))
           else if or_kind owner = ''Job'' then
             (case cronjob of
                Some c \<Rightarrow> Some (''CronJob'', c)
              | None \<Rightarrow> Some (or_kind owner, or_name owner))
           else Some (or_kind owner, or_name owner)))"

text \<open>The CronJob of a Job that the API found in time.\<close>

definition cronjob_of :: "object_meta option \<Rightarrow> str option" where
  "cronjob_of found =
     (case Option.bind found controller_owner of
        None \<Rightarrow> None
      | Some o1 \<Rightarrow> if or_kind o1 = ''CronJob'' \<and> or_name o1 \<noteq> [] then Some (or_name o1) else None)"

section \<open>Labels\<close>

text \<open>Every character that is not a letter or a digit becomes one underscore.\<close>

definition attr_name :: "str \<Rightarrow> str" where
  "attr_name key =
     ''target.pod.label.'' @ concat (map (\<lambda>c. if is_alnum c then [c] else if continues c then [] else ''_'') key)"

definition add_label_attr :: "str \<Rightarrow> (str \<times> str) list \<Rightarrow> (str \<times> str) list" where
  "add_label_attr key attrs = (if attr_name key \<in> snd ` set attrs then attrs else attrs @ [(key, attr_name key)])"

definition pod_label_attrs :: "str list \<Rightarrow> (str \<times> str) list" where
  "pod_label_attrs allowlist = fold add_label_attr (filter (\<lambda>k. k \<noteq> []) allowlist) []"

definition allowlisted_labels :: "(str \<times> str) list \<Rightarrow> object_meta \<Rightarrow> (str \<times> str) list" where
  "allowlisted_labels attrs m =
     (case om_labels m of
        None \<Rightarrow> []
      | Some ls \<Rightarrow>
          List.map_filter
            (\<lambda>(key, attr). case map_of ls key of None \<Rightarrow> None | Some v \<Rightarrow> if v = [] then None else Some (attr, v)) attrs)"

section \<open>The resolver\<close>

record resolver =
  rv_cgroup_v2 :: bool
  rv_cgroups :: "(u64 \<times> str option) list"
  rv_store :: "(str \<times> pod_info) list"
  rv_labels :: "(str \<times> str) list"

definition resolver_new :: "bool \<Rightarrow> str list \<Rightarrow> resolver" where
  "resolver_new v2 allowlist = \<lparr>rv_cgroup_v2 = v2, rv_cgroups = [], rv_store = [], rv_labels = pod_label_attrs allowlist\<rparr>"

text \<open>The pod of a process: \<open>file\<close> is its cgroup file, if it is still there to read.\<close>

definition resolve_pod :: "str option \<Rightarrow> u64 \<Rightarrow> resolver \<Rightarrow> pod_info option \<times> resolver" where
  "resolve_pod file cgroup r =
     (case (if rv_cgroup_v2 r then map_of (rv_cgroups r) cgroup else None) of
        Some cached \<Rightarrow> (Option.bind cached (map_of (rv_store r)), r)
      | None \<Rightarrow>
          (let cid = extract_container_id file;
               r' = (if rv_cgroup_v2 r \<and> cid \<noteq> None then r\<lparr>rv_cgroups := put_key cgroup cid (rv_cgroups r)\<rparr> else r)
           in (Option.bind cid (map_of (rv_store r')), r')))"

definition stored_info :: "object_meta \<Rightarrow> resolver \<Rightarrow> pod_info option" where
  "stored_info m r =
     (case (om_name m, om_namespace m) of
        (Some name, Some ns) \<Rightarrow> find (\<lambda>i. pod_name i = name \<and> pod_namespace i = ns) (map snd (rv_store r))
      | _ \<Rightarrow> None)"

definition unresolved_job :: "pod \<Rightarrow> resolver \<Rightarrow> (str \<times> str) option" where
  "unresolved_job p r =
     (case controller_owner (pd_meta p) of
        None \<Rightarrow> None
      | Some owner \<Rightarrow>
          (if \<not> (or_kind owner = ''Job'' \<and> starts_with (or_api_version owner) ''batch/'') then None
           else if container_ids p = [] then None
           else if (case stored_info (pd_meta p) r of None \<Rightarrow> False | Some i \<Rightarrow> pod_workload_kind i \<noteq> Some ''Job'') then None
           else map_option (\<lambda>ns. (ns, or_name owner)) (om_namespace (pd_meta p))))"

definition remove_pod :: "str list \<Rightarrow> resolver \<Rightarrow> resolver" where
  "remove_pod ids r =
     r\<lparr>rv_store := fold remove_key ids (rv_store r),
       rv_cgroups := filter (\<lambda>(_, v). case v of None \<Rightarrow> True | Some cid \<Rightarrow> cid \<notin> set ids) (rv_cgroups r)\<rparr>"

definition warm_cgroups :: "(str \<Rightarrow> u64 option) \<Rightarrow> str list \<Rightarrow> resolver \<Rightarrow> resolver" where
  "warm_cgroups cgroup_of ids r =
     (if rv_cgroup_v2 r then
        r\<lparr>rv_cgroups := fold (\<lambda>cid m. case cgroup_of cid of None \<Rightarrow> m | Some cg \<Rightarrow> put_key cg (Some cid) m) ids (rv_cgroups r)\<rparr>
      else r)"

definition event_info :: "pod \<Rightarrow> str \<Rightarrow> str option \<Rightarrow> resolver \<Rightarrow> pod_info" where
  "event_info p name cronjob r =
     (let m = pd_meta p;
          (kind, wname) =
            (case (cronjob, stored_info m r) of
               (None, Some prev) \<Rightarrow> (pod_workload_kind prev, pod_workload_name prev)
             | _ \<Rightarrow> (case workload_of m cronjob of None \<Rightarrow> (None, None) | Some (k, n) \<Rightarrow> (Some k, Some n)))
      in \<lparr>pod_name = name, pod_namespace = (case om_namespace m of None \<Rightarrow> [] | Some ns \<Rightarrow> ns),
          pod_workload_kind = kind, pod_workload_name = wname, pod_labels = allowlisted_labels (rv_labels r) m\<rparr>)"

definition apply_pod_event :: "(str \<Rightarrow> u64 option) \<Rightarrow> pod \<Rightarrow> bool \<Rightarrow> str option \<Rightarrow> resolver \<Rightarrow> resolver" where
  "apply_pod_event cgroup_of p is_delete cronjob r =
     (case om_name (pd_meta p) of
        None \<Rightarrow> r
      | Some name \<Rightarrow>
          (let ids = container_ids p in
           if is_delete then remove_pod ids r
           else
             (let r = warm_cgroups cgroup_of ids r; info = event_info p name cronjob r
              in r\<lparr>rv_store := fold (\<lambda>cid. put_key cid info) ids (rv_store r)\<rparr>)))"

definition evict_stale_cgroups :: "resolver \<Rightarrow> resolver" where
  "evict_stale_cgroups r =
     r\<lparr>rv_cgroups := filter (\<lambda>(_, v). case v of None \<Rightarrow> True | Some cid \<Rightarrow> has_key cid (rv_store r)) (rv_cgroups r)\<rparr>"

section \<open>The cgroup of a container\<close>

text \<open>A directory of the cgroup file system: its name, its inode where it can be read, and the directories in it.\<close>

datatype cgroup_dir = Cgroup_Dir str "u64 option" "cgroup_dir list"

fun walk_dir :: "str \<Rightarrow> cgroup_dir list \<Rightarrow> u64 option" where
  "walk_dir needle [] = None"
| "walk_dir needle (Cgroup_Dir name ino entries # dirs) =
     (case (if contains name needle then ino else None) of
        Some i \<Rightarrow> Some i
      | None \<Rightarrow> (case walk_dir needle entries of Some i \<Rightarrow> Some i | None \<Rightarrow> walk_dir needle dirs))"

text \<open>The host's file system mounted for the agent, if it is, else the one the agent sees.\<close>

definition lookup_cgroup_id_by_container :: "cgroup_dir list option \<Rightarrow> cgroup_dir list \<Rightarrow> str \<Rightarrow> u64 option" where
  "lookup_cgroup_id_by_container on_host here cid = walk_dir cid (case on_host of Some dirs \<Rightarrow> dirs | None \<Rightarrow> here)"

section \<open>The watcher\<close>

datatype watch_event = Pod_Apply pod | Pod_Init_Apply pod | Pod_Delete pod | Watch_Init | Watch_Init_Done | Watch_Error

definition lookup_cronjob :: "(str \<Rightarrow> str \<Rightarrow> object_meta option) \<Rightarrow> pod \<Rightarrow> resolver \<Rightarrow> str option" where
  "lookup_cronjob jobs p r = (case unresolved_job p r of None \<Rightarrow> None | Some (ns, job) \<Rightarrow> cronjob_of (jobs ns job))"

fun on_watch_event ::
  "(str \<Rightarrow> u64 option) \<Rightarrow> (str \<Rightarrow> str \<Rightarrow> object_meta option) \<Rightarrow> watch_event \<Rightarrow> resolver \<Rightarrow> resolver" where
  "on_watch_event cgroup_of jobs (Pod_Apply p) r = apply_pod_event cgroup_of p False (lookup_cronjob jobs p r) r"
| "on_watch_event cgroup_of jobs (Pod_Init_Apply p) r = apply_pod_event cgroup_of p False (lookup_cronjob jobs p r) r"
| "on_watch_event cgroup_of jobs (Pod_Delete p) r = apply_pod_event cgroup_of p True None r"
| "on_watch_event cgroup_of jobs Watch_Init r = r"
| "on_watch_event cgroup_of jobs Watch_Init_Done r = r"
| "on_watch_event cgroup_of jobs Watch_Error r = r"

end
