(* ===== verification/Metrics.thy ===== *)
theory Metrics
  imports Price_Range Agent Pods
begin

text \<open>
  The exported metrics of LLM calls (agent, telemetry.rs) and the reloading of the user's price file. A
  metric is the list of what was added to it, with the labels: summing the values of equal labels is the
  library's. The pod of a process, the latency and the day are given; a call is priced within one day.
\<close>

section \<open>Readings\<close>



datatype 'f reading =
    Counted str labels nat
  | Charged str labels 'f
  | Timed str labels 'f

record 'f metrics =
  mt_readings :: "'f reading list"
  mt_prices :: "'f price_table option"

definition add_reading :: "'f reading \<Rightarrow> 'f metrics \<Rightarrow> 'f metrics" where
  "add_reading r m = m\<lparr>mt_readings := mt_readings m @ [r]\<rparr>"

definition or_unattributed :: "str option \<Rightarrow> str" where
  "or_unattributed v = (case v of None \<Rightarrow> ''unattributed'' | Some s \<Rightarrow> if s = [] then ''unattributed'' else s)"

definition pod_attrs :: "pod_info option \<Rightarrow> labels" where
  "pod_attrs p =
     (case p of
        None \<Rightarrow> []
      | Some pod \<Rightarrow>
          [(''target.namespace'', pod_namespace pod), (''target.pod.name'', pod_name pod),
           (''target.workload.kind'', or_unattributed (pod_workload_kind pod)),
           (''target.workload.name'', or_unattributed (pod_workload_name pod))] @ pod_labels pod)"

datatype attempt = Served | Declined

fun attempt_label :: "attempt \<Rightarrow> str" where
  "attempt_label Served = ''served''"
| "attempt_label Declined = ''declined''"

definition llm_attrs :: "pod_info option \<Rightarrow> str \<Rightarrow> str \<Rightarrow> attempt \<Rightarrow> labels" where
  "llm_attrs pod name status att =
     [(''model'', name), (''status'', status), (''attempt'', attempt_label att)] @ pod_attrs pod"

fun unpriced_label :: "unpriced \<Rightarrow> str" where
  "unpriced_label UnknownModel = ''unknown_model''"
| "unpriced_label MissingPrice = ''missing_price''"
| "unpriced_label UnsupportedModifier = ''unsupported_modifier''"
| "unpriced_label InconsistentUsage = ''inconsistent_usage''"

fun reason_label :: "unparsed_reason \<Rightarrow> str" where
  "reason_label CaptureLost = ''capture_lost''"
| "reason_label NextRequest = ''next_request''"
| "reason_label ConnectionClosed = ''connection_closed''"
| "reason_label RequestTooLarge = ''request_too_large''"
| "reason_label ResponseTooLarge = ''response_too_large''"
| "reason_label BackgroundUnfinished = ''background_unfinished''"
| "reason_label HeadersLost = ''headers_lost''"

section \<open>Recording a call\<close>

definition charge :: "'f float_ops \<Rightarrow> str \<Rightarrow> labels \<Rightarrow> 'f \<Rightarrow> 'f metrics \<Rightarrow> 'f metrics" where
  "charge ops name labels usd m = (if fo_less ops (fo_of_nat ops 0) usd then add_reading (Charged name labels usd) m else m)"

definition record_cost :: "'f float_ops \<Rightarrow> nat \<Rightarrow> usage_info \<Rightarrow> labels \<Rightarrow> 'f metrics \<Rightarrow> 'f metrics" where
  "record_cost ops day u labels m =
     (case mt_prices m of
        None \<Rightarrow> m
      | Some tb \<Rightarrow>
          (let labels = labels @ [(''price_table_version'', tb_version tb)] in
           case cost_on ops tb u day of
             Inr c \<Rightarrow>
               (let m = fold (\<lambda>(cost_type, usd). charge ops ''llm_cost_usd_total'' (labels @ [(''cost_type'', cost_type)]) usd)
                      [(''input'', co_input c), (''cache_read'', co_cache_read c),
                       (''cache_write'', co_cache_write c), (''output'', co_output c)] m
                in case cache_savings_ceiling_on ops tb u day of
                     Inl _ \<Rightarrow> m
                   | Inr (usd, exact) \<Rightarrow>
                       charge ops ''llm_cache_savings_ceiling_usd_total''
                         (labels @ [(''cache_price'', if exact then ''known'' else ''assumed_free'')]) usd m)
           | Inl why \<Rightarrow>
               add_reading (Counted ''llm_unpriced_tokens_total'' (labels @ [(''reason'', unpriced_label why)])
                 (sat_add (prompt_tokens u) (completion_tokens u))) m))"

definition count_if :: "str \<Rightarrow> labels \<Rightarrow> nat option \<Rightarrow> 'f metrics \<Rightarrow> 'f metrics" where
  "count_if name labels n m = (case n of None \<Rightarrow> m | Some n \<Rightarrow> add_reading (Counted name labels n) m)"

definition record_tokens :: "'f float_ops \<Rightarrow> nat \<Rightarrow> usage_info \<Rightarrow> labels \<Rightarrow> 'f metrics \<Rightarrow> 'f metrics" where
  "record_tokens ops day u attrs m =
     (let m = count_if ''llm_cache_read_tokens_total'' attrs (cache_read_tokens u) m;
          m = count_if ''llm_cache_write_tokens_total'' attrs (cache_write_tokens u) m;
          m = count_if ''llm_reasoning_tokens_total'' attrs (thoughts_tokens u) m;
          m = (if cost_suppressed u then m else record_cost ops day u attrs m);
          m = add_reading (Counted ''llm_tokens_total'' (attrs @ [(''token_type'', ''prompt'')]) (prompt_tokens u)) m
      in add_reading (Counted ''llm_tokens_total'' (attrs @ [(''token_type'', ''completion'')]) (completion_tokens u)) m)"

definition record_llm :: "'f float_ops \<Rightarrow> nat \<Rightarrow> usage_info \<Rightarrow> 'f \<Rightarrow> bool \<Rightarrow> labels \<Rightarrow> 'f metrics \<Rightarrow> 'f metrics" where
  "record_llm ops day u latency is_error attrs m =
     (let m = add_reading (Counted ''llm_requests_total'' attrs 1) m;
          m = add_reading (Timed ''llm_latency_seconds'' attrs latency) m
      in if is_error then m else record_tokens ops day u attrs m)"

definition record_llm_call ::
  "'f float_ops \<Rightarrow> nat \<Rightarrow> pod_info option \<Rightarrow> usage_info \<Rightarrow> str \<Rightarrow> 'f \<Rightarrow> bool \<Rightarrow> 'f metrics \<Rightarrow> 'f metrics" where
  "record_llm_call ops day pod u name latency is_error m =
     (let status = (if is_error then ''error'' else ''success'');
          m = record_llm ops day u latency is_error (llm_attrs pod name status Served) m
      in fold (\<lambda>att m.
           if prompt_tokens att = 0 \<and> completion_tokens att = 0 then m
           else record_tokens ops day att
             (llm_attrs pod (case model att of None \<Rightarrow> ''unknown'' | Some s \<Rightarrow> s) ''success'' Declined) m)
           (iterations u) m)"

definition record_usage :: "'f float_ops \<Rightarrow> nat \<Rightarrow> pod_info option \<Rightarrow> 'f \<Rightarrow> usage_info \<Rightarrow> 'f metrics \<Rightarrow> 'f metrics" where
  "record_usage ops day pod latency u m =
     record_llm_call ops day pod u (case model u of None \<Rightarrow> ''unknown'' | Some s \<Rightarrow> s) latency
       (prompt_tokens u = 0 \<and> completion_tokens u = 0) m"

definition record_unparsed :: "unparsed_reason \<Rightarrow> labels \<Rightarrow> 'f metrics \<Rightarrow> 'f metrics" where
  "record_unparsed reason attrs =
     add_reading (Counted ''llm_responses_unparsed_total'' (attrs @ [(''reason'', reason_label reason)]) 1)"

definition record_resynced :: "labels \<Rightarrow> 'f metrics \<Rightarrow> 'f metrics" where
  "record_resynced attrs = add_reading (Counted ''llm_h2_resynced_total'' attrs 1)"

definition record_midjoin :: "labels \<Rightarrow> 'f metrics \<Rightarrow> 'f metrics" where
  "record_midjoin attrs = add_reading (Counted ''llm_h2_midjoin_recorded_total'' attrs 1)"

text \<open>One entry of the processors' ledger, with what the node answers when it is exported.\<close>

record 'f export_env =
  ee_day :: nat
  ee_pod :: "pod_info option"
  ee_latency :: 'f

definition export_entry :: "'f float_ops \<Rightarrow> 'f export_env \<times> ledger_entry \<Rightarrow> 'f metrics \<Rightarrow> 'f metrics" where
  "export_entry ops ex m =
     (case ex of (env, e) \<Rightarrow>
       case e of
         Call_Recorded u _ _ \<Rightarrow> record_usage ops (ee_day env) (ee_pod env) (ee_latency env) u m
       | Call_Unparsed _ reason \<Rightarrow> record_unparsed reason (pod_attrs (ee_pod env)) m
       | Midjoin_Recorded \<Rightarrow> record_midjoin (pod_attrs (ee_pod env)) m
       | Direction_Resynced \<Rightarrow> record_resynced (pod_attrs (ee_pod env)) m)"

section \<open>The user's price file\<close>

record price_file =
  pf_seen :: "str option"
  pf_unreadable :: bool

definition price_file_new :: price_file where
  "price_file_new = \<lparr>pf_seen = None, pf_unreadable = False\<rparr>"

text \<open>The contents read, if the file could be read, that differ from the last ones.\<close>

definition price_file_changed :: "str option \<Rightarrow> price_file \<Rightarrow> str option \<times> price_file" where
  "price_file_changed contents f =
     (case contents of
        Some json \<Rightarrow>
          (let f = f\<lparr>pf_unreadable := False\<rparr> in
           if pf_seen f = Some json then (None, f) else (Some json, f\<lparr>pf_seen := Some json\<rparr>))
      | None \<Rightarrow> (None, f\<lparr>pf_unreadable := True\<rparr>))"

definition inline_prices :: "str option \<Rightarrow> str option" where
  "inline_prices env = (case env of None \<Rightarrow> None | Some json \<Rightarrow> if json = [] then None else Some json)"

definition load_prices :: "'f price_libs \<Rightarrow> str \<Rightarrow> str option \<Rightarrow> 'f price_table option" where
  "load_prices lib builtin custom =
     (case table_from_json lib builtin of
        Inl _ \<Rightarrow> None
      | Inr tb \<Rightarrow> Some (case custom of None \<Rightarrow> tb | Some json \<Rightarrow> snd (merge_custom lib json tb)))"

definition merged :: "'f price_libs \<Rightarrow> str \<Rightarrow> str \<Rightarrow> price_error + 'f price_table" where
  "merged lib builtin json =
     (case table_from_json lib builtin of
        Inl e \<Rightarrow> Inl e
      | Inr tb \<Rightarrow> (case merge_custom lib json tb of (Inl e, _) \<Rightarrow> Inl e | (Inr _, tb) \<Rightarrow> Inr tb))"

definition reload_prices ::
  "'f price_libs \<Rightarrow> str \<Rightarrow> str option \<Rightarrow> 'f price_table option \<times> price_file \<Rightarrow> 'f price_table option \<times> price_file" where
  "reload_prices lib builtin contents pf =
     (case pf of
        (None, f) \<Rightarrow> pf
      | (Some current, f) \<Rightarrow>
          (case price_file_changed contents f of
             (None, f) \<Rightarrow> (Some current, f)
           | (Some json, f) \<Rightarrow>
               (case merged lib builtin json of
                  Inr tb \<Rightarrow> if tb_version tb = tb_version current then (Some current, f) else (Some tb, f)
                | Inl _ \<Rightarrow> (Some current, f))))"

text \<open>What starting the metrics does with them: the file when it can be read, or the inline prices.\<close>

definition start_prices :: "'f price_libs \<Rightarrow> str \<Rightarrow> str option \<Rightarrow> str option \<Rightarrow> 'f price_table option \<times> price_file" where
  "start_prices lib builtin inline contents =
     (let (changed, f) = price_file_changed contents price_file_new in
      (load_prices lib builtin (case changed of None \<Rightarrow> inline_prices inline | Some json \<Rightarrow> Some json), f))"

end
