(* ===== verification/Metrics_Props.thy ===== *)
theory Metrics_Props
  imports Metrics
begin

text \<open>
  What the exported metrics add up to: the calls, tokens and losses of the processors' ledger, with every
  billed token either charged or counted as unpriced; and the price table in use follows the user's file.
\<close>

section \<open>Totals\<close>

definition counted :: "str \<Rightarrow> 'f reading \<Rightarrow> nat" where
  "counted name r = (case r of Counted n _ k \<Rightarrow> if n = name then k else 0 | _ \<Rightarrow> 0)"

definition charged :: "str \<Rightarrow> real reading \<Rightarrow> real" where
  "charged name r = (case r of Charged n _ usd \<Rightarrow> if n = name then usd else 0 | _ \<Rightarrow> 0)"

definition total :: "str \<Rightarrow> 'f metrics \<Rightarrow> nat" where
  "total name m = sum_list (map (counted name) (mt_readings m))"

definition spent :: "real metrics \<Rightarrow> real" where
  "spent m = sum_list (map (charged ''llm_cost_usd_total'') (mt_readings m))"

lemma counted_simps [simp]:
  "counted n (Counted n' l k) = (if n' = n then k else 0)" "counted n (Charged n' l x) = 0" "counted n (Timed n' l x) = 0"
  "charged n (Counted n' l k) = 0" "charged n (Charged n' l y) = (if n' = n then y else 0)" "charged n (Timed n' l y) = 0"
  by (simp_all add: counted_def charged_def)

lemma add_reading_simps [simp]:
  "total n (add_reading r m) = total n m + counted n r"
  "spent (add_reading r' m') = spent m' + charged ''llm_cost_usd_total'' r'"
  "mt_prices (add_reading r m) = mt_prices m"
  by (simp_all add: total_def spent_def add_reading_def)

lemma charge_simps [simp]:
  "total n (charge ops name l x m) = total n m"
  "mt_prices (charge ops name l x m) = mt_prices m"
  by (simp_all add: charge_def)

lemma spent_charge:
  "0 \<le> x \<Longrightarrow> spent (charge real_ops name l x m) = spent m + (if name = ''llm_cost_usd_total'' then x else 0)"
  by (simp add: charge_def real_ops_def)

lemma count_if_simps [simp]:
  "mt_prices (count_if name l k m) = mt_prices m" "spent (count_if name l k m') = spent m'"
  "total n (count_if name l k m) = total n m + (if name = n then or_zero k else 0)"
  by (simp_all add: count_if_def or_zero_def split: option.split)

section \<open>One attempt\<close>

definition priced_at :: "real price_table option \<Rightarrow> nat \<Rightarrow> usage_info \<Rightarrow> real" where
  "priced_at prices day u =
     (case prices of None \<Rightarrow> 0 | Some tb \<Rightarrow> (case cost_on real_ops tb u day of Inl _ \<Rightarrow> 0 | Inr c \<Rightarrow> total_cost c))"

definition unpriced_at :: "real price_table option \<Rightarrow> nat \<Rightarrow> usage_info \<Rightarrow> nat" where
  "unpriced_at prices day u =
     (case prices of
        None \<Rightarrow> 0
      | Some tb \<Rightarrow>
          (case cost_on real_ops tb u day of
             Inl _ \<Rightarrow> sat_add (prompt_tokens u) (completion_tokens u) | Inr _ \<Rightarrow> 0))"

lemma record_cost_simps:
  "mt_prices (record_cost ops day u l m) = mt_prices m"
  "total n (record_cost real_ops day u l m') = total n m' +
     (if n = ''llm_unpriced_tokens_total'' then unpriced_at (mt_prices m') day u else 0)"
  by (auto simp: record_cost_def unpriced_at_def Let_def split: option.split sum.split)

definition prices_in_range :: "real price_table option \<Rightarrow> bool" where
  "prices_in_range prices \<longleftrightarrow> (case prices of None \<Rightarrow> True | Some tb \<Rightarrow> table_in_range tb)"

lemma spent_record_cost:
  assumes "prices_in_range (mt_prices m)"
  shows "spent (record_cost real_ops day u l m) = spent m + priced_at (mt_prices m) day u"
proof (cases "mt_prices m")
  case (Some tb)
  then have tb: "table_in_range tb" using assms by (simp add: prices_in_range_def)
  show ?thesis
  proof (cases "cost_on real_ops tb u day")
    case (Inr c)
    have "0 \<le> co_input c" "0 \<le> co_cache_read c" "0 \<le> co_cache_write c" "0 \<le> co_output c"
      using cost_range [OF tb Inr] by simp_all
    moreover have "spent (charge real_ops ''llm_cache_savings_ceiling_usd_total'' l x m) = spent m" for l x m
      by (simp add: charge_def)
    ultimately show ?thesis
      using Some Inr
      by (simp add: record_cost_def priced_at_def spent_charge total_cost_def Let_def split: sum.split)
  qed (use Some in \<open>simp add: record_cost_def priced_at_def Let_def\<close>)
qed (simp add: record_cost_def priced_at_def)

definition attempt_tokens :: "usage_info \<Rightarrow> nat" where
  "attempt_tokens u = prompt_tokens u + completion_tokens u"

lemma record_tokens_simps [simp]:
  "mt_prices (record_tokens ops day u l m) = mt_prices m"
  "total ''llm_tokens_total'' (record_tokens real_ops day u l m') = total ''llm_tokens_total'' m' + attempt_tokens u"
  "total ''llm_unpriced_tokens_total'' (record_tokens real_ops day u l m') = total ''llm_unpriced_tokens_total'' m' +
     (if cost_suppressed u then 0 else unpriced_at (mt_prices m') day u)"
  "n \<in> {''llm_requests_total'', ''llm_responses_unparsed_total'', ''llm_h2_resynced_total'', ''llm_h2_midjoin_recorded_total''} \<Longrightarrow>
     total n (record_tokens real_ops day u l m') = total n m'"
  by (auto simp: record_tokens_def record_cost_simps attempt_tokens_def Let_def)

lemma spent_record_tokens:
  "prices_in_range (mt_prices m) \<Longrightarrow>
     spent (record_tokens real_ops day u l m) = spent m + (if cost_suppressed u then 0 else priced_at (mt_prices m) day u)"
  by (simp add: record_tokens_def spent_record_cost Let_def)

section \<open>One call\<close>

text \<open>The attempts of a call that are billed: the served one and the declined ones, if they have tokens.\<close>

definition attempts :: "usage_info \<Rightarrow> usage_info list" where
  "attempts u = filter (\<lambda>a. attempt_tokens a \<noteq> 0) (u # iterations u)"

definition billed_attempts :: "usage_info \<Rightarrow> usage_info list" where
  "billed_attempts u = filter (\<lambda>a. \<not> cost_suppressed a) (attempts u)"

definition declined_step :: "'f float_ops \<Rightarrow> nat \<Rightarrow> pod_info option \<Rightarrow> usage_info \<Rightarrow> 'f metrics \<Rightarrow> 'f metrics" where
  "declined_step ops day pod att m =
     (if prompt_tokens att = 0 \<and> completion_tokens att = 0 then m
      else record_tokens ops day att
        (llm_attrs pod (case model att of None \<Rightarrow> ''unknown'' | Some s \<Rightarrow> s) ''success'' Declined) m)"

lemma declined_steps:
  "mt_prices (fold (declined_step ops day pod) as m) = mt_prices m"
  "total ''llm_tokens_total'' (fold (declined_step real_ops day pod) as m') =
     total ''llm_tokens_total'' m' + sum_list (map attempt_tokens as)"
  "total ''llm_unpriced_tokens_total'' (fold (declined_step real_ops day pod) as m') =
     total ''llm_unpriced_tokens_total'' m' +
     sum_list (map (unpriced_at (mt_prices m') day) (filter (\<lambda>a. \<not> cost_suppressed a \<and> attempt_tokens a \<noteq> 0) as))"
  "prices_in_range (mt_prices m') \<Longrightarrow> spent (fold (declined_step real_ops day pod) as m') =
     spent m' + sum_list (map (priced_at (mt_prices m') day) (filter (\<lambda>a. \<not> cost_suppressed a \<and> attempt_tokens a \<noteq> 0) as))"
  "n \<in> {''llm_requests_total'', ''llm_responses_unparsed_total'', ''llm_h2_resynced_total'', ''llm_h2_midjoin_recorded_total''} \<Longrightarrow>
     total n (fold (declined_step real_ops day pod) as m') = total n m'"
proof -
  show "mt_prices (fold (declined_step ops day pod) as m) = mt_prices m"
    by (induction as arbitrary: m) (simp_all add: declined_step_def)
  show "total ''llm_tokens_total'' (fold (declined_step real_ops day pod) as m') =
      total ''llm_tokens_total'' m' + sum_list (map attempt_tokens as)"
    by (induction as arbitrary: m') (simp_all add: declined_step_def attempt_tokens_def)
  show "total ''llm_unpriced_tokens_total'' (fold (declined_step real_ops day pod) as m') =
      total ''llm_unpriced_tokens_total'' m' +
      sum_list (map (unpriced_at (mt_prices m') day) (filter (\<lambda>a. \<not> cost_suppressed a \<and> attempt_tokens a \<noteq> 0) as))"
    by (induction as arbitrary: m') (auto simp: declined_step_def attempt_tokens_def)
  show "prices_in_range (mt_prices m') \<Longrightarrow> spent (fold (declined_step real_ops day pod) as m') =
      spent m' + sum_list (map (priced_at (mt_prices m') day) (filter (\<lambda>a. \<not> cost_suppressed a \<and> attempt_tokens a \<noteq> 0) as))"
    by (induction as arbitrary: m') (auto simp: declined_step_def attempt_tokens_def spent_record_tokens)
  show "n \<in> {''llm_requests_total'', ''llm_responses_unparsed_total'', ''llm_h2_resynced_total'', ''llm_h2_midjoin_recorded_total''} \<Longrightarrow>
      total n (fold (declined_step real_ops day pod) as m') = total n m'"
    by (induction as arbitrary: m') (simp_all add: declined_step_def)
qed

lemma record_usage_parts:
  "record_usage ops day pod latency u m =
     fold (declined_step ops day pod) (iterations u)
       (record_llm ops day u latency (attempt_tokens u = 0)
         (llm_attrs pod (case model u of None \<Rightarrow> ''unknown'' | Some s \<Rightarrow> s)
           (if attempt_tokens u = 0 then ''error'' else ''success'') Served) m)"
  unfolding record_usage_def record_llm_call_def Let_def attempt_tokens_def declined_step_def [abs_def] by simp

lemma record_usage_totals:
  "mt_prices (record_usage ops day pod latency u m) = mt_prices m"
  "total ''llm_requests_total'' (record_usage real_ops day pod latency' u m') = total ''llm_requests_total'' m' + 1"
  "total ''llm_tokens_total'' (record_usage real_ops day pod latency' u m') =
     total ''llm_tokens_total'' m' + sum_list (map attempt_tokens (u # iterations u))"
  "total ''llm_unpriced_tokens_total'' (record_usage real_ops day pod latency' u m') =
     total ''llm_unpriced_tokens_total'' m' + sum_list (map (unpriced_at (mt_prices m') day) (billed_attempts u))"
  "prices_in_range (mt_prices m') \<Longrightarrow> spent (record_usage real_ops day pod latency' u m') =
     spent m' + sum_list (map (priced_at (mt_prices m') day) (billed_attempts u))"
  "n \<in> {''llm_responses_unparsed_total'', ''llm_h2_resynced_total'', ''llm_h2_midjoin_recorded_total''} \<Longrightarrow>
     total n (record_usage real_ops day pod latency' u m') = total n m'"
  by (auto simp: record_usage_parts declined_steps record_llm_def billed_attempts_def attempts_def Let_def
      spent_record_tokens conj_commute)

section \<open>The ledger\<close>

type_synonym exports = "(real export_env \<times> ledger_entry) list"

definition export_all :: "exports \<Rightarrow> real metrics \<Rightarrow> real metrics" where
  "export_all exs m = fold (export_entry real_ops) exs m"

text \<open>The usages of the calls the ledger records, each with the day it was exported on.\<close>

definition calls_of :: "exports \<Rightarrow> (nat \<times> usage_info) list" where
  "calls_of exs =
     List.map_filter (\<lambda>(env, e). case e of Call_Recorded u _ _ \<Rightarrow> Some (ee_day env, u) | _ \<Rightarrow> None) exs"

definition billed_of :: "exports \<Rightarrow> (nat \<times> usage_info) list" where
  "billed_of exs = concat (map (\<lambda>(day, u). map (Pair day) (billed_attempts u)) (calls_of exs))"

definition is_unparsed :: "ledger_entry \<Rightarrow> bool" where
  "is_unparsed e = (case e of Call_Unparsed _ _ \<Rightarrow> True | _ \<Rightarrow> False)"

lemma calls_of_simps [simp]:
  "calls_of [] = []"
  "calls_of ((env, e) # exs) =
     (case e of Call_Recorded u _ _ \<Rightarrow> [(ee_day env, u)] | _ \<Rightarrow> []) @ calls_of exs"
  by (auto simp: calls_of_def map_filter_simps split: ledger_entry.split)

lemma export_entry_prices [simp]: "mt_prices (export_entry ops ex m) = mt_prices m"
  by (cases ex; cases "snd ex")
    (simp_all add: export_entry_def record_usage_totals record_unparsed_def record_midjoin_def record_resynced_def)

lemma export_all_prices: "mt_prices (export_all exs m) = mt_prices m"
  unfolding export_all_def by (induction exs arbitrary: m) simp_all

lemma export_all_Cons: "export_all (ex # exs) m = export_all exs (export_entry real_ops ex m)"
  by (simp add: export_all_def)

lemmas entry_simps = export_entry_def record_usage_totals record_unparsed_def record_midjoin_def record_resynced_def

text \<open>C6: The exported metrics are the ledger's: whatever the calls, one request and all its tokens per recorded
  call, those of the attempts it fell back from included, and one count per lost call, resynchronised direction
  and mid-joined call; nothing is exported twice or dropped between the processors and the counters.\<close>

theorem metrics_match_ledger:
  "let m = export_all exs \<lparr>mt_readings = [], mt_prices = prices\<rparr> in
     total ''llm_requests_total'' m = length (calls_of exs) \<and>
     total ''llm_tokens_total'' m =
       sum_list (map (\<lambda>(day, u). sum_list (map attempt_tokens (u # iterations u))) (calls_of exs)) \<and>
     total ''llm_responses_unparsed_total'' m = length (filter is_unparsed (map snd exs)) \<and>
     total ''llm_h2_midjoin_recorded_total'' m = count_list (map snd exs) Midjoin_Recorded \<and>
     total ''llm_h2_resynced_total'' m = count_list (map snd exs) Direction_Resynced"
proof -
  have "total ''llm_requests_total'' (export_all exs m) = total ''llm_requests_total'' m + length (calls_of exs)"
    for m
    by (induction exs arbitrary: m)
      (auto simp: export_all_Cons entry_simps export_all_def [of "[]"] split: ledger_entry.splits)
  moreover have "total ''llm_tokens_total'' (export_all exs m) = total ''llm_tokens_total'' m +
      sum_list (map (\<lambda>(day, u). sum_list (map attempt_tokens (u # iterations u))) (calls_of exs))" for m
    by (induction exs arbitrary: m)
      (auto simp: export_all_Cons entry_simps export_all_def [of "[]"] split: ledger_entry.splits)
  moreover have "total ''llm_responses_unparsed_total'' (export_all exs m) =
      total ''llm_responses_unparsed_total'' m + length (filter is_unparsed (map snd exs))" for m
    by (induction exs arbitrary: m)
      (auto simp: export_all_Cons entry_simps is_unparsed_def export_all_def [of "[]"] split: ledger_entry.splits)
  moreover have "total ''llm_h2_midjoin_recorded_total'' (export_all exs m) =
      total ''llm_h2_midjoin_recorded_total'' m + count_list (map snd exs) Midjoin_Recorded" for m
    by (induction exs arbitrary: m)
      (auto simp: export_all_Cons entry_simps export_all_def [of "[]"] split: ledger_entry.splits)
  moreover have "total ''llm_h2_resynced_total'' (export_all exs m) =
      total ''llm_h2_resynced_total'' m + count_list (map snd exs) Direction_Resynced" for m
    by (induction exs arbitrary: m)
      (auto simp: export_all_Cons entry_simps export_all_def [of "[]"] split: ledger_entry.splits)
  moreover have "total n \<lparr>mt_readings = [], mt_prices = prices\<rparr> = 0" for n by (simp add: total_def)
  ultimately show ?thesis by (simp add: Let_def)
qed

section \<open>The price table in use\<close>

lemma load_prices_range:
  assumes "pl_ops lib = real_ops"
  shows "prices_in_range (load_prices lib builtin custom)"
  using table_from_json_range [OF assms] merge_custom_range [OF assms]
  by (auto simp: load_prices_def prices_in_range_def split: sum.split option.split)

lemma merged_range:
  assumes "pl_ops lib = real_ops" and "merged lib builtin json = Inr tb"
  shows "table_in_range tb"
proof -
  obtain tb' where base: "table_from_json lib builtin = Inr tb'"
    and tb: "tb = snd (merge_custom lib json tb')"
    using assms(2) by (auto simp: merged_def split: sum.splits prod.splits)
  show ?thesis unfolding tb by (rule merge_custom_range [OF assms(1) table_from_json_range [OF assms(1) base]])
qed

definition prices_after :: "'f price_libs \<Rightarrow> str \<Rightarrow> str option \<Rightarrow> str option \<Rightarrow> str option list \<Rightarrow> 'f price_table option \<times> price_file" where
  "prices_after lib builtin inline first_read reads =
     fold (reload_prices lib builtin) reads (start_prices lib builtin inline first_read)"

lemma reload_range:
  assumes "pl_ops lib = real_ops"
  shows "prices_in_range (fst (prices_after lib builtin inline first_read reads))"
proof -
  have "prices_in_range (fst (reload_prices lib builtin contents pf))" if "prices_in_range (fst pf)" for contents pf
    using that merged_range [OF assms]
    by (auto simp: reload_prices_def prices_in_range_def split: prod.split option.split sum.split)
  then have "prices_in_range (fst (fold (reload_prices lib builtin) reads pf))" if "prices_in_range (fst pf)" for pf
    using that by (induction reads arbitrary: pf) simp_all
  moreover have "prices_in_range (fst (start_prices lib builtin inline first_read))"
    by (simp add: start_prices_def case_prod_beta load_prices_range [OF assms])
  ultimately show ?thesis by (simp add: prices_after_def)
qed

text \<open>C8: With any price table the agent can have in use, loaded and reloaded from any user files, the cost counter
  rises by exactly the cost of the billed attempts the table can price, and the unpriced counter by the tokens
  of exactly the others, so an attempt that cannot be priced is never taken for a free one. Attempts whose cost
  the provider waives count in neither, and without a table nothing is charged.\<close>

theorem billed_tokens_are_charged_or_counted:
  "let prices = fst (prices_after (lib\<lparr>pl_ops := real_ops\<rparr>) builtin inline first_read reads);
       m = export_all exs \<lparr>mt_readings = [], mt_prices = prices\<rparr> in
     case prices of
       None \<Rightarrow> spent m = 0 \<and> total ''llm_unpriced_tokens_total'' m = 0
     | Some tb \<Rightarrow>
         spent m = sum_list (map (\<lambda>(day, u). case cost_on real_ops tb u day of Inr c \<Rightarrow> total_cost c | Inl _ \<Rightarrow> 0) (billed_of exs)) \<and>
         total ''llm_unpriced_tokens_total'' m =
           sum_list (map (\<lambda>(day, u). case cost_on real_ops tb u day of
             Inr _ \<Rightarrow> 0 | Inl _ \<Rightarrow> sat_add (prompt_tokens u) (completion_tokens u)) (billed_of exs))"
proof -
  define prices where "prices = fst (prices_after (lib\<lparr>pl_ops := real_ops\<rparr>) builtin inline first_read reads)"
  have range: "prices_in_range prices" unfolding prices_def by (rule reload_range) simp
  have "spent (export_all exs m) = spent m + sum_list (map (\<lambda>(day, u). priced_at prices day u) (billed_of exs))"
    if "mt_prices m = prices" for m
    using that range
    by (induction exs arbitrary: m)
      (auto simp: export_all_Cons entry_simps billed_of_def comp_def export_all_def [of "[]"] split: ledger_entry.splits)
  moreover have "total ''llm_unpriced_tokens_total'' (export_all exs m) = total ''llm_unpriced_tokens_total'' m +
      sum_list (map (\<lambda>(day, u). unpriced_at prices day u) (billed_of exs))" if "mt_prices m = prices" for m
    using that
    by (induction exs arbitrary: m)
      (auto simp: export_all_Cons entry_simps billed_of_def comp_def export_all_def [of "[]"] split: ledger_entry.splits)
  moreover have "spent \<lparr>mt_readings = [], mt_prices = prices\<rparr> = 0" by (simp add: spent_def)
  moreover have "total n \<lparr>mt_readings = [], mt_prices = prices\<rparr> = 0" for n by (simp add: total_def)
  moreover have "(case prices of None \<Rightarrow> False | Some tb \<Rightarrow> True) \<or> sum_list (map (\<lambda>(day, u). priced_at prices day u) xs) = 0 \<and>
      sum_list (map (\<lambda>(day, u). unpriced_at prices day u) xs) = 0" for xs
    by (induction xs; cases prices) (auto simp: priced_at_def unpriced_at_def)
  ultimately show ?thesis
    unfolding prices_def [symmetric]
    by (cases prices) (simp_all add: priced_at_def unpriced_at_def Let_def case_prod_beta cong: sum.case_cong)
qed

definition last_read :: "str option list \<Rightarrow> str option" where
  "last_read rs = fold (\<lambda>r acc. case r of None \<Rightarrow> acc | Some json \<Rightarrow> Some json) rs None"

text \<open>The price table in use follows the user's file: after any sequence of rereads, readable or not, if the file
  as last read passes the checks then the table in use has the version of the built-in table merged with
  exactly that file; a file that fails them leaves the table in use as it was. The built-in table alone decides
  whether there is one at all.\<close>

lemma price_table_follows_the_file:
  "let (prices, f) = prices_after lib builtin inline first_read reads in
     (case table_from_json lib builtin of Inl _ \<Rightarrow> prices = None | Inr _ \<Rightarrow> prices \<noteq> None) \<and>
     (case (prices, last_read (first_read # reads)) of
        (Some tb, Some json) \<Rightarrow>
          (case merged lib builtin json of Inr tb' \<Rightarrow> tb_version tb = tb_version tb' | Inl _ \<Rightarrow> True)
      | _ \<Rightarrow> True) \<and>
     (case merged lib builtin json of
        Inl _ \<Rightarrow> fst (reload_prices lib builtin (Some json) (prices, f)) = prices
      | Inr _ \<Rightarrow> True)"
proof -
  define follows :: "'a price_table option \<times> price_file \<Rightarrow> str option list \<Rightarrow> bool" where
    "follows pf rs \<longleftrightarrow>
       (case table_from_json lib builtin of Inl _ \<Rightarrow> fst pf = None | Inr _ \<Rightarrow> fst pf \<noteq> None) \<and>
       (case fst pf of
          None \<Rightarrow> True
        | Some tb \<Rightarrow> pf_seen (snd pf) = last_read rs \<and>
            (case last_read rs of None \<Rightarrow> True | Some json \<Rightarrow>
               (case merged lib builtin json of Inr tb' \<Rightarrow> tb_version tb = tb_version tb' | Inl _ \<Rightarrow> True)))" for pf rs
  have "follows (start_prices lib builtin inline first_read) [first_read]"
    by (auto simp: follows_def start_prices_def price_file_changed_def price_file_new_def load_prices_def merged_def
        last_read_def Let_def split: option.splits sum.splits prod.splits)
  moreover have "follows (reload_prices lib builtin contents pf) (rs @ [contents])" if "follows pf rs" for contents pf rs
    using that
    by (auto simp: follows_def reload_prices_def price_file_changed_def last_read_def Let_def
        split: option.splits sum.splits prod.splits if_splits)
  then have "follows (fold (reload_prices lib builtin) reads pf) (rs @ reads)" if "follows pf rs" for pf rs
    using that by (induction reads arbitrary: pf rs) (simp, fastforce)
  ultimately have follows: "follows (prices_after lib builtin inline first_read reads) (first_read # reads)"
    by (fastforce simp: prices_after_def)
  show ?thesis
    using follows
    by (auto simp: follows_def case_prod_beta reload_prices_def price_file_changed_def Let_def
        split: option.splits sum.splits prod.splits)
qed

end
