(* ===== verification/Wire.thy ===== *)
theory Wire
  imports Ssl_Probe_Props Agent
begin

text \<open>
  The bytes of a ring record (the layout of \<open>LlmEventHeader\<close> and \<open>parse_llm_record\<close>, agent, probes/mod.rs):
  the agent reads back exactly the header and the payload the kernel sent.
\<close>

section \<open>Layout\<close>

definition le_bytes :: "nat \<Rightarrow> 'a :: len word \<Rightarrow> bytes" where
  "le_bytes n w = map (\<lambda>i. ucast (drop_bit (8 * i) w)) [0..<n]"

definition comm_bytes :: "event_header \<Rightarrow> bytes" where
  "comm_bytes h = take 16 (h_comm h @ replicate 16 0)"

text \<open>\<open>repr(C)\<close> on a little-endian machine: the fields in order, without padding.\<close>

definition header_bytes :: "event_header \<Rightarrow> bytes" where
  "header_bytes h =
     (let m = h_metadata h in
      le_bytes 4 (m_pid m) @ le_bytes 4 (m_pad m) @ le_bytes 8 (m_cgroup m) @ le_bytes 8 (m_timestamp m) @
      le_bytes 8 (h_ssl h) @ le_bytes 8 (h_latency h) @
      le_bytes 4 (h_len h) @ le_bytes 4 (h_buf_filled h) @ le_bytes 4 (h_offset h) @
      [h_handshake h, h_rw h, h_truncated h, h_closed h] @ comm_bytes h)"

definition HEADER_SIZE :: nat where
  "HEADER_SIZE = 72"

definition word_at :: "bytes \<Rightarrow> nat \<Rightarrow> nat \<Rightarrow> 'a :: len word" where
  "word_at item p n = le_word (take n (drop p item))"

definition header_at :: "bytes \<Rightarrow> event_header" where
  "header_at item =
     \<lparr>h_metadata = \<lparr>m_pid = word_at item 0 4, m_pad = word_at item 4 4, m_cgroup = word_at item 8 8,
        m_timestamp = word_at item 16 8\<rparr>,
      h_ssl = word_at item 24 8, h_latency = word_at item 32 8,
      h_len = word_at item 40 4, h_buf_filled = word_at item 44 4, h_offset = word_at item 48 4,
      h_handshake = item ! 52, h_rw = item ! 53, h_truncated = item ! 54, h_closed = item ! 55,
      h_comm = take 16 (drop 56 item)\<rparr>"

definition parse_llm_record :: "bytes \<Rightarrow> (event_header \<times> bytes) option" where
  "parse_llm_record item =
     (if length item < HEADER_SIZE then None
      else
        (let header = header_at item; stop = HEADER_SIZE + payload_len header in
         if stop \<le> length item then Some (header, take (stop - HEADER_SIZE) (drop HEADER_SIZE item)) else None))"

text \<open>Draining the ring: every record that parses goes to the handler, in order.\<close>

fun drain_records :: "(event_header \<Rightarrow> bytes \<Rightarrow> 's \<Rightarrow> 's) \<Rightarrow> bytes list \<Rightarrow> nat \<times> 's \<Rightarrow> nat \<times> 's" where
  "drain_records handler [] (drained, s) = (drained, s)"
| "drain_records handler (item # items) (drained, s) =
     drain_records handler items
       (Suc drained, case parse_llm_record item of None \<Rightarrow> s | Some (h, data) \<Rightarrow> handler h data s)"

section \<open>Reading a header back\<close>

lemma length_le_bytes [simp]: "length (le_bytes n w) = n"
  by (simp add: le_bytes_def)

lemma le_word_le_bytes: "LENGTH('a) = 8 * n \<Longrightarrow> le_word (le_bytes n (w :: 'a :: len word)) = w"
proof (rule bit_word_eqI)
  fix i assume "LENGTH('a) = 8 * n" and "i < LENGTH('a)"
  then have "i div 8 < n" "8 * (i div 8) + i mod 8 = i" by auto
  then show "bit (le_word (le_bytes n w) :: 'a word) i = bit w i"
    using \<open>i < LENGTH('a)\<close> by (simp add: bit_le_word le_bytes_def bit_ucast_iff bit_drop_bit_eq)
qed

lemma length_comm [simp]: "length (comm_bytes h) = 16"
  by (simp add: comm_bytes_def)

lemma header_bytes_length [simp]: "length (header_bytes h) = HEADER_SIZE"
  by (simp add: header_bytes_def HEADER_SIZE_def Let_def)

lemma word_at_skip:
  "length xs \<le> p \<Longrightarrow> word_at (xs @ ys) p n = word_at ys (p - length xs) n"
  by (simp add: word_at_def)

lemma word_at_first: "LENGTH('a) = 8 * n \<Longrightarrow> word_at (le_bytes n (w :: 'a :: len word) @ ys) 0 n = w"
  by (simp add: word_at_def le_word_le_bytes)

lemma header_at_bytes: "header_at (header_bytes h @ rest) = h\<lparr>h_comm := comm_bytes h\<rparr>"
  by (cases h, cases "h_metadata h")
    (simp add: header_at_def header_bytes_def Let_def word_at_skip word_at_first nth_append comm_bytes_def)

lemma payload_len_comm [simp]: "payload_len (h\<lparr>h_comm := c\<rparr>) = payload_len h"
  by (simp add: payload_len_def)

lemma parse_record:
  assumes "length data = payload_len h"
  shows "parse_llm_record (take n (header_bytes h @ data @ junk)) =
    (if n < HEADER_SIZE + length data then None else Some (h\<lparr>h_comm := comm_bytes h\<rparr>, data))"
proof (cases "n < HEADER_SIZE")
  case False
  then have "header_at (take n (header_bytes h @ data @ junk)) = h\<lparr>h_comm := comm_bytes h\<rparr>"
    using header_at_bytes by (simp add: take_append)
  with False show ?thesis
    using assms by (auto simp: parse_llm_record_def Let_def take_append)
qed (simp add: parse_llm_record_def)

section \<open>From the ring to the agent\<close>

lemma on_ssl_event_comm: "on_ssl_event lib reg now (h\<lparr>h_comm := c\<rparr>) data ag = on_ssl_event lib reg now h data ag"
proof -
  let ?h = "h\<lparr>h_comm := c\<rparr>"
  have key: "stream_key ?h = stream_key h" by (simp add: stream_key_def)
  have fields: "h_metadata ?h = h_metadata h" "h_rw ?h = h_rw h" "h_closed ?h = h_closed h"
    "h_handshake ?h = h_handshake h" "h_truncated ?h = h_truncated h" "h_len ?h = h_len h" "h_offset ?h = h_offset h"
    "h_ssl ?h = h_ssl h" "h_latency ?h = h_latency h" "h_buf_filled ?h = h_buf_filled h"
    by simp_all
  have skip: "host_skip_connection ?h = host_skip_connection h"
    unfolding host_skip_connection_def key fields ..
  have route: "route_event lib reg now ?h data = route_event lib reg now h data"
    unfolding route_event_def key fields ..
  have foreign: "opens_foreign_request lib reg ?h data = opens_foreign_request lib reg h data"
    unfolding opens_foreign_request_def key fields ..
  show ?thesis unfolding on_ssl_event_def skip_if_foreign_def key skip route foreign fields ..
qed

text \<open>A record as the ring holds it: the payload in a bucket of its size, whose end may hold anything.\<close>

definition ring_bytes :: "(event_header \<Rightarrow> bytes) \<Rightarrow> event_header \<times> bytes \<Rightarrow> bytes" where
  "ring_bytes junk r = (case r of (h, data) \<Rightarrow> header_bytes h @ data @ junk h)"

lemma parse_ring_bytes:
  "length data = payload_len h \<Longrightarrow> parse_llm_record (ring_bytes junk (h, data)) = Some (h\<lparr>h_comm := comm_bytes h\<rparr>, data)"
  using parse_record [of data h "HEADER_SIZE + length data + length (junk h)" "junk h"]
  by (simp add: ring_bytes_def add.assoc)

lemma ring_payloads: "list_all (\<lambda>(h, data). length data = payload_len h) (k_ring (foldl probe_step kernel_new ops))"
proof -
  have "kernel_inv k \<Longrightarrow> kernel_inv (foldl probe_step k ops)" for k
    by (induction ops arbitrary: k) (simp_all add: probe_step_inv)
  moreover have "kernel_inv kernel_new" by (simp add: kernel_inv_def kernel_new_def)
  ultimately have "kernel_inv (foldl probe_step kernel_new ops)" .
  then show ?thesis by (simp add: kernel_inv_def)
qed

lemma drain_ring_bytes:
  "list_all (\<lambda>(h, data). length data = payload_len h) rs \<Longrightarrow>
     drain_records (on_ssl_event lib reg now) (map (ring_bytes junk) rs) (n, ag) =
       (n + length rs, fold (\<lambda>(h, data). on_ssl_event lib reg now h data) rs ag)"
proof (induction rs arbitrary: n ag)
  case (Cons r rs)
  obtain h data where r: "r = (h, data)" by fastforce
  with Cons.prems have "parse_llm_record (ring_bytes junk r) = Some (h\<lparr>h_comm := comm_bytes h\<rparr>, data)"
    by (simp add: parse_ring_bytes)
  with Cons show ?case by (simp add: r on_ssl_event_comm)
qed simp

text \<open>C2: What the kernel writes the agent reads: after any probe hits, draining the ring's bytes, each record its
  header in memory order, its payload and whatever the rest of its bucket holds, hands the agent exactly the
  headers and payloads the probes submitted, in order and none dropped; and a record cut short anywhere is
  dropped whole rather than read past its end.\<close>

theorem ring_bytes_reach_the_agent:
  "let rs = k_ring (foldl probe_step kernel_new ops) in
     drain_records (on_ssl_event lib reg now) (map (ring_bytes junk) rs) (0, ag) =
       (length rs, fold (\<lambda>(h, data). on_ssl_event lib reg now h data) rs ag) \<and>
     list_all (\<lambda>(h, data). parse_llm_record (take n (ring_bytes junk (h, data))) =
       (if n < HEADER_SIZE + length data then None else Some (h\<lparr>h_comm := comm_bytes h\<rparr>, data))) rs"
proof -
  have "list_all (\<lambda>(h, data). parse_llm_record (take n (ring_bytes junk (h, data))) =
      (if n < HEADER_SIZE + length data then None else Some (h\<lparr>h_comm := comm_bytes h\<rparr>, data)))
      (k_ring (foldl probe_step kernel_new ops))"
    using ring_payloads [of ops] parse_record unfolding list_all_iff ring_bytes_def by fastforce
  then show ?thesis using drain_ring_bytes [OF ring_payloads] by (simp add: Let_def)
qed

end
