(* ===== verification/Pods_Props.thy ===== *)
theory Pods_Props
  imports Pods
begin

text \<open>
  What the pod store means: a process is attributed to the pod whose last event listed its container, whatever
  was cached before; and what a restarted container leaves behind.
\<close>

section \<open>Finding a cgroup\<close>

fun all_dirs :: "cgroup_dir list \<Rightarrow> (str \<times> u64 option) list" where
  "all_dirs [] = []"
| "all_dirs (Cgroup_Dir name ino entries # dirs) = (name, ino) # all_dirs entries @ all_dirs dirs"

text \<open>The walk finds a directory named after the container wherever it lies, and only such a directory.\<close>

lemma walk_dir_finds:
  "case walk_dir needle dirs of
     None \<Rightarrow> list_all (\<lambda>(name, ino). ino = None \<or> \<not> contains name needle) (all_dirs dirs)
   | Some i \<Rightarrow> list_ex (\<lambda>(name, ino). ino = Some i \<and> contains name needle) (all_dirs dirs)"
  by (induction needle dirs rule: walk_dir.induct) (auto split: option.split option.split_asm if_split_asm)

section \<open>Maps\<close>

lemma map_of_put_ids: "map_of (fold (\<lambda>cid. put_key cid i) ids m) c = (if c \<in> set ids then Some i else map_of m c)"
  by (induction ids arbitrary: m) auto

lemma map_of_remove_ids: "map_of (fold remove_key ids m) c = (if c \<in> set ids then None else map_of m c)"
  by (induction ids arbitrary: m) (auto simp: map_of_remove_key)

lemma put_key_subset: "set (put_key k v m) \<subseteq> insert (k, v) (set m)"
  by (induction k v m rule: put_key.induct) auto

section \<open>Runs of the resolver\<close>

datatype resolver_op = Watch watch_event | Resolve "str option" u64 | Evict

fun resolver_step ::
  "(str \<Rightarrow> u64 option) \<Rightarrow> (str \<Rightarrow> str \<Rightarrow> object_meta option) \<Rightarrow> resolver_op \<Rightarrow> resolver \<Rightarrow> resolver" where
  "resolver_step cgroup_of jobs (Watch e) r = on_watch_event cgroup_of jobs e r"
| "resolver_step cgroup_of jobs (Resolve file cg) r = snd (resolve_pod file cg r)"
| "resolver_step cgroup_of jobs Evict r = evict_stale_cgroups r"

definition resolver_run ::
  "(str \<Rightarrow> u64 option) \<Rightarrow> (str \<Rightarrow> str \<Rightarrow> object_meta option) \<Rightarrow> resolver_op list \<Rightarrow> resolver \<Rightarrow> resolver" where
  "resolver_run cgroup_of jobs steps r = fold (resolver_step cgroup_of jobs) steps r"

text \<open>The pod whose last event listed the container, unless its deletion listed it since.\<close>

definition track_event :: "str \<Rightarrow> watch_event \<Rightarrow> pod option \<Rightarrow> pod option" where
  "track_event cid e acc =
     (let listed = (\<lambda>p. om_name (pd_meta p) \<noteq> None \<and> cid \<in> set (container_ids p)) in
      case e of
        Pod_Apply p \<Rightarrow> if listed p then Some p else acc
      | Pod_Init_Apply p \<Rightarrow> if listed p then Some p else acc
      | Pod_Delete p \<Rightarrow> if listed p then None else acc
      | _ \<Rightarrow> acc)"

definition track_step :: "str \<Rightarrow> resolver_op \<Rightarrow> pod option \<Rightarrow> pod option" where
  "track_step cid s acc = (case s of Watch e \<Rightarrow> track_event cid e acc | _ \<Rightarrow> acc)"

definition last_pod :: "resolver_op list \<Rightarrow> str \<Rightarrow> pod option" where
  "last_pod steps cid = fold (track_step cid) steps None"

definition pod_identity :: "(str \<times> str) list \<Rightarrow> pod \<Rightarrow> str \<times> str \<times> (str \<times> str) list" where
  "pod_identity attrs p =
     (case om_name (pd_meta p) of None \<Rightarrow> [] | Some n \<Rightarrow> n, case om_namespace (pd_meta p) of None \<Rightarrow> [] | Some ns \<Rightarrow> ns,
      allowlisted_labels attrs (pd_meta p))"

definition info_identity :: "pod_info \<Rightarrow> str \<times> str \<times> (str \<times> str) list" where
  "info_identity i = (pod_name i, pod_namespace i, pod_labels i)"

definition store_follows :: "resolver_op list \<Rightarrow> resolver \<Rightarrow> bool" where
  "store_follows steps r \<longleftrightarrow>
     (\<forall>cid. map_option info_identity (map_of (rv_store r) cid) = map_option (pod_identity (rv_labels r)) (last_pod steps cid))"

definition cache_right :: "(u64 \<Rightarrow> str option) \<Rightarrow> resolver \<Rightarrow> bool" where
  "cache_right container r \<longleftrightarrow> (\<forall>(cg, v) \<in> set (rv_cgroups r). v = container cg \<and> v \<noteq> None)"

lemma event_info_identity:
  "om_name (pd_meta p) = Some name \<Longrightarrow> info_identity (event_info p name c r) = pod_identity (rv_labels r) p"
  by (simp add: event_info_def info_identity_def pod_identity_def Let_def case_prod_beta)

lemma apply_pod_event_store:
  "map_of (rv_store (apply_pod_event cgroup_of p False c r)) cid =
     (case om_name (pd_meta p) of
        None \<Rightarrow> map_of (rv_store r) cid
      | Some name \<Rightarrow>
          if cid \<in> set (container_ids p) then Some (event_info p name c r) else map_of (rv_store r) cid)"
  "map_of (rv_store (apply_pod_event cgroup_of p True c r)) cid =
     (if om_name (pd_meta p) \<noteq> None \<and> cid \<in> set (container_ids p) then None else map_of (rv_store r) cid)"
  by (auto simp: apply_pod_event_def warm_cgroups_def event_info_def stored_info_def remove_pod_def Let_def
      map_of_put_ids map_of_remove_ids split: option.split)

lemma apply_pod_event_frame [simp]:
  "rv_labels (apply_pod_event cgroup_of p d c r) = rv_labels r"
  "rv_cgroup_v2 (apply_pod_event cgroup_of p d c r) = rv_cgroup_v2 r"
  by (auto simp: apply_pod_event_def warm_cgroups_def remove_pod_def Let_def split: option.split)

lemma resolve_pod_frame [simp]:
  "rv_labels (snd (resolve_pod file cg r)) = rv_labels r" "rv_cgroup_v2 (snd (resolve_pod file cg r)) = rv_cgroup_v2 r"
  "rv_store (snd (resolve_pod file cg r)) = rv_store r"
  by (auto simp: resolve_pod_def Let_def split: option.split)

lemma evict_frame [simp]:
  "rv_labels (evict_stale_cgroups r) = rv_labels r" "rv_cgroup_v2 (evict_stale_cgroups r) = rv_cgroup_v2 r"
  "rv_store (evict_stale_cgroups r) = rv_store r"
  by (simp_all add: evict_stale_cgroups_def)

lemma step_frame [simp]:
  "rv_labels (resolver_step cgroup_of jobs s r) = rv_labels r"
  "rv_cgroup_v2 (resolver_step cgroup_of jobs s r) = rv_cgroup_v2 r"
proof -
  have "rv_labels (on_watch_event cgroup_of jobs e r) = rv_labels r \<and>
      rv_cgroup_v2 (on_watch_event cgroup_of jobs e r) = rv_cgroup_v2 r" for e
    by (cases e) simp_all
  then show "rv_labels (resolver_step cgroup_of jobs s r) = rv_labels r"
    and "rv_cgroup_v2 (resolver_step cgroup_of jobs s r) = rv_cgroup_v2 r"
    by (cases s; simp)+
qed

lemma watch_store:
  assumes "store_follows steps r"
  shows "store_follows (steps @ [Watch e]) (on_watch_event cgroup_of jobs e r)"
proof -
  have last: "last_pod (steps @ [Watch e]) cid = track_event cid e (last_pod steps cid)" for cid
    by (simp add: last_pod_def track_step_def)
  show ?thesis
    using assms unfolding store_follows_def last
    by (cases e) (auto simp: track_event_def apply_pod_event_store event_info_identity split: option.split)
qed

lemma step_store: "store_follows steps r \<Longrightarrow> store_follows (steps @ [s]) (resolver_step cgroup_of jobs s r)"
  by (cases s) (simp_all add: watch_store, simp_all add: store_follows_def last_pod_def track_step_def)

lemma run_store:
  "store_follows steps (resolver_run cgroup_of jobs steps (resolver_new unified allowlist))"
proof (induction steps rule: rev_induct)
  case Nil
  show ?case by (simp add: store_follows_def last_pod_def resolver_run_def resolver_new_def)
next
  case (snoc s steps)
  then show ?case by (simp add: resolver_run_def step_store)
qed

section \<open>The cache\<close>

definition step_consistent :: "(u64 \<Rightarrow> str option) \<Rightarrow> resolver_op \<Rightarrow> bool" where
  "step_consistent container s =
     (case s of Resolve file cg \<Rightarrow> extract_container_id file \<in> {None, container cg} | _ \<Rightarrow> True)"

definition right_entries :: "(u64 \<Rightarrow> str option) \<Rightarrow> (u64 \<times> str option) set" where
  "right_entries container = {(cg, v). v = container cg \<and> v \<noteq> None}"

lemma cache_right_iff: "cache_right container r \<longleftrightarrow> set (rv_cgroups r) \<subseteq> right_entries container"
  by (auto simp: cache_right_def right_entries_def)

lemma cache_rightD: "cache_right container r \<Longrightarrow> map_of (rv_cgroups r) cg = Some v \<Longrightarrow> v = container cg"
  by (drule map_of_SomeD) (auto simp: cache_right_iff right_entries_def)

lemma cache_put:
  assumes "set m \<subseteq> right_entries container" and "container cg = Some cid"
  shows "set (put_key cg (Some cid) m) \<subseteq> right_entries container"
proof -
  have "insert (cg, Some cid) (set m) \<subseteq> right_entries container" using assms by (simp add: right_entries_def)
  with put_key_subset [of cg "Some cid" m] show ?thesis by (rule order_trans)
qed

lemma cache_warm:
  assumes "\<forall>cid cg. cgroup_of cid = Some cg \<longrightarrow> container cg = Some cid" and "cache_right container r"
  shows "cache_right container (warm_cgroups cgroup_of ids r)"
proof -
  have "set (fold (\<lambda>cid m. case cgroup_of cid of None \<Rightarrow> m | Some cg \<Rightarrow> put_key cg (Some cid) m) ids m) \<subseteq> right_entries container"
    if "set m \<subseteq> right_entries container" for m
    using that
  proof (induction ids arbitrary: m)
    case (Cons cid ids)
    have "set (case cgroup_of cid of None \<Rightarrow> m | Some cg \<Rightarrow> put_key cg (Some cid) m) \<subseteq> right_entries container"
      by (cases "cgroup_of cid") (use Cons.prems assms(1) in \<open>simp_all add: cache_put\<close>)
    from Cons.IH [OF this] show ?case by simp
  qed simp
  then show ?thesis using assms(2) by (simp add: warm_cgroups_def cache_right_iff)
qed

lemma cache_filter: "cache_right container r \<Longrightarrow> cache_right container (r\<lparr>rv_cgroups := filter P (rv_cgroups r)\<rparr>)"
  by (auto simp: cache_right_def)

lemma cache_apply:
  assumes "\<forall>cid cg. cgroup_of cid = Some cg \<longrightarrow> container cg = Some cid" and "cache_right container r"
  shows "cache_right container (apply_pod_event cgroup_of p d c r)"
proof -
  have "cache_right container (r\<lparr>rv_store := s\<rparr>) \<longleftrightarrow> cache_right container r" for r s by (simp add: cache_right_def)
  then show ?thesis
    using cache_warm [OF assms] assms(2)
    by (auto simp: apply_pod_event_def remove_pod_def Let_def cache_right_def split: option.split)
qed

lemma cache_step:
  assumes "\<forall>cid cg. cgroup_of cid = Some cg \<longrightarrow> container cg = Some cid" and "cache_right container r"
    and "step_consistent container s"
  shows "cache_right container (resolver_step cgroup_of jobs s r)"
proof (cases s)
  case (Watch e)
  then show ?thesis using assms(2) cache_apply [OF assms(1,2)] by (cases e) simp_all
next
  case (Resolve content cg)
  have "set (put_key cg (extract_container_id content) (rv_cgroups r)) \<subseteq> right_entries container"
    if "extract_container_id content \<noteq> None"
  proof -
    from that obtain cid where cid: "extract_container_id content = Some cid" by blast
    then have "container cg = Some cid" using assms(3) Resolve by (simp add: step_consistent_def)
    then show ?thesis unfolding cid using assms(2) by (simp add: cache_right_iff cache_put)
  qed
  then show ?thesis
    using assms(2) by (simp add: Resolve resolve_pod_def cache_right_iff Let_def split: option.split)
next
  case Evict
  then show ?thesis using assms(2) by (simp add: evict_stale_cgroups_def cache_filter)
qed

lemma run_cache:
  assumes "\<forall>cid cg. cgroup_of cid = Some cg \<longrightarrow> container cg = Some cid" and "list_all (step_consistent container) steps"
  shows "cache_right container (resolver_run cgroup_of jobs steps (resolver_new unified allowlist))"
  using assms(2)
proof (induction steps rule: rev_induct)
  case Nil
  show ?case by (simp add: cache_right_def resolver_run_def resolver_new_def)
next
  case (snoc s steps)
  then show ?case using cache_step [OF assms(1)] by (simp add: resolver_run_def)
qed

lemma run_frame [simp]:
  "rv_labels (resolver_run cgroup_of jobs steps r) = rv_labels r"
  "rv_cgroup_v2 (resolver_run cgroup_of jobs steps r) = rv_cgroup_v2 r"
  unfolding resolver_run_def by (induction steps arbitrary: r) simp_all

section \<open>Attribution\<close>


text \<open>A pod with one container, on a node whose cgroup file names it.\<close>

definition sample_pod :: "str \<Rightarrow> str option \<Rightarrow> owner_ref list option \<Rightarrow> pod" where
  "sample_pod name cid owners =
     \<lparr>pd_meta = \<lparr>om_name = Some name, om_namespace = Some ''team'', om_labels = None, om_owners = owners\<rparr>,
      pd_status = Some (Some [cid], None)\<rparr>"

definition sample_id :: str where
  "sample_id = replicate 64 (CHR ''a'')"

lemma sample_ids: "container_ids (sample_pod name (Some s) owners) = (if 12 \<le> length (last_piece_of ''://'' s) then [take 12 (last_piece_of ''://'' s)] else [])"
  by (simp add: container_ids_def sample_pod_def short_id_def map_filter_simps Let_def)

lemma no_scheme: "CHR '':'' \<notin> set s \<Longrightarrow> last_piece_of ''://'' s = s"
proof -
  have "after_last ''://'' s = None" if "CHR '':'' \<notin> set s" for s
    using that by (induction s) (auto simp: starts_with_def)
  then show "CHR '':'' \<notin> set s \<Longrightarrow> last_piece_of ''://'' s = s" by (simp add: last_piece_of_def)
qed


section \<open>Restarted containers\<close>

lemma distinct_fold_put: "distinct_keys m \<Longrightarrow> distinct_keys (fold (\<lambda>cid. put_key cid i) ids m)"
  by (induction ids arbitrary: m) (auto intro: distinct_put_key)

lemma distinct_fold_remove: "distinct_keys m \<Longrightarrow> distinct_keys (fold remove_key ids m)"
  by (induction ids arbitrary: m) (auto simp: remove_key_def intro: distinct_filter_keys)

lemma distinct_store: "distinct_keys (rv_store r) \<Longrightarrow> distinct_keys (rv_store (apply_pod_event cgroup_of p d c r))"
  by (auto simp: apply_pod_event_def warm_cgroups_def remove_pod_def Let_def distinct_fold_put distinct_fold_remove
      split: option.split)

lemma stored_info_only:
  assumes "distinct_keys (rv_store r)" and "\<forall>c i. map_of (rv_store r) c = Some i \<longrightarrow> i = old" and "map_of (rv_store r) cid = Some old"
    and "om_name m = Some (pod_name old)" and "om_namespace m = Some (pod_namespace old)"
  shows "stored_info m r = Some old"
proof -
  have "i = old" if "i \<in> snd ` set (rv_store r)" for i
    using that assms(1,2) by (auto simp: distinct_keys_def)
  moreover have "old \<in> snd ` set (rv_store r)" using assms(3) by (force dest: map_of_SomeD)
  then obtain infos where "map snd (rv_store r) = old # infos" using calculation
    by (cases "rv_store r") auto
  ultimately show ?thesis using assms(4,5) by (simp add: stored_info_def)
qed

text \<open>C28: A container that was restarted outlives its pod in the store: a pod's deletion removes only the
  containers its last status lists, so one listed before a restart stays for good, with the cgroups cached for
  it. A later pod of the same name and namespace, whatever owns it, is then attributed to the dead pod's
  workload, since the store still answers for the name.\<close>

theorem restarted_container_outlives_its_pod:
  assumes "om_name (pd_meta p1) = Some name" and "om_namespace (pd_meta p1) = Some ns"
    and "om_name (pd_meta p2) = Some name" and "om_namespace (pd_meta p2) = Some ns"
    and "om_name (pd_meta q) = Some name" and "om_namespace (pd_meta q) = Some ns"
    and "cid \<in> set (container_ids p1)" and "cid \<notin> set (container_ids p2)"
    and "qid \<in> set (container_ids q)" and "(case controller_owner (pd_meta q) of None \<Rightarrow> True | Some o1 \<Rightarrow> or_kind o1 \<noteq> ''Job'')"
  shows "let new = resolver_new unified allowlist;
             after = fold (\<lambda>e r. evict_stale_cgroups (on_watch_event cgroup_of jobs e r))
               [Pod_Apply p1, Pod_Apply p2, Pod_Delete p2] new;
             old = event_info p1 name (lookup_cronjob jobs p1 new) new
         in map_of (rv_store after) cid = Some old \<and>
            map_option (\<lambda>i. (pod_workload_kind i, pod_workload_name i)) (map_of (rv_store (on_watch_event cgroup_of jobs (Pod_Apply q) after)) qid) =
              Some (pod_workload_kind old, pod_workload_name old)"
proof -
  define new where "new = resolver_new unified allowlist"
  define old where "old = event_info p1 name (lookup_cronjob jobs p1 new) new"
  define after where "after = fold (\<lambda>e r. evict_stale_cgroups (on_watch_event cgroup_of jobs e r))
    [Pod_Apply p1, Pod_Apply p2, Pod_Delete p2] new"
  have store: "map_of (rv_store after) c = (if c \<in> set (container_ids p1) - set (container_ids p2) then Some old else None)" for c
    using assms(1,3) by (simp add: after_def apply_pod_event_store old_def) (simp add: new_def resolver_new_def)
  have empty: "distinct_keys ([] :: (str \<times> pod_info) list)" by (simp add: distinct_keys_def)
  have "distinct_keys (rv_store after)"
    using empty by (simp add: after_def distinct_store new_def resolver_new_def)
  moreover have "map_of (rv_store after) cid = Some old" using store assms(7,8) by simp
  moreover have "pod_name old = name" "pod_namespace old = ns"
    using event_info_identity [OF assms(1)] assms(1,2) by (simp_all add: old_def info_identity_def pod_identity_def)
  ultimately have stored: "stored_info (pd_meta q) after = Some old"
    using assms(5,6) store by (intro stored_info_only [where cid = cid]) (auto split: if_splits)
  have "lookup_cronjob jobs q after = None"
    using assms(10) by (simp add: lookup_cronjob_def unresolved_job_def split: option.splits)
  then have "map_of (rv_store (on_watch_event cgroup_of jobs (Pod_Apply q) after)) qid = Some (event_info q name None after)"
    using assms(5,9) by (simp add: apply_pod_event_store)
  moreover have "pod_workload_kind (event_info q name None after) = pod_workload_kind old"
    "pod_workload_name (event_info q name None after) = pod_workload_name old"
    by (simp_all add: event_info_def stored Let_def)
  moreover have "map_of (rv_store after) cid = Some old" using store assms(7,8) by simp
  ultimately show ?thesis
    unfolding Let_def new_def [symmetric] after_def [symmetric] old_def [symmetric] by (simp del: on_watch_event.simps)
qed

text \<open>A bare pod whose container was restarted, and a StatefulSet's pod of the same name after it.\<close>

theorem restarted_container_outlives_its_pod_witness:
  "map_option pod_workload_kind (map_of (rv_store
     (on_watch_event (\<lambda>_. None) (\<lambda>_ _. None)
       (Pod_Apply (sample_pod ''db-0'' (Some (replicate 12 (CHR ''c'')))
         (Some [\<lparr>or_kind = ''StatefulSet'', or_name = ''db'', or_api_version = ''apps/v1'', or_controller = Some True\<rparr>])))
       (fold (\<lambda>e r. evict_stale_cgroups (on_watch_event (\<lambda>_. None) (\<lambda>_ _. None) e r))
         [Pod_Apply (sample_pod ''db-0'' (Some (replicate 12 (CHR ''a''))) None),
          Pod_Apply (sample_pod ''db-0'' (Some (replicate 12 (CHR ''b''))) None),
          Pod_Delete (sample_pod ''db-0'' (Some (replicate 12 (CHR ''b''))) None)]
         (resolver_new True [])))) (replicate 12 (CHR ''c''))) = Some (Some ''Pod'')"
proof -
  let ?p1 = "sample_pod ''db-0'' (Some (replicate 12 (CHR ''a''))) None"
  let ?p2 = "sample_pod ''db-0'' (Some (replicate 12 (CHR ''b''))) None"
  let ?q = "sample_pod ''db-0'' (Some (replicate 12 (CHR ''c'')))
    (Some [\<lparr>or_kind = ''StatefulSet'', or_name = ''db'', or_api_version = ''apps/v1'', or_controller = Some True\<rparr>])"
  have meta: "om_name (pd_meta (sample_pod n c o1)) = Some n" "om_namespace (pd_meta (sample_pod n c o1)) = Some ''team''"
    "om_owners (pd_meta (sample_pod n c o1)) = o1" for n c o1
    by (simp_all add: sample_pod_def)
  have ids: "container_ids (sample_pod n (Some (replicate 12 x)) o1) = [replicate 12 x]" if "x \<noteq> CHR '':''" for n x o1
    using that by (simp add: sample_ids no_scheme)
  have "(let new = resolver_new True [];
          after = fold (\<lambda>e r. evict_stale_cgroups (on_watch_event (\<lambda>_. None) (\<lambda>_ _. None) e r))
            [Pod_Apply ?p1, Pod_Apply ?p2, Pod_Delete ?p2] new;
          old = event_info ?p1 ''db-0'' (lookup_cronjob (\<lambda>_ _. None) ?p1 new) new
     in map_of (rv_store after) (replicate 12 (CHR ''a'')) = Some old \<and>
        map_option (\<lambda>i. (pod_workload_kind i, pod_workload_name i))
          (map_of (rv_store (on_watch_event (\<lambda>_. None) (\<lambda>_ _. None) (Pod_Apply ?q) after)) (replicate 12 (CHR ''c''))) =
          Some (pod_workload_kind old, pod_workload_name old))"
    by (rule restarted_container_outlives_its_pod [where ns = "''team''"]) (simp_all only: meta, simp_all add: ids controller_owner_def meta)
  moreover have "pod_workload_kind (event_info ?p1 ''db-0'' (lookup_cronjob (\<lambda>_ _. None) ?p1 (resolver_new True [])) (resolver_new True [])) = Some ''Pod''"
    by (simp add: event_info_def stored_info_def resolver_new_def workload_of_def controller_owner_def meta lookup_cronjob_def
        unresolved_job_def)
  ultimately show ?thesis unfolding Let_def by (auto simp del: fold_simps on_watch_event.simps)
qed

end
