(* ===== verification/Discovery.thy ===== *)
theory Discovery
  imports Agent Split_Text
begin

text \<open>
  Finding the files to probe (agent, probes/discovery.rs): a process's path resolved inside its own root, a
  path as the host sees it, the identity of a file, the libraries the loader's cache names and the file offsets
  of exported functions. What the host answers (/proc, the file system, the symbol table) is a parameter.
\<close>

section \<open>Paths\<close>

text \<open>\<open>Path::components\<close> without the root and the dots that name the directory itself.\<close>

definition component_names :: "str \<Rightarrow> str list" where
  "component_names p = filter (\<lambda>c. c \<noteq> '''' \<and> c \<noteq> ''.'') (split_on (CHR ''/'') p)"

definition is_absolute :: "str \<Rightarrow> bool" where
  "is_absolute p = starts_with p ''/''"

definition DOTDOT :: str where
  "DOTDOT = ''..''"

definition path_starts_with :: "str \<Rightarrow> str \<Rightarrow> bool" where
  "path_starts_with p base \<longleftrightarrow>
     is_absolute p = is_absolute base \<and> starts_with (component_names p) (component_names base)"

text \<open>\<open>Path::join\<close> of relative names.\<close>

definition join_names :: "str \<Rightarrow> str list \<Rightarrow> str" where
  "join_names root names = (if names = [] then root @ ''/'' else root @ concat (map ((#) (CHR ''/'')) names))"

fun decimal :: "nat \<Rightarrow> str" where
  "decimal n = (if n < 10 then [] else decimal (n div 10)) @ [char_of (48 + n mod 10)]"

declare decimal.simps [simp del]

definition show_int :: "int \<Rightarrow> str" where
  "show_int n = (if n < 0 then ''-'' @ decimal (nat (- n)) else decimal (nat n))"

definition proc_root :: "int \<Rightarrow> str" where
  "proc_root pid = ''/proc/'' @ show_int pid @ ''/root''"

definition resolve_host_path :: "int \<Rightarrow> str \<Rightarrow> str" where
  "resolve_host_path pid p =
     (if path_starts_with p ''/proc'' then p else join_names (proc_root pid) (component_names p))"

section \<open>Resolving inside a root\<close>

text \<open>
  What \<open>symlink_metadata\<close> and \<open>read_link\<close> say of a path under the root, named by its components: nothing
  there, a symbolic link, or something else.
\<close>

datatype entry = Link str | Other_Entry

type_synonym tree = "str list \<Rightarrow> entry option"

definition MAX_SYMLINKS :: nat where
  "MAX_SYMLINKS = 40"

function resolve_names :: "tree \<Rightarrow> nat \<Rightarrow> str list \<Rightarrow> str list \<Rightarrow> str list option" where
  "resolve_names fs links [] resolved = Some resolved"
| "resolve_names fs links (name # rest) resolved =
     (if name = DOTDOT then resolve_names fs links rest (butlast resolved)
      else case fs (resolved @ [name]) of
        None \<Rightarrow> None
      | Some Other_Entry \<Rightarrow> resolve_names fs links rest (resolved @ [name])
      | Some (Link target) \<Rightarrow>
          (if Suc links > MAX_SYMLINKS then None
           else resolve_names fs (Suc links) (component_names target @ rest)
             (if is_absolute target then [] else resolved)))"
  by pat_completeness auto
termination
  by (relation "measures [\<lambda>(_, links, _, _). Suc MAX_SYMLINKS - links, \<lambda>(_, _, rest, _). length rest]") auto

definition resolve_in_root :: "(str \<Rightarrow> tree) \<Rightarrow> str \<Rightarrow> str \<Rightarrow> str option" where
  "resolve_in_root fs root p = map_option (join_names root) (resolve_names (fs root) 0 (component_names p) [])"

section \<open>Identity of a file\<close>

record file_meta =
  md_dev :: u64
  md_ino :: u64
  md_size :: u64
  md_mtime :: "int \<times> int"
  md_ctime :: "int \<times> int"

datatype file_id =
    Device u64 u64
  | Overlay u64 u64 "int \<times> int" "int \<times> int"

definition file_ino :: "file_id \<Rightarrow> u64" where
  "file_ino f = (case f of Device _ ino \<Rightarrow> ino | Overlay ino _ _ _ \<Rightarrow> ino)"

text \<open>
  The host's answers: a path's metadata, a process's paths in its maps (anonymous ones left out) and its
  executable, the mounts of a process (\<open>None\<close>: the agent itself), each a mount point and a type.
\<close>

record host =
  ho_meta :: "str \<Rightarrow> file_meta option"
  ho_maps :: "u32 \<Rightarrow> str list option"
  ho_exe :: "u32 \<Rightarrow> str option"
  ho_mounts :: "int option \<Rightarrow> (str \<times> str) list option"

definition host_exists :: "host \<Rightarrow> str \<Rightarrow> bool" where
  "host_exists ho p \<longleftrightarrow> ho_meta ho p \<noteq> None"

text \<open>\<open>max_by_key\<close> keeps the last of the greatest.\<close>

fun max_by_key :: "('a \<Rightarrow> nat) \<Rightarrow> 'a list \<Rightarrow> 'a option" where
  "max_by_key f [] = None"
| "max_by_key f (x # xs) =
     (case max_by_key f xs of None \<Rightarrow> Some x | Some y \<Rightarrow> Some (if f x \<le> f y then y else x))"

definition mounted_type :: "(str \<times> str) list \<Rightarrow> str \<Rightarrow> str option" where
  "mounted_type mounts inner =
     map_option snd (max_by_key (\<lambda>(point, _). length (component_names point))
       (filter (\<lambda>(point, _). path_starts_with inner point) mounts))"

text \<open>\<open>str::parse\<close> as an \<open>i32\<close>.\<close>

definition parse_i32 :: "str \<Rightarrow> int option" where
  "parse_i32 s =
     (let neg = starts_with s ''-'';
          digits = (if neg \<or> starts_with s ''+'' then tl s else s);
          n = foldl (\<lambda>n c. 10 * n + (of_char c - 48)) 0 digits;
          n = (if neg then - n else n)
      in if digits \<noteq> [] \<and> list_all is_digit digits \<and> - (2 ^ 31) \<le> n \<and> n < 2 ^ 31 then Some n else None)"

definition split_at :: "str \<Rightarrow> str \<Rightarrow> (str \<times> str) option" where
  "split_at sep s = map_option (\<lambda>i. (take i s, drop (i + length sep) s)) (find_sub sep s)"

definition proc_path :: "str \<Rightarrow> (str \<times> str) option" where
  "proc_path p =
     (if starts_with p ''/proc/'' then split_at ''/root/'' (drop (length ''/proc/'') p) else None)"

definition fs_type :: "host \<Rightarrow> str \<Rightarrow> str option" where
  "fs_type ho p =
     (case proc_path p of
        None \<Rightarrow> Option.bind (ho_mounts ho None) (\<lambda>mounts. mounted_type mounts p)
      | Some (pid, rel) \<Rightarrow>
          Option.bind (parse_i32 pid) (\<lambda>pid.
            Option.bind (ho_mounts ho (Some pid)) (\<lambda>mounts.
              mounted_type mounts (if is_absolute rel then rel else ''/'' @ rel))))"

definition file_identity_of :: "host \<Rightarrow> str \<Rightarrow> file_id option" where
  "file_identity_of ho p =
     map_option (\<lambda>md.
       if fs_type ho p = Some ''overlay'' then Overlay (md_ino md) (md_size md) (md_mtime md) (md_ctime md)
       else Device (md_dev md) (md_ino md)) (ho_meta ho p)"

section \<open>Libraries and executables\<close>

text \<open>\<open>Path::file_name\<close>: the last component, unless it names the parent.\<close>

definition file_name :: "str \<Rightarrow> str option" where
  "file_name p =
     (case rev (component_names p) of [] \<Rightarrow> None | name # _ \<Rightarrow> if name = DOTDOT then None else Some name)"

text \<open>The paths form a set in the code; here each is listed once, in the order found.\<close>

definition add_path :: "str \<Rightarrow> str list \<Rightarrow> str list" where
  "add_path p paths = (if p \<in> set paths then paths else paths @ [p])"

definition find_system_libraries :: "str option \<Rightarrow> str \<Rightarrow> str list" where
  "find_system_libraries output substring =
     (case output of
        None \<Rightarrow> []
      | Some stdout \<Rightarrow>
          fold (\<lambda>line paths.
            if contains line substring then
              (case split_at ''=>'' line of
                 None \<Rightarrow> paths
               | Some (_, rest) \<Rightarrow>
                   add_path (trim (case split_at ''=>'' rest of None \<Rightarrow> rest | Some (part, _) \<Rightarrow> part)) paths)
            else paths) (text_lines stdout) [])"

definition mapped_path :: "host \<Rightarrow> u32 \<Rightarrow> str \<Rightarrow> str list \<Rightarrow> str list" where
  "mapped_path ho pid p paths =
     (let host_path = resolve_host_path (sint pid) p in
      if host_exists ho host_path then add_path host_path paths else paths)"

definition get_process_libraries :: "host \<Rightarrow> u32 \<Rightarrow> str list" where
  "get_process_libraries ho pid =
     (case ho_maps ho pid of None \<Rightarrow> [] | Some maps \<Rightarrow> fold (mapped_path ho pid) maps [])"

definition find_libraries_all ::
  "host \<Rightarrow> u32 list option \<Rightarrow> (str \<Rightarrow> bool) \<Rightarrow> (str option \<times> str) option \<Rightarrow> str list" where
  "find_libraries_all ho procs pattern ldconfig =
     (let paths = (case ldconfig of None \<Rightarrow> [] | Some (output, substring) \<Rightarrow> find_system_libraries output substring) in
      case procs of
        None \<Rightarrow> paths
      | Some pids \<Rightarrow>
          fold (\<lambda>pid paths.
            case ho_maps ho pid of
              None \<Rightarrow> paths
            | Some maps \<Rightarrow>
                fold (\<lambda>p paths.
                  case file_name p of
                    None \<Rightarrow> paths
                  | Some name \<Rightarrow> if pattern name then mapped_path ho pid p paths else paths) maps paths) pids paths)"

definition get_process_exe :: "host \<Rightarrow> u32 \<Rightarrow> str option" where
  "get_process_exe ho pid =
     Option.bind (ho_exe ho pid) (\<lambda>exe.
       let host_path = resolve_host_path (sint pid) exe in if host_exists ho host_path then Some host_path else None)"

definition find_executables_all :: "host \<Rightarrow> u32 list option \<Rightarrow> str list" where
  "find_executables_all ho procs =
     (case procs of
        None \<Rightarrow> []
      | Some pids \<Rightarrow> fold add_path (List.map_filter (get_process_exe ho) pids) [])"

section \<open>Exported functions\<close>

text \<open>A section's address and, where it has bytes in the file, their offset.\<close>

record dyn_symbol =
  sy_definition :: bool
  sy_name :: "str option"
  sy_address :: u64
  sy_section :: "(u64 \<times> u64 option) option"

definition symbol_offset :: "dyn_symbol \<Rightarrow> u64 option" where
  "symbol_offset sm =
     (case sy_section sm of
        Some (address, Some file_offset) \<Rightarrow>
          if address \<le> sy_address sm then Some (file_offset + (sy_address sm - address)) else None
      | _ \<Rightarrow> None)"

definition add_symbol :: "str list \<Rightarrow> dyn_symbol \<Rightarrow> (str \<rightharpoonup> u64) \<Rightarrow> (str \<rightharpoonup> u64)" where
  "add_symbol names sm offsets =
     (if \<not> sy_definition sm then offsets
      else case sy_name sm of
        None \<Rightarrow> offsets
      | Some name \<Rightarrow>
          (if name \<notin> set names then offsets
           else case symbol_offset sm of
             None \<Rightarrow> offsets
           | Some off \<Rightarrow> if offsets name = None then offsets(name \<mapsto> off) else offsets))"

definition exported_function_offsets :: "dyn_symbol list option \<Rightarrow> str list \<Rightarrow> (str \<rightharpoonup> u64) option" where
  "exported_function_offsets table names =
     map_option (\<lambda>syms. fold (add_symbol names) syms Map.empty) table"

end
