(* ===== verification/Discovery_Props.thy ===== *)
theory Discovery_Props
  imports Discovery
begin

text \<open>
  A path resolved inside a root is where a process chrooted there would arrive, and never outside; the identity
  of a process's file; the offsets a uprobe is given.
\<close>

section \<open>A chrooted walk\<close>

text \<open>
  From the directory \<open>d\<close> the names lead to \<open>d'\<close> through \<open>n\<close> links, as a process whose root is the empty path
  walks: a link is walked to its end, from the root or from where it lies, before the walk goes on.
\<close>

inductive leads :: "tree \<Rightarrow> str list \<Rightarrow> str list \<Rightarrow> str list \<Rightarrow> nat \<Rightarrow> bool" for fs :: tree where
  leads_nil: "leads fs d [] d 0"
| leads_up: "leads fs (butlast d) names d' n \<Longrightarrow> leads fs d (DOTDOT # names) d' n"
| leads_down: "name \<noteq> DOTDOT \<Longrightarrow> fs (d @ [name]) = Some Other_Entry \<Longrightarrow> leads fs (d @ [name]) names d' n \<Longrightarrow>
    leads fs d (name # names) d' n"
| leads_link: "name \<noteq> DOTDOT \<Longrightarrow> fs (d @ [name]) = Some (Link target) \<Longrightarrow>
    leads fs (if is_absolute target then [] else d) (component_names target) d1 n1 \<Longrightarrow>
    leads fs d1 names d' n2 \<Longrightarrow> leads fs d (name # names) d' (Suc (n1 + n2))"

inductive_cases leads_ConsE: "leads fs d (name # names) d' n"
inductive_cases leads_NilE: "leads fs d [] d' n"

lemma leads_append: "leads fs d (p @ q) d' n \<Longrightarrow> \<exists>d1 n1 n2. leads fs d p d1 n1 \<and> leads fs d1 q d' n2 \<and> n = n1 + n2"
proof (induction d "p @ q" d' n arbitrary: p rule: leads.induct)
  case (leads_nil d)
  then show ?case by (auto intro: leads.intros)
next
  case (leads_up d names d' n)
  show ?case
  proof (cases p)
    case Nil
    then show ?thesis using leads_up by (metis append_Nil leads.leads_nil leads.leads_up plus_nat.add_0)
  next
    case (Cons x p')
    then have "x = DOTDOT" "names = p' @ q" using leads_up.hyps(3) by simp_all
    with Cons show ?thesis using leads_up.hyps(2) [of p'] by (metis leads.leads_up)
  qed
next
  case (leads_down name d names d' n)
  show ?case
  proof (cases p)
    case Nil
    then show ?thesis using leads_down by (metis append_Nil leads.leads_nil leads.leads_down plus_nat.add_0)
  next
    case (Cons x p')
    then have "x = name" "names = p' @ q" using leads_down.hyps(5) by simp_all
    with Cons show ?thesis using leads_down.hyps(4) [of p'] leads_down.hyps(1,2) by (metis leads.leads_down)
  qed
next
  case (leads_link name d target d1 n1 names d' n2)
  show ?case
  proof (cases p)
    case Nil
    then show ?thesis using leads_link by (metis append_Nil leads.leads_nil leads.leads_link plus_nat.add_0)
  next
    case (Cons x p')
    then have "x = name" "names = p' @ q" using leads_link.hyps(7) by simp_all
    then obtain d2 k1 k2 where "leads fs d1 p' d2 k1" "leads fs d2 q d' k2" "n2 = k1 + k2"
      using leads_link.hyps(6) [of p'] by blast
    then show ?thesis
      using leads.leads_link [OF leads_link.hyps(1,2,3)] Cons \<open>x = name\<close> by (metis add.assoc add_Suc)
  qed
qed

lemma leads_resolves: "leads fs d p d' n \<Longrightarrow> k + n \<le> MAX_SYMLINKS \<Longrightarrow>
    resolve_names fs k (p @ q) d = resolve_names fs (k + n) q d'"
proof (induction arbitrary: k q rule: leads.induct)
  case (leads_link name d target d1 n1 names d' n2)
  have "resolve_names fs k ((name # names) @ q) d =
      resolve_names fs (Suc k) (component_names target @ names @ q) (if is_absolute target then [] else d)"
    using leads_link.hyps leads_link.prems by simp
  also have "\<dots> = resolve_names fs (Suc k + n1) (names @ q) d1"
    by (rule leads_link.IH(1)) (use leads_link.prems in simp)
  also have "\<dots> = resolve_names fs (Suc k + n1 + n2) q d'"
    by (rule leads_link.IH(2)) (use leads_link.prems in simp)
  finally show ?case by (simp add: add.assoc)
qed simp_all

lemma resolves_leads:
  "resolve_names fs k p d = Some d' \<Longrightarrow> \<exists>n. leads fs d p d' n \<and> (n = 0 \<or> k + n \<le> MAX_SYMLINKS)"
proof (induction fs k p d rule: resolve_names.induct)
  case (1 fs k d)
  then show ?case by (auto intro: leads_nil)
next
  case (2 fs k name rest d)
  show ?case
  proof (cases "name = DOTDOT")
    case True
    then show ?thesis using 2 by (auto intro: leads_up)
  next
    case False
    show ?thesis
    proof (cases "fs (d @ [name])")
      case None
      then show ?thesis using 2 False by simp
    next
      case (Some e)
      show ?thesis
      proof (cases e)
        case Other_Entry
        then show ?thesis using 2 False Some by (auto intro: leads_down)
      next
        case (Link target)
        have room: "\<not> Suc k > MAX_SYMLINKS" using "2.prems" False Some Link by (auto split: if_split_asm)
        then have "resolve_names fs (Suc k) (component_names target @ rest) (if is_absolute target then [] else d) = Some d'"
          using "2.prems" False Some Link by simp
        from "2.IH"(2) [OF False Some Link room this] obtain n
          where n: "leads fs (if is_absolute target then [] else d) (component_names target @ rest) d' n"
            "n = 0 \<or> Suc k + n \<le> MAX_SYMLINKS" by blast
        from leads_append [OF n(1)] obtain d1 n1 n2
          where "leads fs (if is_absolute target then [] else d) (component_names target) d1 n1"
            "leads fs d1 rest d' n2" "n = n1 + n2" by blast
        with leads_link [OF False] Some Link have "leads fs d (name # rest) d' (Suc n)" by blast
        moreover have "k + Suc n \<le> MAX_SYMLINKS" using n(2) room by auto
        ultimately show ?thesis by blast
      qed
    qed
  qed
qed

text \<open>Every directory on the way to \<open>d\<close>, and \<open>d\<close> itself, is there under a name of its own, and no link.\<close>

definition plain_name :: "str \<Rightarrow> bool" where
  "plain_name c \<longleftrightarrow> c \<noteq> '''' \<and> c \<noteq> ''.'' \<and> CHR ''/'' \<notin> set c"

definition plain_path :: "tree \<Rightarrow> str list \<Rightarrow> bool" where
  "plain_path fs d \<longleftrightarrow>
     list_all (\<lambda>i. plain_name (d ! i) \<and> d ! i \<noteq> DOTDOT \<and> fs (take (Suc i) d) = Some Other_Entry) [0..<length d]"

lemma split_on_pieces: "piece \<in> set (split_on c s) \<Longrightarrow> c \<notin> set piece"
  by (induction c s arbitrary: piece rule: split_on.induct) (fastforce split: if_split_asm list.split_asm)+

lemma component_names_plain: "list_all plain_name (component_names p)"
  by (auto simp: list_all_iff component_names_def plain_name_def dest: split_on_pieces)

lemma plain_path_snoc:
  "plain_path fs d \<Longrightarrow> plain_name name \<Longrightarrow> name \<noteq> DOTDOT \<Longrightarrow> fs (d @ [name]) = Some Other_Entry \<Longrightarrow>
    plain_path fs (d @ [name])"
  by (auto simp: plain_path_def list_all_iff nth_append less_Suc_eq)

lemma plain_path_butlast: "plain_path fs d \<Longrightarrow> plain_path fs (butlast d)"
  by (auto simp: plain_path_def list_all_iff nth_butlast take_butlast)

lemma plain_path_Nil [simp]: "plain_path fs []"
  by (simp add: plain_path_def)

lemma leads_plain: "leads fs d p d' n \<Longrightarrow> list_all plain_name p \<Longrightarrow> plain_path fs d \<Longrightarrow> plain_path fs d'"
proof (induction rule: leads.induct)
  case (leads_link name d target d1 n1 names d' n2)
  have "plain_path fs (if is_absolute target then [] else d)" using leads_link.prems by simp
  from leads_link.IH(1) [OF component_names_plain this] show ?case
    using leads_link.IH(2) leads_link.prems by simp
qed (simp_all add: plain_path_snoc plain_path_butlast)

text \<open>C20: A process's path is resolved to the file it means to that process, and to nothing outside its root:
  the answer is where a walk of the path's names ends for a process chrooted there, absolute links starting
  over at that root and the parent of the root being the root, when that walk meets at most 40 links; and
  every step of the answer is an entry of the root under a name of its own, neither a link nor the parent, so
  opening it from the host can leave the root nowhere. Like the code, the walk asks of each name only that it is
  there, where a kernel would refuse to go on, or up, from a file.\<close>

theorem resolves_as_chrooted:
  "(resolve_in_root fs root p = Some q \<longleftrightarrow>
      (\<exists>names n. leads (fs root) [] (component_names p) names n \<and> n \<le> MAX_SYMLINKS \<and> q = join_names root names)) \<and>
   (case resolve_names (fs root) 0 (component_names p) [] of None \<Rightarrow> True | Some names \<Rightarrow> plain_path (fs root) names)"
proof
  have walk: "resolve_names (fs root) 0 (component_names p) [] = Some names \<longleftrightarrow>
      (\<exists>n. leads (fs root) [] (component_names p) names n \<and> n \<le> MAX_SYMLINKS)" for names
  proof
    assume "resolve_names (fs root) 0 (component_names p) [] = Some names"
    from resolves_leads [OF this] show "\<exists>n. leads (fs root) [] (component_names p) names n \<and> n \<le> MAX_SYMLINKS" by auto
  next
    assume "\<exists>n. leads (fs root) [] (component_names p) names n \<and> n \<le> MAX_SYMLINKS"
    then show "resolve_names (fs root) 0 (component_names p) [] = Some names"
      using leads_resolves [of "fs root" "[]" "component_names p" names _ 0 "[]"] by auto
  qed
  then show "resolve_in_root fs root p = Some q \<longleftrightarrow>
      (\<exists>names n. leads (fs root) [] (component_names p) names n \<and> n \<le> MAX_SYMLINKS \<and> q = join_names root names)"
    by (auto simp: resolve_in_root_def)
  show "case resolve_names (fs root) 0 (component_names p) [] of None \<Rightarrow> True | Some names \<Rightarrow> plain_path (fs root) names"
  proof (cases "resolve_names (fs root) 0 (component_names p) []")
    case (Some names)
    then obtain n where "leads (fs root) [] (component_names p) names n" using walk by blast
    from leads_plain [OF this component_names_plain] show ?thesis using Some by simp
  qed simp
qed


section \<open>The mount of a process's file\<close>

lemma decimal_Cons: "decimal n = (if n < 10 then [] else decimal (n div 10)) @ [char_of (48 + n mod 10)]"
  by (rule decimal.simps)

lemma digit_value:
  assumes "d < 10"
  shows "(of_char (char_of (48 + d :: nat)) :: 'a :: linordered_idom) = 48 + of_nat d"
proof -
  have "(of_char (char_of (48 + d)) :: nat) = 48 + d" using assms by (simp only: of_char_of) simp
  then have "of_nat (of_char (char_of (48 + d)) :: nat) = (48 + of_nat d :: 'a)" by simp
  then show ?thesis by (simp only: of_nat_of_char)
qed

lemma digit_is_digit: "d < 10 \<Longrightarrow> is_digit (char_of (48 + d :: nat))"
  by (simp add: is_digit_def)

lemma decimal_value: "foldl (\<lambda>n c. 10 * n + (of_char c - 48)) 0 (decimal n) = (int n)"
proof (induction n rule: less_induct)
  case (less n)
  have whole: "10 * int (n div 10) + int (n mod 10) = int (10 * (n div 10) + n mod 10)"
    by (simp only: of_nat_add of_nat_mult of_nat_numeral)
  show ?case
  proof (cases "n < 10")
    case True
    then show ?thesis by (subst decimal_Cons) (simp add: digit_value)
  next
    case False
    then have "foldl (\<lambda>n c. 10 * n + (of_char c - 48)) 0 (decimal (n div 10)) = int (n div 10)"
      by (intro less.IH) simp
    then show ?thesis using False whole by (subst decimal_Cons) (simp add: digit_value)
  qed
qed

lemma decimal_digits: "list_all is_digit (decimal n) \<and> decimal n \<noteq> []"
proof (induction n rule: less_induct)
  case (less n)
  have "n mod 10 < 10" by simp
  note digit = digit_is_digit [OF this]
  show ?case
  proof (cases "n < 10")
    case False
    then have "list_all is_digit (decimal (n div 10))" using less.IH [of "n div 10"] by simp
    then show ?thesis using digit by (subst (1 2) decimal_Cons) simp
  qed (use digit in \<open>subst (1 2) decimal_Cons, simp\<close>)
qed

lemma decimal_avoids: "\<not> is_digit c \<Longrightarrow> c \<notin> set (decimal n)"
  using decimal_digits [of n] by (auto simp: list_all_iff)

lemma decimal_unsigned: "\<not> starts_with (decimal n) ''-'' \<and> \<not> starts_with (decimal n) ''+''"
proof -
  obtain c cs where "decimal n = c # cs" "is_digit c"
    using decimal_digits [of n] by (cases "decimal n") auto
  then show ?thesis by (auto simp: starts_with_def is_digit_def)
qed

text \<open>What a process ID's text reads back as.\<close>

lemma parse_show_int: "- (2 ^ 31) \<le> n \<Longrightarrow> n < 2 ^ 31 \<Longrightarrow> parse_i32 (show_int n) = Some n"
  using decimal_digits decimal_unsigned
  by (auto simp: parse_i32_def show_int_def decimal_value Let_def starts_with_def)

lemma show_int_avoids: "CHR ''/'' \<notin> set (show_int n)"
  by (simp add: show_int_def decimal_avoids is_digit_def)

lemma find_sub_first: "c \<notin> set a \<Longrightarrow> find_sub (c # sep) (a @ (c # sep) @ b) = Some (length a)"
  by (induction a) (auto simp: starts_with_def neq_Nil_conv)

lemma split_at_first: "c \<notin> set a \<Longrightarrow> split_at (c # sep) (a @ (c # sep) @ b) = Some (a, b)"
  unfolding split_at_def find_sub_first by simp

lemma proc_path_root:
  assumes "names \<noteq> []"
  shows "proc_path (join_names (proc_root pid) names) =
    Some (show_int pid, tl (concat (map ((#) (CHR ''/'')) names)))"
proof -
  define rel where "rel = tl (concat (map ((#) (CHR ''/'')) names))"
  have "concat (map ((#) (CHR ''/'')) names) = CHR ''/'' # rel"
    using assms by (cases names) (simp_all add: rel_def)
  then have "join_names (proc_root pid) names = ''/proc/'' @ show_int pid @ ''/root/'' @ rel"
    using assms by (simp add: join_names_def proc_root_def)
  then show ?thesis
    using split_at_first [where c = "CHR ''/''" and sep = "''root/''" and a = "show_int pid" and b = rel, OF show_int_avoids]
    by (simp add: proc_path_def starts_with_def rel_def)
qed

lemma split_on_append: "c \<notin> set a \<Longrightarrow> split_on c (a @ c # b) = a # split_on c b"
  by (induction a) auto

lemma split_on_one: "c \<notin> set a \<Longrightarrow> split_on c a = [a]"
  by (induction a) auto

lemma component_names_join:
  "list_all plain_name names \<Longrightarrow> component_names (concat (map ((#) (CHR ''/'')) names)) = names"
proof (induction names)
  case (Cons a names)
  have a: "CHR ''/'' \<notin> set a" "a \<noteq> ''''" "a \<noteq> ''.''" using Cons.prems by (simp_all add: plain_name_def)
  show ?case
  proof (cases names)
    case Nil
    then show ?thesis using a by (simp add: component_names_def split_on_one)
  next
    case (Cons b more)
    define rest where "rest = concat (map ((#) (CHR ''/'')) names)"
    then obtain rest' where rest: "rest = CHR ''/'' # rest'" using Cons by auto
    then have "split_on (CHR ''/'') (CHR ''/'' # a @ rest) = [] # a # split_on (CHR ''/'') rest'"
      using a by (simp add: split_on_append)
    moreover have "component_names rest = names" using Cons.IH Cons.prems by (simp add: rest_def)
    ultimately show ?thesis using a rest by (simp add: component_names_def rest_def [symmetric])
  qed
qed (simp add: component_names_def)

lemma path_of_tail:
  assumes "names \<noteq> []" and "list_all plain_name names"
  shows "component_names (''/'' @ tl (concat (map ((#) (CHR ''/'')) names))) = names"
    and "\<not> is_absolute (tl (concat (map ((#) (CHR ''/'')) names)))"
proof -
  obtain a more where names: "names = a # more" using assms(1) by (cases names) auto
  then have "a \<noteq> ''''" "hd a \<noteq> CHR ''/''" using assms(2) by (auto simp: plain_name_def neq_Nil_conv)
  then show "\<not> is_absolute (tl (concat (map ((#) (CHR ''/'')) names)))"
    by (auto simp: names is_absolute_def starts_with_def neq_Nil_conv)
  have "''/'' @ tl (concat (map ((#) (CHR ''/'')) names)) = concat (map ((#) (CHR ''/'')) names)"
    by (simp add: names)
  then show "component_names (''/'' @ tl (concat (map ((#) (CHR ''/'')) names))) = names"
    using component_names_join [OF assms(2)] by simp
qed

lemma max_by_key_None: "max_by_key f xs = None \<longleftrightarrow> xs = []"
  by (cases xs) (auto split: option.split)

lemma max_by_key_last:
  "max_by_key f xs = Some x \<Longrightarrow>
     \<exists>a b. xs = a @ x # b \<and> list_all (\<lambda>y. f y \<le> f x) a \<and> list_all (\<lambda>y. f y < f x) b"
proof (induction xs arbitrary: x)
  case (Cons z xs)
  show ?case
  proof (cases "max_by_key f xs")
    case None
    then show ?thesis using Cons.prems by (auto simp: max_by_key_None intro: exI [of _ "[]"])
  next
    case (Some y)
    from Cons.IH [OF this] obtain a b where y: "xs = a @ y # b" "list_all (\<lambda>v. f v \<le> f y) a" "list_all (\<lambda>v. f v < f y) b"
      by blast
    show ?thesis
    proof (cases "f z \<le> f y")
      case True
      then have "x = y" using Cons.prems Some by simp
      then have "z # xs = (z # a) @ x # b" "list_all (\<lambda>v. f v \<le> f x) (z # a)" "list_all (\<lambda>v. f v < f x) b"
        using y True by simp_all
      then show ?thesis by blast
    next
      case False
      then have "x = z" using Cons.prems Some by simp
      then have "z # xs = [] @ x # xs" "list_all (\<lambda>v. f v \<le> f x) []" "list_all (\<lambda>v. f v < f x) xs"
        using y False by (auto simp: list_all_iff)
      then show ?thesis by blast
    qed
  qed
qed simp

lemma filter_split:
  "filter P xs = a @ m # b \<Longrightarrow> \<exists>us vs. xs = us @ m # vs \<and> filter P us = a \<and> filter P vs = b \<and> P m"
proof (induction xs arbitrary: a)
  case (Cons x xs)
  show ?case
  proof (cases "P x \<and> a = []")
    case True
    then have "x # xs = [] @ m # xs" "filter P xs = b" "P m" using Cons.prems by simp_all
    then show ?thesis by (metis True filter.simps(1))
  next
    case False
    then have "filter P xs = (if P x then tl a else a) @ m # b" "P x \<longrightarrow> a = x # tl a"
      using Cons.prems by (cases a; simp split: if_split_asm)+
    with Cons.IH obtain us vs where "xs = us @ m # vs" "filter P us = (if P x then tl a else a)" "filter P vs = b" "P m"
      by blast
    with \<open>P x \<longrightarrow> a = x # tl a\<close> have "x # xs = (x # us) @ m # vs" "filter P (x # us) = a" by auto
    then show ?thesis using \<open>filter P vs = b\<close> \<open>P m\<close> by blast
  qed
qed simp

lemma mounted_type_innermost:
  "case mounted_type mounts inner of
     None \<Rightarrow> list_all (\<lambda>(point, _). \<not> path_starts_with inner point) mounts
   | Some ty \<Rightarrow> \<exists>above point below. mounts = above @ (point, ty) # below \<and> path_starts_with inner point \<and>
       list_all (\<lambda>(m, _). path_starts_with inner m \<longrightarrow> length (component_names m) \<le> length (component_names point)) above \<and>
       list_all (\<lambda>(m, _). path_starts_with inner m \<longrightarrow> length (component_names m) < length (component_names point)) below"
proof -
  define holds where "holds = (\<lambda>(point, _ :: str). path_starts_with inner point)"
  define depth where "depth = (\<lambda>(point, _ :: str). length (component_names point))"
  have type: "mounted_type mounts inner = map_option snd (max_by_key depth (filter holds mounts))"
    by (simp add: mounted_type_def holds_def depth_def)
  show ?thesis
  proof (cases "max_by_key depth (filter holds mounts)")
    case None
    then have "mounted_type mounts inner = None" "filter holds mounts = []" by (simp_all add: type max_by_key_None)
    then show ?thesis by (auto simp: holds_def filter_empty_conv list_all_iff)
  next
    case (Some m)
    obtain point ty where m: "m = (point, ty)" by fastforce
    from max_by_key_last [OF Some] obtain a b where split: "filter holds mounts = a @ m # b"
      and le: "list_all (\<lambda>v. depth v \<le> depth m) a" and less: "list_all (\<lambda>v. depth v < depth m) b" by blast
    from filter_split [OF split] obtain above below
      where mounts: "mounts = above @ m # below" "filter holds above = a" "filter holds below = b" "holds m" by blast
    have "mounts = above @ (point, ty) # below" using mounts(1) m by simp
    moreover have "path_starts_with inner point" using mounts(4) m by (simp add: holds_def)
    moreover have "list_all (\<lambda>v. holds v \<longrightarrow> depth v \<le> depth m) above"
      using le mounts(2) by (auto simp: list_all_iff)
    moreover have "list_all (\<lambda>v. holds v \<longrightarrow> depth v < depth m) below"
      using less mounts(3) by (auto simp: list_all_iff)
    ultimately have "\<exists>above point below. mounts = above @ (point, ty) # below \<and> path_starts_with inner point \<and>
       list_all (\<lambda>(m, _). path_starts_with inner m \<longrightarrow> length (component_names m) \<le> length (component_names point)) above \<and>
       list_all (\<lambda>(m, _). path_starts_with inner m \<longrightarrow> length (component_names m) < length (component_names point)) below"
      unfolding m holds_def depth_def case_prod_conv
      by (intro exI [of _ above] exI [of _ point] exI [of _ below]) (simp add: case_prod_unfold)
    moreover have "mounted_type mounts inner = Some ty" by (simp add: type Some m)
    ultimately show ?thesis by simp
  qed
qed

text \<open>The file system a process's file lies on is read off that process's own mounts, not the agent's: for a
  path the host opens through the process's root, the type is that of the innermost mount of the process's
  table that holds the path as the process names it, on ties the one mounted last, and unknown when no mount
  holds it.\<close>

lemma file_type_from_its_process:
  assumes "\<not> path_starts_with p ''/proc''" and "component_names p \<noteq> []"
    and "ho_mounts ho (Some (sint (pid :: u32))) = Some mounts" and "is_absolute p"
  shows "case fs_type ho (resolve_host_path (sint pid) p) of
     None \<Rightarrow> list_all (\<lambda>(point, _). \<not> path_starts_with p point) mounts
   | Some ty \<Rightarrow> \<exists>above point below. mounts = above @ (point, ty) # below \<and> path_starts_with p point \<and>
       list_all (\<lambda>(m, _). path_starts_with p m \<longrightarrow> length (component_names m) \<le> length (component_names point)) above \<and>
       list_all (\<lambda>(m, _). path_starts_with p m \<longrightarrow> length (component_names m) < length (component_names point)) below"
proof -
  define inner where "inner = join_names [] (component_names p)"
  have names: "list_all plain_name (component_names p)" by (rule component_names_plain)
  have "component_names inner = component_names p"
    using component_names_join [OF names] assms(2) by (simp add: inner_def join_names_def)
  moreover have "is_absolute inner"
    using assms(2) by (cases "component_names p") (simp_all add: inner_def join_names_def is_absolute_def starts_with_def)
  ultimately have same: "path_starts_with inner m = path_starts_with p m" for m
    using assms(4) by (simp add: path_starts_with_def)
  define rel where "rel = tl (concat (map ((#) (CHR ''/'')) (component_names p)))"
  have rel: "''/'' @ rel = inner" "\<not> is_absolute rel"
    using path_of_tail [OF assms(2) names] assms(2)
    by (cases "component_names p"; simp add: rel_def inner_def join_names_def)+
  have "- (2 ^ 31) \<le> sint pid" "sint pid < 2 ^ 31"
    using sint_ge [of pid] sint_lt [of pid] by simp_all
  then have "fs_type ho (resolve_host_path (sint pid) p) = mounted_type mounts inner"
    using proc_path_root [OF assms(2), of "sint pid"] assms(1,3) rel
    by (simp add: fs_type_def resolve_host_path_def parse_show_int flip: rel_def)
  then show ?thesis using mounted_type_innermost [where mounts = mounts and inner = inner] unfolding same by simp
qed

definition sample_host :: host where
  "sample_host = \<lparr>ho_meta = (\<lambda>_. Some \<lparr>md_dev = 1, md_ino = 9, md_size = 3, md_mtime = (0, 0), md_ctime = (0, 0)\<rparr>),
     ho_maps = (\<lambda>_. Some [''/usr/lib/libssl.so.3'']), ho_exe = (\<lambda>_. Some ''/usr/bin/node''),
     ho_mounts = (\<lambda>p. if p = Some 7 then Some [(''/'', ''overlay''), (''/usr/lib'', ''ext4''), (''/var'', ''tmpfs'')] else None)\<rparr>"

theorem file_type_from_its_process_witness:
  "fs_type sample_host (resolve_host_path (sint (7 :: u32)) ''/usr/lib/libssl.so.3'') = Some ''ext4''"
proof -
  have "sint (7 :: u32) = 7" by simp
  then have "ho_mounts sample_host (Some (sint (7 :: u32))) = Some [(''/'', ''overlay''), (''/usr/lib'', ''ext4''), (''/var'', ''tmpfs'')]"
    by (simp add: sample_host_def)
  from file_type_from_its_process [OF _ _ this, of "''/usr/lib/libssl.so.3''"] show ?thesis
    by (auto simp: path_starts_with_def component_names_def is_absolute_def starts_with_def Cons_eq_append_conv split: option.split_asm)
qed

end
