(* ===== verification/Lib_Open.thy ===== *)
theory Lib_Open
  imports Ssl_Probe Rust_Text
begin

text \<open>
  The kernel's watch for processes that open libssl (eBPF, exec_watch.rs). A path's last bytes go through a
  rolling window of machine words; the lemmas show it is the search for the basename it stands for, and that
  the cheap pass before it never gives up a path the search would find.
\<close>

section \<open>The search\<close>

definition TAIL_LEN :: nat where
  "TAIL_LEN = 32"

definition from_be_bytes :: "bytes \<Rightarrow> 'a :: len word" where
  "from_be_bytes bs = le_word (rev bs)"

definition LIBSSL_WIN_HI :: u64 where
  "LIBSSL_WIN_HI = from_be_bytes (as_bytes ''/l'')"

definition LIBSSL_WIN_LO :: u64 where
  "LIBSSL_WIN_LO = from_be_bytes (as_bytes ''ibssl.so'')"

definition LIBSSL_BLOCKS :: "u32 list" where
  "LIBSSL_BLOCKS =
     [le_word (as_bytes ''ibss''), le_word (as_bytes ''bssl''), le_word (as_bytes ''ssl.''), le_word (as_bytes ''sl.s'')]"

definition LIB_OPEN_TTL_NS :: u64 where
  "LIB_OPEN_TTL_NS = 60000000000"

definition MAX_FILENAME_LEN :: nat where
  "MAX_FILENAME_LEN = 256"

text \<open>The bytes before \<open>path[len]\<close>, zero-padded, as words.\<close>

definition tail_words :: "bytes \<Rightarrow> u32 list" where
  "tail_words bs = map (\<lambda>b. le_word (take 4 (drop (4 * b) bs))) [0..<TAIL_LEN div 4]"

definition copy_tail :: "bytes \<Rightarrow> nat \<Rightarrow> u32 list option" where
  "copy_tail path len =
     (let n = min len TAIL_LEN; start = len - n in
      if start > MAX_FILENAME_LEN - TAIL_LEN then None
      else Some (tail_words (take n (drop start path) @ replicate (TAIL_LEN - n) 0)))"

definition tail_byte :: "u32 list \<Rightarrow> nat \<Rightarrow> u8" where
  "tail_byte tail i = ucast (drop_bit ((i mod 4) * 8) (tail ! (i div 4)))"

definition window_step :: "u8 \<Rightarrow> u64 \<times> u64 \<times> bool \<Rightarrow> u64 \<times> u64 \<times> bool" where
  "window_step c w =
     (let (hi, lo, libssl) = w;
          hi = (push_bit 8 hi OR drop_bit 56 lo) AND 0xFFFF;
          lo = push_bit 8 lo OR ucast c
      in (hi, lo, hi = LIBSSL_WIN_HI \<and> lo = LIBSSL_WIN_LO \<or> libssl \<and> c \<noteq> 0x2F))"

definition libssl_tail :: "u32 list \<Rightarrow> bool" where
  "libssl_tail tail = snd (snd (fold (\<lambda>i. window_step (tail_byte tail i)) [0..<TAIL_LEN] (0, 0, False)))"

definition candidate_tail :: "u32 list \<Rightarrow> bool" where
  "candidate_tail tail = list_ex (\<lambda>w. w \<in> set LIBSSL_BLOCKS) tail"

section \<open>The search is the one for the basename\<close>

definition names_libssl :: "bytes \<Rightarrow> bool" where
  "names_libssl bs \<longleftrightarrow> (\<exists>d r. bs = d @ as_bytes ''/libssl.so'' @ r \<and> 0x2F \<notin> set r)"

lemma tail_byte_words:
  assumes "length bs = TAIL_LEN" and "i < TAIL_LEN"
  shows "tail_byte (tail_words bs) i = bs ! i"
proof (rule bit_word_eqI)
  fix n assume "n < LENGTH(8)"
  then have n: "n < 8" by simp
  have j: "i div 4 < TAIL_LEN div 4" "4 * (i div 4) + i mod 4 = i" "i mod 4 < 4"
    using assms(2) by (simp_all add: TAIL_LEN_def)
  have "8 * (i mod 4) + n < 32" "(8 * (i mod 4) + n) div 8 = i mod 4" "(8 * (i mod 4) + n) mod 8 = n"
    using n j(3) by auto
  moreover have "take 4 (drop (4 * (i div 4)) bs) ! (i mod 4) = bs ! i" "i mod 4 < length (take 4 (drop (4 * (i div 4)) bs))"
    using j assms by (simp_all add: TAIL_LEN_def)
  ultimately show "bit (tail_byte (tail_words bs) i) n = bit (bs ! i) n"
    using n j(1)
    by (simp add: tail_byte_def tail_words_def bit_ucast_iff bit_drop_bit_eq bit_le_word mult.commute)
qed

lemma libssl_tail_fold:
  assumes "length bs = TAIL_LEN"
  shows "libssl_tail (tail_words bs) = snd (snd (fold window_step bs (0, 0, False)))"
proof -
  have "fold (\<lambda>i. window_step (tail_byte (tail_words bs) i)) [0..<TAIL_LEN] w =
      fold (\<lambda>i. window_step (bs ! i)) [0..<TAIL_LEN] w" for w
    using tail_byte_words [OF assms] by (intro fold_cong) auto
  also have "fold (\<lambda>i. window_step (bs ! i)) [0..<TAIL_LEN] w = fold window_step (map ((!) bs) [0..<length bs]) w" for w
    by (simp add: fold_map comp_def assms)
  finally show ?thesis by (simp add: libssl_tail_def map_nth)
qed

text \<open>A word of too few bytes ends in zeros, and a word takes no more bytes than it holds.\<close>

lemma le_word_pad: "le_word (xs @ replicate k 0) = le_word xs"
proof (rule bit_word_eqI)
  fix n
  have "(xs @ replicate k 0) ! (n div 8) = (if n div 8 < length xs then xs ! (n div 8) else 0)"
    if "n div 8 < length xs + k"
    using that by (simp add: nth_append)
  then show "bit (le_word (xs @ replicate k 0) :: 'a word) n = bit (le_word xs :: 'a word) n"
    by (auto simp: bit_le_word split: if_splits)
qed

lemma le_word_take8: "(le_word (take 8 xs) :: u64) = le_word xs"
  by (rule bit_word_eqI) (auto simp: bit_le_word)

lemma le_word_is:
  assumes "length ys \<le> 8" and "0 \<notin> set ys"
  shows "(le_word (take (length ys) xs) :: u64) = le_word ys \<longleftrightarrow> take (length ys) xs = ys"
proof
  assume eq: "(le_word (take (length ys) xs) :: u64) = le_word ys"
  define k where "k = length ys - length xs"
  have "(le_word (take (length ys) xs @ replicate k 0) :: u64) = le_word ys" using eq by (simp add: le_word_pad)
  then have pad: "take (length ys) xs @ replicate k 0 = ys"
    by (subst (asm) le_word_inject) (use assms(1) in \<open>auto simp: k_def min_def\<close>)
  have "k = 0"
  proof (rule ccontr)
    assume "k \<noteq> 0"
    then have "0 \<in> set (take (length ys) xs @ replicate k 0)" by simp
    then show False using assms(2) by (simp only: pad)
  qed
  then show "take (length ys) xs = ys" using pad by simp
qed simp

text \<open>What the window holds after the bytes read so far.\<close>

lemma window_hi:
  "(push_bit 8 (le_word (take 2 (drop 8 r))) OR drop_bit 56 (le_word r)) AND 0xFFFF =
     (le_word (take 2 (drop 8 (c # r))) :: u64)"
proof (rule bit_word_eqI)
  fix n assume "n < LENGTH(64)"
  then have n: "n < 64" by simp
  have mask: "(0xFFFF :: u64) = mask 16" by (simp add: mask_eq_exp_minus_1)
  show "bit ((push_bit 8 (le_word (take 2 (drop 8 r))) OR drop_bit 56 (le_word r)) AND (0xFFFF :: u64)) n =
      bit (le_word (take 2 (drop 8 (c # r))) :: u64) n"
  proof (cases "n < 8")
    case True
    then have "(56 + n) div 8 = 7" "(56 + n) mod 8 = n" by presburger+
    with True show ?thesis
      using n by (auto simp: mask bit_and_iff bit_or_iff bit_push_bit_iff bit_drop_bit_eq bit_mask_iff bit_le_word)
  next
    case False
    then obtain m where m: "n = 8 + m" by (metis le_add_diff_inverse not_le)
    then have "n div 8 = Suc (m div 8)" "n mod 8 = m mod 8" "\<not> m div 8 = 0 \<longleftrightarrow> 8 \<le> m" "m div 8 < 2 \<longleftrightarrow> m < 16"
      by auto
    then show ?thesis
      using n m
      by (auto simp: mask bit_and_iff bit_or_iff bit_push_bit_iff bit_drop_bit_eq bit_mask_iff bit_le_word)
  qed
qed

definition window :: "bytes \<Rightarrow> u64 \<times> u64 \<times> bool" where
  "window p = (le_word (take 2 (drop 8 (rev p))), le_word (rev p), names_libssl p)"

lemma window_match:
  "(le_word (take 2 (drop 8 r)) :: u64) = LIBSSL_WIN_HI \<and> (le_word r :: u64) = LIBSSL_WIN_LO \<longleftrightarrow>
     (\<exists>d. rev r = d @ as_bytes ''/libssl.so'')"
proof -
  have "(le_word (take 2 (drop 8 r)) :: u64) = LIBSSL_WIN_HI \<longleftrightarrow> take 2 (drop 8 r) = rev (as_bytes ''/l'')"
  proof -
    have len: "length (rev (as_bytes ''/l'')) = 2" and "length (rev (as_bytes ''/l'')) \<le> 8"
      and "0 \<notin> set (rev (as_bytes ''/l''))" by (simp_all add: as_bytes_def)
    from le_word_is [OF this(2,3), of "drop 8 r", unfolded len] show ?thesis
      by (simp only: LIBSSL_WIN_HI_def from_be_bytes_def)
  qed
  moreover have "(le_word r :: u64) = LIBSSL_WIN_LO \<longleftrightarrow> take 8 r = rev (as_bytes ''ibssl.so'')"
  proof -
    have len: "length (rev (as_bytes ''ibssl.so'')) = 8" and "length (rev (as_bytes ''ibssl.so'')) \<le> 8"
      and "0 \<notin> set (rev (as_bytes ''ibssl.so''))" by (simp_all add: as_bytes_def)
    from le_word_is [OF this(2,3), of r, unfolded len] show ?thesis
      by (simp only: LIBSSL_WIN_LO_def from_be_bytes_def le_word_take8)
  qed
  moreover have "take 8 r = rev (as_bytes ''ibssl.so'') \<and> take 2 (drop 8 r) = rev (as_bytes ''/l'') \<longleftrightarrow>
      take 10 r = rev (as_bytes ''/libssl.so'')"
  proof -
    have whole: "rev (as_bytes ''/libssl.so'') = rev (as_bytes ''ibssl.so'') @ rev (as_bytes ''/l'')"
      and len: "length (as_bytes ''ibssl.so'') = 8"
      by (simp_all add: as_bytes_def)
    show ?thesis
    proof
      assume "take 8 r = rev (as_bytes ''ibssl.so'') \<and> take 2 (drop 8 r) = rev (as_bytes ''/l'')"
      moreover have "take (8 + 2) r = take 8 r @ take 2 (drop 8 r)" by (rule take_add)
      ultimately show "take 10 r = rev (as_bytes ''/libssl.so'')" by (simp add: whole)
    next
      assume "take 10 r = rev (as_bytes ''/libssl.so'')"
      then have eq: "take 10 r = rev (as_bytes ''ibssl.so'') @ rev (as_bytes ''/l'')" by (simp only: whole)
      have "take 8 (take 10 r) = rev (as_bytes ''ibssl.so'')" by (simp only: eq) (simp add: len)
      moreover have "drop 8 (take 10 r) = rev (as_bytes ''/l'')" by (simp only: eq) (simp add: len)
      ultimately show "take 8 r = rev (as_bytes ''ibssl.so'') \<and> take 2 (drop 8 r) = rev (as_bytes ''/l'')"
        by (simp add: drop_take)
    qed
  qed
  moreover have "take 10 r = rev (as_bytes ''/libssl.so'') \<longleftrightarrow> (\<exists>d. rev r = d @ as_bytes ''/libssl.so'')"
  proof
    assume "take 10 r = rev (as_bytes ''/libssl.so'')"
    moreover have "rev r = rev (drop 10 r) @ rev (take 10 r)" by (simp flip: rev_append)
    ultimately have "rev r = rev (drop 10 r) @ as_bytes ''/libssl.so''" by (simp only: rev_rev_ident)
    then show "\<exists>d. rev r = d @ as_bytes ''/libssl.so''" by blast
  next
    assume "\<exists>d. rev r = d @ as_bytes ''/libssl.so''"
    then obtain d where "rev r = d @ as_bytes ''/libssl.so''" by blast
    then have "rev (rev r) = rev (d @ as_bytes ''/libssl.so'')" by (rule arg_cong)
    then have "r = rev (as_bytes ''/libssl.so'') @ rev d" by (simp only: rev_append rev_rev_ident)
    then show "take 10 r = rev (as_bytes ''/libssl.so'')" by (simp add: as_bytes_def)
  qed
  ultimately show ?thesis by blast
qed

lemma names_libssl_snoc:
  "names_libssl (p @ [c]) \<longleftrightarrow> (\<exists>d. p @ [c] = d @ as_bytes ''/libssl.so'') \<or> names_libssl p \<and> c \<noteq> 0x2F"
proof
  assume "names_libssl (p @ [c])"
  then obtain d r where r: "p @ [c] = d @ as_bytes ''/libssl.so'' @ r" "0x2F \<notin> set r" by (auto simp: names_libssl_def)
  show "(\<exists>d. p @ [c] = d @ as_bytes ''/libssl.so'') \<or> names_libssl p \<and> c \<noteq> 0x2F"
  proof (cases r rule: rev_cases)
    case Nil
    then show ?thesis using r(1) by auto
  next
    case (snoc r' x)
    then have "p = d @ as_bytes ''/libssl.so'' @ r'" "c = x" using r(1) by simp_all
    then show ?thesis using r(2) snoc by (auto simp: names_libssl_def)
  qed
next
  assume "(\<exists>d. p @ [c] = d @ as_bytes ''/libssl.so'') \<or> names_libssl p \<and> c \<noteq> 0x2F"
  then show "names_libssl (p @ [c])"
  proof
    assume "\<exists>d. p @ [c] = d @ as_bytes ''/libssl.so''"
    then obtain d where "p @ [c] = d @ as_bytes ''/libssl.so'' @ []" by auto
    then show ?thesis unfolding names_libssl_def by (intro exI conjI) auto
  next
    assume "names_libssl p \<and> c \<noteq> 0x2F"
    then obtain d r where "p @ [c] = d @ as_bytes ''/libssl.so'' @ (r @ [c])" "0x2F \<notin> set (r @ [c])"
      by (auto simp: names_libssl_def)
    then show ?thesis unfolding names_libssl_def by blast
  qed
qed

lemma window_step_snoc: "window_step c (window p) = window (p @ [c])"
proof -
  have "(push_bit 8 (le_word (rev p)) OR ucast c :: u64) = le_word (c # rev p)" by (simp add: or.commute)
  moreover note window_hi [of "rev p" c]
  moreover have "(le_word (take 2 (drop 8 (c # rev p))) :: u64) = LIBSSL_WIN_HI \<and>
      (le_word (c # rev p) :: u64) = LIBSSL_WIN_LO \<longleftrightarrow> (\<exists>d. p @ [c] = d @ as_bytes ''/libssl.so'')"
    using window_match [of "c # rev p"] by simp
  ultimately show ?thesis
    unfolding window_def window_step_def Let_def prod.case names_libssl_snoc by (simp del: le_word.simps drop_Suc_Cons)
qed

lemma fold_window: "fold window_step bs (window p) = window (p @ bs)"
  by (induction bs arbitrary: p) (simp_all add: window_step_snoc)

lemma libssl_tail_names:
  assumes "length bs = TAIL_LEN"
  shows "libssl_tail (tail_words bs) \<longleftrightarrow> names_libssl bs"
proof -
  have "window [] = (0, 0, False)" by (simp add: window_def names_libssl_def as_bytes_def)
  then show ?thesis using fold_window [of bs "[]"] by (simp add: libssl_tail_fold [OF assms] window_def)
qed

text \<open>The cheap pass: a name in the tail covers one whole aligned block of it.\<close>

lemma names_libssl_candidate:
  assumes "length bs = TAIL_LEN" and "names_libssl bs"
  shows "candidate_tail (tail_words bs)"
proof -
  obtain d r where bs: "bs = d @ as_bytes ''/libssl.so'' @ r" using assms(2) by (auto simp: names_libssl_def)
  define k where "k = length d + 2"
  have rest: "drop k bs = as_bytes ''ibssl.so'' @ r" by (simp add: bs k_def as_bytes_def)
  have len: "k + 8 + length r = TAIL_LEN" using assms(1) by (simp add: bs k_def as_bytes_def)
  define j where "j = (k + 3) div 4"
  define m where "m = 4 * j - k"
  have j: "4 * j = k + m" "m < 4" by (auto simp: m_def j_def)
  have "j < TAIL_LEN div 4" using j len by (simp add: TAIL_LEN_def)
  moreover have "drop (4 * j) bs = drop m (drop k bs)" unfolding drop_drop j(1) by (simp only: add.commute)
  then have "take 4 (drop (4 * j) bs) = take 4 (drop m (as_bytes ''ibssl.so'' @ r))" by (simp only: rest)
  moreover have "m = 0 \<or> m = 1 \<or> m = 2 \<or> m = 3" using j(2) by auto
  then have "(le_word (take 4 (drop m (as_bytes ''ibssl.so'' @ r))) :: u32) \<in> set LIBSSL_BLOCKS"
    by (auto simp: LIBSSL_BLOCKS_def as_bytes_def)
  ultimately have "j < TAIL_LEN div 4" "(le_word (take 4 (drop (4 * j) bs)) :: u32) \<in> set LIBSSL_BLOCKS"
    by (simp_all only:)
  then show ?thesis by (auto simp: candidate_tail_def tail_words_def list_ex_iff)
qed

section \<open>The probe\<close>

text \<open>
  What the kernel answers: the flags of the open, the path as each of the two copies of it finds it (without
  its NUL; another thread may change it in between), the task, the clock and the ring's room. Copies between
  the program's own buffers are taken to succeed.
\<close>

record open_env =
  oe_flags :: "u64 option"
  oe_path :: "nat \<Rightarrow> bytes option"
  oe_pid :: u32
  oe_cgroup :: u64
  oe_now :: u64
  oe_room :: bool

record lib_event =
  le_pid :: u32
  le_len :: u32
  le_key :: "u64 \<times> u64"
  le_ts :: u64
  le_path :: bytes

record open_state =
  os_buf :: bytes
  os_seen :: "u64 \<times> u64 \<rightharpoonup> u64"
  os_ring :: "lib_event list"

definition O_ACCMODE :: u64 where
  "O_ACCMODE = 3"

text \<open>The helper writes the path and its NUL over the start of the buffer.\<close>

definition read_path :: "bytes \<Rightarrow> bytes \<Rightarrow> bytes" where
  "read_path s buf = s @ [0] @ drop (Suc (length s)) buf"

definition libssl_path :: "bytes \<Rightarrow> nat \<Rightarrow> bool" where
  "libssl_path path len =
     (path ! 0 = 0x2F \<and> (case copy_tail path len of None \<Rightarrow> False | Some tail \<Rightarrow> libssl_tail tail))"

definition path_hash :: "bytes \<Rightarrow> u64" where
  "path_hash path =
     fold (\<lambda>c hash. (hash XOR ucast c) * 0x100000001B3) (take MAX_FILENAME_LEN path) 0xCBF29CE484222325"

definition open_key :: "open_env \<Rightarrow> bytes \<Rightarrow> u64 \<times> u64" where
  "open_key env path =
     (if oe_cgroup env > 1 then oe_cgroup env else push_bit 63 1 OR ucast (oe_pid env), path_hash path)"

definition handled_recently :: "open_env \<Rightarrow> u64 \<times> u64 \<Rightarrow> open_state \<Rightarrow> bool" where
  "handled_recently env key st =
     (case os_seen st key of None \<Rightarrow> False | Some last_ts \<Rightarrow> oe_now env - last_ts < LIB_OPEN_TTL_NS)"

definition report_open :: "open_env \<Rightarrow> bytes \<Rightarrow> nat \<Rightarrow> open_state \<Rightarrow> open_state" where
  "report_open env path len st =
     (let key = open_key env path in
      if handled_recently env key st then st
      else if \<not> oe_room env then st
      else st\<lparr>os_ring := os_ring st @
        [\<lparr>le_pid = oe_pid env, le_len = of_nat len, le_key = key, le_ts = oe_now env, le_path = path\<rparr>]\<rparr>)"

definition lib_open :: "open_env \<Rightarrow> open_state \<Rightarrow> open_state" where
  "lib_open env st =
     (if (case oe_flags env of None \<Rightarrow> True | Some flags \<Rightarrow> flags AND O_ACCMODE \<noteq> 0) then st
      else case oe_path env 0 of
        None \<Rightarrow> st
      | Some s \<Rightarrow>
          (let path = read_path s (os_buf st); st = st\<lparr>os_buf := path\<rparr> in
           if path ! 0 \<noteq> 0x2F then st
           else case copy_tail path (length s) of
             None \<Rightarrow> st
           | Some tail \<Rightarrow>
               (if \<not> candidate_tail tail \<or> \<not> libssl_tail tail then st
                else
                  (let st = st\<lparr>os_buf := replicate MAX_FILENAME_LEN 0\<rparr> in
                   case oe_path env 1 of
                     None \<Rightarrow> st
                   | Some s' \<Rightarrow>
                       (let path = read_path s' (os_buf st); st = st\<lparr>os_buf := path\<rparr> in
                        if length s' \<noteq> length s \<or> \<not> libssl_path path (length s) then st
                        else report_open env path (length s) st)))))"

section \<open>What is reported\<close>

text \<open>An absolute path whose basename, within its last 32 bytes, starts with \<open>libssl.so\<close>.\<close>

definition opens_libssl :: "bytes \<Rightarrow> bool" where
  "opens_libssl s \<longleftrightarrow> starts_with s (as_bytes ''/'') \<and> names_libssl (drop (length s - TAIL_LEN) s)"

lemma names_libssl_padded: "names_libssl (bs @ replicate k 0) \<longleftrightarrow> names_libssl bs"
proof (induction k)
  case (Suc k)
  have "\<not> (\<exists>d. (bs @ replicate k 0) @ [0] = d @ as_bytes ''/libssl.so'')"
  proof
    assume "\<exists>d. (bs @ replicate k 0) @ [0] = d @ as_bytes ''/libssl.so''"
    then obtain d where "(bs @ replicate k 0) @ [0] = d @ as_bytes ''/libssl.so''" by blast
    from arg_cong [OF this, of last] show False by (simp add: as_bytes_def)
  qed
  then have "names_libssl ((bs @ replicate k 0) @ [0]) \<longleftrightarrow> names_libssl bs"
    unfolding names_libssl_snoc Suc.IH by simp
  then show ?case by (simp add: replicate_append_same)
qed simp

lemma path_tail:
  assumes "length s < MAX_FILENAME_LEN"
  obtains tail where "copy_tail (read_path s buf) (length s) = Some (tail_words tail)" and "length tail = TAIL_LEN"
    and "names_libssl tail \<longleftrightarrow> names_libssl (drop (length s - TAIL_LEN) s)"
proof -
  define n where "n = min (length s) TAIL_LEN"
  define tail where "tail = drop (length s - n) s @ replicate (TAIL_LEN - n) 0"
  have n: "length s - n = length s - TAIL_LEN" by (simp add: n_def min_def)
  have "take n (drop (length s - n) (read_path s buf)) = drop (length s - n) s"
    by (simp add: read_path_def n_def)
  moreover have "\<not> length s - n > MAX_FILENAME_LEN - TAIL_LEN"
    using assms n by (simp add: MAX_FILENAME_LEN_def TAIL_LEN_def)
  ultimately have "copy_tail (read_path s buf) (length s) = Some (tail_words tail)"
    by (simp add: copy_tail_def Let_def tail_def flip: n_def)
  moreover have "length tail = TAIL_LEN" by (simp add: tail_def n_def)
  moreover have "names_libssl tail \<longleftrightarrow> names_libssl (drop (length s - TAIL_LEN) s)"
    by (simp add: tail_def names_libssl_padded n)
  ultimately show ?thesis by (rule that)
qed

lemma path_slash: "read_path s buf ! 0 = 0x2F \<longleftrightarrow> starts_with s (as_bytes ''/'')"
  by (cases s) (simp_all add: read_path_def starts_with_def as_bytes_def)

lemma libssl_path_opens:
  assumes "length s < MAX_FILENAME_LEN"
  shows "libssl_path (read_path s buf) (length s) \<longleftrightarrow> opens_libssl s"
proof -
  obtain tail where "copy_tail (read_path s buf) (length s) = Some (tail_words tail)" "length tail = TAIL_LEN"
    "names_libssl tail \<longleftrightarrow> names_libssl (drop (length s - TAIL_LEN) s)"
    by (rule path_tail [OF assms])
  then show ?thesis by (simp add: libssl_path_def opens_libssl_def path_slash libssl_tail_names)
qed

text \<open>A process's open of libssl is reported exactly when it should be: the file is opened for reading only,
  the path is absolute and its basename starts with libssl.so, each time the path is read, it was not handled
  within the minute, and the ring has room. The record holds the path as last read, padded with zeros, so its
  key depends on that path alone and never on bytes an earlier, longer path left in the buffer.\<close>

lemma libssl_opens_are_reported:
  assumes "list_all (\<lambda>n. case oe_path env n of None \<Rightarrow> True | Some s \<Rightarrow> length s < MAX_FILENAME_LEN) [0, 1]"
  shows "os_ring (lib_open env st) = os_ring st @
    (case (oe_flags env, oe_path env 0, oe_path env 1) of
       (Some flags, Some s, Some s') \<Rightarrow>
         (let path = s' @ replicate (MAX_FILENAME_LEN - length s') 0; key = open_key env path in
          if flags AND 3 = 0 \<and> opens_libssl s \<and> opens_libssl s' \<and> length s' = length s \<and>
            \<not> handled_recently env key st \<and> oe_room env
          then [\<lparr>le_pid = oe_pid env, le_len = of_nat (length s'), le_key = key, le_ts = oe_now env, le_path = path\<rparr>]
          else [])
     | _ \<Rightarrow> [])"
proof (cases "oe_path env 0")
  case None
  then show ?thesis by (auto simp: lib_open_def split: option.split)
next
  case (Some s)
  have s: "length s < MAX_FILENAME_LEN" using assms Some by simp
  obtain tail where tail: "copy_tail (read_path s (os_buf st)) (length s) = Some (tail_words tail)"
    "length tail = TAIL_LEN" "names_libssl tail \<longleftrightarrow> names_libssl (drop (length s - TAIL_LEN) s)"
    by (rule path_tail [OF s])
  have first: "read_path s (os_buf st) ! 0 \<noteq> 0x2F \<or> \<not> candidate_tail (tail_words tail) \<or> \<not> libssl_tail (tail_words tail) \<longleftrightarrow>
      \<not> opens_libssl s"
    using names_libssl_candidate [OF tail(2)] tail(3)
    by (auto simp: opens_libssl_def path_slash libssl_tail_names [OF tail(2)])
  show ?thesis
  proof (cases "oe_path env 1")
    case None
    then show ?thesis
      using Some tail(1) by (auto simp: lib_open_def Let_def split: option.split)
  next
    case second: (Some s')
    have s': "length s' < MAX_FILENAME_LEN" using assms second by simp
    have "read_path s' (replicate MAX_FILENAME_LEN 0) = s' @ replicate (MAX_FILENAME_LEN - length s') 0"
      using s' by (simp add: read_path_def Suc_diff_Suc flip: replicate_Suc)
    moreover have "length s' = length s \<Longrightarrow>
        libssl_path (read_path s' (replicate MAX_FILENAME_LEN 0)) (length s) \<longleftrightarrow> opens_libssl s'"
      using libssl_path_opens [OF s'] by simp
    ultimately show ?thesis
      using Some second tail(1) first
      by (auto simp: lib_open_def Let_def report_open_def handled_recently_def O_ACCMODE_def split: option.split)
  qed
qed

definition sample_open :: open_env where
  "sample_open = \<lparr>oe_flags = Some 0, oe_path = (\<lambda>_. Some (as_bytes ''/l/libssl.so.3'')), oe_pid = 7, oe_cgroup = 2,
     oe_now = 5, oe_room = True\<rparr>"

theorem libssl_opens_are_reported_witness:
  "map le_len (os_ring (lib_open sample_open \<lparr>os_buf = replicate 256 0x73, os_seen = Map.empty, os_ring = []\<rparr>)) = [14]"
proof -
  have "as_bytes ''/l/libssl.so.3'' = as_bytes ''/l'' @ as_bytes ''/libssl.so'' @ as_bytes ''.3''"
    by (simp add: as_bytes_def)
  moreover have "(0x2F :: u8) \<notin> set (as_bytes ''.3'')" by (simp add: as_bytes_def)
  ultimately have "names_libssl (as_bytes ''/l/libssl.so.3'')" unfolding names_libssl_def by blast
  then have "opens_libssl (as_bytes ''/l/libssl.so.3'')"
    by (simp add: opens_libssl_def starts_with_def as_bytes_def TAIL_LEN_def)
  moreover have "length (as_bytes ''/l/libssl.so.3'') = 14" by (simp add: as_bytes_def)
  ultimately show ?thesis
    using libssl_opens_are_reported [of sample_open "\<lparr>os_buf = replicate 256 0x73, os_seen = Map.empty, os_ring = []\<rparr>"]
    by (simp add: sample_open_def handled_recently_def MAX_FILENAME_LEN_def Let_def)
qed

end
