(* ===== verification/Watch.thy ===== *)
theory Watch
  imports Discovery Lib_Open Agent_Props
begin

text \<open>
  From a process that loads OpenSSL to the probes on its file: the queues between the kernel's records of execs
  and library opens and the agent's loop (probes/mod.rs, lib.rs), and what the SSL probe does for a process
  (llm/mod.rs). The ring readers are threads of their own: a record is queued under a lock, and the loop is told
  of it in a later step. What the host answers is a parameter of each step.
\<close>

section \<open>The probe\<close>

type_synonym rounds = "(file_id, bool) file_round list"

record process_info =
  pi_pid :: u32
  pi_libs :: "str list"
  pi_exe :: "str option"

definition is_libssl :: "str \<Rightarrow> bool" where
  "is_libssl p = (case file_name p of None \<Rightarrow> False | Some name \<Rightarrow> starts_with name ''libssl.so'')"

type_synonym tried = "(str \<times> file_id \<times> bool option) list"

definition on_exec :: "bool \<Rightarrow> rounds \<times> rounds \<Rightarrow> process_info \<Rightarrow> file_id set \<Rightarrow> file_id set \<times> tried" where
  "on_exec executables answers info known =
     (let (known, libs) = attach_files (fst answers) (filter is_libssl (pi_libs info)) known;
          exe = filter (\<lambda>_. executables) (case pi_exe info of None \<Rightarrow> [] | Some exe \<Rightarrow> [exe]);
          (known, exes) = attach_files (snd answers) exe known
      in (known, libs @ exes))"

definition find_all_targets :: "host \<Rightarrow> u32 list option \<Rightarrow> str option \<Rightarrow> str list" where
  "find_all_targets ho procs ldconfig =
     find_libraries_all ho procs
       (\<lambda>name. contains name ''libssl.so.'' \<or> contains name ''libcrypto.so.'')
       (Some (ldconfig, ''libssl.so''))"

definition attach_at_start ::
  "bool \<Rightarrow> host \<Rightarrow> u32 list option \<Rightarrow> str option \<Rightarrow> rounds \<times> rounds \<Rightarrow> file_id set \<Rightarrow> file_id set \<times> tried" where
  "attach_at_start executables ho procs ldconfig answers known =
     (let targets = find_all_targets ho procs ldconfig;
          (known, libs) = attach_files (fst answers) (filter (\<lambda>p. \<not> contains p ''libcrypto'') targets) known
      in if executables
         then (let (known, exes) = attach_files (snd answers) (find_executables_all ho procs) known in (known, libs @ exes))
         else (known, libs))"

section \<open>The queues\<close>

definition MAX_EXEC_QUEUE_SIZE :: nat where
  "MAX_EXEC_QUEUE_SIZE = 1024"

record opened =
  lo_pid :: u32
  lo_path :: str
  lo_seen_key :: "u64 \<times> u64"
  lo_ts :: u64

definition opened_of :: "lib_event \<Rightarrow> opened" where
  "opened_of event =
     (let len = min (unat (le_len event)) (length (le_path event)) in
      \<lparr>lo_pid = le_pid event, lo_path = from_utf8_lossy (take len (le_path event)),
       lo_seen_key = le_key event, lo_ts = le_ts event\<rparr>)"

definition push_capped :: "'a \<Rightarrow> 'a list \<Rightarrow> 'a list" where
  "push_capped x q = (if length q < MAX_EXEC_QUEUE_SIZE then q @ [x] else q)"

definition BATCH_WAIT_MS :: nat where
  "BATCH_WAIT_MS = 50"

text \<open>
  A queue and its \<open>Notify\<close>: what waits, whether a reader has yet to tell the loop, and the permit the loop takes.
  \<open>wa_tried\<close> is what the probes were tried on, and \<open>wa_handled\<close> the opens and the processes handed to them; the
  loop writes neither.
\<close>

record 'a queue =
  qu_waiting :: "'a list"
  qu_telling :: bool
  qu_permit :: bool

record watch =
  wa_kernel :: open_state
  wa_opens :: "opened queue"
  wa_execs :: "u32 queue"
  wa_exec_due :: "nat option"
  wa_known :: "file_id set"
  wa_tried :: tried
  wa_handled :: "(opened \<times> str) list"
  wa_scanned :: "u32 list"

definition enqueue :: "'a \<Rightarrow> 'a queue \<Rightarrow> 'a queue" where
  "enqueue x q = q\<lparr>qu_waiting := push_capped x (qu_waiting q), qu_telling := True\<rparr>"

definition tell_loop :: "'a queue \<Rightarrow> 'a queue" where
  "tell_loop q = q\<lparr>qu_telling := False, qu_permit := True\<rparr>"

definition notify_probes :: "bool \<Rightarrow> rounds \<times> rounds \<Rightarrow> process_info \<Rightarrow> watch \<Rightarrow> watch" where
  "notify_probes executables answers info st =
     (let (known, tried) = on_exec executables answers info (wa_known st)
      in st\<lparr>wa_known := known, wa_tried := wa_tried st @ tried\<rparr>)"

text \<open>One open: its file is resolved and handed to the probes, and only then is the open marked as seen.\<close>

definition handle_open :: "bool \<Rightarrow> (str \<Rightarrow> tree) \<times> rounds \<times> rounds \<Rightarrow> opened \<Rightarrow> watch \<Rightarrow> watch" where
  "handle_open executables answers ev st =
     (case resolve_in_root (fst answers) (proc_root (uint (lo_pid ev))) (lo_path ev) of
        None \<Rightarrow> st
      | Some host_path \<Rightarrow>
          (let st = notify_probes executables (snd answers) \<lparr>pi_pid = lo_pid ev, pi_libs = [host_path], pi_exe = None\<rparr> st
           in st\<lparr>wa_kernel := (wa_kernel st)\<lparr>os_seen := (os_seen (wa_kernel st))(lo_seen_key ev \<mapsto> lo_ts ev)\<rparr>,
                 wa_handled := wa_handled st @ [(ev, host_path)]\<rparr>))"

definition handle_pid :: "bool \<Rightarrow> host \<times> rounds \<times> rounds \<Rightarrow> u32 \<Rightarrow> watch \<Rightarrow> watch" where
  "handle_pid executables answers pid st =
     (let libs = get_process_libraries (fst answers) pid; st = st\<lparr>wa_scanned := wa_scanned st @ [pid]\<rparr> in
      if libs = [] then st
      else notify_probes executables (snd answers)
        \<lparr>pi_pid = pid, pi_libs = libs, pi_exe = get_process_exe (fst answers) pid\<rparr> st)"

text \<open>The \<open>i\<close>-th of a batch meets the answers of its turn.\<close>

fun handle_all :: "('x \<Rightarrow> 'a \<Rightarrow> 's \<Rightarrow> 's) \<Rightarrow> (nat \<Rightarrow> 'x) \<Rightarrow> nat \<Rightarrow> 'a list \<Rightarrow> 's \<Rightarrow> 's" where
  "handle_all f answers i [] st = st"
| "handle_all f answers i (x # xs) st = handle_all f answers (Suc i) xs (f (answers i) x st)"


section \<open>The steps\<close>

text \<open>
  The kernel's probe on an open; the reader taking a record off the ring, but not one of the agent's own opens;
  a reader telling the loop; the loop's branches. \<open>Notify\<close> holds one permit however often it is told.
\<close>

inductive watch_step :: "u32 \<Rightarrow> bool \<Rightarrow> watch \<Rightarrow> watch \<Rightarrow> bool" for own :: u32 and executables :: bool where
  kernel_open: "watch_step own executables st (st\<lparr>wa_kernel := lib_open env (wa_kernel st)\<rparr>)"
| own_open: "os_ring (wa_kernel st) = event # events \<Longrightarrow> le_pid event = own \<Longrightarrow> \<not> qu_telling (wa_opens st) \<Longrightarrow>
    watch_step own executables st (st\<lparr>wa_kernel := (wa_kernel st)\<lparr>os_ring := events\<rparr>\<rparr>)"
| open_record: "os_ring (wa_kernel st) = event # events \<Longrightarrow> le_pid event \<noteq> own \<Longrightarrow> \<not> qu_telling (wa_opens st) \<Longrightarrow>
    watch_step own executables st (st\<lparr>wa_kernel := (wa_kernel st)\<lparr>os_ring := events\<rparr>,
      wa_opens := enqueue (opened_of event) (wa_opens st)\<rparr>)"
| open_told: "qu_telling (wa_opens st) \<Longrightarrow> watch_step own executables st (st\<lparr>wa_opens := tell_loop (wa_opens st)\<rparr>)"
| exec_record: "\<not> qu_telling (wa_execs st) \<Longrightarrow>
    watch_step own executables st (st\<lparr>wa_execs := enqueue pid (wa_execs st)\<rparr>)"
| exec_told: "qu_telling (wa_execs st) \<Longrightarrow> watch_step own executables st (st\<lparr>wa_execs := tell_loop (wa_execs st)\<rparr>)"
| take_opens: "qu_permit (wa_opens st) \<Longrightarrow>
    watch_step own executables st
      (handle_all (handle_open executables) answers 0 (qu_waiting (wa_opens st))
        (st\<lparr>wa_opens := (wa_opens st)\<lparr>qu_waiting := [], qu_permit := False\<rparr>\<rparr>))"
| batch_execs: "qu_permit (wa_execs st) \<Longrightarrow> wa_exec_due st = None \<Longrightarrow>
    watch_step own executables st
      (st\<lparr>wa_execs := (wa_execs st)\<lparr>qu_permit := False\<rparr>, wa_exec_due := Some (now + BATCH_WAIT_MS)\<rparr>)"
| take_execs: "wa_exec_due st = Some deadline \<Longrightarrow> deadline \<le> now \<Longrightarrow>
    watch_step own executables st
      (handle_all (handle_pid executables) answers 0 (qu_waiting (wa_execs st))
        (st\<lparr>wa_execs := (wa_execs st)\<lparr>qu_waiting := []\<rparr>, wa_exec_due := None\<rparr>))"

definition empty_queue :: "'a queue" where
  "empty_queue = \<lparr>qu_waiting = [], qu_telling = False, qu_permit = False\<rparr>"

text \<open>The loop starts with the files the probes tried at the start.\<close>

definition watch_started :: "open_state \<Rightarrow> file_id set \<Rightarrow> tried \<Rightarrow> watch" where
  "watch_started krn known tried =
     \<lparr>wa_kernel = krn, wa_opens = empty_queue, wa_execs = empty_queue, wa_exec_due = None, wa_known = known,
      wa_tried = tried, wa_handled = [], wa_scanned = []\<rparr>"

definition watch_reachable :: "u32 \<Rightarrow> bool \<Rightarrow> watch \<Rightarrow> watch \<Rightarrow> bool" where
  "watch_reachable own executables st0 = (watch_step own executables)\<^sup>*\<^sup>* st0"

end
