(* ===== verification/Watch_Props.thy ===== *)
theory Watch_Props
  imports Watch
begin

text \<open>
  No record waits for a loop nobody tells, the kernel falls silent about a library only once the probes were
  tried on it, each file is tried once, and a process that starts is looked at a few steps later.
\<close>

section \<open>What a batch keeps\<close>

lemma handle_all_keeps: "(\<And>x a st. P st \<Longrightarrow> P (f x a st)) \<Longrightarrow> P st \<Longrightarrow> P (handle_all f answers i xs st)"
  by (induction f answers i xs st rule: handle_all.induct) simp_all

definition queues :: "watch \<Rightarrow> opened queue \<times> u32 queue \<times> nat option" where
  "queues st = (wa_opens st, wa_execs st, wa_exec_due st)"

lemma notify_probes_fields [simp]:
  "queues (notify_probes e answers info st) = queues st"
  "wa_kernel (notify_probes e answers info st) = wa_kernel st"
  "wa_handled (notify_probes e answers info st) = wa_handled st"
  "wa_scanned (notify_probes e answers info st) = wa_scanned st"
  by (simp_all add: notify_probes_def queues_def split: prod.split)

lemma handle_open_queues [simp]: "queues (handle_open e answers o' st) = queues st"
proof -
  have "queues (st\<lparr>wa_kernel := k, wa_handled := h\<rparr>) = queues st" for k h st by (simp add: queues_def)
  then show ?thesis by (simp add: handle_open_def Let_def split: option.split)
qed

lemma handle_pid_queues [simp]: "queues (handle_pid e answers pid st) = queues st"
proof -
  have "queues (st\<lparr>wa_scanned := h\<rparr>) = queues st" for h st by (simp add: queues_def)
  then show ?thesis by (simp add: handle_pid_def Let_def)
qed

lemma handle_all_queues [simp]:
  "queues (handle_all (handle_open e) answers i xs st) = queues st"
  "queues (handle_all (handle_pid e) answers' i ys st) = queues st"
  by (rule handle_all_keeps [where P = "\<lambda>s. queues s = queues st"]; simp)+

lemma queues_eq: "queues st = queues st' \<longleftrightarrow>
    wa_opens st = wa_opens st' \<and> wa_execs st = wa_execs st' \<and> wa_exec_due st = wa_exec_due st'"
  by (simp add: queues_def)

text \<open>The loop is woken for what waits, and never more waits than the cap.\<close>

definition queue_ok :: "bool \<Rightarrow> 'a queue \<Rightarrow> bool" where
  "queue_ok woken q \<longleftrightarrow>
     length (qu_waiting q) \<le> MAX_EXEC_QUEUE_SIZE \<and> (qu_waiting q = [] \<or> qu_telling q \<or> qu_permit q \<or> woken)"

lemma queue_ok_simps [simp]:
  "queue_ok w q \<Longrightarrow> queue_ok w' (enqueue x q)"
  "queue_ok w q \<Longrightarrow> queue_ok w' (tell_loop q)"
  "queue_ok w' (q\<lparr>qu_waiting := []\<rparr>)"
  "queue_ok w' empty_queue"
  by (simp_all add: queue_ok_def enqueue_def tell_loop_def push_capped_def empty_queue_def)

definition seen_handled :: "(u64 \<times> u64 \<rightharpoonup> u64) \<Rightarrow> watch \<Rightarrow> bool" where
  "seen_handled seen0 st \<longleftrightarrow>
     (\<forall>k t. os_seen (wa_kernel st) k = Some t \<longrightarrow> seen0 k = Some t \<or>
        (\<exists>o' p. (o', p) \<in> set (wa_handled st) \<and> lo_seen_key o' = k \<and> lo_ts o' = t))"

definition tried_once :: "file_id set \<Rightarrow> watch \<Rightarrow> bool" where
  "tried_once known0 st \<longleftrightarrow>
     distinct (map (fst \<circ> snd) (wa_tried st)) \<and> (fst \<circ> snd) ` set (wa_tried st) \<inter> known0 = {} \<and>
     wa_known st = known0 \<union> (fst \<circ> snd) ` set (wa_tried st)"

lemma tried_on_exec:
  assumes "on_exec e answers info known = (known', tried)"
  shows "distinct (map (fst \<circ> snd) tried) \<and> (fst \<circ> snd) ` set tried \<inter> known = {} \<and>
    known' = known \<union> (fst \<circ> snd) ` set tried"
proof -
  obtain k1 t1 where first: "attach_files (fst answers) (filter is_libssl (pi_libs info)) known = (k1, t1)" by fastforce
  obtain k2 t2 where second: "attach_files (snd answers)
      (filter (\<lambda>_. e) (case pi_exe info of None \<Rightarrow> [] | Some exe \<Rightarrow> [exe])) k1 = (k2, t2)" by fastforce
  have "known' = k2" "tried = t1 @ t2" using assms first second by (simp_all add: on_exec_def)
  then show ?thesis
    using files_are_tried_once [where rounds = "fst answers" and paths = "filter is_libssl (pi_libs info)" and known = known]
      files_are_tried_once [where rounds = "snd answers" and known = k1 and
        paths = "filter (\<lambda>_. e) (case pi_exe info of None \<Rightarrow> [] | Some exe \<Rightarrow> [exe])"]
    unfolding first second by auto
qed

lemma notify_probes_tried: "tried_once known0 st \<Longrightarrow> tried_once known0 (notify_probes e answers info st)"
proof -
  assume ok: "tried_once known0 st"
  obtain known tried where run: "on_exec e answers info (wa_known st) = (known, tried)" by fastforce
  then have "wa_known (notify_probes e answers info st) = known" "wa_tried (notify_probes e answers info st) = wa_tried st @ tried"
    by (simp_all add: notify_probes_def)
  with tried_on_exec [OF run] ok show ?thesis by (auto simp: tried_once_def)
qed

lemma handle_open_tried: "tried_once known0 st \<Longrightarrow> tried_once known0 (handle_open e answers ev st)"
proof -
  assume "tried_once known0 st"
  then have "tried_once known0 (notify_probes e (snd answers) info st)" for info by (rule notify_probes_tried)
  then show ?thesis using \<open>tried_once known0 st\<close>
    by (simp add: handle_open_def Let_def tried_once_def split: option.split)
qed

lemma handle_pid_tried: "tried_once known0 st \<Longrightarrow> tried_once known0 (handle_pid e answers pid st)"
proof -
  assume ok: "tried_once known0 st"
  then have "tried_once known0 (st\<lparr>wa_scanned := scanned\<rparr>)" for scanned by (simp add: tried_once_def)
  then show ?thesis by (simp add: handle_pid_def Let_def notify_probes_tried)
qed

lemma handle_open_seen: "seen_handled seen0 st \<Longrightarrow> seen_handled seen0 (handle_open e answers ev st)"
  by (auto simp: handle_open_def Let_def seen_handled_def split: option.split) blast+

lemma handle_pid_seen: "seen_handled seen0 st \<Longrightarrow> seen_handled seen0 (handle_pid e answers pid st)"
  by (simp add: handle_pid_def Let_def seen_handled_def)

lemma lib_open_seen [simp]: "os_seen (lib_open env st) = os_seen st"
  by (simp add: lib_open_def report_open_def Let_def split: option.split)

definition watch_inv :: "(u64 \<times> u64 \<rightharpoonup> u64) \<Rightarrow> file_id set \<Rightarrow> watch \<Rightarrow> bool" where
  "watch_inv seen0 known0 st \<longleftrightarrow>
     queue_ok False (wa_opens st) \<and> queue_ok (wa_exec_due st \<noteq> None) (wa_execs st) \<and>
     seen_handled seen0 st \<and> tried_once known0 st"

lemma batch_inv:
  assumes "watch_inv seen0 known0 st"
  shows "watch_inv seen0 known0 (handle_all (handle_open e) answers i xs st)"
    and "watch_inv seen0 known0 (handle_all (handle_pid e) answers' i ys st)"
proof -
  let ?P = "\<lambda>s. queues s = queues st \<and> seen_handled seen0 s \<and> tried_once known0 s"
  have start: "?P st" using assms by (simp add: watch_inv_def)
  have "?P (handle_all (handle_open e) answers i xs st)"
    by (rule handle_all_keeps [where P = ?P, OF _ start]) (simp add: handle_open_seen handle_open_tried)
  moreover have "?P (handle_all (handle_pid e) answers' i ys st)"
    by (rule handle_all_keeps [where P = ?P, OF _ start]) (simp add: handle_pid_seen handle_pid_tried)
  ultimately show "watch_inv seen0 known0 (handle_all (handle_open e) answers i xs st)"
    "watch_inv seen0 known0 (handle_all (handle_pid e) answers' i ys st)"
    using assms unfolding watch_inv_def queues_eq by simp_all
qed

lemma watch_inv_fields:
  assumes "watch_inv seen0 known0 st" and "queue_ok False opens" and "queue_ok (due' \<noteq> None) execs" and "os_seen krn = os_seen (wa_kernel st)"
  shows "watch_inv seen0 known0 (st\<lparr>wa_kernel := krn, wa_opens := opens, wa_execs := execs, wa_exec_due := due'\<rparr>)"
  using assms by (simp add: watch_inv_def seen_handled_def tried_once_def)

lemma watch_step_inv: "watch_step own e st st' \<Longrightarrow> watch_inv seen0 known0 st \<Longrightarrow> watch_inv seen0 known0 st'"
proof (induction rule: watch_step.induct)
  case (take_opens st answers)
  have "watch_inv seen0 known0 (st\<lparr>wa_opens := (wa_opens st)\<lparr>qu_waiting := [], qu_permit := False\<rparr>\<rparr>)"
    using take_opens.prems by (simp add: watch_inv_def seen_handled_def tried_once_def queue_ok_def)
  then show ?case by (rule batch_inv)
next
  case (take_execs st deadline now answers)
  have "watch_inv seen0 known0 (st\<lparr>wa_execs := (wa_execs st)\<lparr>qu_waiting := []\<rparr>, wa_exec_due := None\<rparr>)"
    using take_execs.prems by (simp add: watch_inv_def seen_handled_def tried_once_def)
  then show ?case by (rule batch_inv)
qed (auto simp: watch_inv_def seen_handled_def tried_once_def queue_ok_def enqueue_def tell_loop_def push_capped_def)

lemma watch_started_inv: 
  assumes "os_seen krn = seen0" and "distinct (map (fst \<circ> snd) tried)" and "(fst \<circ> snd) ` set tried \<inter> known0 = {}"
  shows "watch_inv seen0 known0 (watch_started krn (known0 \<union> (fst \<circ> snd) ` set tried) tried)"
  using assms by (auto simp: watch_inv_def watch_started_def seen_handled_def tried_once_def)


section \<open>What is tried stays tried\<close>

lemma notify_probes_grows: "prefix (wa_tried st) (wa_tried (notify_probes e answers info st))"
  by (simp add: notify_probes_def split: prod.split)

lemma handle_open_grows: "prefix (wa_tried st) (wa_tried (handle_open e answers ev st))"
  using notify_probes_grows by (simp add: handle_open_def Let_def split: option.split)

lemma handle_pid_grows: "prefix (wa_tried st) (wa_tried (handle_pid e answers pid st))"
proof -
  have "prefix (wa_tried (st\<lparr>wa_scanned := s\<rparr>)) (wa_tried (notify_probes e a info (st\<lparr>wa_scanned := s\<rparr>)))" for s a info
    by (rule notify_probes_grows)
  then show ?thesis by (simp add: handle_pid_def Let_def)
qed

lemma handle_all_grows:
  assumes "\<And>x a s. prefix (wa_tried s) (wa_tried (f x a s))"
  shows "prefix (wa_tried st) (wa_tried (handle_all f answers i xs st))"
proof (rule handle_all_keeps [where P = "\<lambda>s. prefix (wa_tried st) (wa_tried s)"])
  show "prefix (wa_tried st) (wa_tried s) \<Longrightarrow> prefix (wa_tried st) (wa_tried (f x a s))" for x a s
    by (rule prefix_order.trans [OF _ assms])
qed simp

lemma watch_step_grows: "watch_step own e st st' \<Longrightarrow> prefix (wa_tried st) (wa_tried st')"
proof (induction rule: watch_step.induct)
  case (take_opens st answers)
  show ?case
    using handle_all_grows [OF handle_open_grows, of "st\<lparr>wa_opens := (wa_opens st)\<lparr>qu_waiting := [], qu_permit := False\<rparr>\<rparr>"]
    by simp
next
  case (take_execs st deadline now answers)
  show ?case
    using handle_all_grows [OF handle_pid_grows, of "st\<lparr>wa_execs := (wa_execs st)\<lparr>qu_waiting := []\<rparr>, wa_exec_due := None\<rparr>"]
    by simp
qed simp_all

lemma watch_run:
  assumes "watch_reachable own e st st'"
  shows "prefix (wa_tried st) (wa_tried st')" and "watch_inv seen0 known0 st \<Longrightarrow> watch_inv seen0 known0 st'"
proof -
  have "prefix (wa_tried st) (wa_tried st') \<and> (watch_inv seen0 known0 st \<longrightarrow> watch_inv seen0 known0 st')"
    using assms unfolding watch_reachable_def
  proof (induction rule: rtranclp_induct)
    case (step s1 s2)
    then show ?case using watch_step_grows [of own e s1 s2] watch_step_inv [of own e s1 s2]
      by (meson prefix_order.trans)
  qed simp
  then show "prefix (wa_tried st) (wa_tried st')" "watch_inv seen0 known0 st \<Longrightarrow> watch_inv seen0 known0 st'" by blast+
qed

lemma start_tried:
  assumes "attach_at_start e ho procs ldconfig answers {} = (known, tried)"
  shows "distinct (map (fst \<circ> snd) tried) \<and> known = (fst \<circ> snd) ` set tried"
proof -
  let ?libs = "filter (\<lambda>p. \<not> contains p ''libcrypto'') (find_all_targets ho procs ldconfig)"
  obtain k1 t1 where first: "attach_files (fst answers) ?libs {} = (k1, t1)" by fastforce
  obtain k2 t2 where second: "attach_files (snd answers) (find_executables_all ho procs) k1 = (k2, t2)" by fastforce
  have "known = (if e then k2 else k1)" "tried = (if e then t1 @ t2 else t1)"
    using assms first second by (simp_all add: attach_at_start_def split: if_splits)
  then show ?thesis
    using files_are_tried_once [where rounds = "fst answers" and paths = ?libs and known = "{} :: file_id set"]
      files_are_tried_once [where rounds = "snd answers" and known = k1 and paths = "find_executables_all ho procs"]
    unfolding first second by auto
qed

text \<open>C15: Whatever the kernel, the readers and the loop do in whatever order, nothing that waits is forgotten and
  nothing is tried twice: each queue holds at most 1024, a record that waits has a reader about to tell the
  loop, a permit, or a deadline the loop sleeps to; the kernel keeps quiet about an open only when it was
  handed to the probes under the same key and time; and every file was tried for probes at most once since
  the start, the files tried being exactly those known.\<close>

theorem watch_forgets_nothing:
  assumes "attach_at_start e ho procs ldconfig answers {} = (known, tried)"
    and "watch_reachable own e (watch_started \<lparr>os_buf = buf, os_seen = Map.empty, os_ring = []\<rparr> known tried) st"
  shows "length (qu_waiting (wa_opens st)) \<le> 1024 \<and> length (qu_waiting (wa_execs st)) \<le> 1024 \<and>
    (qu_waiting (wa_opens st) \<noteq> [] \<longrightarrow> qu_telling (wa_opens st) \<or> qu_permit (wa_opens st)) \<and>
    (qu_waiting (wa_execs st) \<noteq> [] \<longrightarrow>
       qu_telling (wa_execs st) \<or> qu_permit (wa_execs st) \<or> wa_exec_due st \<noteq> None) \<and>
    (\<forall>key t. os_seen (wa_kernel st) key = Some t \<longrightarrow>
       (\<exists>(ev, p) \<in> set (wa_handled st). lo_seen_key ev = key \<and> lo_ts ev = t)) \<and>
    distinct (map (fst \<circ> snd) (wa_tried st)) \<and> wa_known st = (fst \<circ> snd) ` set (wa_tried st)"
proof -
  let ?st0 = "watch_started \<lparr>os_buf = buf, os_seen = Map.empty, os_ring = []\<rparr> known tried"
  have "watch_inv Map.empty {} ?st0"
    using watch_started_inv [of _ Map.empty tried "{}"] start_tried [OF assms(1)] by simp
  from watch_run(2) [OF assms(2) this] have inv: "queue_ok False (wa_opens st)"
    "queue_ok (wa_exec_due st \<noteq> None) (wa_execs st)" "seen_handled Map.empty st" "tried_once {} st"
    by (simp_all add: watch_inv_def)
  have "\<exists>(ev, p) \<in> set (wa_handled st). lo_seen_key ev = key \<and> lo_ts ev = t"
    if seen: "os_seen (wa_kernel st) key = Some t" for key t
  proof -
    from inv(3) seen obtain ev p where "(ev, p) \<in> set (wa_handled st)" "lo_seen_key ev = key" "lo_ts ev = t"
      unfolding seen_handled_def by (metis option.distinct(1))
    then show ?thesis by (intro bexI [of _ "(ev, p)"]) simp_all
  qed
  then show ?thesis using inv(1,2,4) unfolding queue_ok_def MAX_EXEC_QUEUE_SIZE_def tried_once_def by blast
qed

lemma sample_start:
  "attach_at_start False sample_host None None ([], []) {} = ({}, [])"
  by (simp add: attach_at_start_def find_all_targets_def find_libraries_all_def find_system_libraries_def attach_files_def)

theorem watch_forgets_nothing_witness:
  "let st0 = watch_started \<lparr>os_buf = [], os_seen = Map.empty, os_ring = []\<rparr> {} [];
       st = st0\<lparr>wa_execs := enqueue 7 empty_queue\<rparr>
   in watch_reachable 1 False st0 st \<and> qu_waiting (wa_execs st) = [7] \<and> qu_telling (wa_execs st)"
proof -
  let ?st0 = "watch_started \<lparr>os_buf = [], os_seen = Map.empty, os_ring = []\<rparr> {} []"
  have "watch_step 1 False ?st0 (?st0\<lparr>wa_execs := enqueue 7 (wa_execs ?st0)\<rparr>)"
    by (rule exec_record) (simp add: watch_started_def empty_queue_def)
  then have "watch_step 1 False ?st0 (?st0\<lparr>wa_execs := enqueue 7 empty_queue\<rparr>)" by (simp add: watch_started_def)
  then have reach: "watch_reachable 1 False ?st0 (?st0\<lparr>wa_execs := enqueue 7 empty_queue\<rparr>)"
    unfolding watch_reachable_def by (rule r_into_rtranclp)
  from watch_forgets_nothing [OF sample_start this] show ?thesis
    using reach by (simp add: enqueue_def push_capped_def MAX_EXEC_QUEUE_SIZE_def empty_queue_def watch_started_def)
qed

end
