(* ===== verification/Watch_Live.thy ===== *)
theory Watch_Live
  imports Watch_Props
begin

text \<open>
  What the watch achieves: a process that starts is looked at, and a process's open of libssl is reported until
  the probes were tried on the file it opened.
\<close>

section \<open>Processes\<close>

lemma handle_pid_scanned [simp]: "wa_scanned (handle_pid e answers pid st) = wa_scanned st @ [pid]"
  by (simp add: handle_pid_def Let_def)

lemma handle_open_scanned [simp]: "wa_scanned (handle_open e answers ev st) = wa_scanned st"
  by (simp add: handle_open_def Let_def split: option.split)

lemma handle_all_scanned:
  "wa_scanned (handle_all (handle_pid e) answers i pids st) = wa_scanned st @ pids"
  by (induction pids arbitrary: i st) simp_all

lemma handle_opens_scanned: "wa_scanned (handle_all (handle_open e) answers i evs st) = wa_scanned st"
  by (induction evs arbitrary: i st) simp_all

lemma execs_wait_or_scan:
  "watch_step own e st st' \<Longrightarrow> pid \<in> set (qu_waiting (wa_execs st)) \<union> set (wa_scanned st) \<Longrightarrow>
     pid \<in> set (qu_waiting (wa_execs st')) \<union> set (wa_scanned st')"
proof (induction rule: watch_step.induct)
  case (take_opens st answers)
  have "wa_execs (handle_all (handle_open e) answers 0 xs st1) = wa_execs st1" for xs st1
    using handle_all_queues(1) [of e answers 0 xs st1, unfolded queues_eq] by blast
  with take_opens.prems show ?case by (simp add: handle_opens_scanned)
next
  case (take_execs st deadline now answers)
  then show ?case by (auto simp: handle_all_scanned)
qed (auto simp: enqueue_def tell_loop_def push_capped_def)

lemma due_execs_are_scanned:
  assumes "wa_exec_due st = Some deadline"
  shows "\<exists>st'. watch_step own e st st' \<and> wa_scanned st' = wa_scanned st @ qu_waiting (wa_execs st)"
proof -
  from take_execs [OF assms order_refl, of own e answers] show ?thesis
    by (intro exI conjI) (assumption, simp add: handle_all_scanned)
qed



lemma sample_exec:
  defines "st0 \<equiv> watch_started \<lparr>os_buf = [], os_seen = Map.empty, os_ring = []\<rparr> {} []"
  shows "watch_reachable 1 False st0 (st0\<lparr>wa_execs := enqueue 7 empty_queue\<rparr>)"
    and "7 \<in> set (qu_waiting (wa_execs (st0\<lparr>wa_execs := enqueue 7 empty_queue\<rparr>)))"
proof -
  have "watch_step 1 False st0 (st0\<lparr>wa_execs := enqueue 7 (wa_execs st0)\<rparr>)"
    by (rule exec_record) (simp add: st0_def watch_started_def empty_queue_def)
  then have "watch_step 1 False st0 (st0\<lparr>wa_execs := enqueue 7 empty_queue\<rparr>)" by (simp add: st0_def watch_started_def)
  then show "watch_reachable 1 False st0 (st0\<lparr>wa_execs := enqueue 7 empty_queue\<rparr>)"
    unfolding watch_reachable_def by (rule r_into_rtranclp)
qed (simp add: enqueue_def push_capped_def MAX_EXEC_QUEUE_SIZE_def empty_queue_def)


section \<open>Opens\<close>

text \<open>The padded path of a record is read back as it was opened.\<close>

lemma opened_path:
  assumes "length s < MAX_FILENAME_LEN"
  shows "opened_of \<lparr>le_pid = pid, le_len = of_nat (length s), le_key = key, le_ts = ts,
      le_path = s @ replicate (MAX_FILENAME_LEN - length s) 0\<rparr> =
    \<lparr>lo_pid = pid, lo_path = from_utf8_lossy s, lo_seen_key = key, lo_ts = ts\<rparr>"
proof -
  have "unat (of_nat (length s) :: u32) = length s"
    using assms by (simp add: MAX_FILENAME_LEN_def unsigned_of_nat take_bit_eq_mod)
  then show ?thesis using assms by (simp add: opened_of_def Let_def)
qed

definition opened_at :: "open_env \<Rightarrow> bytes \<Rightarrow> lib_event" where
  "opened_at env s =
     (let path = s @ replicate (MAX_FILENAME_LEN - length s) 0 in
      \<lparr>le_pid = oe_pid env, le_len = of_nat (length s), le_key = open_key env path, le_ts = oe_now env, le_path = path\<rparr>)"

text \<open>An open of \<open>s\<close> for reading that nobody changes under the kernel's eyes.\<close>

definition opens_path :: "open_env \<Rightarrow> bytes \<Rightarrow> bool" where
  "opens_path env s \<longleftrightarrow>
     (case oe_flags env of None \<Rightarrow> False | Some flags \<Rightarrow> flags AND 3 = 0) \<and>
     oe_path env 0 = Some s \<and> oe_path env 1 = Some s \<and> length s < MAX_FILENAME_LEN \<and> opens_libssl s \<and> oe_room env"

lemma tried_alone:
  assumes "file_identity r p = Some f" and "attach_path r p \<noteq> None \<or> path_exists r p"
  shows "attach_files (r # rounds) [p] known = (insert f known, if f \<in> known then [] else [(p, f, attach_path r p)])"
  using assms by (auto simp: attach_files_def ATTACH_ROUNDS_def unique_new_files_def host_paths_first_def)


lemma attach_files_Nil [simp]: "attach_files rounds [] known = (known, [])"
proof -
  have "attach_new_files rs [] known [] = (known, [])" for rs :: "('a, 'b) file_round list"
    by (cases rs) (simp_all add: unique_new_files_def host_paths_first_def)
  then show ?thesis by (simp add: attach_files_def)
qed

lemma handle_open_tried_file:
  assumes "resolve_in_root (fst answers) (proc_root (uint (lo_pid ev))) (lo_path ev) = Some p"
    and "fst (snd answers) = r # rounds" and "is_libssl p" and "file_identity r p = Some f"
    and "attach_path r p \<noteq> None \<or> path_exists r p"
  shows "wa_known (handle_open e answers ev st) = insert f (wa_known st)"
    and "wa_tried (handle_open e answers ev st) =
      wa_tried st @ (if f \<in> wa_known st then [] else [(p, f, attach_path r p)])"
  using tried_alone [OF assms(4,5), of rounds "wa_known st"] assms(1-3)
  by (simp_all add: handle_open_def Let_def notify_probes_def on_exec_def)

lemma handle_open_marks:
  assumes "resolve_in_root (fst answers) (proc_root (uint (lo_pid ev))) (lo_path ev) = Some p"
  shows "os_seen (wa_kernel (handle_open e answers ev st)) = (os_seen (wa_kernel st))(lo_seen_key ev \<mapsto> lo_ts ev)"
  using assms by (simp add: handle_open_def Let_def)



definition sample_libssl :: bytes where
  "sample_libssl = as_bytes ''/l/libssl.so.3''"

definition sample_tree :: "str \<Rightarrow> tree" where
  "sample_tree root = (\<lambda>d. if d \<in> set [[''l''], [''l'', ''libssl.so.3'']] then Some Other_Entry else None)"

definition sample_round :: "(file_id, bool) file_round" where
  "sample_round = \<lparr>file_identity = (\<lambda>_. Some (Device 1 9)), path_exists = (\<lambda>_. True), attach_path = (\<lambda>_. None)\<rparr>"

definition sample_watch :: watch where
  "sample_watch = watch_started \<lparr>os_buf = replicate 256 0x73, os_seen = Map.empty, os_ring = []\<rparr> {} []"

lemma sample_opens: "opens_path sample_open sample_libssl"
proof -
  have "sample_libssl = as_bytes ''/l'' @ as_bytes ''/libssl.so'' @ as_bytes ''.3''"
    by (simp add: sample_libssl_def as_bytes_def)
  moreover have "(0x2F :: u8) \<notin> set (as_bytes ''.3'')" by (simp add: as_bytes_def)
  ultimately have "names_libssl sample_libssl" unfolding names_libssl_def by blast
  moreover have "length sample_libssl = 14" by (simp add: sample_libssl_def as_bytes_def)
  moreover have "starts_with sample_libssl (as_bytes ''/'')" by (simp add: sample_libssl_def starts_with_def as_bytes_def)
  ultimately show ?thesis
    by (simp add: opens_path_def opens_libssl_def TAIL_LEN_def MAX_FILENAME_LEN_def sample_open_def sample_libssl_def)
qed



text \<open>C29: An attempt that fails is not made again, though the note on the map of handled opens says it is on the
  next open: when attaching fails on a file that is still there, the open is marked as handled all the same,
  and whatever happens from then on, the file is never tried again.\<close>

theorem failed_attach_is_not_retried:
  assumes "attach_at_start e ho procs ldconfig at_start {} = (known, tried)"
    and "watch_reachable own e (watch_started \<lparr>os_buf = buf, os_seen = Map.empty, os_ring = []\<rparr> known tried) st"
    and "resolve_in_root (fst answers) (proc_root (uint (lo_pid ev))) (lo_path ev) = Some p"
    and "fst (snd answers) = r # rounds" and "is_libssl p" and "file_identity r p = Some f" and "f \<notin> wa_known st"
    and "attach_path r p = None" and "path_exists r p"
    and "watch_reachable own e (handle_open e answers ev st) st'"
  shows "os_seen (wa_kernel (handle_open e answers ev st)) (lo_seen_key ev) = Some (lo_ts ev) \<and>
    filter (\<lambda>(_, f', _). f' = f) (wa_tried st') = [(p, f, None)]"
proof
  show "os_seen (wa_kernel (handle_open e answers ev st)) (lo_seen_key ev) = Some (lo_ts ev)"
    by (simp add: handle_open_marks [OF assms(3)])
  have "watch_inv Map.empty {} st"
    using watch_run(2) [OF assms(2)] watch_started_inv [of _ Map.empty tried "{}"] start_tried [OF assms(1)] by simp
  from batch_inv(1) [OF this, of e "\<lambda>_. answers" 0 "[ev]"] have "watch_inv Map.empty {} (handle_open e answers ev st)"
    by simp
  from watch_run [OF assms(10)] this have inv: "tried_once {} st'"
    and grows: "prefix (wa_tried (handle_open e answers ev st)) (wa_tried st')"
    by (auto simp: watch_inv_def)
  have "wa_tried (handle_open e answers ev st) = wa_tried st @ [(p, f, None)]"
    using handle_open_tried_file(2) [OF assms(3-6)] assms(7,8,9) by simp
  with grows obtain later where all: "wa_tried st' = wa_tried st @ (p, f, None) # later" by (auto elim: prefixE)
  with inv have "f \<notin> (fst \<circ> snd) ` set (wa_tried st)" "f \<notin> (fst \<circ> snd) ` set later"
    by (auto simp: tried_once_def)
  then have "filter (\<lambda>(_, f', _). f' = f) (wa_tried st) = []" "filter (\<lambda>(_, f', _). f' = f) later = []"
    by (force simp: filter_empty_conv)+
  then show "filter (\<lambda>(_, f', _). f' = f) (wa_tried st') = [(p, f, None)]" by (simp add: all)
qed

definition sample_opened :: opened where
  "sample_opened = \<lparr>lo_pid = 7, lo_path = ''/l/libssl.so.3'', lo_seen_key = (2, 3), lo_ts = 5\<rparr>"

theorem failed_attach_is_not_retried_witness:
  "map (fst \<circ> snd) (wa_tried (handle_open False (sample_tree, [sample_round], []) sample_opened sample_watch)) = [Device 1 9]"
proof -
  let ?answers = "(sample_tree, [sample_round], []) :: (str \<Rightarrow> tree) \<times> rounds \<times> rounds"
  define root where "root = proc_root 7"
  have "resolve_names (sample_tree root) 0 [''l'', ''libssl.so.3''] [] = Some [''l'', ''libssl.so.3'']"
    by (simp add: sample_tree_def DOTDOT_def)
  moreover have "component_names ''/l/libssl.so.3'' = [''l'', ''libssl.so.3'']" by (simp add: component_names_def)
  ultimately have "resolve_in_root sample_tree root ''/l/libssl.so.3'' = Some (root @ ''/l/libssl.so.3'')"
    by (simp add: resolve_in_root_def join_names_def)
  then have resolved: "resolve_in_root (fst ?answers) (proc_root (uint (lo_pid sample_opened))) (lo_path sample_opened) =
      Some (root @ ''/l/libssl.so.3'')"
    by (simp add: sample_opened_def root_def)
  have "decimal 7 = ''7''" by (simp add: decimal.simps char_of_def bit_0)
  then have libssl: "is_libssl (root @ ''/l/libssl.so.3'')"
    by (simp add: is_libssl_def file_name_def root_def proc_root_def show_int_def component_names_def DOTDOT_def starts_with_def)
  have st: "watch_reachable 1 False (watch_started \<lparr>os_buf = replicate 256 0x73, os_seen = Map.empty, os_ring = []\<rparr> {} []) sample_watch"
    by (simp add: watch_reachable_def sample_watch_def)
  have round: "fst (snd ?answers) = sample_round # []" by simp
  have "file_identity sample_round (root @ ''/l/libssl.so.3'') = Some (Device 1 9)" "Device 1 9 \<notin> wa_known sample_watch"
    "attach_path sample_round (root @ ''/l/libssl.so.3'') = None" "path_exists sample_round (root @ ''/l/libssl.so.3'')"
    by (simp_all add: sample_round_def sample_watch_def watch_started_def)
  from failed_attach_is_not_retried [OF sample_start st resolved round libssl this, of
      "handle_open False ?answers sample_opened sample_watch"]
  have "filter (\<lambda>(_, f', _). f' = Device 1 9) (wa_tried (handle_open False ?answers sample_opened sample_watch)) =
      [(root @ ''/l/libssl.so.3'', Device 1 9, None)]"
    by (simp add: watch_reachable_def)
  then show ?thesis using handle_open_tried_file(2) [OF resolved round libssl, of "Device 1 9" False sample_watch]
    by (simp add: sample_round_def sample_watch_def watch_started_def)
qed

end
