(* ===== verification/Host_Watch.thy ===== *)
theory Host_Watch
  imports Lib_Open Discovery
begin

text \<open>
  The watchers of the host that carry no LLM call: opens of watched files and exits of processes, from the
  kernel's programs (eBPF, file_access.rs, process_lifecycle.rs and the exec half of exec_watch.rs) to what the
  agent exports of their records. The task's answers are a parameter of each program; the ring hands out memory
  that holds what an earlier record left there.
\<close>

section \<open>Watched files\<close>

definition simple_hash :: "bytes \<Rightarrow> u64" where
  "simple_hash data =
     fold (\<lambda>b hash. (hash XOR ucast b) * 0x100000001B3) (takeWhile (\<lambda>b. b \<noteq> 0) data) 0xCBF29CE484222325"

definition MAX_WATCHED_PATHS :: nat where
  "MAX_WATCHED_PATHS = 128"

text \<open>The agent fills the map before the program loads; one hash too many ends the attach with an error.\<close>

fun populate_watched_paths :: "str list \<Rightarrow> u64 set \<Rightarrow> u64 set option" where
  "populate_watched_paths [] watched = Some watched"
| "populate_watched_paths (path # paths) watched =
     (let watched' = insert (simple_hash (as_bytes path)) watched in
      if card watched' > MAX_WATCHED_PATHS then None else populate_watched_paths paths watched')"

text \<open>The helper writes at most the buffer, its NUL included, and zeroes the buffer when it cannot read.\<close>

definition read_user_str :: "bytes option \<Rightarrow> bytes \<Rightarrow> bytes" where
  "read_user_str path buf =
     (case path of
        None \<Rightarrow> replicate (length buf) 0
      | Some s \<Rightarrow> (let s = take (length buf - 1) s in s @ [0] @ drop (Suc (length s)) buf))"

text \<open>
  The tracepoint's record: the pointer of the path, the flags and the mode, each where it can be read; the path
  behind the pointer, which each read of it finds; the task.
\<close>

record openat_env =
  fa_ptr :: "u64 option"
  fa_flags :: "u64 option"
  fa_mode :: "u64 option"
  fa_path :: "nat \<Rightarrow> bytes option"
  fa_pid :: u32
  fa_tid :: u32
  fa_cgroup :: u64
  fa_now :: u64
  fa_comm :: "bytes option"

text \<open>The fields a reader of the record looks at.\<close>

record file_event =
  fe_pid :: u32
  fe_cgroup :: u64
  fe_timestamp :: u64
  fe_tid :: u32
  fe_flags :: u32
  fe_mode :: u32
  fe_comm :: bytes
  fe_filename :: bytes

text \<open>\<open>slot\<close> is the memory the ring reserves, \<open>None\<close> when it is full.\<close>

definition fill_file_event :: "openat_env \<Rightarrow> file_event \<Rightarrow> file_event option" where
  "fill_file_event env slot =
     (case (fa_ptr env, fa_flags env, fa_mode env) of
        (Some ptr, Some flags, Some mode) \<Rightarrow>
          Some \<lparr>fe_pid = fa_pid env, fe_cgroup = fa_cgroup env, fe_timestamp = fa_now env, fe_tid = fa_tid env,
            fe_flags = ucast flags, fe_mode = ucast mode,
            fe_comm = (case fa_comm env of None \<Rightarrow> fe_comm slot | Some comm \<Rightarrow> comm),
            fe_filename = (if ptr = 0 then fe_filename slot else read_user_str (fa_path env 1) (fe_filename slot))\<rparr>
      | _ \<Rightarrow> None)"

definition sys_enter_openat :: "u64 set \<Rightarrow> openat_env \<Rightarrow> file_event option \<Rightarrow> file_event list \<Rightarrow> file_event list" where
  "sys_enter_openat watched env slot ring =
     (case fa_ptr env of
        None \<Rightarrow> ring
      | Some ptr \<Rightarrow>
          (if ptr = 0 then ring
           else if simple_hash (read_user_str (fa_path env 0) (replicate MAX_FILENAME_LEN 0)) \<notin> watched then ring
           else case slot of
             None \<Rightarrow> ring
           | Some slot \<Rightarrow> (case fill_file_event env slot of None \<Rightarrow> ring | Some event \<Rightarrow> ring @ [event])))"

text \<open>What the agent exports: text read from a fixed field, and the flags by name.\<close>

definition NUL :: char where
  "NUL = CHR 0x00"

definition trim_nul :: "str \<Rightarrow> str" where
  "trim_nul s = rev (dropWhile (\<lambda>c. c = NUL) (rev (dropWhile (\<lambda>c. c = NUL) s)))"

definition field_text :: "bytes \<Rightarrow> str" where
  "field_text bs = trim_nul (case from_utf8 bs of None \<Rightarrow> ''<invalid>'' | Some s \<Rightarrow> s)"

definition join_bar :: "str list \<Rightarrow> str" where
  "join_bar parts = (case parts of [] \<Rightarrow> [] | p # ps \<Rightarrow> p @ concat (map ((#) (CHR ''|'')) ps))"

definition format_open_flags :: "u32 \<Rightarrow> str" where
  "format_open_flags flags =
     (let access = flags AND 3 in
      join_bar
        ((if access = 0 then [''O_RDONLY''] else if access = 1 then [''O_WRONLY''] else if access = 2 then [''O_RDWR''] else []) @
         (if flags AND 64 \<noteq> 0 then [''O_CREAT''] else []) @
         (if flags AND 512 \<noteq> 0 then [''O_TRUNC''] else []) @
         (if flags AND 1024 \<noteq> 0 then [''O_APPEND''] else [])))"

record file_sample =
  fs_filename :: str
  fs_flags :: str
  fs_process :: str
  fs_cgroup :: "64 word"

definition record_file_access :: "file_event \<Rightarrow> file_sample" where
  "record_file_access event =
     \<lparr>fs_filename = field_text (fe_filename event), fs_flags = format_open_flags (fe_flags event),
      fs_process = field_text (fe_comm event), fs_cgroup = fe_cgroup event\<rparr>"

section \<open>Starts and exits of processes\<close>

text \<open>
  The maps the programs share. An LRU map takes every new key and may give up others for it: \<open>evicted\<close> are those
  an insert loses. A plain map may refuse a new key.
\<close>

record exit_event =
  xe_pid :: u32
  xe_ppid :: u32
  xe_exit_code :: "32 word"
  xe_comm :: bytes
  xe_start :: u64
  xe_exit :: u64
  xe_cgroup :: u64

record lifecycle =
  lc_names :: "u32 \<rightharpoonup> bytes"
  lc_starts :: "u32 \<rightharpoonup> u64"
  lc_execs :: "u32 list"
  lc_oom :: "u32 set"
  lc_exiting :: "u32 set"
  lc_exits :: "exit_event list"

record task_env =
  te_pid :: u32
  te_tid :: u32
  te_comm :: "bytes option"
  te_now :: u64
  te_cgroup :: u64
  te_room :: bool
  te_takes :: "bool \<times> bool"
  te_evicted :: "u32 set"

definition probe_exec :: "task_env \<Rightarrow> lifecycle \<Rightarrow> lifecycle" where
  "probe_exec env st =
     (let pid = te_pid env;
          names = (case te_comm env of
             None \<Rightarrow> lc_names st
           | Some comm \<Rightarrow> if fst (te_takes env) then (lc_names st)(pid \<mapsto> comm) else lc_names st);
          starts = (if snd (te_takes env) then (lc_starts st)(pid \<mapsto> te_now env) else lc_starts st)
      in st\<lparr>lc_names := names, lc_starts := starts,
           lc_execs := (if te_room env then lc_execs st @ [pid] else lc_execs st)\<rparr>)"

definition oom_mark_victim :: "32 word option \<Rightarrow> u32 set \<Rightarrow> lifecycle \<Rightarrow> lifecycle" where
  "oom_mark_victim victim evicted st =
     (case victim of
        None \<Rightarrow> st
      | Some pid \<Rightarrow> if 0 <s pid then st\<lparr>lc_oom := insert pid (lc_oom st - evicted)\<rparr> else st)"

definition group_exit :: "u32 \<Rightarrow> u32 set \<Rightarrow> lifecycle \<Rightarrow> lifecycle" where
  "group_exit tgid evicted st = st\<lparr>lc_exiting := insert tgid (lc_exiting st - evicted)\<rparr>"

text \<open>\<open>code\<close> and \<open>dead\<close> are the probed function's arguments, where they can be read.\<close>

definition exit_record :: "task_env \<Rightarrow> u64 option \<Rightarrow> bool \<Rightarrow> lifecycle \<Rightarrow> exit_event" where
  "exit_record env code oom_marked st =
     (let pid = te_pid env; exit_code = ucast (case code of None \<Rightarrow> 0 | Some c \<Rightarrow> c) :: u32 in
      \<lparr>xe_pid = pid, xe_ppid = (if exit_code AND 0x7F = 9 \<and> oom_marked then 0xDEAD else 0), xe_exit_code = exit_code,
       xe_comm = (case lc_names st pid of
          Some name \<Rightarrow> name
        | None \<Rightarrow> (case te_comm env of None \<Rightarrow> replicate 16 0 | Some comm \<Rightarrow> comm)),
       xe_start = (case lc_starts st pid of None \<Rightarrow> 0 | Some start \<Rightarrow> start),
       xe_exit = te_now env, xe_cgroup = te_cgroup env\<rparr>)"

definition carry_mark :: "task_env \<Rightarrow> lifecycle \<Rightarrow> lifecycle" where
  "carry_mark env st =
     (if te_tid env \<noteq> te_pid env \<and> te_tid env \<in> lc_oom st
      then st\<lparr>lc_oom := insert (te_pid env) (lc_oom st - {te_tid env} - te_evicted env)\<rparr> else st)"

definition process_exit :: "task_env \<Rightarrow> u64 option \<Rightarrow> u32 option \<Rightarrow> lifecycle \<Rightarrow> lifecycle" where
  "process_exit env code dead st =
     (let st = carry_mark env st; pid = te_pid env in
      if (case dead of None \<Rightarrow> 0 | Some d \<Rightarrow> d) = 0 then st
      else
        (let oom_marked = (pid \<in> lc_oom st); st = st\<lparr>lc_oom := lc_oom st - {pid}\<rparr> in
         if pid \<notin> lc_exiting st then st
         else
           (let st = st\<lparr>lc_exiting := lc_exiting st - {pid}\<rparr> in
            if te_room env
            then st\<lparr>lc_names := (lc_names st)(pid := None), lc_starts := (lc_starts st)(pid := None),
                   lc_exits := lc_exits st @ [exit_record env code oom_marked st]\<rparr>
            else st)))"

section \<open>What the agent makes of an exit\<close>

definition exit_cause :: "exit_event \<Rightarrow> str" where
  "exit_cause event =
     (let signal = xe_exit_code event AND 0x7F in
      if signal = 0 then ''NORMAL_EXIT''
      else if signal = 9 then (if xe_ppid event = 0xDEAD then ''OOM_TERMINATED'' else ''MANUAL_SIGKILL'')
      else if signal = 11 then ''SEGFAULT''
      else if signal = 15 then ''SIGTERM''
      else ''SIGNAL_TERMINATED'')"

definition exit_status :: "exit_event \<Rightarrow> u32" where
  "exit_status event = signed_drop_bit 8 (xe_exit_code event) AND 0xFF"

text \<open>The lifetime in nanoseconds; the code divides it into seconds, a floating-point number.\<close>

definition lifetime_ns :: "exit_event \<Rightarrow> nat" where
  "lifetime_ns event = (if xe_start event = 0 then 0 else unat (xe_exit event) - unat (xe_start event))"

record exit_sample =
  xs_cause :: str
  xs_exit_code :: u32
  xs_lifetime :: nat
  xs_cgroup :: u64

definition record_process_exit :: "exit_event \<Rightarrow> exit_sample" where
  "record_process_exit event =
     \<lparr>xs_cause = exit_cause event, xs_exit_code = exit_status event, xs_lifetime = lifetime_ns event,
      xs_cgroup = xe_cgroup event\<rparr>"

text \<open>
  The kernel hook a running kernel lacks, if any; \<open>kallsyms\<close> are the lines that can be read of it, nothing when
  it cannot be opened.
\<close>

definition missing_hook :: "str list option \<Rightarrow> bool \<Rightarrow> str option" where
  "missing_hook kallsyms has_mark_victim =
     (if \<not> has_mark_victim then Some ''oom:mark_victim tracepoint in tracefs''
      else if (case kallsyms of
          None \<Rightarrow> True
        | Some ls \<Rightarrow> list_ex (\<lambda>l. case split_whitespace l of _ # _ # w # _ \<Rightarrow> w = ''acct_collect'' | _ \<Rightarrow> False) ls)
      then None else Some ''acct_collect (CONFIG_BSD_PROCESS_ACCT)'')"

end
