(* ===== verification/Host_Props.thy ===== *)
theory Host_Props
  imports Host_Watch
begin

text \<open>
  A watched file's opens are reported; its name is exported with whatever an earlier record left behind it; an
  exit is exported once with what killed the process.
\<close>

section \<open>Watched files\<close>

lemma takeWhile_padded: "0 \<notin> set s \<Longrightarrow> takeWhile (\<lambda>b. b \<noteq> 0) (s @ 0 # rest) = s"
  by (induction s) auto

lemma takeWhile_plain: "0 \<notin> set s \<Longrightarrow> takeWhile (\<lambda>b. b \<noteq> 0) s = s"
  by (induction s) auto

lemma simple_hash_read:
  assumes "length s < MAX_FILENAME_LEN" and "0 \<notin> set s"
  shows "simple_hash (read_user_str (Some s) (replicate MAX_FILENAME_LEN 0)) = simple_hash s"
  using assms by (simp add: simple_hash_def read_user_str_def takeWhile_padded takeWhile_plain)

lemma populate_hashes:
  "populate_watched_paths paths watched = Some watched' \<Longrightarrow> watched' = watched \<union> (simple_hash \<circ> as_bytes) ` set paths"
  by (induction paths arbitrary: watched) (auto simp: Let_def split: if_split_asm)

text \<open>Every open of a watched file is reported and no other, up to paths of one hash: with the map filled from
  the configured paths, an openat whose path fits the buffer is reported exactly when the path hashes as one
  of them, the kernel hashing its zero-padded copy and the agent the configured text to one value; the record
  carries the task, the flags and the path.\<close>

lemma watched_opens_are_reported:
  assumes "populate_watched_paths paths {} = Some watched"
    and "fa_ptr env = Some ptr" and "ptr \<noteq> 0" and "fa_flags env = Some flags" and "fa_mode env = Some mode"
    and "list_all (\<lambda>n. fa_path env n = Some s) [0, 1]" and "length s < MAX_FILENAME_LEN" and "0 \<notin> set s"
    and "length (fe_filename slot) = MAX_FILENAME_LEN"
  shows "if list_ex (\<lambda>p. simple_hash (as_bytes p) = simple_hash s) paths
    then \<exists>event. sys_enter_openat watched env (Some slot) ring = ring @ [event] \<and> fe_pid event = fa_pid env \<and>
      fe_flags event = ucast flags \<and> takeWhile (\<lambda>b. b \<noteq> 0) (fe_filename event) = s
    else sys_enter_openat watched env (Some slot) ring = ring"
proof -
  have "simple_hash (read_user_str (fa_path env 0) (replicate MAX_FILENAME_LEN 0)) = simple_hash s"
    using assms(6-8) by (simp add: simple_hash_read)
  moreover have "simple_hash s \<in> watched \<longleftrightarrow> list_ex (\<lambda>p. simple_hash (as_bytes p) = simple_hash s) paths"
    using populate_hashes [OF assms(1)] by (auto simp: list_ex_iff image_iff) metis
  moreover have "takeWhile (\<lambda>b. b \<noteq> 0) (read_user_str (fa_path env 1) (fe_filename slot)) = s"
    using assms(6-9) by (simp add: read_user_str_def takeWhile_padded)
  ultimately show ?thesis
    using assms(2-5) by (simp add: sys_enter_openat_def fill_file_event_def)
qed


definition sample_openat :: openat_env where
  "sample_openat = \<lparr>fa_ptr = Some 8, fa_flags = Some 0, fa_mode = Some 0, fa_path = (\<lambda>_. Some (as_bytes ''/k'')), fa_pid = 7,
     fa_tid = 7, fa_cgroup = 2, fa_now = 5, fa_comm = Some (replicate 16 0)\<rparr>"

definition sample_slot :: file_event where
  "sample_slot = \<lparr>fe_pid = 0, fe_cgroup = 0, fe_timestamp = 0, fe_tid = 0, fe_flags = 0, fe_mode = 0,
     fe_comm = replicate 16 0, fe_filename = replicate 256 0x41\<rparr>"

theorem watched_opens_are_reported_witness:
  "\<exists>event. sys_enter_openat {simple_hash (as_bytes ''/k'')} sample_openat (Some sample_slot) [] = [event] \<and>
     takeWhile (\<lambda>b. b \<noteq> 0) (fe_filename event) = as_bytes ''/k''"
proof -
  have "populate_watched_paths [''/k''] {} = Some {simple_hash (as_bytes ''/k'')}"
    by (simp add: MAX_WATCHED_PATHS_def Let_def)
  from watched_opens_are_reported [OF this, of sample_openat 8 0 0 "as_bytes ''/k''" sample_slot "[]"] show ?thesis
    by (auto simp: sample_openat_def sample_slot_def MAX_FILENAME_LEN_def as_bytes_def)
qed

section \<open>What is left in the ring\<close>

lemma str_of_append: "str_of (a @ b) = str_of a @ str_of b"
  by (simp add: str_of_def)

lemma str_of_NUL: "c \<in> set (str_of bs) \<Longrightarrow> c = NUL \<Longrightarrow> 0 \<in> set bs"
proof -
  assume "c \<in> set (str_of bs)" "c = NUL"
  then obtain b where b: "b \<in> set bs" "char_of (unat b) = NUL" by (auto simp: str_of_def)
  then have "(of_char (char_of (unat b)) :: nat) = of_char NUL" by simp
  moreover have "unat b < 256" using unsigned_less [of b] by simp
  ultimately have "unat b = 0" by (simp add: NUL_def of_char_of)
  then show ?thesis using b(1) by (simp add: unat_eq_0)
qed

lemma str_of_NUL_only: "b \<in> set bs \<Longrightarrow> b \<noteq> 0 \<Longrightarrow> \<exists>c \<in> set (str_of bs). c \<noteq> NUL"
proof
  assume b: "b \<in> set bs" "b \<noteq> 0"
  then show "char_of (unat b) \<in> set (str_of bs)" by (simp add: str_of_def)
  show "char_of (unat b) \<noteq> NUL"
  proof
    assume "char_of (unat b) = NUL"
    then have "0 \<in> set [b]" using str_of_NUL [of NUL "[b]"] by (simp add: str_of_def)
    then show False using b(2) by simp
  qed
qed

lemma dropWhile_nuls: "dropWhile (\<lambda>c. c = NUL) (replicate n NUL @ ys) = dropWhile (\<lambda>c. c = NUL) ys"
  by (induction n) simp_all

lemma dropWhile_no_nul: "NUL \<notin> set xs \<Longrightarrow> dropWhile (\<lambda>c. c = NUL) (xs @ ys) = (if xs = [] then dropWhile (\<lambda>c. c = NUL) ys else xs @ ys)"
  by (cases xs) auto

lemma trim_nul_end:
  assumes "xs \<noteq> []" and "NUL \<notin> set xs"
  shows "trim_nul (xs @ replicate n NUL) = xs"
proof -
  have "dropWhile (\<lambda>c. c = NUL) (xs @ replicate n NUL) = xs @ replicate n NUL"
    using assms by (simp add: dropWhile_no_nul)
  moreover have "dropWhile (\<lambda>c. c = NUL) (rev xs) = rev xs"
    using dropWhile_no_nul [of "rev xs" "[]"] assms by simp
  ultimately show ?thesis by (simp add: trim_nul_def dropWhile_nuls)
qed

lemma filter_trim: "filter (\<lambda>c. c \<noteq> NUL) (trim_nul t) = filter (\<lambda>c. c \<noteq> NUL) t"
proof -
  have "filter (\<lambda>c. c \<noteq> NUL) (dropWhile (\<lambda>c. c = NUL) xs) = filter (\<lambda>c. c \<noteq> NUL) xs" for xs
    by (induction xs) simp_all
  then show ?thesis by (simp add: trim_nul_def flip: rev_filter)
qed

text \<open>C30: The name of an opened file is exported with whatever the ring held before: the record's field is filled
  up to the path's end and its memory is not cleared, and the agent reads the whole field, cutting NULs off its
  ends only. Where the rest of the field happens to be zero the name is the path; where an earlier record left
  anything in it, the name is something else.\<close>

theorem ring_leftovers_reach_the_name:
  assumes "fill_file_event env slot = Some event" and "fa_ptr env \<noteq> Some 0" and "fa_path env 1 = Some s"
    and "starts_with s (as_bytes ''/'')" and "list_all (\<lambda>b. 0 < b \<and> b < 0x80) s"
    and "length s < MAX_FILENAME_LEN" and "length (fe_filename slot) = MAX_FILENAME_LEN"
  shows "fs_filename (record_file_access event) = str_of s \<longleftrightarrow>
    list_all (\<lambda>b. b = 0) (drop (Suc (length s)) (fe_filename slot))"
proof -
  define rest where "rest = drop (Suc (length s)) (fe_filename slot)"
  have name: "fe_filename event = s @ 0 # rest"
    using assms(1-3,6,7) by (auto simp: fill_file_event_def read_user_str_def rest_def split: option.split_asm)
  obtain s' where s': "s = 0x2F # s'" using assms(4) by (auto simp: starts_with_iff as_bytes_def)
  have nul: "str_of (s @ 0 # bs) = str_of s @ NUL # str_of bs" for bs
    by (simp add: str_of_append) (simp add: str_of_def NUL_def char_of_def)
  have front: "str_of s = CHR ''/'' # str_of s'" by (simp add: s' str_of_def char_of_def bit_0)
  have plain: "NUL \<notin> set (str_of s)" using str_of_NUL assms(5) by (fastforce simp: list_all_iff)
  show ?thesis
  proof (cases "list_all (\<lambda>b. b = 0) rest")
    case True
    then have zeros: "rest = replicate (length rest) 0" by (induction rest) auto
    have "list_all (\<lambda>b. b < 0x80) (s @ 0 # rest)" using assms(5) True by (auto simp: list_all_iff)
    then have "from_utf8 (s @ 0 # rest) = Some (str_of (s @ 0 # rest))"
      by (simp add: from_utf8_def utf8_valid_ascii list_all_iff)
    moreover have "str_of (s @ 0 # rest) = str_of s @ replicate (Suc (length rest)) NUL"
      unfolding nul by (subst zeros) (simp add: str_of_def NUL_def char_of_def)
    ultimately have "field_text (fe_filename event) = str_of s"
      using trim_nul_end [of "str_of s" "Suc (length rest)"] plain by (simp add: name field_text_def front)
    then show ?thesis using True by (simp add: record_file_access_def rest_def)
  next
    case False
    then obtain b where "b \<in> set rest" "b \<noteq> 0" by (auto simp: list_all_iff)
    then have left: "filter (\<lambda>c. c \<noteq> NUL) (str_of rest) \<noteq> []" using str_of_NUL_only by (auto simp: filter_empty_conv)
    have "field_text (fe_filename event) \<noteq> str_of s"
    proof
      assume eq: "field_text (fe_filename event) = str_of s"
      show False
      proof (cases "from_utf8 (fe_filename event)")
        case None
        then have "field_text (fe_filename event) = ''<invalid>''"
          using trim_nul_end [of "''<invalid>''" 0] by (simp add: field_text_def NUL_def)
        then show False using eq front by simp
      next
        case (Some t)
        then have "t = str_of (s @ 0 # rest)" by (simp add: from_utf8_def name split: if_split_asm)
        then have "filter (\<lambda>c. c \<noteq> NUL) (field_text (fe_filename event)) =
            filter (\<lambda>c. c \<noteq> NUL) (str_of s) @ filter (\<lambda>c. c \<noteq> NUL) (str_of rest)"
          using Some by (simp add: field_text_def filter_trim nul)
        then show False using eq left by simp
      qed
    qed
    then show ?thesis using False by (simp add: record_file_access_def rest_def)
  qed
qed

theorem ring_leftovers_reach_the_name_witness:
  "case fill_file_event sample_openat sample_slot of None \<Rightarrow> False
   | Some event \<Rightarrow> fs_filename (record_file_access event) \<noteq> ''/k''"
proof -
  obtain event where event: "fill_file_event sample_openat sample_slot = Some event"
    by (simp add: fill_file_event_def sample_openat_def)
  from ring_leftovers_reach_the_name [OF this, of "as_bytes ''/k''"]
  have "fs_filename (record_file_access event) \<noteq> str_of (as_bytes ''/k'')"
    by (simp add: sample_openat_def sample_slot_def starts_with_def MAX_FILENAME_LEN_def as_bytes_def list_all_iff)
  moreover have "str_of (as_bytes ''/k'') = ''/k''" by (simp add: as_bytes_def str_of_def char_of_def bit_0)
  ultimately show ?thesis by (simp add: event)
qed


section \<open>Exits\<close>

datatype life_op =
    Exec_Op task_env
  | Mark_Op "u32 option" "u32 set"
  | Group_Op u32 "u32 set"
  | Exit_Op task_env "u64 option" "u32 option"

definition life_step :: "life_op \<Rightarrow> lifecycle \<Rightarrow> lifecycle" where
  "life_step op st =
     (case op of
        Exec_Op env \<Rightarrow> probe_exec env st
      | Mark_Op victim evicted \<Rightarrow> oom_mark_victim victim evicted st
      | Group_Op tgid evicted \<Rightarrow> group_exit tgid evicted st
      | Exit_Op env code dead \<Rightarrow> process_exit env code dead st)"

definition exit_code_of :: "u64 option \<Rightarrow> u32" where
  "exit_code_of code = ucast (case code of None \<Rightarrow> 0 | Some c \<Rightarrow> c)"

text \<open>
  What the agent should report of the process \<open>p\<close>: \<open>live\<close> are its threads that have not exited, \<open>marked\<close> says
  whether the OOM killer chose one of them while it was alive, \<open>exiting\<close> whether the process began to exit as a
  group. Nothing is said of a trace that is none of one process: a thread that exits twice or under two
  processes, a last thread that is not the last, a mark lost to an eviction, a full ring.
\<close>

fun life_spec :: "u32 \<Rightarrow> life_op list \<Rightarrow> u32 set \<Rightarrow> bool \<Rightarrow> bool \<Rightarrow> (u32 \<times> bool) list option" where
  "life_spec p [] live marked exiting = Some []"
| "life_spec p (Exec_Op env # ops) live marked exiting = life_spec p ops live marked exiting"
| "life_spec p (Mark_Op victim evicted # ops) live marked exiting =
     (if evicted \<inter> insert p live \<noteq> {} then None
      else life_spec p ops live
        (marked \<or> (case victim of None \<Rightarrow> False | Some t \<Rightarrow> 0 <s t \<and> t \<in> insert p live)) exiting)"
| "life_spec p (Group_Op tgid evicted # ops) live marked exiting =
     (if p \<in> evicted then None else life_spec p ops live marked (exiting \<or> tgid = p))"
| "life_spec p (Exit_Op env code dead # ops) live marked exiting =
     (if te_evicted env \<inter> insert p live \<noteq> {} then None
      else if te_pid env \<noteq> p then
        (if te_pid env \<in> live \<or> te_tid env \<in> insert p live then None else life_spec p ops live marked exiting)
      else if te_tid env \<notin> live then None
      else if dead = None \<or> dead = Some 0 then life_spec p ops (live - {te_tid env}) marked exiting
      else if live \<noteq> {te_tid env} \<or> \<not> te_room env then None
      else map_option (\<lambda>reports. (if exiting then [(exit_code_of code, marked)] else []) @ reports)
        (life_spec p ops {} False False))"

definition cause_of :: "u32 \<Rightarrow> bool \<Rightarrow> str" where
  "cause_of code marked =
     (if code AND 0x7F = 0 then ''NORMAL_EXIT''
      else if code AND 0x7F = 9 then (if marked then ''OOM_TERMINATED'' else ''MANUAL_SIGKILL'')
      else if code AND 0x7F = 11 then ''SEGFAULT''
      else if code AND 0x7F = 15 then ''SIGTERM''
      else ''SIGNAL_TERMINATED'')"

definition life_rel :: "u32 \<Rightarrow> u32 set \<Rightarrow> bool \<Rightarrow> bool \<Rightarrow> lifecycle \<Rightarrow> bool" where
  "life_rel p live marked exiting st \<longleftrightarrow>
     (marked \<longleftrightarrow> insert p live \<inter> lc_oom st \<noteq> {}) \<and> (exiting \<longleftrightarrow> p \<in> lc_exiting st)"

definition reports_of :: "u32 \<Rightarrow> lifecycle \<Rightarrow> (str \<times> u32) list" where
  "reports_of p st =
     map (\<lambda>x. (xs_cause (record_process_exit x), xe_exit_code x)) (filter (\<lambda>x. xe_pid x = p) (lc_exits st))"

lemma exit_cause_record: "exit_cause (exit_record env code m st) = cause_of (exit_code_of code) m"
  by (simp add: exit_cause_def exit_record_def cause_of_def exit_code_of_def Let_def)

lemma carry_mark_facts:
  assumes "te_evicted env \<inter> insert p live = {}" and "te_pid env = p" and "te_tid env \<in> live"
    and "life_rel p live marked exiting st"
  shows "marked \<longleftrightarrow> insert p (live - {te_tid env}) \<inter> lc_oom (carry_mark env st) \<noteq> {}"
    and "lc_exiting (carry_mark env st) = lc_exiting st" and "lc_exits (carry_mark env st) = lc_exits st"
  using assms by (auto simp: carry_mark_def life_rel_def)

lemma carry_mark_other:
  assumes "te_evicted env \<inter> insert p live = {}" and "te_pid env \<notin> insert p live" and "te_tid env \<notin> insert p live"
  shows "insert p live \<inter> lc_oom (carry_mark env st) = insert p live \<inter> lc_oom st"
    and "lc_exiting (carry_mark env st) = lc_exiting st" and "lc_exits (carry_mark env st) = lc_exits st"
  using assms by (auto simp: carry_mark_def)

text \<open>A thread's exit, of another process, before the last, and the last.\<close>

lemma other_exit:
  assumes "te_evicted env \<inter> insert p live = {}" and "te_pid env \<notin> insert p live" and "te_tid env \<notin> insert p live"
    and "life_rel p live marked exiting st"
  shows "life_rel p live marked exiting (process_exit env code dead st)"
    and "reports_of p (process_exit env code dead st) = reports_of p st"
proof -
  note other = carry_mark_other [OF assms(1-3)]
  let ?st = "process_exit env code dead st"
  have "lc_oom ?st = lc_oom (carry_mark env st) \<or> lc_oom ?st = lc_oom (carry_mark env st) - {te_pid env}"
    by (simp add: process_exit_def Let_def)
  then have "insert p live \<inter> lc_oom ?st = insert p live \<inter> lc_oom st"
    using assms(2) other(1) [of st] by blast
  moreover have "lc_exiting ?st = lc_exiting st \<or> lc_exiting ?st = lc_exiting st - {te_pid env}"
    using other(2) by (simp add: process_exit_def Let_def)
  then have "p \<in> lc_exiting ?st \<longleftrightarrow> p \<in> lc_exiting st" using assms(2) by blast
  moreover have "p \<noteq> te_pid env" using assms(2) by blast
  ultimately show "life_rel p live marked exiting (process_exit env code dead st)"
    using assms(4) by (simp only: life_rel_def)
  have "xe_pid (exit_record env code m s) \<noteq> p" for m s
    using \<open>p \<noteq> te_pid env\<close> by (simp add: exit_record_def Let_def)
  then show "reports_of p (process_exit env code dead st) = reports_of p st"
    using other(3) by (simp add: process_exit_def reports_of_def Let_def)
qed

lemma thread_exit:
  assumes "te_evicted env \<inter> insert p live = {}" and "te_pid env = p" and "te_tid env \<in> live"
    and "life_rel p live marked exiting st" and "dead = None \<or> dead = Some 0"
  shows "life_rel p (live - {te_tid env}) marked exiting (process_exit env code dead st)"
    and "reports_of p (process_exit env code dead st) = reports_of p st"
proof -
  have step: "process_exit env code dead st = carry_mark env st"
    using assms(5) by (auto simp: process_exit_def Let_def)
  note facts = carry_mark_facts [OF assms(1-4)]
  have "exiting \<longleftrightarrow> p \<in> lc_exiting st" using assms(4) by (simp add: life_rel_def)
  then show "life_rel p (live - {te_tid env}) marked exiting (process_exit env code dead st)"
    using facts(1) unfolding step life_rel_def facts(2) by blast
  show "reports_of p (process_exit env code dead st) = reports_of p st"
    unfolding step reports_of_def facts(3) ..
qed

lemma last_exit:
  assumes "te_evicted env \<inter> insert p live = {}" and "te_pid env = p" and "live = {te_tid env}"
    and "life_rel p live marked exiting st" and "\<not> (dead = None \<or> dead = Some 0)" and "te_room env"
  shows "life_rel p {} False False (process_exit env code dead st)"
    and "reports_of p (process_exit env code dead st) =
      reports_of p st @ (if exiting then [(cause_of (exit_code_of code) marked, exit_code_of code)] else [])"
proof -
  note facts = carry_mark_facts [OF assms(1,2) _ assms(4)]
  have marked: "marked \<longleftrightarrow> p \<in> lc_oom (carry_mark env st)" using facts(1) assms(3) by simp
  have exiting: "exiting \<longleftrightarrow> p \<in> lc_exiting (carry_mark env st)"
    using facts(2) assms(3,4) by (simp add: life_rel_def)
  have exits: "lc_exits (carry_mark env st) = lc_exits st" using facts(3) assms(3) by simp
  have dead: "(case dead of None \<Rightarrow> 0 | Some d \<Rightarrow> d) \<noteq> 0" using assms(5) by (cases dead) simp_all
  show "life_rel p {} False False (process_exit env code dead st)"
    using dead assms(2,6) by (simp add: process_exit_def life_rel_def Let_def)
  have "xe_pid (exit_record env code m s) = p" "xe_exit_code (exit_record env code m s) = exit_code_of code" for m s
    by (simp_all add: exit_record_def exit_code_of_def assms(2) Let_def)
  then show "reports_of p (process_exit env code dead st) =
      reports_of p st @ (if exiting then [(cause_of (exit_code_of code) marked, exit_code_of code)] else [])"
    using dead assms(2,6) marked exiting exits
    by (simp add: process_exit_def reports_of_def record_process_exit_def exit_cause_record Let_def)
qed

lemma life_refines:
  "life_rel p live marked exiting st \<Longrightarrow> life_spec p ops live marked exiting = Some reports \<Longrightarrow>
     reports_of p (fold life_step ops st) = reports_of p st @ map (\<lambda>(code, m). (cause_of code m, code)) reports"
proof (induction p ops live marked exiting arbitrary: st reports rule: life_spec.induct)
  case (2 p env ops live marked exiting)
  have "life_rel p live marked exiting (life_step (Exec_Op env) st)" "reports_of p (life_step (Exec_Op env) st) = reports_of p st"
    using "2.prems"(1) by (simp_all add: life_rel_def life_step_def probe_exec_def Let_def reports_of_def)
  then show ?case using 2 by simp
next
  case (3 p victim evicted ops live marked exiting)
  let ?m = "marked \<or> (case victim of None \<Rightarrow> False | Some t \<Rightarrow> 0 <s t \<and> t \<in> insert p live)"
  have rel: "life_rel p live ?m exiting (life_step (Mark_Op victim evicted) st)"
    using "3.prems" by (auto simp: life_rel_def life_step_def oom_mark_victim_def split: option.split if_split_asm)
  moreover have "reports_of p (life_step (Mark_Op victim evicted) st) = reports_of p st"
    by (simp add: life_step_def oom_mark_victim_def reports_of_def split: option.split)
  ultimately show ?case using "3.IH" "3.prems"(2) by (simp split: if_split_asm)
next
  case (4 p tgid evicted ops live marked exiting)
  have "life_rel p live marked (exiting \<or> tgid = p) (life_step (Group_Op tgid evicted) st)"
    "reports_of p (life_step (Group_Op tgid evicted) st) = reports_of p st"
    using "4.prems" by (auto simp: life_rel_def life_step_def group_exit_def reports_of_def split: if_split_asm)
  then show ?case using "4.IH" "4.prems"(2) by (simp split: if_split_asm)
next
  case (5 p env code dead ops live marked exiting)
  note rel = "5.prems"(1) and spec = "5.prems"(2)
  have evicted: "te_evicted env \<inter> insert p live = {}" using spec by (simp split: if_split_asm)
  have step: "fold life_step (Exit_Op env code dead # ops) st = fold life_step ops (process_exit env code dead st)"
    by (simp add: life_step_def)
  consider (other) "te_pid env \<noteq> p" | (thread) "te_pid env = p" "dead = None \<or> dead = Some 0"
    | (last) "te_pid env = p" "\<not> (dead = None \<or> dead = Some 0)" by blast
  then show ?case
  proof cases
    case other
    then have "te_pid env \<notin> insert p live" "te_tid env \<notin> insert p live"
      and "life_spec p ops live marked exiting = Some reports"
      using spec evicted by (simp_all split: if_split_asm)
    then show ?thesis
      using other_exit [OF evicted _ _ rel] "5.IH"(1) [OF _ other] evicted unfolding step by simp
  next
    case thread
    then have "te_tid env \<in> live" and "life_spec p ops (live - {te_tid env}) marked exiting = Some reports"
      using spec evicted by (auto split: if_split_asm)
    then show ?thesis
      using thread_exit [OF evicted thread(1) _ rel thread(2)] "5.IH"(2) evicted thread unfolding step by simp
  next
    case last
    then obtain more where live: "live = {te_tid env}" "te_room env" and more: "life_spec p ops {} False False = Some more"
      "reports = (if exiting then [(exit_code_of code, marked)] else []) @ more"
      using spec evicted by (auto split: if_split_asm)
    then show ?thesis
      using last_exit [OF evicted last(1) live(1) rel last(2) live(2)] "5.IH"(3) evicted last unfolding step by simp
  qed
qed simp


text \<open>C27: Each process's end is reported once, when its last thread exits, with the code it ended with and what
  killed it: from a kernel that has no marks on the process, whatever other processes do in between, the
  exits reported of it are those of its group exit, none for a kernel thread, which never begins one; and
  SIGKILL is told to be the OOM killer's exactly when that chose one of the process's threads, the leader or
  another, while it was alive.\<close>

theorem exits_are_reported_with_their_cause:
  assumes "insert p live \<inter> lc_oom st = {}" and "p \<notin> lc_exiting st"
    and "life_spec p ops live False False = Some reports"
  shows "reports_of p (fold life_step ops st) = reports_of p st @ map (\<lambda>(code, marked). (cause_of code marked, code)) reports"
  using assms(3) by (rule life_refines [rotated]) (use assms(1,2) in \<open>simp add: life_rel_def\<close>)

text \<open>A process of two threads whose other thread the OOM killer chose.\<close>

definition sample_task :: "u32 \<Rightarrow> task_env" where
  "sample_task tid = \<lparr>te_pid = 7, te_tid = tid, te_comm = Some (replicate 16 0), te_now = 9, te_cgroup = 2, te_room = True,
     te_takes = (True, True), te_evicted = {}\<rparr>"

definition sample_life :: "life_op list" where
  "sample_life = [Exec_Op (sample_task 7), Mark_Op (Some 8) {}, Group_Op 7 {}, Exit_Op (sample_task 8) (Some 9) (Some 0),
     Exit_Op (sample_task 7) (Some 9) (Some 1)]"

definition sample_lifecycle :: lifecycle where
  "sample_lifecycle = \<lparr>lc_names = Map.empty, lc_starts = Map.empty, lc_execs = [], lc_oom = {}, lc_exiting = {}, lc_exits = []\<rparr>"

theorem exits_are_reported_with_their_cause_witness:
  "reports_of 7 (fold life_step sample_life sample_lifecycle) = [(''OOM_TERMINATED'', 9)]"
proof -
  have "life_spec 7 sample_life {7, 8} False False = Some [(9, True)]"
    by (simp add: sample_life_def sample_task_def exit_code_of_def word_sless_alt insert_Diff_if)
  from exits_are_reported_with_their_cause [OF _ _ this, of sample_lifecycle] show ?thesis
    by (simp add: sample_lifecycle_def cause_of_def reports_of_def)
qed

end
