(* ===== verification/Provider_Report.thy ===== *)
theory Provider_Report
  imports Agent Provider_Props
begin

text \<open>
  The report of the providers at start (agent, provider_report.rs): which configured entries replace a built-in
  provider and which match any host, found by asking the matcher about two hosts nothing has in common with.
\<close>

section \<open>The review\<close>

record config_review =
  replaced_builtins :: "str list"
  every_host :: "str list"

definition UNRELATED_HOSTS :: "str list" where
  "UNRELATED_HOSTS = [''api.anthropic.com'', ''198.51.100.7:443'']"

definition add_name :: "bool \<Rightarrow> str \<Rightarrow> str list \<Rightarrow> str list" where
  "add_name flag name names = (if flag \<and> name \<notin> set names then names @ [name] else names)"

definition matches_every_host :: "provider_config \<Rightarrow> bool" where
  "matches_every_host p \<longleftrightarrow>
     p_hosts p = [] \<or> list_ex (\<lambda>h. list_all (\<lambda>host. host_matches host h) UNRELATED_HOSTS) (p_hosts p)"

definition review :: "registry \<Rightarrow> registry \<Rightarrow> config_review" where
  "review defaults configured =
     fold (\<lambda>p out.
       out\<lparr>replaced_builtins := add_name (list_ex (\<lambda>d. p_name d = p_name p) defaults) (p_name p) (replaced_builtins out),
           every_host := add_name (matches_every_host p) (p_name p) (every_host out)\<rparr>)
       configured \<lparr>replaced_builtins = [], every_host = []\<rparr>"

definition provider_names :: "registry \<Rightarrow> str list" where
  "provider_names reg = fold (\<lambda>p names. add_name True (p_name p) names) reg []"

definition join_comma :: "str list \<Rightarrow> str" where
  "join_comma parts = (case parts of [] \<Rightarrow> [] | p # ps \<Rightarrow> p @ concat (map ((#) (CHR '','')) ps))"

definition provider_config_labels :: "str \<Rightarrow> str \<Rightarrow> str \<Rightarrow> str \<Rightarrow> (str \<times> str) list" where
  "provider_config_labels config_hash providers n replaced =
     [(''config_hash'', config_hash), (''providers'', providers), (''provider_count'', n),
      (''replaced_builtins'', if replaced = '''' then ''none'' else replaced)]"

text \<open>What the agent exports; the hash of the merged entries and the decimal of a number are arguments.\<close>

definition report_provider_config ::
  "(registry \<Rightarrow> str) \<Rightarrow> (nat \<Rightarrow> str) \<Rightarrow> registry \<Rightarrow> registry option \<Rightarrow> (str \<times> str) list" where
  "report_provider_config config_hash decimal_of defaults configured =
     (let reg = merged defaults configured; names = provider_names reg;
          notes = (case configured of None \<Rightarrow> \<lparr>replaced_builtins = [], every_host = []\<rparr> | Some c \<Rightarrow> review defaults c)
      in provider_config_labels (config_hash reg) (join_comma names) (decimal_of (length names))
           (join_comma (replaced_builtins notes)))"

section \<open>Patterns that match any host\<close>

lemma contains_char: "contains s [c] \<Longrightarrow> c \<in> set s"
  by (auto simp: contains_iff)

lemma contains_pair: "contains s (x # y # p) \<Longrightarrow> (x, y) \<in> set (zip s (tl s))"
proof -
  assume "contains s (x # y # p)"
  then obtain a b where s: "s = a @ x # y # p @ b" by (auto simp: contains_iff)
  have "set (zip t (tl t)) \<subseteq> set (zip (c # t) t)" for c :: 'a and t
    by (cases t) auto
  then show ?thesis unfolding s by (induction a) auto
qed

lemma common_substring:
  assumes "contains ''api.anthropic.com'' h" and "contains ''198.51.100.7:443'' h"
  shows "h = '''' \<or> h = ''.''"
proof (cases h)
  case (Cons c h')
  show ?thesis
  proof (cases h')
    case Nil
    then have c: "contains ''api.anthropic.com'' [c]" "contains ''198.51.100.7:443'' [c]" using assms Cons by simp_all
    show ?thesis using contains_char [OF c(1)] contains_char [OF c(2)] Cons Nil by auto
  next
    case pair: (Cons d p)
    then have cd: "contains ''api.anthropic.com'' (c # d # p)" "contains ''198.51.100.7:443'' (c # d # p)"
      using assms Cons by simp_all
    show ?thesis using contains_pair [OF cd(1)] contains_pair [OF cd(2)] by auto
  qed
qed simp

lemma star_pattern:
  assumes "split_once (CHR ''*'') h = Some (a, b)" and "list_all (\<lambda>host. host_matches host h) UNRELATED_HOSTS"
  shows "a = [] \<and> b = []"
proof -
  have "\<exists>mid. ''api.anthropic.com'' = a @ mid @ b" "\<exists>mid. ''198.51.100.7'' = a @ mid @ b"
    using assms by (simp_all add: UNRELATED_HOSTS_def host_matches_iff)
  then obtain m m' where m: "''api.anthropic.com'' = a @ m @ b" and m': "''198.51.100.7'' = a @ m' @ b" by blast
  have "a = []"
  proof (cases a)
    case (Cons c cs)
    then show ?thesis using m m' by auto
  qed simp
  moreover have "b = []"
  proof (cases b rule: rev_cases)
    case (snoc cs c)
    then have "last ''api.anthropic.com'' = c" "last ''198.51.100.7'' = c" unfolding m m' by simp_all
    then show ?thesis by auto
  qed simp
  ultimately show ?thesis by blast
qed

lemma unrelated_hosts_match:
  "list_all (\<lambda>host. host_matches host h) UNRELATED_HOSTS \<longleftrightarrow> (\<forall>host. contains host ''.'' \<longrightarrow> host_matches host h)"
proof
  assume all: "list_all (\<lambda>host. host_matches host h) UNRELATED_HOSTS"
  show "\<forall>host. contains host ''.'' \<longrightarrow> host_matches host h"
  proof (cases "split_once (CHR ''*'') h")
    case None
    then have "contains ''api.anthropic.com'' h" "contains ''198.51.100.7:443'' h"
      using all by (simp_all add: UNRELATED_HOSTS_def host_matches_def)
    then have "h = '''' \<or> h = ''.''" by (rule common_substring)
    moreover have "contains host ''''" for host :: str by (auto simp: contains_iff)
    ultimately show ?thesis using None by (auto simp: host_matches_def)
  next
    case (Some ab)
    then obtain a b where ab: "split_once (CHR ''*'') h = Some (a, b)" by (cases ab) simp
    then show ?thesis using star_pattern [OF ab all] by (simp add: host_matches_iff)
  qed
next
  assume every: "\<forall>host. contains host ''.'' \<longrightarrow> host_matches host h"
  have "contains ''api.anthropic.com'' ''.''" "contains ''198.51.100.7:443'' ''.''"
    by (simp_all add: contains_def starts_with_def)
  then show "list_all (\<lambda>host. host_matches host h) UNRELATED_HOSTS" using every by (simp add: UNRELATED_HOSTS_def)
qed

lemma review_names:
  "distinct (replaced_builtins out) \<Longrightarrow> distinct (every_host out) \<Longrightarrow>
   (let r = fold (\<lambda>p out.
       out\<lparr>replaced_builtins := add_name (list_ex (\<lambda>d. p_name d = p_name p) defaults) (p_name p) (replaced_builtins out),
           every_host := add_name (matches_every_host p) (p_name p) (every_host out)\<rparr>) configured out
    in distinct (replaced_builtins r) \<and> distinct (every_host r) \<and>
      set (replaced_builtins r) = set (replaced_builtins out) \<union> p_name ` set defaults \<inter> p_name ` set configured \<and>
      set (every_host r) = set (every_host out) \<union> p_name ` {p \<in> set configured. matches_every_host p})"
proof (induction configured arbitrary: out)
  case (Cons p configured)
  define out' where "out' = out\<lparr>replaced_builtins :=
      add_name (list_ex (\<lambda>d. p_name d = p_name p) defaults) (p_name p) (replaced_builtins out),
    every_host := add_name (matches_every_host p) (p_name p) (every_host out)\<rparr>"
  have "distinct (replaced_builtins out')" "distinct (every_host out')"
    using Cons.prems by (simp_all add: out'_def add_name_def)
  note ih = Cons.IH [OF this, unfolded Let_def]
  have "list_ex (\<lambda>d. p_name d = p_name p) defaults \<longleftrightarrow> p_name p \<in> p_name ` set defaults"
    unfolding list_ex_iff by (metis image_iff)
  then have "set (replaced_builtins out') =
      set (replaced_builtins out) \<union> (if p_name p \<in> p_name ` set defaults then {p_name p} else {})"
    by (simp add: out'_def add_name_def insert_absorb)
  then have names: "set (replaced_builtins out') = set (replaced_builtins out) \<union> (p_name ` set defaults \<inter> {p_name p})"
    "set (every_host out') = set (every_host out) \<union> (if matches_every_host p then {p_name p} else {})"
    by (simp_all add: out'_def add_name_def insert_absorb)
  have "{q \<in> set (p # configured). matches_every_host q} =
      (if matches_every_host p then {p} else {}) \<union> {q \<in> set configured. matches_every_host q}" by auto
  then show ?case using ih unfolding Let_def fold_Cons comp_def out'_def [symmetric] names by auto
qed (simp add: Let_def)

lemma merged_keeps: "p \<in> set configured \<Longrightarrow> p \<in> set (merged defaults (Some configured))"
proof -
  assume p: "p \<in> set configured"
  then have "p \<in> set (filter (\<lambda>q. p_name q = p_name p) (merged defaults (Some configured)))"
    unfolding merged_def registry_merge_def option.case merge_loop_named by simp
  then show ?thesis by simp
qed

text \<open>C31: The report's warning is right about what an entry matches: a pattern matches the two unrelated hosts
  exactly when it matches every host with a dot in it, so the entries warned of are those that list no hosts or
  such a pattern, each name once; the names said to replace a built-in provider are those both sets share; and
  once an entry is warned of, no request to a dotted host is skipped as foreign any more.\<close>

theorem warned_entries_match_every_host:
  "(list_all (\<lambda>host. host_matches host h) UNRELATED_HOSTS \<longleftrightarrow>
      (\<forall>host. contains host ''.'' \<longrightarrow> host_matches host h)) \<and>
   distinct (every_host (review defaults configured)) \<and> distinct (replaced_builtins (review defaults configured)) \<and>
   set (replaced_builtins (review defaults configured)) = p_name ` set defaults \<inter> p_name ` set configured \<and>
   set (every_host (review defaults configured)) =
     p_name ` {p \<in> set configured. p_hosts p = [] \<or>
       (\<exists>h \<in> set (p_hosts p). \<forall>host. contains host ''.'' \<longrightarrow> host_matches host h)} \<and>
   (every_host (review defaults configured) \<noteq> [] \<longrightarrow> contains host ''.'' \<longrightarrow>
      may_serve_host (merged defaults (Some configured)) host)"
proof -
  have every: "matches_every_host p \<longleftrightarrow>
      p_hosts p = [] \<or> (\<exists>h \<in> set (p_hosts p). \<forall>host. contains host ''.'' \<longrightarrow> host_matches host h)" for p
    unfolding matches_every_host_def list_ex_iff unrelated_hosts_match ..
  have names: "distinct (replaced_builtins (review defaults configured))" "distinct (every_host (review defaults configured))"
    "set (replaced_builtins (review defaults configured)) = p_name ` set defaults \<inter> p_name ` set configured"
    "set (every_host (review defaults configured)) = p_name ` {p \<in> set configured. matches_every_host p}"
    using review_names [of "\<lparr>replaced_builtins = [], every_host = []\<rparr>" defaults configured]
    by (simp_all add: review_def Let_def)
  have "may_serve_host (merged defaults (Some configured)) host"
    if warned: "every_host (review defaults configured) \<noteq> []" and dot: "contains host ''.''"
  proof -
    from warned have "set (every_host (review defaults configured)) \<noteq> {}" by simp
    then obtain p where p: "p \<in> set configured" "matches_every_host p" unfolding names(4) by blast
    then have "p_hosts p = [] \<or> list_ex (host_matches host) (p_hosts p)" using dot unfolding every list_ex_iff by blast
    with merged_keeps [OF p(1), of defaults] show ?thesis by (auto simp: may_serve_host_def list_ex_iff)
  qed
  then show ?thesis using names every unrelated_hosts_match by simp
qed

definition sample_open_provider :: provider_config where
  "sample_open_provider = \<lparr>p_name = ''any'', p_hosts = [''.''], p_paths = [], p_response = response_config_default,
     p_extractor = Messages, p_plaintext = None\<rparr>"

theorem warned_entries_match_every_host_witness:
  "may_serve_host (merged [] (Some [sample_open_provider])) ''example.org''"
proof -
  have "''any'' \<in> set (every_host (review [] [sample_open_provider]))"
    by (simp add: review_def sample_open_provider_def add_name_def matches_every_host_def UNRELATED_HOSTS_def
        host_matches_def contains_def starts_with_def)
  then have "every_host (review [] [sample_open_provider]) \<noteq> []" by auto
  moreover have "contains ''example.org'' ''.''" by (simp add: contains_def starts_with_def)
  ultimately show ?thesis
    using warned_entries_match_every_host [of "''.''" "[]" "[sample_open_provider]" "''example.org''"] by blast
qed

end
