(* ===== verification/Endpoints.thy ===== *)
theory Endpoints
  imports Plain_Capture Providers Split_Text "HOL-Library.Product_Lexorder"
begin

text \<open>
  The plaintext endpoints the kernel watches (agent, plaintext.rs): what the configuration asks for, the order
  and cap of the resolved addresses, and the sink that keeps the kernel's map in step. Resolving a host through
  DNS or the Kubernetes API is not modelled; a pass starts from the addresses it gave.
\<close>

section \<open>What is asked for\<close>

record endpoint_spec =
  es_host :: str
  es_port :: u16
  es_namespace :: "str option"

definition provider_specs :: "provider_config \<Rightarrow> endpoint_spec list" where
  "provider_specs p =
     (case p_plaintext p of
        None \<Rightarrow> []
      | Some plain \<Rightarrow>
          map (\<lambda>host. \<lparr>es_host = host, es_port = pt_port plain, es_namespace = pt_namespace plain\<rparr>)
            (filter (\<lambda>host. host \<noteq> []) (map trim (p_hosts p))))"

definition specs_from_registry :: "registry \<Rightarrow> endpoint_spec list" where
  "specs_from_registry reg = concat (map provider_specs reg)"

datatype target = Service str str | External str

definition classify :: "endpoint_spec \<Rightarrow> target" where
  "classify spec =
     (let labels = split_on (CHR ''.'') (es_host spec);
          in_cluster = (es_namespace spec \<noteq> None \<or> length labels = 1 \<or> contains (es_host spec) ''.svc'')
      in if \<not> in_cluster then External (es_host spec)
         else Service (hd labels)
           (case es_namespace spec of
              Some ns \<Rightarrow> ns
            | None \<Rightarrow> (case tl labels of [] \<Rightarrow> ''default'' | ns # _ \<Rightarrow> ns)))"

section \<open>Resolved addresses\<close>

text \<open>\<open>SocketAddr\<close>, ordered as the code's ordered sets order it: IPv4 first, then by address and port.\<close>

datatype sock_addr = V4 u32 u16 | V6 "128 word" u16 u32 u32

definition addr_rank :: "sock_addr \<Rightarrow> nat \<times> nat \<times> nat \<times> nat \<times> nat" where
  "addr_rank a =
     (case a of
        V4 ip port \<Rightarrow> (0, unat ip, unat port, 0, 0)
      | V6 ip port flow scope \<Rightarrow> (1, unat ip, unat port, unat flow, unat scope))"

lemma addr_rank_inject: "addr_rank a = addr_rank b \<longleftrightarrow> a = b"
  by (cases a; cases b) (auto simp: addr_rank_def word_unat_eq_iff)

instantiation sock_addr :: linorder
begin

definition less_eq_sock_addr :: "sock_addr \<Rightarrow> sock_addr \<Rightarrow> bool" where
  "less_eq_sock_addr a b \<longleftrightarrow> addr_rank a \<le> addr_rank b"

definition less_sock_addr :: "sock_addr \<Rightarrow> sock_addr \<Rightarrow> bool" where
  "less_sock_addr a b \<longleftrightarrow> addr_rank a < addr_rank b"

instance
proof
  fix a b c :: sock_addr
  show "(a < b) = (a \<le> b \<and> \<not> b \<le> a)" by (auto simp: less_eq_sock_addr_def less_sock_addr_def)
  show "a \<le> a" by (simp add: less_eq_sock_addr_def)
  show "a \<le> b \<Longrightarrow> b \<le> c \<Longrightarrow> a \<le> c" by (simp add: less_eq_sock_addr_def)
  show "a \<le> b \<Longrightarrow> b \<le> a \<Longrightarrow> a = b" by (simp add: less_eq_sock_addr_def flip: addr_rank_inject)
  show "a \<le> b \<or> b \<le> a" by (auto simp: less_eq_sock_addr_def)
qed

end

text \<open>A pass's addresses as the ordered set they are collected in, cut to what the map holds.\<close>

definition MAX_ENDPOINTS :: nat where
  "MAX_ENDPOINTS = 8192"

definition endpoint_set :: "sock_addr list \<Rightarrow> sock_addr list" where
  "endpoint_set addrs = sorted_list_of_set (set addrs)"

definition cap :: "sock_addr list \<Rightarrow> sock_addr list" where
  "cap eps = (if length eps \<le> MAX_ENDPOINTS then eps else take MAX_ENDPOINTS eps)"

definition endpoint_key :: "sock_addr \<Rightarrow> u64 option" where
  "endpoint_key a = (case a of V4 ip port \<Rightarrow> Some (plain_endpoint_key (swap32 ip) (swap16 port)) | V6 _ _ _ _ \<Rightarrow> None)"

section \<open>The sink\<close>

text \<open>
  The kernel's map, of at most \<open>room\<close> entries, and the keys the sink believes it holds. An insert of a new key
  into a full map fails, and the code takes no notice.
\<close>

record sink =
  sk_map :: "u64 list"
  sk_keys :: "u64 list"

definition map_insert :: "nat \<Rightarrow> u64 \<Rightarrow> u64 list \<Rightarrow> u64 list" where
  "map_insert room k m = (if k \<in> set m then m else if length m < room then m @ [k] else m)"

definition sink_replace :: "nat \<Rightarrow> sock_addr list \<Rightarrow> sink \<Rightarrow> sink" where
  "sink_replace room eps s =
     (let want = sorted_list_of_set (set (List.map_filter endpoint_key eps));
          m = fold (map_insert room) (filter (\<lambda>k. k \<notin> set (sk_keys s)) want) (sk_map s);
          m = fold (\<lambda>k m. filter (\<lambda>k'. k' \<noteq> k) m) (filter (\<lambda>k. k \<notin> set want) (sk_keys s)) m
      in \<lparr>sk_map = m, sk_keys = want\<rparr>)"

text \<open>A pass of the reconcile loop pushes a set only when it changed.\<close>

definition reconcile :: "nat \<Rightarrow> sock_addr list \<Rightarrow> sock_addr list option \<times> sink \<Rightarrow> sock_addr list option \<times> sink" where
  "reconcile room addrs ls =
     (let (last_set, s) = ls; set_now = cap (endpoint_set addrs) in
      if last_set = Some set_now then (last_set, s) else (Some set_now, sink_replace room set_now s))"

section \<open>The kernel's map and the current endpoints\<close>

definition wanted :: "sock_addr list \<Rightarrow> u64 set" where
  "wanted eps = set (List.map_filter endpoint_key eps)"

definition in_step :: "sink \<Rightarrow> bool" where
  "in_step s \<longleftrightarrow> distinct (sk_map s) \<and> set (sk_map s) = set (sk_keys s)"

lemma wanted_finite [simp]: "finite (wanted eps)"
  by (simp add: wanted_def)

lemma fold_insert_room:
  "distinct m \<Longrightarrow> distinct ks \<Longrightarrow> set ks \<inter> set m = {} \<Longrightarrow> length m + length ks \<le> room \<Longrightarrow>
     fold (map_insert room) ks m = m @ ks"
proof (induction ks arbitrary: m)
  case (Cons k ks)
  then have "map_insert room k m = m @ [k]" by (auto simp: map_insert_def)
  moreover have "fold (map_insert room) ks (m @ [k]) = (m @ [k]) @ ks" using Cons.prems by (intro Cons.IH) auto
  ultimately show ?case by simp
qed simp

lemma fold_insert_full: "length m = room \<Longrightarrow> fold (map_insert room) ks m = m"
  by (induction ks) (auto simp: map_insert_def)

lemma fold_remove: "fold (\<lambda>k m. filter (\<lambda>k'. k' \<noteq> k) m) ks m = filter (\<lambda>k'. k' \<notin> set ks) m"
  by (induction ks arbitrary: m) (auto intro: filter_cong)

lemma sink_replace_parts:
  "sink_replace room eps s =
     \<lparr>sk_map = filter (\<lambda>k'. k' \<notin> set (sk_keys s) - wanted eps)
        (fold (map_insert room) (filter (\<lambda>k. k \<notin> set (sk_keys s)) (sorted_list_of_set (wanted eps))) (sk_map s)),
      sk_keys = sorted_list_of_set (wanted eps)\<rparr>"
  by (auto simp: sink_replace_def Let_def fold_remove wanted_def intro!: filter_cong)

text \<open>As long as the old and the new endpoints fit together, the kernel watches exactly the new ones.\<close>

lemma sink_follows_endpoints:
  assumes "in_step s" and "card (set (sk_keys s) \<union> wanted eps) \<le> room"
  shows "in_step (sink_replace room eps s) \<and> set (sk_map (sink_replace room eps s)) = wanted eps"
proof -
  define new where "new = filter (\<lambda>k. k \<notin> set (sk_keys s)) (sorted_list_of_set (wanted eps))"
  have new: "distinct new" "set new = wanted eps - set (sk_keys s)" by (auto simp: new_def)
  have old: "distinct (sk_map s)" "set (sk_map s) = set (sk_keys s)" using assms(1) by (simp_all add: in_step_def)
  have "length (sk_map s) + length new = card (set (sk_map s @ new))"
    using new old by (subst distinct_card) auto
  also have "set (sk_map s @ new) = set (sk_keys s) \<union> wanted eps" using new old by auto
  finally have "fold (map_insert room) new (sk_map s) = sk_map s @ new"
    using assms(2) new old by (intro fold_insert_room) auto
  then show ?thesis
    using new old by (auto simp: sink_replace_parts in_step_def simp flip: new_def)
qed

text \<open>C25: A change of endpoints is lost when the kernel's map is full: new keys are inserted before the gone ones are
  removed, so with the map at its capacity, which is also the cap on endpoints, a pass whose endpoints are
  all new leaves the kernel watching none of them, while the sink believes it watches them all; and every
  later pass with the same addresses changes nothing.\<close>

theorem full_map_loses_new_endpoints:
  assumes "in_step s" and "length (sk_map s) = room" and "cap (endpoint_set addrs) \<noteq> last_set"
    and "wanted (cap (endpoint_set addrs)) \<inter> set (sk_keys s) = {}"
  shows "let ls = reconcile room addrs (Some last_set, s) in
     sk_map (snd ls) = [] \<and> set (sk_keys (snd ls)) = wanted (cap (endpoint_set addrs)) \<and> reconcile room addrs ls = ls"
proof -
  have "sk_map (sink_replace room (cap (endpoint_set addrs)) s) = []"
    using assms(1,2,4) by (auto simp: sink_replace_parts fold_insert_full in_step_def filter_empty_conv)
  then show ?thesis using assms(3) by (auto simp: reconcile_def Let_def sink_replace_parts)
qed

theorem full_map_loses_new_endpoints_witness:
  "sk_map (snd (reconcile 1 [V4 2 80] (Some [V4 1 80], \<lparr>sk_map = [plain_endpoint_key (swap32 1) (swap16 80)],
     sk_keys = [plain_endpoint_key (swap32 1) (swap16 80)]\<rparr>))) = []"
proof -
  have set: "cap (endpoint_set [V4 2 80]) = [V4 2 80]" by (simp add: cap_def endpoint_set_def MAX_ENDPOINTS_def)
  have "plain_endpoint_key (swap32 1) (swap16 80) \<noteq> plain_endpoint_key (swap32 2) (swap16 80)"
    by (simp add: plain_endpoint_key_def swap32_def swap16_def)
  then show ?thesis
    using full_map_loses_new_endpoints [of "\<lparr>sk_map = [plain_endpoint_key (swap32 1) (swap16 80)],
        sk_keys = [plain_endpoint_key (swap32 1) (swap16 80)]\<rparr>" 1 "[V4 2 80]" "[V4 1 80]"]
    by (simp add: set in_step_def wanted_def endpoint_key_def map_filter_simps Let_def)
qed

end
