(* ===== verification/Plain_Start.thy ===== *)
theory Plain_Start
  imports Endpoints
begin

text \<open>
  Starting plaintext capture (agent, plaintext.rs): the addresses a configured host stands for, as the Kubernetes
  API or DNS answers, the cgroup hierarchy to attach to, and the attach with its roll-back.
\<close>

section \<open>Services and their pods\<close>

record service_port =
  svp_name :: "str option"
  svp_port :: int

record kube_service =
  ks_cluster_ip :: "str option"
  ks_ports :: "service_port list option"

record slice_port =
  slp_name :: "str option"
  slp_port :: "int option"

record slice_endpoint =
  sle_ready :: "bool option"
  sle_addresses :: "str list"

record endpoint_slice =
  sl_ports :: "slice_port list option"
  sl_endpoints :: "slice_endpoint list"

text \<open>What parsing an IP address gives, the standard library's, is an argument.\<close>

datatype ip_addr = Ip4 u32 | Ip6 "128 word"

definition sock_addr_of :: "ip_addr \<Rightarrow> u16 \<Rightarrow> sock_addr" where
  "sock_addr_of ip port = (case ip of Ip4 a \<Rightarrow> V4 a port | Ip6 a \<Rightarrow> V6 a port 0 0)"

text \<open>A service without a spec has neither; \<open>ks_cluster_ip\<close> and \<open>ks_ports\<close> are then absent too.\<close>

definition cluster_ip_endpoint :: "(str \<Rightarrow> ip_addr option) \<Rightarrow> kube_service \<Rightarrow> u16 \<Rightarrow> sock_addr option" where
  "cluster_ip_endpoint parse_ip svc port =
     (case ks_cluster_ip svc of
        None \<Rightarrow> None
      | Some ip \<Rightarrow>
          (if ip = '''' \<or> ip = ''None'' then None
           else map_option (\<lambda>ip. sock_addr_of ip port) (parse_ip ip)))"

definition service_port_name :: "kube_service \<Rightarrow> u16 \<Rightarrow> str option" where
  "service_port_name svc port =
     Option.bind (ks_ports svc) (\<lambda>ports. Option.bind (find (\<lambda>p. svp_port p = uint port) ports) svp_name)"

definition pod_port :: "slice_port list \<Rightarrow> str option \<Rightarrow> u16 option" where
  "pod_port ports want =
     Option.bind
       (case want of
          Some name \<Rightarrow> Option.bind (find (\<lambda>p. slp_name p = Some name) ports) slp_port
        | None \<Rightarrow> (case ports of [p] \<Rightarrow> slp_port p | _ \<Rightarrow> None))
       (\<lambda>p. if 0 \<le> p \<and> p < 2 ^ 16 then Some (of_int p) else None)"

definition slice_endpoints :: "(str \<Rightarrow> ip_addr option) \<Rightarrow> endpoint_slice \<Rightarrow> str option \<Rightarrow> sock_addr list" where
  "slice_endpoints parse_ip sl want =
     (case pod_port (case sl_ports sl of None \<Rightarrow> [] | Some ports \<Rightarrow> ports) want of
        None \<Rightarrow> []
      | Some port \<Rightarrow>
          concat (map (\<lambda>ep.
            if sle_ready ep = Some False then []
            else map (\<lambda>ip. sock_addr_of ip port) (List.map_filter parse_ip (sle_addresses ep)))
            (sl_endpoints sl)))"

section \<open>A resolution pass\<close>

text \<open>What DNS and the API answer for the pass: nothing where the call failed.\<close>

record pass_answers =
  pa_parse_ip :: "str \<Rightarrow> ip_addr option"
  pa_lookup :: "str \<Rightarrow> u16 \<Rightarrow> sock_addr list option"
  pa_service :: "str \<Rightarrow> str \<Rightarrow> kube_service option"
  pa_slices :: "str \<Rightarrow> str \<Rightarrow> endpoint_slice list option"

definition resolve_spec :: "pass_answers \<Rightarrow> endpoint_spec \<Rightarrow> sock_addr list" where
  "resolve_spec pa spec =
     (case classify spec of
        External host \<Rightarrow> (case pa_lookup pa host (es_port spec) of None \<Rightarrow> [] | Some addrs \<Rightarrow> addrs)
      | Service name namespace \<Rightarrow>
          (let (found, port_name) =
             (case pa_service pa namespace name of
                None \<Rightarrow> ([], None)
              | Some svc \<Rightarrow>
                  (case cluster_ip_endpoint (pa_parse_ip pa) svc (es_port spec) of None \<Rightarrow> [] | Some addr \<Rightarrow> [addr],
                   service_port_name svc (es_port spec)))
           in found @
             (case pa_slices pa namespace name of
                None \<Rightarrow> []
              | Some slices \<Rightarrow> concat (map (\<lambda>sl. slice_endpoints (pa_parse_ip pa) sl port_name) slices))))"

definition resolve_pass :: "pass_answers \<Rightarrow> endpoint_spec list \<Rightarrow> sock_addr list" where
  "resolve_pass pa specs = concat (map (resolve_spec pa) specs)"

text \<open>The passes of \<open>run\<close>, one after another, from a sink that holds nothing.\<close>

definition run_resolver :: "nat \<Rightarrow> endpoint_spec list \<Rightarrow> pass_answers list \<Rightarrow> sock_addr list option \<times> sink" where
  "run_resolver room specs passes =
     fold (\<lambda>pa. reconcile room (resolve_pass pa specs)) passes (None, \<lparr>sk_map = [], sk_keys = []\<rparr>)"

section \<open>Where to attach\<close>

fun cgroup_v2_root_of :: "str list \<Rightarrow> str option \<Rightarrow> str option" where
  "cgroup_v2_root_of [] hybrid = hybrid"
| "cgroup_v2_root_of (l # rest) hybrid =
     (case split_whitespace l of
        _ # mount # fstype # _ \<Rightarrow>
          (if fstype \<noteq> ''cgroup2'' then cgroup_v2_root_of rest hybrid
           else if mount = ''/sys/fs/cgroup'' then Some mount
           else cgroup_v2_root_of rest (if mount = ''/sys/fs/cgroup/unified'' then Some mount else hybrid))
      | _ \<Rightarrow> cgroup_v2_root_of rest hybrid)"

definition cgroup_v2_root_from :: "str \<Rightarrow> str option" where
  "cgroup_v2_root_from mounts = cgroup_v2_root_of (text_lines mounts) None"

section \<open>The start\<close>

text \<open>
  Which steps the kernel and the cluster allow: the version, the mounts read, the hierarchy opened, a program
  loaded or attached, a map found, the reader started, a client made.
\<close>

record start_answers =
  sa_kernel_ok :: bool
  sa_mounts :: "str option"
  sa_opens :: "str \<Rightarrow> bool"
  sa_loads :: "str \<Rightarrow> bool"
  sa_attaches :: "str \<Rightarrow> bool"
  sa_socks :: bool
  sa_parser :: bool
  sa_map :: bool
  sa_client :: bool

definition SOCK_PROGRAMS :: "str list" where
  "SOCK_PROGRAMS = [''plaintext_skmsg'', ''plaintext_skskb'']"

fun attach_all :: "(str \<Rightarrow> bool) \<Rightarrow> str list \<Rightarrow> str list \<Rightarrow> bool \<times> str list" where
  "attach_all allows [] attached = (True, attached)"
| "attach_all allows (prog # progs) attached =
     (if allows prog then attach_all allows progs (attached @ [prog]) else (False, attached))"

definition attach_programs_and_read :: "start_answers \<Rightarrow> str list \<Rightarrow> bool \<times> str list" where
  "attach_programs_and_read sa attached =
     (if \<not> sa_socks sa then (False, attached)
      else (let (ok, attached) = attach_all (sa_attaches sa) SOCK_PROGRAMS attached in (ok \<and> sa_parser sa, attached)))"

definition detach_sockops :: "str list \<Rightarrow> str list" where
  "detach_sockops attached = filter (\<lambda>prog. prog \<noteq> ''plaintext_sockops'') attached"

text \<open>Whether capture is on, what is attached, and whether the resolver runs.\<close>

definition start_plaintext :: "start_answers \<Rightarrow> endpoint_spec list \<Rightarrow> bool \<times> str list \<times> bool" where
  "start_plaintext sa specs =
     (if \<not> sa_kernel_ok sa then (False, [], False)
      else case Option.bind (sa_mounts sa) cgroup_v2_root_from of
        None \<Rightarrow> (False, [], False)
      | Some cgroup \<Rightarrow>
          (if \<not> sa_opens sa cgroup then (False, [], False)
           else if \<not> list_all (sa_loads sa) (''plaintext_sockops'' # SOCK_PROGRAMS) then (False, [], False)
           else if \<not> sa_attaches sa ''plaintext_sockops'' then (False, [], False)
           else
             (let (ok, attached) = attach_programs_and_read sa [''plaintext_sockops''] in
              if \<not> ok then (False, detach_sockops attached, False)
              else if \<not> sa_map sa then (False, attached, False)
              else if \<not> sa_client sa then (False, attached, False)
              else (True, attached, specs \<noteq> []))))"

section \<open>What a failed start leaves\<close>

text \<open>C32: A start that fails does not always undo itself, though its comment says a failure after the sockops attach
  does: failing at any step up to the reader, it leaves the sockops program detached; but when the programs are
  attached and the endpoint map is missing or no Kubernetes client can be made, it reports capture as disabled
  with all three programs attached, and with no resolver to give them an endpoint.\<close>

theorem failed_start_leaves_programs:
  assumes "start_plaintext sa specs = (False, attached, running)"
  shows "\<not> running \<and>
    (if sa_kernel_ok sa \<and> (\<exists>root. Option.bind (sa_mounts sa) cgroup_v2_root_from = Some root \<and> sa_opens sa root) \<and>
       list_all (sa_loads sa) (''plaintext_sockops'' # SOCK_PROGRAMS) \<and>
       list_all (sa_attaches sa) (''plaintext_sockops'' # SOCK_PROGRAMS) \<and> sa_socks sa \<and> sa_parser sa
     then attached = ''plaintext_sockops'' # SOCK_PROGRAMS \<and> \<not> (sa_map sa \<and> sa_client sa)
     else ''plaintext_sockops'' \<notin> set attached)"
  using assms
  by (auto simp: start_plaintext_def attach_programs_and_read_def detach_sockops_def SOCK_PROGRAMS_def
      split: if_split_asm option.split_asm)

definition sample_start_answers :: start_answers where
  "sample_start_answers = \<lparr>sa_kernel_ok = True, sa_mounts = Some ''cgroup2 /sys/fs/cgroup cgroup2 rw'', sa_opens = (\<lambda>_. True),
     sa_loads = (\<lambda>_. True), sa_attaches = (\<lambda>_. True), sa_socks = True, sa_parser = True, sa_map = True, sa_client = False\<rparr>"


lemma sample_root: "Option.bind (sa_mounts sample_start_answers) cgroup_v2_root_from = Some ''/sys/fs/cgroup''"
  by (simp add: sample_start_answers_def cgroup_v2_root_from_def text_lines_def Let_def split_whitespace_def
      white_space_def starts_with_def str_of_def char_of_def bit_0)

theorem failed_start_leaves_programs_witness:
  "start_plaintext sample_start_answers [] = (False, ''plaintext_sockops'' # SOCK_PROGRAMS, False)"
proof -
  obtain ok attached running where run: "start_plaintext sample_start_answers [] = (ok, attached, running)"
    by (rule prod_cases3)
  moreover have "\<not> ok"
    using run sample_root
    by (auto simp: start_plaintext_def sample_start_answers_def attach_programs_and_read_def Let_def split: prod.split_asm if_split_asm)
  ultimately have run: "start_plaintext sample_start_answers [] = (False, attached, running)" by simp
  from failed_start_leaves_programs [OF this] sample_root have "\<not> running" "attached = ''plaintext_sockops'' # SOCK_PROGRAMS"
    by (simp_all add: sample_start_answers_def SOCK_PROGRAMS_def)
  with run show ?thesis by simp
qed

section \<open>The kernel follows the passes\<close>

definition pass_keys :: "endpoint_spec list \<Rightarrow> pass_answers \<Rightarrow> u64 set" where
  "pass_keys specs pa = wanted (cap (endpoint_set (resolve_pass pa specs)))"

lemma run_resolver_snoc:
  "run_resolver room specs (passes @ [pa]) = reconcile room (resolve_pass pa specs) (run_resolver room specs passes)"
  by (simp add: run_resolver_def)

lemma resolver_follows:
  assumes "card (\<Union> (pass_keys specs ` set passes)) \<le> room"
  shows "in_step (snd (run_resolver room specs passes)) \<and>
    (if passes = [] then fst (run_resolver room specs passes) = None \<and> sk_keys (snd (run_resolver room specs passes)) = []
     else fst (run_resolver room specs passes) = Some (cap (endpoint_set (resolve_pass (last passes) specs))) \<and>
       set (sk_keys (snd (run_resolver room specs passes))) = pass_keys specs (last passes))"
  using assms
proof (induction passes rule: rev_induct)
  case Nil
  then show ?case by (simp add: run_resolver_def in_step_def)
next
  case (snoc pa passes)
  define r where "r = run_resolver room specs passes"
  obtain prev s where rs: "r = (prev, s)" by fastforce
  have fin: "finite (\<Union> (pass_keys specs ` set (passes @ [pa])))" by (simp add: pass_keys_def)
  have "card (\<Union> (pass_keys specs ` set passes)) \<le> card (\<Union> (pass_keys specs ` set (passes @ [pa])))"
    by (rule card_mono [OF fin]) auto
  then have "card (\<Union> (pass_keys specs ` set passes)) \<le> room" using snoc.prems by simp
  from snoc.IH [OF this] have step: "in_step s" and
    old: "if passes = [] then prev = None \<and> sk_keys s = []
      else prev = Some (cap (endpoint_set (resolve_pass (last passes) specs))) \<and> set (sk_keys s) = pass_keys specs (last passes)"
    unfolding r_def [symmetric] rs fst_conv snd_conv by blast+
  have keys: "set (sk_keys s) \<union> pass_keys specs pa \<subseteq> \<Union> (pass_keys specs ` set (passes @ [pa]))"
    using old by (cases "passes = []") auto
  define now where "now = cap (endpoint_set (resolve_pass pa specs))"
  show ?case
  proof (cases "prev = Some now")
    case True
    then have "set (sk_keys s) = pass_keys specs pa" using old by (auto simp: now_def pass_keys_def split: if_split_asm)
    then show ?thesis using True step
      unfolding run_resolver_snoc r_def [symmetric] rs by (simp add: reconcile_def Let_def flip: now_def)
  next
    case False
    have "card (set (sk_keys s) \<union> wanted now) \<le> room"
      using card_mono [OF fin keys] snoc.prems by (simp add: pass_keys_def now_def)
    from sink_follows_endpoints [OF step this] have "in_step (sink_replace room now s)" by blast
    moreover have "set (sk_keys (sink_replace room now s)) = wanted now" by (simp add: sink_replace_parts)
    ultimately show ?thesis using False
      unfolding run_resolver_snoc r_def [symmetric] rs by (simp add: reconcile_def Let_def pass_keys_def flip: now_def)
  qed
qed

text \<open>The kernel watches what the last pass resolved: after any passes, with whatever the cluster and DNS answered
  or refused in each, as long as all the keys they gave together fit the kernel's map, the map holds exactly the
  keys of the last pass's addresses, up to the cap, each once.\<close>

lemma kernel_watches_the_last_pass:
  assumes "passes \<noteq> []" and "card (\<Union> (pass_keys specs ` set passes)) \<le> room"
  shows "distinct (sk_map (snd (run_resolver room specs passes))) \<and>
    set (sk_map (snd (run_resolver room specs passes))) =
      set (List.map_filter endpoint_key (cap (endpoint_set (concat (map (resolve_spec (last passes)) specs)))))"
  using resolver_follows [OF assms(2)] assms(1)
  by (simp add: in_step_def pass_keys_def wanted_def resolve_pass_def)

definition sample_pass :: pass_answers where
  "sample_pass = \<lparr>pa_parse_ip = (\<lambda>_. Some (Ip4 1)), pa_lookup = (\<lambda>_ _. Some [V4 1 80]), pa_service = (\<lambda>_ _. None),
     pa_slices = (\<lambda>_ _. None)\<rparr>"

theorem kernel_watches_the_last_pass_witness:
  "set (sk_map (snd (run_resolver 8 [\<lparr>es_host = ''a.b'', es_port = 80, es_namespace = None\<rparr>] [sample_pass]))) =
     {plain_endpoint_key (swap32 1) (swap16 80)}"
proof -
  let ?spec = "\<lparr>es_host = ''a.b'', es_port = 80, es_namespace = None\<rparr>"
  have addrs: "resolve_spec sample_pass ?spec = [V4 1 80]"
    by (simp add: resolve_spec_def sample_pass_def classify_def contains_def starts_with_def)
  have keys: "pass_keys [?spec] sample_pass = {plain_endpoint_key (swap32 1) (swap16 80)}"
    by (simp add: pass_keys_def resolve_pass_def addrs endpoint_set_def cap_def MAX_ENDPOINTS_def wanted_def
        endpoint_key_def map_filter_simps)
  have "card (\<Union> (pass_keys [?spec] ` set [sample_pass])) \<le> 8" by (simp add: keys)
  from kernel_watches_the_last_pass [OF _ this] show ?thesis
    by (simp add: addrs endpoint_set_def cap_def MAX_ENDPOINTS_def endpoint_key_def map_filter_simps)
qed

end
