(* ===== verification/Config_Load.thy ===== *)
theory Config_Load
  imports Endpoints Http2_Raw
begin

text \<open>
  Where the configuration comes from (agent, http/registry.rs, plaintext.rs, telemetry.rs, settings.rs): the
  providers for matching, the providers for plaintext capture, the metrics endpoint and comma-separated lists.
  The config crate's loader, serde_json and the environment are arguments.
\<close>

section \<open>The configured providers\<close>

text \<open>
  \<open>load_any\<close> is what the config crate makes of the file at a path, in any of its formats; \<open>read_file\<close> its text;
  \<open>from_json\<close> the registry in a JSON text.
\<close>

record config_libs =
  cl_load_any :: "str \<Rightarrow> registry option"
  cl_read_file :: "str \<Rightarrow> str option"
  cl_from_json :: "str \<Rightarrow> registry option"

definition configured_from :: "config_libs \<Rightarrow> str option \<Rightarrow> str option \<Rightarrow> registry option" where
  "configured_from cl file inline =
     (case Option.bind file (cl_load_any cl) of
        Some reg \<Rightarrow> Some reg
      | None \<Rightarrow> (case inline of None \<Rightarrow> None | Some config \<Rightarrow> if config = '''' then None else cl_from_json cl config))"

definition configured_specs :: "config_libs \<Rightarrow> str option \<Rightarrow> str option \<Rightarrow> endpoint_spec list" where
  "configured_specs cl file inline =
     (let json = (case Option.bind file (cl_read_file cl) of Some text \<Rightarrow> Some text | None \<Rightarrow> inline);
          reg = (case Option.bind json (cl_from_json cl) of Some reg \<Rightarrow> reg | None \<Rightarrow> [])
      in specs_from_registry reg)"


text \<open>A YAML file that lists a plaintext provider.\<close>

definition sample_plain_provider :: provider_config where
  "sample_plain_provider = \<lparr>p_name = ''local'', p_hosts = [''vllm''], p_paths = [], p_response = response_config_default,
     p_extractor = Messages, p_plaintext = Some \<lparr>pt_port = 8000, pt_namespace = None\<rparr>\<rparr>"

definition sample_config_libs :: config_libs where
  "sample_config_libs = \<lparr>cl_load_any = (\<lambda>p. if p = ''p.yaml'' then Some [sample_plain_provider] else None),
     cl_read_file = (\<lambda>p. if p = ''p.yaml'' then Some ''providers:'' else None), cl_from_json = (\<lambda>_. None)\<rparr>"


section \<open>Settings\<close>

definition get_otlp_endpoint :: "str option \<Rightarrow> str option" where
  "get_otlp_endpoint env =
     (case env of
        None \<Rightarrow> None
      | Some endpoint \<Rightarrow>
          (if endpoint = '''' then None
           else if \<not> starts_with endpoint ''http://'' \<and> \<not> starts_with endpoint ''https://'' then Some (''http://'' @ endpoint)
           else Some endpoint))"

definition split_comma_separated :: "str \<Rightarrow> str list" where
  "split_comma_separated s = filter (\<lambda>p. p \<noteq> []) (map trim (split_on (CHR '','') s))"

text \<open>A list given as text or as an array of texts, or nothing for null; no result is the deserializer's error.\<close>

definition deserialize_comma_separated :: "json \<Rightarrow> str list option option" where
  "deserialize_comma_separated raw =
     (case raw of
        Null \<Rightarrow> Some None
      | Str s \<Rightarrow> Some (Some (split_comma_separated s))
      | Array arr \<Rightarrow> if list_all (\<lambda>v. as_str v \<noteq> None) arr then Some (Some (List.map_filter as_str arr)) else None
      | _ \<Rightarrow> None)"

end
