(* ===== verification/Spec2Isabelle.thy ===== *)
theory Spec2Isabelle
  imports Chunk_Props Hpack_Refine Frame_Resync Ssl_Probe_Props Plain_Props Background Past_Limit H2_Claims
    Exchange_Whole Agent_Props Captured_Call Attach
    Metrics_Props Wire Pods_Props Discovery_Props Watch_Live Host_Props Provider_Report Plain_Start Config_Load
begin

text \<open>
  A model of honeybeepf-llm, an agent that watches LLM calls: eBPF programs copy the first bytes of each
  SSL_read/SSL_write, or of each message of a watched plaintext connection, into a ring buffer; the agent
  follows every connection's HTTP, finds the calls to configured providers, and exports their usage and cost.

  \<^bold>\<open>How the parts fit.\<close> A probed SSL call becomes records in the kernel's ring (\<open>Ssl_Probe\<close>, with the
  connection classes of \<open>Ssl_Class\<close> deciding what is sent at all; \<open>Plain_Capture\<close> for sockets). The agent
  (\<open>Agent\<close>) routes each record to the stream of its connection, whose processor (\<open>Processor\<close>) buffers it,
  detects a protocol, and feeds HTTP/1.1 (\<open>Http1\<close>) or HTTP/2 (\<open>H2_Conn\<close> over \<open>Frame\<close>, \<open>Hpack\<close> and
  \<open>H2_Stream\<close>). Bodies are read by \<open>Llm_Body\<close>, \<open>Sse\<close> and \<open>Event_Stream\<close>, through \<open>Encoding\<close>, with the
  providers of \<open>Providers\<close>; past the buffer limit by \<open>Past_Limit\<close>. A finished call, or one given up, is an
  entry of the ledger \<open>wd_ledger\<close>; calls that finish in a later poll wait in \<open>Background\<close>. \<open>Metrics\<close> turns
  the ledger into what the telemetry adds to each metric, with the cost from \<open>Prices\<close> and the pod from \<open>Pods\<close>.
  \<open>Wire\<close> is the form a record has in the ring's memory. Which files are probed at all is the part of \<open>Watch\<close>: the
  kernel's records of execs and of opens of libssl (\<open>Lib_Open\<close>) are queued, and the loop resolves each path
  inside its process's root (\<open>Discovery\<close>) and hands the files to the probes (\<open>Attach\<close>). Which plaintext
  connections are captured follows from \<open>Plain_Start\<close> and \<open>Endpoints\<close>. \<open>Host_Watch\<close> stands apart: opens of
  watched files and exits of processes.

  \<^bold>\<open>Theories and the code they model\<close> (paths under honeybeepf-llm/).
  \<^item> \<open>Prelude\<close>, \<open>Rust_Text\<close>, \<open>Split_Text\<close>, \<open>Rust_Map\<close>, \<open>Btree\<close>: the types every theory uses, Rust's text and map library,
    the lemmas they share, and the locale \<open>incremental\<close>.
  \<^item> honeybeepf-llm-core/src: \<open>Byte_Utils\<close> (byte_utils.rs), \<open>Chunked\<close> (chunked.rs), \<open>Huffman\<close>, \<open>Hpack\<close>,
    \<open>Frame\<close> (h2/), \<open>Json_Value\<close> (types.rs), \<open>Providers\<close> (providers/), \<open>Prices\<close> (pricing/).
  \<^item> honeybeepf-llm-common/src: \<open>Common\<close> (lib.rs), \<open>Ssl_Class\<close> (ssl_class.rs).
  \<^item> honeybeepf-llm-ebpf/src/probes/builtin: \<open>Ssl_Probe\<close> (llm/), \<open>Plain_Capture\<close> (plaintext.rs), \<open>Lib_Open\<close>
    (exec_watch.rs), \<open>Host_Watch\<close> (file_access.rs, process_lifecycle.rs, probe_exec of exec_watch.rs, with the
    agent's handlers of their records).
  \<^item> honeybeepf-llm/src/probes/builtin/llm: \<open>Body_Walk\<close> and \<open>Past_Limit\<close> (http/json_ends.rs, sse_stream.rs),
    \<open>Llm_Body\<close> (http/body.rs), \<open>Sse\<close> (http/sse.rs), \<open>Event_Stream\<close> (http/eventstream.rs), \<open>Encoding\<close>
    (http/encoding.rs), \<open>Http1\<close> (http/h1.rs), \<open>Http2_Raw\<close> (http/h2/mod.rs, registry.rs), \<open>H2_Stream\<close> and
    \<open>H2_Conn\<close> (http/h2/), \<open>Background\<close> (background.rs), \<open>Processor\<close> (processor.rs), \<open>Agent\<close> and \<open>Attach\<close>
    (mod.rs, conn_filter.rs), \<open>Provider_Report\<close> (http/provider_report.rs), \<open>Config_Load\<close>
    (http/registry.rs, with configured_specs of plaintext.rs and parts of settings.rs and telemetry.rs).
  \<^item> honeybeepf-llm/src: \<open>Endpoints\<close> and \<open>Plain_Start\<close> (plaintext.rs), \<open>Metrics\<close> (telemetry.rs), \<open>Pods\<close> (k8s.rs),
    \<open>Discovery\<close> (probes/discovery.rs), \<open>Wire\<close> (probes/mod.rs), \<open>Watch\<close> (run_discovery and notify_probes of lib.rs, the
    queues of probes/mod.rs, on_exec and attach of builtin/llm/mod.rs).

  A struct is a \<open>record\<close> with the code's fields under a prefix, an enum a \<open>datatype\<close>, a function or method a
  definition of its name; methods that change \<open>self\<close> return the new state. Code that reads shared state
  takes it and returns it (\<open>world\<close>, the kernel's maps). Fixed-width integers that can wrap are words; token
  counts are naturals with the code's saturating or checked addition written out.

  \<^bold>\<open>Lemma groups.\<close>
  \<^item> Readers do not depend on where reads are cut: one locale, \<open>incremental\<close>, proved for the body walk, the
    frame reader, the event cursor and the AWS message cursor (\<open>Chunk_Props\<close>, \<open>Frame_Cuts\<close>, \<open>Sse_Props\<close>,
    \<open>Event_Props\<close>), and, for a buffer that grows, \<open>Http1_Props\<close>. \<open>Exchange_Whole\<close> carries it to whole
    exchanges: the processor fed read by read is the specification that parses each prefix afresh.
    \<open>Captured_Call\<close> carries it back to the kernel: the records of one captured read act as the read itself.
  \<^item> Codecs against their standards: \<open>Huffman_Code\<close>, \<open>Hpack_Int\<close>, \<open>Hpack_Refine\<close> (with the locale
    \<open>header_decoder\<close> for what a connection relies on), \<open>Hpack_Table\<close>.
  \<^item> Nothing is lost uncounted: \<open>Ssl_Probe_Props\<close> and \<open>Plain_Props\<close> for the kernel's counters, \<open>Exchange\<close>,
    \<open>Call_Accounting\<close> and \<open>Agent_Props\<close> for calls, \<open>Background\<close> for waiting calls, \<open>Metrics_Props\<close> from the
    ledger to the counters and the cost.
  \<^item> The right files are probed and the right pod is named: \<open>Discovery_Props\<close> (a resolved path is where a process
    chrooted to its root arrives), \<open>Watch_Props\<close> (an invariant of the step relation \<open>watch_step\<close>: nothing waits
    unheard, nothing is tried twice), \<open>Watch_Live\<close> (what starts or opens libssl is reached), \<open>Pods_Props\<close>. \<open>Wire\<close>
    carries the records' bytes from \<open>Ssl_Probe\<close> to \<open>Agent\<close>; \<open>Host_Props\<close> an exit to its cause, for every
    interleaving of threads; \<open>Plain_Start\<close> the passes to the kernel's map.
  \<^item> Memory stays bounded: \<open>Processor_Props\<close>, \<open>H2_Props\<close>, \<open>Frame_Inv\<close>, \<open>Agent_Props\<close>. Prices: \<open>Price_Props\<close>,
    \<open>Price_Range\<close>.
  \<^item> Behaviours that differ from the intent, proved as such: \<open>Frame_Resync\<close> (a cut head survives a resync),
    \<open>H2_Claims\<close> (the mid-join budget wraps), \<open>Endpoints\<close> (a full map loses new endpoints), \<open>Pods_Props\<close> (a
    restarted container outlives its pod), \<open>Host_Props\<close> (bytes left in the ring reach a file's name), \<open>Plain_Start\<close>
    (a failed start leaves its programs attached), \<open>Watch_Live\<close> (a failed attach is final), \<open>Config_Load\<close> (plaintext
    capture reads JSON only).

  \<^bold>\<open>Termination and bounds.\<close> Loops are recursive functions over the bytes left, with their termination proved;
  none runs on fuel. The eviction loop of the HPACK table alone is a \<open>partial_function\<close>, since the code's loop ends
  only by an invariant of the table; \<open>evict_loop_returns\<close> proves that it does. The bounds are the code's constants,
  under their names: resolving a path ends by its limit of 40 links, the attach rounds by their limit of 3.

  \<^bold>\<open>Parameters.\<close> httparse's head parser, serde_json, the decoders of gzip, deflate, brotli and zstd, CRC-32, the kernel's
  helpers (task, clock, what a map or the ring accepts, what ring memory holds before it is written), /proc and the
  file system, symbol tables, DNS and the Kubernetes API, the price table's JSON and calendar, and the floating
  operations on amounts are arguments of the definitions that use them. The claims about amounts instantiate
  the last with the real numbers, so they hold up to the rounding of the machine's.

  \<^bold>\<open>Not modelled.\<close> Deserializing the settings, loading and attaching programs through aya beyond the
  bookkeeping of \<open>Attach\<close> and \<open>Plain_Start\<close>, polling the rings, the retries of the Kubernetes watch, the
  OpenTelemetry exporter with its gauges, log lines, build tooling. They are input and
  output around libraries, with no state of the program's own that the parts above rely on. Handlers run one
  at a time, as under the agent's locks; where the loop and the readers share a queue, \<open>Watch\<close> takes the locked
  sections as its steps.
\<close>

end
